(* ===== verification/Prelude.thy ===== *)
theory Prelude
  imports "HOL-Library.Word"
begin

text \<open>
  What every component shares: the bytes and block types, the Rust result and panic
  shapes, the wrap-around of the machine integers (release profile: \<open>u64\<close>, \<open>usize\<close>
  and \<open>i32\<close> arithmetic wraps, debug assertions are not compiled in), the byte-wise
  XOR of buffers, and the generic lemmas on them.
\<close>

unbundle bit_operations_syntax

named_theorems byte_ops \<open>XOR of bytes and of byte buffers\<close>
named_theorems run_simps \<open>unfolding the panic and result monads\<close>

type_synonym byte = "8 word"
type_synonym bytes = "byte list"

subsection \<open>Panics and results\<close>

text \<open>A Rust computation that either returns or panics.\<close>

datatype 'a run = Ret 'a | Panic

definition run_bind :: "'a run \<Rightarrow> ('a \<Rightarrow> 'b run) \<Rightarrow> 'b run" where
  [run_simps]: "run_bind m f = (case m of Ret x \<Rightarrow> f x | Panic \<Rightarrow> Panic)"

text \<open>\<open>assert_eq!\<close> and friends: the computation panics unless the condition holds.\<close>

definition run_assert :: "bool \<Rightarrow> 'a run \<Rightarrow> 'a run" where
  [run_simps]: "run_assert c m = (if c then m else Panic)"

lemma run_bind_Ret [simp]: "run_bind (Ret x) f = f x"
  by (simp add: run_bind_def)

lemma run_bind_Panic [simp]: "run_bind Panic f = Panic"
  by (simp add: run_bind_def)

lemma run_bind_eq_Ret: "run_bind m f = Ret y \<longleftrightarrow> (\<exists>x. m = Ret x \<and> f x = Ret y)"
  by (cases m) auto

lemma run_assert_eq_Ret [simp]: "run_assert c m = Ret y \<longleftrightarrow> c \<and> m = Ret y"
  by (simp add: run_assert_def)

lemma run_assert_True [simp]: "c \<Longrightarrow> run_assert c m = m"
  by (simp add: run_assert_def)

subsection \<open>Machine integers\<close>

text \<open>\<open>u64\<close> (and \<open>usize\<close>, 64 bits) values are naturals below \<open>2 ^ 64\<close>.\<close>

definition add64 :: "nat \<Rightarrow> nat \<Rightarrow> nat" where
  "add64 a b = (a + b) mod 2 ^ 64"

definition sub64 :: "nat \<Rightarrow> nat \<Rightarrow> nat" where
  "sub64 a b = (a + (2 ^ 64 - b mod 2 ^ 64)) mod 2 ^ 64"

definition mul64 :: "nat \<Rightarrow> nat \<Rightarrow> nat" where
  "mul64 a b = (a * b) mod 2 ^ 64"

lemma add64_id [simp]: "a + b < 2 ^ 64 \<Longrightarrow> add64 a b = a + b"
  by (simp add: add64_def)

lemma mul64_id [simp]: "a * b < 2 ^ 64 \<Longrightarrow> mul64 a b = a * b"
  by (simp add: mul64_def)

lemma sub64_id [simp]: "b \<le> a \<Longrightarrow> a < 2 ^ 64 \<Longrightarrow> sub64 a b = a - b"
proof -
  assume "b \<le> a" "a < 2 ^ 64"
  then have "a + (2 ^ 64 - b mod 2 ^ 64) = (a - b) + 2 ^ 64" by simp
  with \<open>a < 2 ^ 64\<close> show ?thesis by (simp add: sub64_def)
qed

lemma add64_bound: "add64 a b < 2 ^ 64"
  by (simp add: add64_def)

text \<open>\<open>x as i32\<close> of a \<open>u64\<close>, and the wrap-around of \<open>i32\<close> arithmetic.\<close>

definition wrap_i32 :: "int \<Rightarrow> int" where
  "wrap_i32 z = (z + 2 ^ 31) mod 2 ^ 32 - 2 ^ 31"

definition as_i32 :: "nat \<Rightarrow> int" where
  "as_i32 n = wrap_i32 (int n)"

lemma wrap_i32_id [simp]: "- (2 ^ 31) \<le> z \<Longrightarrow> z < 2 ^ 31 \<Longrightarrow> wrap_i32 z = z"
  by (simp add: wrap_i32_def)

lemma as_i32_id [simp]: "n < 2 ^ 31 \<Longrightarrow> as_i32 n = int n"
  by (simp add: as_i32_def)

subsection \<open>XOR of buffers\<close>

text \<open>
  The library's \<open>xor_inplace\<close> (\<open>for (x, y) in a.iter_mut().zip(b)\<close>): the tail of \<open>a\<close>
  beyond \<open>b\<close> is untouched.
\<close>

definition xor_inplace :: "bytes \<Rightarrow> bytes \<Rightarrow> bytes" where
  "xor_inplace a b = map2 (XOR) a b @ drop (length b) a"

lemma length_xor_inplace [simp]: "length (xor_inplace a b) = length a"
  by (simp add: xor_inplace_def)

lemma xor_inplace_nth:
  "i < length a \<Longrightarrow> i < length b \<Longrightarrow> xor_inplace a b ! i = a ! i XOR b ! i"
  by (simp add: xor_inplace_def nth_append)

text \<open>A buffer of zeros, \<open>vec![0u8; n]\<close>.\<close>

definition zeros :: "nat \<Rightarrow> bytes" where
  "zeros n = replicate n 0"

lemma length_zeros [simp]: "length (zeros n) = n"
  by (simp add: zeros_def)

lemma zeros_nth [simp]: "i < n \<Longrightarrow> zeros n ! i = 0"
  by (simp add: zeros_def)

lemma xor_self_word [byte_ops]: "(a::byte) XOR a = 0"
  by simp

lemma xor_cancel_left [byte_ops]: "(a::byte) XOR (a XOR b) = b"
  by (simp add: xor.assoc [symmetric])

lemmas byte_xor_ac [byte_ops] = xor.assoc xor.commute xor.left_commute

lemma xor_eq_0_iff_byte [simp]: "(a::byte) XOR b = 0 \<longleftrightarrow> a = b"
proof
  assume "a XOR b = 0"
  then have "(a XOR b) XOR b = b" by simp
  then show "a = b" by (simp add: xor.assoc)
qed simp

lemma unat_byte_less [simp]: "unat (b::byte) < 256"
  using unsigned_less [of b] by simp

text \<open>Two buffers of one length agree when they agree at every index.\<close>

lemma bytes_eqI:
  "length a = n \<Longrightarrow> length b = n \<Longrightarrow> (\<And>i. i < n \<Longrightarrow> a ! i = b ! i) \<Longrightarrow> (a :: bytes) = b"
  by (simp add: nth_equalityI)

subsection \<open>XOR sums of one stripe column\<close>

definition xor_sum :: "bytes \<Rightarrow> byte" where
  "xor_sum xs = foldr (XOR) xs 0"

lemma xor_sum_Nil [simp]: "xor_sum [] = 0"
  and xor_sum_Cons [simp]: "xor_sum (x # xs) = x XOR xor_sum xs"
  by (simp_all add: xor_sum_def)

lemma xor_sum_append [simp]: "xor_sum (xs @ ys) = xor_sum xs XOR xor_sum ys"
  by (induction xs) (simp_all add: xor.assoc)

text \<open>Take one element (the one with key \<open>k\<close>) out of a sum over an association list.\<close>

lemma xor_sum_extract:
  assumes "distinct (map fst xs)" "(k, v) \<in> set xs"
  shows "xor_sum (map f xs) = f (k, v) XOR xor_sum (map f (filter (\<lambda>(s, _). s \<noteq> k) xs))"
  using assms
proof (induction xs)
  case (Cons x xs)
  show ?case
  proof (cases "fst x = k")
    case True
    with Cons.prems have "x = (k, v)" by (auto simp: rev_image_eqI)
    moreover have "filter (\<lambda>(s, _). s \<noteq> k) xs = xs"
      using Cons.prems True by (auto simp: filter_id_conv rev_image_eqI split_beta)
    ultimately show ?thesis by simp
  next
    case False
    with Cons show ?thesis by (auto simp: split_beta byte_ops)
  qed
qed simp

end
