(* ===== verification/Array_Config.thy ===== *)
theory Array_Config
  imports Text_Util
begin

text \<open>
  The array layout of \<open>src/scrub-rs/src/array/config.rs\<close>: the parser of
  \<open>/proc/nmdstat\<close> and the slot lookups. What the kernel answers (which path is a
  block device, what a path canonicalizes to, what a stat file holds) is an argument.
\<close>

datatype io_kind = NotFound | InvalidData | InvalidInput | UnexpectedEof | OsError nat | OtherError

record array_config =
  data_devs :: "(nat \<times> path) list"
  parity_p :: "path option"
  parity_q :: "path option"
  rdev_offsets :: "path \<rightharpoonup> nat"

definition default_config :: array_config where
  "default_config = \<lparr>data_devs = [], parity_p = None, parity_q = None, rdev_offsets = Map.empty\<rparr>"

definition NMDSTAT_Q_SLOT :: nat where "NMDSTAT_Q_SLOT = 29"

definition STAT_PATHS :: "path list" where
  "STAT_PATHS = [''/proc/nmdstat'', ''/proc/mdstat'']"

subsection \<open>Lookups\<close>

definition raw_offset_for :: "array_config \<Rightarrow> path \<Rightarrow> nat" where
  "raw_offset_for cfg dev = (case rdev_offsets cfg dev of Some off \<Rightarrow> off | None \<Rightarrow> 0)"

definition data_dev :: "array_config \<Rightarrow> nat \<Rightarrow> path option" where
  "data_dev cfg devid = map_of (data_devs cfg) devid"

definition canonical :: "(path \<Rightarrow> path option) \<Rightarrow> path \<Rightarrow> path" where
  "canonical canonicalize p = (case canonicalize p of Some q \<Rightarrow> q | None \<Rightarrow> p)"

definition slot_for_raw_dev :: "(path \<Rightarrow> path option) \<Rightarrow> array_config \<Rightarrow> path \<Rightarrow> nat option" where
  "slot_for_raw_dev canonicalize cfg p =
     map_option fst
       (find (\<lambda>(slot, q). canonical canonicalize q = canonical canonicalize p) (data_devs cfg))"

definition raw_phys :: "array_config \<Rightarrow> nat \<Rightarrow> nat \<Rightarrow> nat option" where
  "raw_phys cfg slot array_phys =
     map_option (\<lambda>dev. add64 array_phys (raw_offset_for cfg dev)) (data_dev cfg slot)"

text \<open>\<open>Path::file_name\<close>: the last component, unless it is \<open>..\<close>.\<close>

definition file_name :: "path \<Rightarrow> string option" where
  "file_name p =
     (let comps = filter (\<lambda>c. c \<noteq> [] \<and> c \<noteq> ''.'') (split_on (CHR ''/'') p)
      in if comps = [] \<or> last comps = ''..'' then None else Some (last comps))"

definition slot_from_array_partition :: "path \<Rightarrow> nat option" where
  "slot_from_array_partition dev =
     (case file_name dev of None \<Rightarrow> None
      | Some name \<Rightarrow>
        (case strip_prefix ''nmd'' name of None \<Rightarrow> None
         | Some rest \<Rightarrow>
           let digits = takeWhile is_digit rest;
               after_digits = drop (length digits) rest
           in if digits = [] then None
              else if \<not> (take 1 after_digits = ''p'') \<or> length after_digits < 2 then None
              else parse_u64 digits))"

subsection \<open>Parsing the stat file\<close>

definition normalize_dev :: "string \<Rightarrow> path" where
  "normalize_dev name = (if take 1 name = ''/'' then name else ''/dev/'' @ name)"

text \<open>\<open>str::lines\<close>: split at newlines; every line is trimmed before use.\<close>

definition stat_values :: "string \<Rightarrow> (string \<times> string) list" where
  "stat_values txt =
     fold (\<lambda>line m. case split_once (CHR ''='') (trim line) of
             None \<Rightarrow> m | Some (k, v) \<Rightarrow> bt_insert k (trim v) m)
       (split_on (CHR 0x0A) txt) []"

definition place_disk :: "nat \<Rightarrow> path \<Rightarrow> nat \<Rightarrow> array_config \<Rightarrow> array_config" where
  "place_disk slot full_path rdev_off_sectors config =
     (let config' = config\<lparr>rdev_offsets :=
            (rdev_offsets config)(full_path \<mapsto> mul64 rdev_off_sectors 512)\<rparr>
      in if slot = 0 then config'\<lparr>parity_p := Some full_path\<rparr>
         else if slot = NMDSTAT_Q_SLOT then config'\<lparr>parity_q := Some full_path\<rparr>
         else config'\<lparr>data_devs := bt_insert slot full_path (data_devs config')\<rparr>)"

definition config_entry ::
  "(path \<Rightarrow> bool) \<Rightarrow> (string \<times> string) list \<Rightarrow> string \<times> string \<Rightarrow> array_config \<Rightarrow> array_config" where
  "config_entry is_block_device vals kv config =
     (case strip_prefix ''rdevName.'' (fst kv) of None \<Rightarrow> config
      | Some slot_str \<Rightarrow>
        (case parse_u64 slot_str of None \<Rightarrow> config
         | Some slot \<Rightarrow>
           if snd kv = [] then config
           else let full_path = normalize_dev (snd kv) in
             if \<not> is_block_device full_path then config
             else let rdev_off_sectors =
                    (case Option.bind (map_of vals (''rdevOffset.'' @ show_nat slot)) parse_u64 of
                       Some n \<Rightarrow> n | None \<Rightarrow> 0)
               in place_disk slot full_path rdev_off_sectors config))"

definition parse_nmdstat :: "(path \<Rightarrow> bool) \<Rightarrow> string \<Rightarrow> array_config" where
  "parse_nmdstat is_block_device txt =
     (let vals = stat_values txt
      in fold (config_entry is_block_device vals) vals default_config)"

text \<open>The stat files that exist, with their contents (\<open>Inl\<close> when the read fails).\<close>

definition load_config ::
  "(path \<Rightarrow> bool) \<Rightarrow> (path \<rightharpoonup> io_kind + string) \<Rightarrow> io_kind + array_config" where
  "load_config is_block_device files =
     (case find (\<lambda>p. files p \<noteq> None) STAT_PATHS of
        None \<Rightarrow> Inl NotFound
      | Some p \<Rightarrow>
        (case the (files p) of
           Inl e \<Rightarrow> Inl e
         | Inr txt \<Rightarrow>
           let config = parse_nmdstat is_block_device txt
           in if parity_p config = None then Inl NotFound else Inr config))"

subsection \<open>The layout a parsed configuration has\<close>

text \<open>
  Data slots are in ascending order and never the two parity slots; every disk is a
  block device and has an offset in whole 512-byte sectors (before wrap-around).
\<close>

definition config_paths :: "array_config \<Rightarrow> path set" where
  "config_paths cfg =
     snd ` set (data_devs cfg) \<union> set_option (parity_p cfg) \<union> set_option (parity_q cfg)"

definition config_ok :: "(path \<Rightarrow> bool) \<Rightarrow> array_config \<Rightarrow> bool" where
  "config_ok is_block_device cfg \<longleftrightarrow>
     bt_ok (data_devs cfg) \<and>
     (\<forall>slot \<in> fst ` set (data_devs cfg). slot \<noteq> 0 \<and> slot \<noteq> NMDSTAT_Q_SLOT \<and> slot < 2 ^ 64) \<and>
     (\<forall>p \<in> config_paths cfg. is_block_device p \<and> p \<in> dom (rdev_offsets cfg)) \<and>
     (\<forall>off \<in> ran (rdev_offsets cfg). off mod 512 = 0 \<and> off < 2 ^ 64)"

lemma mul64_sectors: "mul64 n 512 mod 512 = 0 \<and> mul64 n 512 < 2 ^ 64"
proof -
  have "(n * 512) mod (2 ^ 55 * 512) = 512 * (n mod 2 ^ 55)"
    by (simp add: mult.commute mult_mod_right)
  then show ?thesis by (simp add: mul64_def)
qed

lemma config_ok_default: "config_ok blk default_config"
  by (simp add: config_ok_def default_config_def config_paths_def)

lemma config_okI:
  assumes "config_ok blk cfg" and "blk p"
    and "bt_ok (data_devs cfg')"
    and "\<forall>slot \<in> fst ` set (data_devs cfg'). slot \<noteq> 0 \<and> slot \<noteq> NMDSTAT_Q_SLOT \<and> slot < 2 ^ 64"
    and "config_paths cfg' \<subseteq> insert p (config_paths cfg)"
    and "rdev_offsets cfg' = (rdev_offsets cfg)(p \<mapsto> mul64 n 512)"
  shows "config_ok blk cfg'"
proof -
  have "\<forall>off \<in> ran (rdev_offsets cfg'). off mod 512 = 0 \<and> off < 2 ^ 64"
    using assms(1,6) mul64_sectors [of n] by (auto simp: config_ok_def ran_def split: if_splits)
  moreover have "\<forall>q \<in> config_paths cfg'. blk q \<and> q \<in> dom (rdev_offsets cfg')"
    using assms by (auto simp: config_ok_def)
  ultimately show ?thesis using assms(3,4) by (simp add: config_ok_def)
qed

lemma place_disk_ok:
  assumes ok: "config_ok blk cfg" and "blk p" "slot < 2 ^ 64"
  shows "config_ok blk (place_disk slot p n cfg)"
proof (rule config_okI [OF ok \<open>blk p\<close>])
  have "snd ` set (bt_insert slot p (data_devs cfg)) \<subseteq> insert p (snd ` set (data_devs cfg))"
    using set_bt_insert [of slot p "data_devs cfg"] by force
  then show "config_paths (place_disk slot p n cfg) \<subseteq> insert p (config_paths cfg)"
    unfolding place_disk_def config_paths_def Let_def by (auto; blast)
qed (use ok \<open>slot < 2 ^ 64\<close> in
  \<open>auto simp: place_disk_def Let_def config_ok_def bt_ok_insert
     dest!: subsetD [OF set_bt_insert]\<close>)

lemma config_entry_ok: "config_ok blk cfg \<Longrightarrow> config_ok blk (config_entry blk vals kv cfg)"
  unfolding config_entry_def Let_def
  by (auto split: option.split intro!: place_disk_ok dest: parse_u64_bound)

lemma parse_nmdstat_ok: "config_ok blk (parse_nmdstat blk txt)"
proof -
  have "config_ok blk (fold (config_entry blk vals) kvs cfg)" if "config_ok blk cfg" for vals kvs cfg
    using that by (induction kvs arbitrary: cfg) (simp_all add: config_entry_ok)
  then show ?thesis by (simp add: parse_nmdstat_def Let_def config_ok_default)
qed

lemma load_config_ok:
  "load_config blk files = Inr cfg \<Longrightarrow> config_ok blk cfg \<and> parity_p cfg \<noteq> None"
  by (auto simp: load_config_def Let_def parse_nmdstat_ok split: option.splits sum.splits if_splits)

subsection \<open>Partition names\<close>

lemma split_on_no_sep: "c \<notin> set l \<Longrightarrow> split_on c l = [l]"
  by (induction l) auto

lemma is_digit_char: "is_digit c \<Longrightarrow> c \<noteq> CHR ''/'' \<and> c \<noteq> CHR ''p''"
  by (auto simp: is_digit_def)

lemma show_nat_char: "c \<in> set (show_nat n) \<Longrightarrow> is_digit c"
  using show_nat_digits [of n] by (simp add: list_all_iff)

lemma takeWhile_digits: "takeWhile is_digit (show_nat n @ CHR ''p'' # r) = show_nat n"
  using show_nat_char by (subst takeWhile_append2) (auto simp: is_digit_def)

lemma takeWhile_all_digits: "takeWhile is_digit (show_nat n) = show_nat n"
  using show_nat_char by (simp add: takeWhile_eq_all_conv)

lemma file_name_dev:
  assumes "CHR ''/'' \<notin> set name" "name \<noteq> []" "name \<noteq> ''.''" "name \<noteq> ''..''"
  shows "file_name (''/dev/'' @ name) = Some name"
  using assms by (simp add: file_name_def split_on_no_sep)

text \<open>array partition names: the slot in a name \<open>/dev/nmd<N>p<K>\<close> is parsed back to \<open>N\<close>, and a
  name without the partition suffix is no array partition.\<close>

lemma slot_from_partition_roundtrip:
  assumes "n < 2 ^ 64"
  shows "slot_from_array_partition (''/dev/nmd'' @ show_nat n @ ''p'' @ show_nat k) = Some n \<and>
    slot_from_array_partition (''/dev/nmd'' @ show_nat n) = None"
proof -
  have sl: "CHR ''/'' \<notin> set (show_nat m)" for m
    by (auto dest!: show_nat_char simp: is_digit_def)
  have "file_name (''/dev/'' @ (''nmd'' @ show_nat n @ ''p'' @ show_nat k)) = Some (''nmd'' @ show_nat n @ ''p'' @ show_nat k)"
    by (rule file_name_dev) (simp_all add: sl)
  moreover have "file_name (''/dev/'' @ (''nmd'' @ show_nat n)) = Some (''nmd'' @ show_nat n)"
    by (rule file_name_dev) (simp_all add: sl)
  moreover have "strip_prefix ''nmd'' (''nmd'' @ r) = Some r" for r by (rule strip_prefix_append)
  moreover have "show_nat k \<noteq> []" by simp
  then have "2 \<le> length (''p'' @ show_nat k)" by (cases "show_nat k") auto
  ultimately show ?thesis
    using assms takeWhile_digits [of n "show_nat k"]
    by (simp add: slot_from_array_partition_def Let_def parse_show_nat takeWhile_all_digits)
qed

lemma slot_from_partition_roundtrip_witness: "slot_from_array_partition ''/dev/nmd12p1'' = Some 12"
proof -
  have "show_nat 12 = ''12''" "show_nat 1 = ''1''" by code_simp+
  with slot_from_partition_roundtrip [of 12 1] show ?thesis by simp
qed

text \<open>C16: a loaded array layout is well formed: data slots ascend and are neither the P slot 0 nor the Q
  slot 29, every disk is a block device with an rdev offset that is a whole number of 512-byte
  sectors, and a primary parity disk is present.\<close>

theorem load_config_layout:
  assumes "load_config blk files = Inr cfg"
  shows "config_ok blk cfg \<and> parity_p cfg \<noteq> None"
  using load_config_ok [OF assms] .

theorem load_config_layout_witness:
  "\<exists>cfg. load_config (\<lambda>_. True) [''/proc/mdstat'' \<mapsto> Inr ''rdevName.0=sdb'']
     = Inr cfg \<and> parity_p cfg = Some ''/dev/sdb'' \<and> config_ok (\<lambda>_. True) cfg"
proof -
  obtain cfg where c: "load_config (\<lambda>_. True) [''/proc/mdstat'' \<mapsto> Inr ''rdevName.0=sdb''] = Inr cfg"
      "parity_p cfg = Some ''/dev/sdb''"
    by (simp add: load_config_def STAT_PATHS_def parse_nmdstat_def stat_values_def trim_def is_space_def
        config_entry_def strip_prefix_def parse_u64_def is_digit_def digits_val_def digit_val_def
        normalize_dev_def place_disk_def default_config_def Let_def)
  with load_config_layout [OF c(1)] show ?thesis by blast
qed

end
