(* ===== verification/Gf.thy ===== *)
theory Gf
  imports Prelude
begin

text \<open>
  The field arithmetic of \<open>src/scrub-rs/src/recovery/gf.rs\<close>: the scalar multiplication
  and power loops, the constant tables and the lookups, and the proof that they
  form the field of 256 elements with generator 2.
\<close>

named_theorems gf_laws \<open>algebra of the field multiplication\<close>

subsection \<open>The scalar loops and the tables\<close>

text \<open>Multiply by x: shift left, reduce by \<open>0x1d\<close> when the high bit escapes.\<close>

definition gf_double :: "byte \<Rightarrow> byte" where
  "gf_double a = push_bit 1 a XOR (if a AND 0x80 \<noteq> 0 then 0x1d else 0)"

lemma unat_drop_bit_less: "(b::byte) \<noteq> 0 \<Longrightarrow> unat (drop_bit 1 b) < unat b"
proof -
  assume "b \<noteq> 0"
  then have "0 < unat b" by (simp add: unat_gt_0)
  moreover have "unat (drop_bit 1 b) = unat b div 2"
    unfolding unat_drop_bit_eq by (simp add: drop_bit_eq_div)
  ultimately show ?thesis by simp
qed

function gf_mul_loop :: "byte \<Rightarrow> byte \<Rightarrow> byte \<Rightarrow> byte" where
  "gf_mul_loop a b v =
     (if b = 0 then v
      else gf_mul_loop (gf_double a) (drop_bit 1 b) (if b AND 1 \<noteq> 0 then v XOR a else v))"
  by pat_completeness auto
termination
  by (relation "measure (\<lambda>(a, b, v). unat b)") (use unat_drop_bit_less in simp_all)

declare gf_mul_loop.simps [simp del]

definition gf_mul_scalar :: "byte \<Rightarrow> byte \<Rightarrow> byte" where
  "gf_mul_scalar a b = gf_mul_loop a b 0"

definition build_gfmul :: "byte list list" where
  "build_gfmul = map (\<lambda>a. map (\<lambda>b. gf_mul_scalar (of_nat a) (of_nat b)) [0..<256]) [0..<256]"

function gfexp_loop :: "nat \<Rightarrow> byte \<Rightarrow> bytes \<Rightarrow> bytes" where
  "gfexp_loop i v t = (if i < 255 then gfexp_loop (i + 1) (gf_double v) (t[i := v]) else t)"
  by pat_completeness auto
termination
  by (relation "measure (\<lambda>(i, v, t). 255 - i)") auto

declare gfexp_loop.simps [simp del]

definition build_gfexp :: bytes where
  "build_gfexp = (gfexp_loop 0 1 (zeros 256))[255 := 0]"

function gf_pow_loop :: "(byte \<Rightarrow> byte \<Rightarrow> byte) \<Rightarrow> nat \<Rightarrow> byte \<Rightarrow> byte \<Rightarrow> byte" where
  "gf_pow_loop mul p a v =
     (if p = 0 then v
      else gf_pow_loop mul (p div 2) (mul a a) (if p mod 2 \<noteq> 0 then mul v a else v))"
  by pat_completeness auto
termination
  by (relation "measure (\<lambda>(mul, p, a, v). p)") auto

declare gf_pow_loop.simps [simp del]

definition gf_pow_const :: "byte \<Rightarrow> nat \<Rightarrow> byte" where
  "gf_pow_const x p = gf_pow_loop gf_mul_scalar p x 1"

definition build_gfinv :: bytes where
  "build_gfinv = map (\<lambda>i. if i = 0 then 0 else gf_pow_const (of_nat i) 254) [0..<256]"

definition build_gfexi :: bytes where
  "build_gfexi = map (\<lambda>i. build_gfinv ! unat (build_gfexp ! i XOR 1)) [0..<256]"

text \<open>The statics \<open>GFMUL\<close>, \<open>GFEXP\<close>, \<open>GFINV\<close>, \<open>GFEXI\<close>.\<close>

definition GFMUL :: "byte list list" where "GFMUL = build_gfmul"
definition GFEXP :: bytes where "GFEXP = build_gfexp"
definition GFINV :: bytes where "GFINV = build_gfinv"
definition GFEXI :: bytes where "GFEXI = build_gfexi"

text \<open>The public functions; the \<open>i32\<close> argument of \<open>gf_exp\<close> and \<open>gf_pow\<close> is an integer.\<close>

definition gf_mul :: "byte \<Rightarrow> byte \<Rightarrow> byte" where
  "gf_mul a b = GFMUL ! unat a ! unat b"

definition gf_exp :: "int \<Rightarrow> byte" where
  "gf_exp e = GFEXP ! nat (e mod 255)"

text \<open>\<open>p %= 255; if p < 0 { p += 255 }\<close>, with Rust's remainder truncating towards zero.\<close>

definition gf_pow :: "byte \<Rightarrow> int \<Rightarrow> byte" where
  "gf_pow x p =
     (let r = sgn p * (\<bar>p\<bar> mod 255);
          q = (if r < 0 then r + 255 else r)
      in gf_pow_loop gf_mul (nat q) x 1)"

definition gf_inv :: "byte \<Rightarrow> byte" where
  "gf_inv x = (if x = 0 then 0 else gf_pow x 254)"

subsection \<open>Multiplication is bilinear\<close>

lemma bit_AND_one: "(b::byte) AND 1 \<noteq> 0 \<longleftrightarrow> bit b 0"
  by (simp add: and_one_eq odd_iff_mod_2_eq_one bit_0 flip: odd_iff_mod_2_eq_one)

lemma bit_AND_80: "(a::byte) AND 0x80 \<noteq> 0 \<longleftrightarrow> bit a 7"
proof -
  have "(0x80::byte) = push_bit 7 1" by simp
  then show ?thesis
    by (metis and_exp_eq_0_iff_not_bit push_bit_eq_mult mult_1 push_bit_of_1)
qed

lemma gf_double_xor: "gf_double (a XOR b) = gf_double a XOR gf_double b"
  by (simp add: gf_double_def bit_AND_80 bit_xor_iff push_bit_xor byte_ops)

lemma gf_double_0 [simp]: "gf_double 0 = 0"
  by (simp add: gf_double_def)

primrec gmul_n :: "nat \<Rightarrow> byte \<Rightarrow> byte \<Rightarrow> byte" where
  "gmul_n 0 a b = 0"
| "gmul_n (Suc n) a b = (if bit b 0 then a else 0) XOR gmul_n n (gf_double a) (drop_bit 1 b)"

lemma gmul_n_zero [simp]: "gmul_n n a 0 = 0"
  by (induction n arbitrary: a) auto

lemma gf_mul_loop_gmul_n:
  "drop_bit n b = 0 \<Longrightarrow> gf_mul_loop a b v = v XOR gmul_n n a b"
proof (induction n arbitrary: a b v)
  case 0
  then show ?case by (simp add: gf_mul_loop.simps)
next
  case (Suc n)
  show ?case
  proof (cases "b = 0")
    case True
    then show ?thesis by (simp add: gf_mul_loop.simps)
  next
    case False
    have "drop_bit n (drop_bit 1 b) = 0" using Suc.prems by simp
    from Suc.IH [OF this] False show ?thesis
      by (simp add: gf_mul_loop.simps [of a b v] bit_AND_one byte_ops)
  qed
qed

lemma gf_mul_scalar_gmul: "gf_mul_scalar a b = gmul_n 8 a b"
proof -
  have "drop_bit 8 b = 0" by (rule bit_word_eqI) (simp add: bit_drop_bit_eq)
  from gf_mul_loop_gmul_n [OF this, of a 0] show ?thesis by (simp add: gf_mul_scalar_def)
qed

lemma gmul_n_xor_left: "gmul_n n (a XOR a') b = gmul_n n a b XOR gmul_n n a' b"
  by (induction n arbitrary: a a' b) (auto simp: gf_double_xor byte_ops)

lemma gmul_n_xor_right: "gmul_n n a (b XOR b') = gmul_n n a b XOR gmul_n n a b'"
  by (induction n arbitrary: a b b') (auto simp: bit_xor_iff byte_ops)

lemma gmul_n_double_left: "gmul_n n (gf_double a) b = gf_double (gmul_n n a b)"
  by (induction n arbitrary: a b) (auto simp: gf_double_xor)

lemma byte_xor_induct [case_names zero basis xor]:
  fixes x :: byte
  assumes zero: "P 0" and basis: "\<And>i. i < 8 \<Longrightarrow> P (2 ^ i)"
    and xor: "\<And>a b. P a \<Longrightarrow> P b \<Longrightarrow> P (a XOR b)"
  shows "P x"
proof -
  have "n \<le> 8 \<Longrightarrow> P (take_bit n x)" for n
  proof (induction n)
    case 0
    then show ?case using zero by simp
  next
    case (Suc n)
    have "take_bit (Suc n) x = take_bit n x XOR (if bit x n then 2 ^ n else 0)"
      by (rule bit_word_eqI)
        (auto simp: bit_take_bit_iff bit_xor_iff bit_exp_iff less_Suc_eq)
    with Suc zero basis xor show ?case by (cases "bit x n") simp_all
  qed
  moreover have "take_bit 8 x = x" by (rule take_bit_word_eq_self) simp
  ultimately show ?thesis by (metis order_refl)
qed

lemma gf_mul_scalar_zero_right [simp]: "gf_mul_scalar a 0 = 0"
  and gf_mul_scalar_xor_left: "gf_mul_scalar (a XOR a') b = gf_mul_scalar a b XOR gf_mul_scalar a' b"
  and gf_mul_scalar_xor_right: "gf_mul_scalar a (b XOR b') = gf_mul_scalar a b XOR gf_mul_scalar a b'"
  and gf_mul_scalar_double_left: "gf_mul_scalar (gf_double a) b = gf_double (gf_mul_scalar a b)"
  by (simp_all only: gf_mul_scalar_gmul gmul_n_zero gmul_n_xor_left gmul_n_xor_right
      gmul_n_double_left)

lemma gf_mul_scalar_zero_left [simp]: "gf_mul_scalar 0 b = 0"
  using gf_mul_scalar_xor_left [of 0 0 b] by simp

subsection \<open>Multiplication is commutative and associative\<close>

lemma less_8_cases: "(i::nat) < 8 \<Longrightarrow> i = 0 \<or> i = 1 \<or> i = 2 \<or> i = 3 \<or> i = 4 \<or> i = 5 \<or> i = 6 \<or> i = 7"
  by arith

lemma gf_mul_scalar_basis: "i < 8 \<Longrightarrow> gf_mul_scalar a (2 ^ i) = (gf_double ^^ i) a"
proof -
  assume "i < 8"
  have "gmul_n n b (2 ^ j) = (gf_double ^^ j) b" if "j < n" "n \<le> 8" for n j b
    using that
  proof (induction n arbitrary: j b)
    case (Suc n)
    show ?case
    proof (cases j)
      case (Suc k)
      have "drop_bit 1 (2 ^ j :: byte) = 2 ^ k"
        using Suc \<open>j < Suc n\<close> \<open>Suc n \<le> 8\<close>
        by (intro bit_word_eqI) (auto simp: bit_drop_bit_eq bit_exp_iff simp del: power_Suc)
      with Suc Suc.IH [of k "gf_double b"] Suc.prems show ?thesis
        by (simp add: bit_exp_iff funpow_swap1 del: power_Suc)
    qed (simp add: bit_1_iff)
  qed simp
  from this [of i 8 a] \<open>i < 8\<close> show ?thesis by (simp add: gf_mul_scalar_gmul)
qed

lemma gf_double_funpow_one: "i < 8 \<Longrightarrow> (gf_double ^^ i) 1 = 2 ^ i"
  by (drule less_8_cases) (elim disjE; simp add: gf_double_def numeral_eq_Suc)

lemma gf_mul_scalar_funpow_left:
  "gf_mul_scalar ((gf_double ^^ i) a) b = (gf_double ^^ i) (gf_mul_scalar a b)"
  by (induction i) (simp_all add: gf_mul_scalar_double_left)

lemma gf_mul_scalar_one_left: "gf_mul_scalar 1 b = b"
proof (induction b rule: byte_xor_induct)
  case (basis i)
  then show ?case by (simp add: gf_mul_scalar_basis gf_double_funpow_one)
qed (simp_all add: gf_mul_scalar_xor_right)

lemma gf_mul_scalar_commute: "gf_mul_scalar a b = gf_mul_scalar b a"
proof (induction a rule: byte_xor_induct)
  case (basis i)
  then show ?case
    using gf_mul_scalar_funpow_left [of i 1 b]
    by (simp add: gf_mul_scalar_basis gf_mul_scalar_one_left gf_double_funpow_one)
qed (simp_all add: gf_mul_scalar_xor_left gf_mul_scalar_xor_right)

lemma gf_mul_scalar_funpow_right:
  "gf_mul_scalar a ((gf_double ^^ i) b) = (gf_double ^^ i) (gf_mul_scalar a b)"
  by (metis gf_mul_scalar_commute gf_mul_scalar_funpow_left)

lemma gf_mul_scalar_assoc:
  "gf_mul_scalar (gf_mul_scalar a b) c = gf_mul_scalar a (gf_mul_scalar b c)"
proof (induction c rule: byte_xor_induct)
  case (basis i)
  then show ?case by (simp add: gf_mul_scalar_basis gf_mul_scalar_funpow_right)
qed (simp_all add: gf_mul_scalar_xor_right)

subsection \<open>The table lookup is the scalar product\<close>

lemma gf_mul_eq: "gf_mul a b = gf_mul_scalar a b"
  by (simp add: gf_mul_def GFMUL_def build_gfmul_def)

lemma GFMUL_lookup: "GFMUL ! unat a ! unat b = gf_mul a b"
  by (simp add: gf_mul_def)

lemma gf_mul_zero [simp, gf_laws]: "gf_mul a 0 = 0" "gf_mul 0 a = 0"
  and gf_mul_one [simp, gf_laws]: "gf_mul 1 a = a" "gf_mul a 1 = a"
  and gf_mul_xor_left [gf_laws]: "gf_mul (a XOR b) c = gf_mul a c XOR gf_mul b c"
  and gf_mul_xor_right [gf_laws]: "gf_mul a (b XOR c) = gf_mul a b XOR gf_mul a c"
  by (simp_all add: gf_mul_eq gf_mul_scalar_xor_left gf_mul_scalar_xor_right
      gf_mul_scalar_one_left gf_mul_scalar_commute [of a 1])

lemma gf_mul_commute: "gf_mul a b = gf_mul b a"
  by (simp add: gf_mul_eq gf_mul_scalar_commute)

lemma gf_mul_assoc: "gf_mul (gf_mul a b) c = gf_mul a (gf_mul b c)"
  by (simp add: gf_mul_eq gf_mul_scalar_assoc)

lemma gf_mul_left_commute: "gf_mul a (gf_mul b c) = gf_mul b (gf_mul a c)"
  by (metis gf_mul_assoc gf_mul_commute)

lemma gf_double_eq: "gf_double a = gf_mul 2 a"
proof -
  have "gf_double a = gf_mul_scalar a (2 ^ 1)" by (subst gf_mul_scalar_basis) simp_all
  then show ?thesis by (simp add: gf_mul_eq gf_mul_scalar_commute)
qed

subsection \<open>Powers\<close>

primrec gpow :: "byte \<Rightarrow> nat \<Rightarrow> byte" where
  "gpow x 0 = 1"
| "gpow x (Suc n) = gf_mul x (gpow x n)"

lemma gpow_add: "gpow x (m + n) = gf_mul (gpow x m) (gpow x n)"
  by (induction m) (simp_all add: gf_mul_assoc)

lemma gpow_mult_distrib: "gpow (gf_mul x y) n = gf_mul (gpow x n) (gpow y n)"
  by (induction n) (simp_all add: gf_mul_assoc gf_mul_left_commute)

lemma gpow_mult: "gpow x (m * n) = gpow (gpow x m) n"
  by (induction n) (simp_all add: gpow_add gpow_mult_distrib)

lemma gpow_one [simp]: "gpow 1 n = 1"
  by (induction n) simp_all

lemma gf_pow_loop_gpow: "gf_pow_loop gf_mul p a v = gf_mul v (gpow a p)"
proof (induction p arbitrary: a v rule: less_induct)
  case (less p)
  show ?case
  proof (cases "p = 0")
    case False
    have "gpow a p = gpow a (p mod 2 + 2 * (p div 2))" by simp
    also have "\<dots> = gf_mul (gpow a (p mod 2)) (gpow (gpow a 2) (p div 2))"
      by (simp only: gpow_add gpow_mult)
    also have "gpow a 2 = gf_mul a a" by (simp add: numeral_2_eq_2)
    finally have "gpow a p = gf_mul (gpow a (p mod 2)) (gpow (gf_mul a a) (p div 2))" .
    with False less [of "p div 2"] show ?thesis
      by (subst gf_pow_loop.simps) (cases "p mod 2 = 0"; simp add: gf_mul_assoc)
  qed (simp add: gf_pow_loop.simps)
qed

lemma gf_mul_scalar_eq: "gf_mul_scalar = gf_mul"
  by (simp add: fun_eq_iff gf_mul_eq)

lemma gf_pow_const_gpow: "gf_pow_const x p = gpow x p"
  by (simp add: gf_pow_const_def gf_mul_scalar_eq gf_pow_loop_gpow)

subsection \<open>The generator has order 255\<close>

lemmas gf_eval = gf_pow_const_def gf_pow_loop.simps gf_mul_scalar_def gf_mul_loop.simps
  gf_double_def

lemma gpow_2_255: "gpow 2 255 = 1"
proof -
  have "gf_pow_const 2 255 = 1" by (simp add: gf_eval)
  then show ?thesis by (simp add: gf_pow_const_gpow)
qed

lemma gpow_2_cofactors: "gpow 2 85 \<noteq> 1" "gpow 2 51 \<noteq> 1" "gpow 2 15 \<noteq> 1"
proof -
  have "gf_pow_const 2 85 \<noteq> 1" "gf_pow_const 2 51 \<noteq> 1" "gf_pow_const 2 15 \<noteq> 1"
    by (simp_all add: gf_eval)
  then show "gpow 2 85 \<noteq> 1" "gpow 2 51 \<noteq> 1" "gpow 2 15 \<noteq> 1"
    by (simp_all add: gf_pow_const_gpow)
qed

lemma gpow_dvd: "gpow x d = 1 \<Longrightarrow> d dvd n \<Longrightarrow> gpow x n = 1"
  by (auto simp: gpow_mult elim!: dvdE)

lemma gpow_gcd: "gpow x m = 1 \<Longrightarrow> gpow x n = 1 \<Longrightarrow> m \<noteq> 0 \<Longrightarrow> gpow x (gcd m n) = 1"
proof -
  assume m: "gpow x m = 1" and n: "gpow x n = 1" and "m \<noteq> 0"
  then obtain i j where "m * i = n * j + gcd m n" using bezout_nat by blast
  then have "gpow x (n * j + gcd m n) = 1" using m by (metis gpow_mult gpow_one)
  then show ?thesis using n by (simp add: gpow_add gpow_mult)
qed

lemma proper_divisor_255:
  assumes "d dvd 255" "d \<noteq> 255"
  shows "d dvd 85 \<or> d dvd 51 \<or> d dvd (15::nat)"
proof -
  have "list_all (\<lambda>d::nat. d dvd 255 \<longrightarrow> d \<noteq> 255 \<longrightarrow> d dvd 85 \<or> d dvd 51 \<or> d dvd 15) [0..<256]"
    by code_simp
  moreover have "d < 256" using assms(1) dvd_imp_le [of d 255] by simp
  ultimately show ?thesis using assms by (simp add: list_all_iff)
qed

lemma gpow_2_order: "gpow 2 d = 1 \<Longrightarrow> 255 dvd d"
proof (rule ccontr)
  assume d: "gpow 2 d = 1" and "\<not> 255 dvd d"
  then have "gcd 255 d \<noteq> 255" by (metis gcd_dvd2)
  moreover have "gcd 255 d dvd 255" by simp
  ultimately have "gcd 255 d dvd 85 \<or> gcd 255 d dvd 51 \<or> gcd 255 d dvd 15"
    by (rule proper_divisor_255 [rotated])
  moreover have "gpow 2 (gcd 255 d) = 1" using gpow_gcd [OF gpow_2_255 d] by simp
  ultimately show False using gpow_2_cofactors gpow_dvd by blast
qed

lemma gpow_2_mult_255: "gpow 2 (255 * i) = 1"
  by (simp add: gpow_mult gpow_2_255)

lemma gpow_zero: "n \<noteq> 0 \<Longrightarrow> gpow 0 n = 0"
  by (cases n) simp_all

lemma gpow_2_nonzero: "gpow 2 i \<noteq> 0"
  using gpow_2_mult_255 [of i] gpow_mult [of 2 i 255] gpow_zero [of 255]
  by (auto simp: mult.commute)

lemma gpow_2_eq_iff: "i \<le> j \<Longrightarrow> gpow 2 i = gpow 2 j \<longleftrightarrow> 255 dvd (j - i)"
proof
  assume "i \<le> j" and eq: "gpow 2 i = gpow 2 j"
  have inv: "gf_mul (gpow 2 (254 * i)) (gpow 2 i) = 1"
    using gpow_2_mult_255 [of i] by (simp flip: gpow_add)
  have "gpow 2 j = gf_mul (gpow 2 i) (gpow 2 (j - i))" using \<open>i \<le> j\<close> by (simp flip: gpow_add)
  then have "gf_mul (gpow 2 (254 * i)) (gpow 2 j) = gpow 2 (j - i)"
    using inv by (simp add: gf_mul_assoc [symmetric])
  with eq inv have "gpow 2 (j - i) = 1" by simp
  then show "255 dvd (j - i)" by (rule gpow_2_order)
next
  assume "i \<le> j" "255 dvd (j - i)"
  then have "gpow 2 (j - i) = 1" using gpow_dvd gpow_2_255 by blast
  with \<open>i \<le> j\<close> show "gpow 2 i = gpow 2 j"
    using gpow_add [of 2 i "j - i"] by simp
qed

lemma inj_gpow_2: "inj_on (gpow 2) {..<255}"
proof (rule linorder_inj_onI)
  fix i j :: nat
  assume "i < j" "i \<in> {..<255}" "j \<in> {..<255}"
  then show "gpow 2 i \<noteq> gpow 2 j"
    using gpow_2_eq_iff [of i j] nat_dvd_not_less [of "j - i" 255] by auto
qed auto

lemma byte_is_power: "x \<noteq> 0 \<Longrightarrow> \<exists>i < 255. x = gpow 2 i"
proof -
  assume "x \<noteq> 0"
  have "card (UNIV - {0 :: byte}) = 255" by (simp add: card_Diff_subset card_word)
  moreover have "card (gpow 2 ` {..<255}) = 255" by (simp add: card_image inj_gpow_2)
  moreover have "gpow 2 ` {..<255} \<subseteq> UNIV - {0}" using gpow_2_nonzero by auto
  ultimately have "gpow 2 ` {..<255} = UNIV - {0 :: byte}" by (intro card_subset_eq) auto
  with \<open>x \<noteq> 0\<close> show ?thesis by (auto simp: image_iff set_eq_iff)
qed

lemma gpow_255: "x \<noteq> 0 \<Longrightarrow> gpow x 255 = 1"
  using byte_is_power [of x] by (metis gpow_2_255 gpow_mult gpow_one mult.commute)

subsection \<open>The tables\<close>

lemma length_gfexp_loop [simp]: "length (gfexp_loop i v t) = length t"
  by (induction i v t rule: gfexp_loop.induct) (subst gfexp_loop.simps, simp)

lemma gfexp_loop_nth:
  "length t = 256 \<Longrightarrow> k < 255 \<Longrightarrow>
   gfexp_loop i v t ! k = (if i \<le> k then gf_mul (gpow 2 (k - i)) v else t ! k)"
proof (induction i v t rule: gfexp_loop.induct)
  case (1 i v t)
  show ?case
  proof (cases "i < 255")
    case True
    with 1 have IH: "gfexp_loop (i + 1) (gf_double v) (t[i := v]) ! k =
        (if i + 1 \<le> k then gf_mul (gpow 2 (k - (i + 1))) (gf_double v) else t[i := v] ! k)"
      by simp
    have "gf_mul (gpow 2 (k - i)) v = gf_mul (gpow 2 (k - (i + 1))) (gf_double v)" if "i < k"
    proof -
      have "k - i = Suc (k - (i + 1))" using that by simp
      then show ?thesis
        by (simp add: gf_double_eq gf_mul_assoc gf_mul_left_commute)
    qed
    with IH True 1(2) show ?thesis by (subst gfexp_loop.simps) (auto simp: nth_list_update)
  next
    case False
    with 1(3) show ?thesis by (subst gfexp_loop.simps) simp
  qed
qed

lemma GFEXP_nth: "k < 255 \<Longrightarrow> GFEXP ! k = gpow 2 k"
  by (simp add: GFEXP_def build_gfexp_def gfexp_loop_nth)

lemma length_GFEXP [simp]: "length GFEXP = 256"
  by (simp add: GFEXP_def build_gfexp_def)

lemma gf_exp_gpow: "gf_exp e = gpow 2 (nat (e mod 255))"
  by (simp add: gf_exp_def GFEXP_nth nat_less_iff)

lemma gf_exp_of_nat: "gf_exp (int n) = gpow 2 n"
proof -
  have "gpow 2 n = gpow 2 (n mod 255 + 255 * (n div 255))" by simp
  also have "\<dots> = gpow 2 (n mod 255)"
    by (simp only: gpow_add gpow_2_mult_255 gf_mul_one)
  finally have "gpow 2 n = gpow 2 (n mod 255)" .
  then show ?thesis by (simp add: gf_exp_gpow nat_mod_distrib)
qed

lemma gf_exp_mod: "gf_exp e = gf_exp (e mod 255)"
  by (simp add: gf_exp_def)

lemma gf_exp_add: "gf_mul (gf_exp a) (gf_exp b) = gf_exp (a + b)"
proof -
  have "gf_mul (gf_exp a) (gf_exp b) = gpow 2 (nat (a mod 255) + nat (b mod 255))"
    by (simp add: gf_exp_gpow gpow_add)
  also have "\<dots> = gf_exp (a mod 255 + b mod 255)"
    using gf_exp_of_nat [of "nat (a mod 255) + nat (b mod 255)"] by simp
  also have "\<dots> = gf_exp (a + b)"
    by (metis gf_exp_mod mod_add_eq)
  finally show ?thesis .
qed

lemma gf_exp_0 [simp]: "gf_exp 0 = 1"
  by (simp add: gf_exp_gpow)

lemma gf_exp_eq_iff: "gf_exp a = gf_exp b \<longleftrightarrow> a mod 255 = b mod 255"
proof -
  have "nat (a mod 255) \<in> {..<255}" "nat (b mod 255) \<in> {..<255}" by (simp_all add: nat_less_iff)
  with inj_gpow_2 have "gf_exp a = gf_exp b \<longleftrightarrow> nat (a mod 255) = nat (b mod 255)"
    unfolding gf_exp_gpow by (auto dest: inj_onD)
  then show ?thesis by (simp add: eq_nat_nat_iff)
qed

lemma gf_inv_gpow: "x \<noteq> 0 \<Longrightarrow> gf_inv x = gpow x 254"
  by (simp add: gf_inv_def gf_pow_def gf_pow_loop_gpow)

lemma gf_mul_inv: "x \<noteq> 0 \<Longrightarrow> gf_mul x (gf_inv x) = 1"
  using gpow_255 [of x] gpow_add [of x 1 254] by (simp add: gf_inv_gpow)

lemma GFINV_nth: "GFINV ! unat x = gf_inv x"
  by (simp add: GFINV_def build_gfinv_def gf_pow_const_gpow gf_inv_gpow unat_eq_zero)
    (simp add: gf_inv_def)

lemma GFEXI_nth: "k < 255 \<Longrightarrow> GFEXI ! k = gf_inv (gf_exp (int k) XOR 1)"
  using GFINV_nth [of "GFEXP ! k XOR 1"]
  by (simp add: GFEXI_def build_gfexi_def GFINV_def GFEXP_def [symmetric] GFEXP_nth gf_exp_of_nat)

subsection \<open>The interface the parity code relies on\<close>

text \<open>
  What the recovery engine needs of the field: one law per use in the reconstruction
  formulas. The erasure lemmas are proved here once, from the laws alone.
\<close>

locale parity_field =
  fixes mul :: "byte \<Rightarrow> byte \<Rightarrow> byte"
    and gen :: "int \<Rightarrow> byte"
    and inv :: "byte \<Rightarrow> byte"
  assumes mul_comm: "mul a b = mul b a"
    and mul_ass: "mul (mul a b) c = mul a (mul b c)"
    and mul_unit: "mul 1 a = a"
    and mul_distrib: "mul a (b XOR c) = mul a b XOR mul a c"
    and mul_inverse: "a \<noteq> 0 \<Longrightarrow> mul a (inv a) = 1"
    and gen_plus: "mul (gen i) (gen j) = gen (i + j)"
    and gen_zero: "gen 0 = 1"
    and gen_cong: "gen i = gen j \<longleftrightarrow> i mod 255 = j mod 255"
begin

lemma mul_left_comm: "mul a (mul b c) = mul b (mul a c)"
  by (metis mul_ass mul_comm)

lemma mul_null: "mul a 0 = 0"
  using mul_distrib [of a 0 0] by simp

lemma inverse_cancel: "c \<noteq> 0 \<Longrightarrow> mul (inv c) (mul c x) = x"
  by (metis mul_ass mul_comm mul_inverse mul_unit)

lemma single_erasure: "mul (gen (- k)) (mul (gen k) d) = d"
  by (simp add: mul_ass [symmetric] gen_plus gen_zero mul_unit)

lemma double_erasure:
  assumes "a mod 255 \<noteq> b mod 255"
    and dp: "dp = x XOR y" and dq: "dq = mul (gen a) x XOR mul (gen b) y"
  shows "mul (inv (gen (b - a) XOR 1)) dp XOR mul (inv (gen a XOR gen b)) dq = y"
proof -
  define c where "c = gen (b - a) XOR 1"
  have "(b - a) mod 255 \<noteq> 0 mod 255"
    using assms(1) by (metis mod_0 mod_diff_eq diff_self diff_add_cancel mod_add_left_eq add_0)
  then have "c \<noteq> 0" using gen_cong [of "b - a" 0] by (simp add: c_def gen_zero)
  have gb: "gen b = mul (gen a) (gen (b - a))" by (simp add: gen_plus)
  then have gab: "gen a XOR gen b = mul (gen a) c"
    by (simp add: c_def mul_distrib mul_comm [of _ 1] mul_unit byte_ops)
  have "gen a \<noteq> 0"
    using gen_plus [of a "- a"] by (auto simp: gen_zero mul_comm [of 0] mul_null)
  then have "mul (gen a) c \<noteq> 0" using \<open>c \<noteq> 0\<close> by (metis inverse_cancel mul_null)
  moreover have "dq = mul (gen a) (x XOR mul (gen (b - a)) y)"
    by (simp add: dq gb mul_distrib mul_ass)
  moreover have "mul (gen a) (x XOR mul (gen (b - a)) y) =
      mul (mul (gen a) c) (mul (inv c) (x XOR mul (gen (b - a)) y))"
    using \<open>c \<noteq> 0\<close> by (simp add: mul_ass) (metis inverse_cancel mul_left_comm)
  ultimately have "mul (inv (gen a XOR gen b)) dq = mul (inv c) (x XOR mul (gen (b - a)) y)"
    by (simp add: gab inverse_cancel)
  then have "mul (inv c) dp XOR mul (inv (gen a XOR gen b)) dq =
      mul (inv c) ((x XOR y) XOR (x XOR mul (gen (b - a)) y))"
    by (simp add: dp mul_distrib)
  also have "(x XOR y) XOR (x XOR mul (gen (b - a)) y) = mul c y"
  proof -
    have "mul c y = mul (gen (b - a)) y XOR y"
      unfolding c_def by (metis mul_comm mul_distrib mul_unit)
    then show ?thesis by (simp add: byte_ops)
  qed
  finally show ?thesis using \<open>c \<noteq> 0\<close> by (simp add: c_def inverse_cancel)
qed

end

interpretation gf: parity_field gf_mul gf_exp gf_inv
  by unfold_locales
    (rule gf_mul_commute gf_mul_assoc gf_mul_one gf_mul_xor_right gf_mul_inv gf_exp_add gf_exp_0
      gf_exp_eq_iff | assumption)+

subsection \<open>Properties\<close>

text \<open>C15: the multiplication table is a field multiplication with XOR as addition: \<open>gf_mul\<close> is
  commutative, associative, distributes over XOR, has unit 1, and every non-zero byte times its
  \<open>gf_inv\<close>, which is also the entry of the compile-time inverse table, is 1.\<close>

theorem gf_mul_field:
  "gf_mul a b = gf_mul b a \<and> gf_mul (gf_mul a b) c = gf_mul a (gf_mul b c) \<and>
   gf_mul a (b XOR c) = gf_mul a b XOR gf_mul a c \<and> gf_mul 1 a = a \<and>
   (a \<noteq> 0 \<longrightarrow> gf_mul a (gf_inv a) = 1) \<and> GFINV ! unat a = gf_inv a"
  using gf_mul_commute [of a b] gf_mul_assoc [of a b c] gf_mul_xor_right [of a b c] gf_mul_one [of a]
    gf_mul_inv [of a] GFINV_nth [of a] by blast

theorem gf_mul_field_witness: "gf_mul 0x8e (gf_inv 0x8e) = 1 \<and> (0x8e :: byte) \<noteq> 0"
  using gf_mul_field [of "0x8e" 0 0] by simp

text \<open>the tables of the two-disk solve are right: \<open>gf_exp\<close> runs through all 255 non-zero bytes with
  period 255 and turns sums of exponents into products, and the compile-time table \<open>GFEXI\<close> holds the
  inverse of \<open>g ^ k XOR 1\<close> for every exponent difference 1 to 254.\<close>

lemma gf_generator_tables:
  "(gf_exp i = gf_exp j \<longleftrightarrow> i mod 255 = j mod 255) \<and> gf_mul (gf_exp i) (gf_exp j) = gf_exp (i + j) \<and>
   (x \<noteq> 0 \<longrightarrow> (\<exists>k < 255. gf_exp (int k) = x)) \<and>
   (0 < k \<and> k < 255 \<longrightarrow> gf_mul (GFEXI ! k) (gf_exp (int k) XOR 1) = 1)"
proof -
  have "gf_mul (GFEXI ! k) (gf_exp (int k) XOR 1) = 1" if "0 < k" "k < 255"
  proof -
    have "gf_exp (int k) \<noteq> gf_exp 0" using that gf_exp_eq_iff [of "int k" 0] by simp
    then have "gf_exp (int k) XOR 1 \<noteq> 0" by simp
    with that show ?thesis by (simp add: GFEXI_nth gf_mul_commute [of "gf_inv _"] gf_mul_inv)
  qed
  moreover have "\<exists>k < 255. gf_exp (int k) = x" if "x \<noteq> 0"
    using byte_is_power [OF that] by (auto simp: gf_exp_of_nat)
  ultimately show ?thesis by (simp add: gf_exp_eq_iff gf_exp_add)
qed

lemma gf_generator_tables_witness:
  "gf_mul (GFEXI ! 254) (gf_exp 254 XOR 1) = 1 \<and> (\<exists>k < 255. gf_exp (int k) = 0x1d)"
  using gf_generator_tables [of 0 0 "0x1d" 254] by simp

end
