(* ===== verification/Recovery_Engine.thy ===== *)
theory Recovery_Engine
  imports Gf
begin

text \<open>
  The I/O-free recovery engine: the input and outcome model of
  \<open>src/scrub-rs/src/recovery/model.rs\<close> and the P, Q and two-disk reconstructions of
  \<open>src/scrub-rs/src/recovery/engine.rs\<close>. \<open>Panic\<close> is a failed assertion or an
  out-of-range table index. The lemmas compare the byte-wise buffer loops with the
  XOR sums of one stripe column.
\<close>

subsection \<open>Input and outcome model\<close>

record recovery_input =
  failing_slot :: nat
  corrupt_block :: bytes
  unreadable_source :: bool
  other_blocks :: "(nat \<times> bytes) list"
  p_block :: "bytes option"
  q_block :: "bytes option"
  verifier :: "bytes \<Rightarrow> bool"

datatype parity_path = ViaP | ViaQ | ViaPQ nat

datatype failure_reason =
    CsumMismatch parity_path
  | ParityBakedIn parity_path
  | ParityAbsent parity_path
  | InternalInconsistency string
  | AllPathsFailed failure_reason failure_reason "nat list"
  | NoQPathAndPFailed failure_reason

datatype recovery_result =
    Recovered parity_path bytes
  | NotCorrupt
  | Failed failure_reason

datatype q_outcome = QRecovered bytes | QBakedIn | QCsumMismatch

subsection \<open>Buffer loops\<close>

definition gf_mul_xor_inplace :: "bytes \<Rightarrow> bytes \<Rightarrow> byte \<Rightarrow> bytes" where
  "gf_mul_xor_inplace a b coef =
     (let table = GFMUL ! unat coef
      in map2 (\<lambda>x y. x XOR table ! unat y) a b @ drop (length b) a)"

definition gf_mul_into :: "bytes \<Rightarrow> bytes \<Rightarrow> byte \<Rightarrow> bytes" where
  "gf_mul_into dest src coef =
     (let table = GFMUL ! unat coef
      in map (\<lambda>s. table ! unat s) (take (length dest) src) @ drop (length src) dest)"

text \<open>\<open>(slot as i32) - 1\<close>, the exponent of a slot's column.\<close>

definition slot_exponent :: "nat \<Rightarrow> int" where
  "slot_exponent slot = wrap_i32 (as_i32 slot - 1)"

subsection \<open>Reconstructions\<close>

fun via_p_loop :: "nat \<Rightarrow> bytes \<Rightarrow> (nat \<times> bytes) list \<Rightarrow> bytes run" where
  "via_p_loop block_size recovered [] = Ret recovered"
| "via_p_loop block_size recovered ((_, b) # rest) =
     run_assert (length b = block_size) (via_p_loop block_size (xor_inplace recovered b) rest)"

definition recover_via_p :: "bytes \<Rightarrow> (nat \<times> bytes) list \<Rightarrow> bytes \<Rightarrow> nat \<Rightarrow> bytes run" where
  "recover_via_p corrupt others p block_size =
     run_assert (length corrupt = block_size)
       (run_assert (length p = block_size)
         (run_bind (via_p_loop block_size (zeros block_size) others)
           (\<lambda>recovered. Ret (xor_inplace recovered p))))"

definition q_accumulate :: "bytes \<Rightarrow> (nat \<times> bytes) list \<Rightarrow> bytes" where
  "q_accumulate acc others =
     fold (\<lambda>(slot, block) acc. gf_mul_xor_inplace acc block (gf_exp (slot_exponent slot))) others acc"

definition recover_via_q ::
  "(nat \<times> bytes) list \<Rightarrow> bytes \<Rightarrow> nat \<Rightarrow> nat \<Rightarrow> (bytes \<Rightarrow> bool) \<Rightarrow> bytes \<Rightarrow> q_outcome run" where
  "recover_via_q others q slot block_size verify corrupt =
     run_assert (length q = block_size)
       (let m = gf_exp (wrap_i32 (- slot_exponent slot));
            acc = q_accumulate q others;
            recovered = gf_mul_into (zeros block_size) acc m
        in if recovered = corrupt then Ret QBakedIn
           else if verify recovered then Ret (QRecovered recovered)
           else Ret QCsumMismatch)"

definition good_disks :: "(nat \<times> bytes) list \<Rightarrow> nat \<Rightarrow> nat \<Rightarrow> (nat \<times> bytes) list" where
  "good_disks others partner failing = filter (\<lambda>(slot, _). \<not> (slot = partner \<or> slot = failing)) others"

definition p_accumulate :: "bytes \<Rightarrow> (nat \<times> bytes) list \<Rightarrow> bytes" where
  "p_accumulate acc others = fold (\<lambda>(_, block) acc. xor_inplace acc block) others acc"

definition solve_two_disk ::
  "bytes \<Rightarrow> bytes \<Rightarrow> (nat \<times> bytes) list \<Rightarrow> nat \<Rightarrow> nat \<Rightarrow> nat \<Rightarrow> bytes option run" where
  "solve_two_disk p q others partner failing block_size =
     (let (a, b) = (if failing < partner then (slot_exponent failing, slot_exponent partner)
                    else (slot_exponent partner, slot_exponent failing))
      in if a < 0 \<or> b < 0 \<or> a = b then Ret None
         else
           let diff = nat (wrap_i32 (b - a) mod 255);
               pbmul_coef = GFEXI ! diff
           in run_assert (nat a < 256 \<and> nat b < 256)
             (let qmul_coef = GFINV ! unat (GFEXP ! nat a XOR GFEXP ! nat b);
                  pbmul = GFMUL ! unat pbmul_coef;
                  qmul = GFMUL ! unat qmul_coef;
                  p_zero = p_accumulate (zeros block_size) (good_disks others partner failing);
                  q_zero = q_accumulate (zeros block_size) (good_disks others partner failing);
                  delta_p = xor_inplace p p_zero;
                  delta_q = xor_inplace q q_zero
              in run_assert (block_size \<le> length delta_p \<and> block_size \<le> length delta_q)
                (let d_b = map (\<lambda>i. pbmul ! unat (delta_p ! i) XOR qmul ! unat (delta_q ! i)) [0..<block_size];
                     d_a = xor_inplace d_b delta_p
                 in Ret (Some (if failing < partner then d_a else d_b)))))"

subsection \<open>The recovery cascade\<close>

text \<open>\<open>Inl\<close> is an early return of \<open>recover_block\<close>, \<open>Inr\<close> the reason it goes on.\<close>

definition p_stage ::
  "recovery_input \<Rightarrow> nat \<Rightarrow> (recovery_result + failure_reason option) run" where
  "p_stage input block_size =
     (case p_block input of
        None \<Rightarrow> Ret (Inr (Some (ParityAbsent ViaP)))
      | Some p \<Rightarrow>
          run_assert (length p = block_size)
            (let zero_acc = xor_inplace (p_accumulate (corrupt_block input) (other_blocks input)) p
             in if \<not> unreadable_source input \<and> list_all (\<lambda>x. x = 0) zero_acc
                then Ret (Inr (Some (ParityBakedIn ViaP)))
                else run_bind (recover_via_p (corrupt_block input) (other_blocks input) p block_size)
                  (\<lambda>candidate.
                     if verifier input candidate then Ret (Inl (Recovered ViaP candidate))
                     else Ret (Inr (Some (CsumMismatch ViaP))))))"

definition q_stage ::
  "recovery_input \<Rightarrow> nat \<Rightarrow> (recovery_result + failure_reason option) run" where
  "q_stage input block_size =
     (case q_block input of
        None \<Rightarrow> Ret (Inr (Some (ParityAbsent ViaQ)))
      | Some q \<Rightarrow>
          run_assert (length q = block_size)
            (let q_corrupt = (if unreadable_source input then [] else corrupt_block input)
             in run_bind (recover_via_q (other_blocks input) q (failing_slot input) block_size
                  (verifier input) q_corrupt)
                (\<lambda>r. case r of
                   QRecovered block \<Rightarrow> Ret (Inl (Recovered ViaQ block))
                 | QBakedIn \<Rightarrow> Ret (Inr (Some (ParityBakedIn ViaQ)))
                 | QCsumMismatch \<Rightarrow> Ret (Inr (Some (CsumMismatch ViaQ))))))"

fun pq_loop ::
  "recovery_input \<Rightarrow> nat \<Rightarrow> bytes \<Rightarrow> bytes \<Rightarrow> nat list \<Rightarrow> (nat \<times> bytes) list
   \<Rightarrow> (recovery_result + nat list) run" where
  "pq_loop input block_size p q partners_tried [] = Ret (Inr partners_tried)"
| "pq_loop input block_size p q partners_tried ((partner, _) # rest) =
     run_bind (solve_two_disk p q (other_blocks input) partner (failing_slot input) block_size)
       (\<lambda>c. case c of
          Some candidate \<Rightarrow>
            (if verifier input candidate then Ret (Inl (Recovered (ViaPQ partner) candidate))
             else pq_loop input block_size p q (partners_tried @ [partner]) rest)
        | None \<Rightarrow> pq_loop input block_size p q (partners_tried @ [partner]) rest)"

definition unwrap_reason :: "failure_reason option \<Rightarrow> string \<Rightarrow> failure_reason" where
  "unwrap_reason r msg = (case r of Some x \<Rightarrow> x | None \<Rightarrow> InternalInconsistency msg)"

definition final_stage ::
  "recovery_input \<Rightarrow> nat \<Rightarrow> failure_reason option \<Rightarrow> failure_reason option \<Rightarrow> recovery_result run" where
  "final_stage input block_size p_reason q_reason =
     (let p_singleton = unwrap_reason p_reason ''internal: P path returned no reason'';
          q_singleton = unwrap_reason q_reason ''internal: Q path returned no reason''
      in case (p_block input, q_block input) of
           (Some p, Some q) \<Rightarrow>
             run_bind (pq_loop input block_size p q [] (other_blocks input))
               (\<lambda>r. case r of
                  Inl res \<Rightarrow> Ret res
                | Inr partners_tried \<Rightarrow>
                    Ret (Failed (AllPathsFailed p_singleton q_singleton partners_tried)))
         | _ \<Rightarrow>
             Ret (Failed (if q_block input = None then NoQPathAndPFailed p_singleton
                          else AllPathsFailed p_singleton q_singleton [])))"

definition recover_block :: "recovery_input \<Rightarrow> nat \<Rightarrow> recovery_result run" where
  "recover_block input block_size =
     run_assert (length (corrupt_block input) = block_size)
       (if \<not> unreadable_source input \<and> verifier input (corrupt_block input) then Ret NotCorrupt
        else run_bind (p_stage input block_size)
          (\<lambda>ps. case ps of
             Inl res \<Rightarrow> Ret res
           | Inr p_reason \<Rightarrow>
               run_bind (q_stage input block_size)
                 (\<lambda>qs. case qs of
                    Inl res \<Rightarrow> Ret res
                  | Inr q_reason \<Rightarrow> final_stage input block_size p_reason q_reason)))"

subsection \<open>One byte of a buffer loop\<close>

definition lengths_ok :: "nat \<Rightarrow> (nat \<times> bytes) list \<Rightarrow> bool" where
  "lengths_ok n others \<longleftrightarrow> (\<forall>(_, b) \<in> set others. length b = n)"

lemma lengths_ok_simps [simp]:
  "lengths_ok n []"
  "lengths_ok n (x # xs) \<longleftrightarrow> length (snd x) = n \<and> lengths_ok n xs"
  by (auto simp: lengths_ok_def)

lemma lengths_ok_filter: "lengths_ok n xs \<Longrightarrow> lengths_ok n (filter f xs)"
  by (auto simp: lengths_ok_def)

text \<open>The two row syndromes of one column \<open>i\<close> of a stripe.\<close>

definition p_column :: "(nat \<times> bytes) list \<Rightarrow> nat \<Rightarrow> byte" where
  "p_column others i = xor_sum (map (\<lambda>(_, b). b ! i) others)"

definition q_column :: "(nat \<times> bytes) list \<Rightarrow> nat \<Rightarrow> byte" where
  "q_column others i = xor_sum (map (\<lambda>(s, b). gf_mul (gf_exp (slot_exponent s)) (b ! i)) others)"

lemma length_gf_mul_xor_inplace [simp]: "length (gf_mul_xor_inplace a b c) = length a"
  by (simp add: gf_mul_xor_inplace_def Let_def)

lemma gf_mul_xor_inplace_nth:
  "i < length a \<Longrightarrow> i < length b \<Longrightarrow> gf_mul_xor_inplace a b c ! i = a ! i XOR gf_mul c (b ! i)"
  by (simp add: gf_mul_xor_inplace_def Let_def nth_append GFMUL_lookup)

lemma length_p_accumulate [simp]: "length (p_accumulate acc others) = length acc"
  unfolding p_accumulate_def
  by (induction others arbitrary: acc) (auto simp: split_beta)

lemma p_accumulate_nth:
  "lengths_ok (length acc) others \<Longrightarrow> i < length acc \<Longrightarrow>
   p_accumulate acc others ! i = acc ! i XOR p_column others i"
  unfolding p_accumulate_def
proof (induction others arbitrary: acc)
  case (Cons x xs)
  then show ?case
    by (cases x) (simp add: p_column_def xor_inplace_nth xor.assoc)
qed (simp add: p_column_def)

lemma length_q_accumulate [simp]: "length (q_accumulate acc others) = length acc"
  unfolding q_accumulate_def
  by (induction others arbitrary: acc) (auto simp: split_beta)

lemma q_accumulate_nth:
  "lengths_ok (length acc) others \<Longrightarrow> i < length acc \<Longrightarrow>
   q_accumulate acc others ! i = acc ! i XOR q_column others i"
  unfolding q_accumulate_def
proof (induction others arbitrary: acc)
  case (Cons x xs)
  then show ?case
    by (cases x) (simp add: q_column_def gf_mul_xor_inplace_nth xor.assoc)
qed (simp add: q_column_def)

lemma length_gf_mul_into [simp]: "length (gf_mul_into dest src c) = length dest"
  by (simp add: gf_mul_into_def Let_def)

lemma gf_mul_into_nth:
  "i < length dest \<Longrightarrow> i < length src \<Longrightarrow> gf_mul_into dest src c ! i = gf_mul c (src ! i)"
  by (simp add: gf_mul_into_def Let_def nth_append GFMUL_lookup)

lemma via_p_loop_eq:
  "via_p_loop n acc others = (if lengths_ok n others then Ret (p_accumulate acc others) else Panic)"
  by (induction n acc others rule: via_p_loop.induct)
    (auto simp: p_accumulate_def run_assert_def)

lemma recover_via_p_eq:
  "recover_via_p corrupt others p n =
     (if length corrupt = n \<and> length p = n \<and> lengths_ok n others
      then Ret (xor_inplace (p_accumulate (zeros n) others) p) else Panic)"
  by (auto simp: recover_via_p_def via_p_loop_eq run_assert_def)

subsection \<open>What parity promises\<close>

text \<open>
  A stripe is consistent with block \<open>d\<close> on the failing slot \<open>k\<close> when P is the XOR of all
  data blocks and Q is the sum of \<open>g ^ (slot - 1)\<close> times the block, column by column
  (the contract of the NonRAID driver that writes the parity disks).
\<close>

definition p_consistent :: "nat \<Rightarrow> bytes \<Rightarrow> (nat \<times> bytes) list \<Rightarrow> bytes \<Rightarrow> bool" where
  "p_consistent n d others p \<longleftrightarrow>
     length p = n \<and> (\<forall>i < n. p ! i = d ! i XOR p_column others i)"

definition q_consistent :: "nat \<Rightarrow> nat \<Rightarrow> bytes \<Rightarrow> (nat \<times> bytes) list \<Rightarrow> bytes \<Rightarrow> bool" where
  "q_consistent n k d others q \<longleftrightarrow>
     length q = n \<and> (\<forall>i < n. q ! i = gf_mul (gf_exp (slot_exponent k)) (d ! i) XOR q_column others i)"

text \<open>Slots as an array has them: pairwise different, from 1 to 255.\<close>

definition stripe_ok :: "nat \<Rightarrow> nat \<Rightarrow> (nat \<times> bytes) list \<Rightarrow> bool" where
  "stripe_ok n k others \<longleftrightarrow>
     lengths_ok n others \<and> distinct (k # map fst others) \<and>
     (\<forall>s \<in> set (k # map fst others). 1 \<le> s \<and> s \<le> 255)"

lemma slot_exponent_ok: "1 \<le> s \<Longrightarrow> s \<le> 255 \<Longrightarrow> slot_exponent s = int s - 1"
  by (simp add: slot_exponent_def)

lemma recover_via_p_correct:
  assumes "length corrupt = n" "lengths_ok n others" "length d = n" "p_consistent n d others p"
  shows "recover_via_p corrupt others p n = Ret d"
proof -
  have "xor_inplace (p_accumulate (zeros n) others) p = d"
    using assms
    by (intro bytes_eqI [of _ n])
      (auto simp: p_consistent_def xor_inplace_nth p_accumulate_nth byte_ops)
  with assms show ?thesis by (simp add: recover_via_p_eq p_consistent_def)
qed

lemma q_reconstruct_correct:
  assumes "lengths_ok n others" "length d = n" "q_consistent n k d others q" "1 \<le> k" "k \<le> 255"
  shows "gf_mul_into (zeros n) (q_accumulate q others) (gf_exp (wrap_i32 (- slot_exponent k))) = d"
proof (rule bytes_eqI [of _ n])
  fix i
  assume "i < n"
  have len: "length q = n" using assms(3) by (simp add: q_consistent_def)
  have "q_accumulate q others ! i = gf_mul (gf_exp (int k - 1)) (d ! i)"
    using assms \<open>i < n\<close> len
    by (simp add: q_accumulate_nth q_consistent_def slot_exponent_ok byte_ops)
  then show "gf_mul_into (zeros n) (q_accumulate q others) (gf_exp (wrap_i32 (- slot_exponent k))) ! i = d ! i"
    using assms \<open>i < n\<close> len gf.single_erasure [of "int k - 1" "d ! i"]
    by (simp add: gf_mul_into_nth slot_exponent_ok)
qed (use assms in simp_all)

subsection \<open>The two-disk solve\<close>

lemma two_disk_byte:
  assumes "0 \<le> a" "a < b" "b < 255"
    and "dp = x XOR y" "dq = gf_mul (gf_exp a) x XOR gf_mul (gf_exp b) y"
  shows "GFMUL ! unat (GFEXI ! nat (wrap_i32 (b - a) mod 255)) ! unat dp XOR
         GFMUL ! unat (GFINV ! unat (GFEXP ! nat a XOR GFEXP ! nat b)) ! unat dq = y"
proof -
  have "wrap_i32 (b - a) mod 255 = b - a" using assms by simp
  then have "GFEXI ! nat (wrap_i32 (b - a) mod 255) = gf_inv (gf_exp (b - a) XOR 1)"
    using assms(1-3) GFEXI_nth [of "nat (b - a)"] by simp
  moreover have "GFEXP ! nat a = gf_exp a" "GFEXP ! nat b = gf_exp b"
    using assms(1-3) by (simp_all add: gf_exp_def)
  moreover have "a mod 255 \<noteq> b mod 255" using assms(1-3) by simp
  ultimately show ?thesis
    using gf.double_erasure [OF _ assms(4,5)] by (simp add: GFMUL_lookup GFINV_nth)
qed

lemma good_disks_fresh:
  "failing \<notin> fst ` set others \<Longrightarrow>
   good_disks others partner failing = filter (\<lambda>(s, _). s \<noteq> partner) others"
  unfolding good_disks_def by (intro filter_cong refl) force

lemma solve_two_disk_eq:
  assumes slots: "1 \<le> k" "k \<le> 255" "1 \<le> s" "s \<le> 255" "s \<noteq> k"
    and len: "length p = n" "length q = n"
  shows "\<exists>c. solve_two_disk p q others s k n = Ret (Some c) \<and> length c = n"
  using slots len
  by (cases "k < s") (auto simp: solve_two_disk_def slot_exponent_ok Let_def)

lemma solve_two_disk_correct:
  assumes ok: "stripe_ok n k gold" and s: "(s, e) \<in> set gold" and "length d = n"
    and pc: "p_consistent n d gold p" and qc: "q_consistent n k d gold q"
    and good: "good_disks others s k = good_disks gold s k"
  shows "solve_two_disk p q others s k n = Ret (Some d)"
proof -
  have slots: "1 \<le> k" "k \<le> 255" "1 \<le> s" "s \<le> 255" "s \<noteq> k"
    using ok s by (force simp: stripe_ok_def)+
  have len: "length p = n" "length q = n" using pc qc by (simp_all add: p_consistent_def q_consistent_def)
  define gd where "gd = good_disks gold s k"
  have gd: "gd = filter (\<lambda>(t, _). t \<noteq> s) gold"
    unfolding gd_def using ok by (intro good_disks_fresh) (auto simp: stripe_ok_def)
  have dist: "distinct (map fst gold)" using ok by (simp add: stripe_ok_def)
  have gdlen: "lengths_ok n gd" using ok by (simp add: gd stripe_ok_def lengths_ok_filter)
  let ?dp = "xor_inplace p (p_accumulate (zeros n) gd)"
  let ?dq = "xor_inplace q (q_accumulate (zeros n) gd)"
  have dp: "?dp ! i = d ! i XOR e ! i" if "i < n" for i
    using that len pc gdlen
      xor_sum_extract [OF dist s, of "\<lambda>(_, b). b ! i"]
    by (simp add: xor_inplace_nth p_accumulate_nth p_consistent_def p_column_def gd byte_ops)
  have dq: "?dq ! i = gf_mul (gf_exp (int k - 1)) (d ! i) XOR gf_mul (gf_exp (int s - 1)) (e ! i)"
    if "i < n" for i
    using that len qc gdlen slots
      xor_sum_extract [OF dist s, of "\<lambda>(s, b). gf_mul (gf_exp (slot_exponent s)) (b ! i)"]
    by (simp add: xor_inplace_nth q_accumulate_nth q_consistent_def q_column_def gd
        slot_exponent_ok byte_ops)
  show ?thesis
  proof (cases "k < s")
    case True
    have "GFMUL ! unat (GFEXI ! nat (wrap_i32 ((int s - 1) - (int k - 1)) mod 255)) ! unat (?dp ! i) XOR
        GFMUL ! unat (GFINV ! unat (GFEXP ! nat (int k - 1) XOR GFEXP ! nat (int s - 1))) ! unat (?dq ! i)
        = e ! i" if "i < n" for i
      using two_disk_byte [of "int k - 1" "int s - 1" _ "d ! i" "e ! i"] True slots dp dq that by simp
    then show ?thesis
      using True slots len good assms(3) dp
      by (auto simp: solve_two_disk_def slot_exponent_ok Let_def gd_def [symmetric] xor_inplace_nth
          byte_ops intro!: bytes_eqI [of _ n])
  next
    case False
    then have "s < k" using slots by simp
    have "GFMUL ! unat (GFEXI ! nat (wrap_i32 ((int k - 1) - (int s - 1)) mod 255)) ! unat (?dp ! i) XOR
        GFMUL ! unat (GFINV ! unat (GFEXP ! nat (int s - 1) XOR GFEXP ! nat (int k - 1))) ! unat (?dq ! i)
        = d ! i" if "i < n" for i
      using two_disk_byte [of "int s - 1" "int k - 1" _ "e ! i" "d ! i"] \<open>s < k\<close> slots dp dq that
      by (simp add: byte_ops)
    then show ?thesis
      using False \<open>s < k\<close> slots len good assms(3)
      by (auto simp: solve_two_disk_def slot_exponent_ok Let_def gd_def [symmetric]
          intro!: bytes_eqI [of _ n])
  qed
qed

subsection \<open>The cascade\<close>

text \<open>An input whose buffers all have the block size and whose slots are an array's.\<close>

definition input_ok :: "recovery_input \<Rightarrow> nat \<Rightarrow> bool" where
  "input_ok input n \<longleftrightarrow>
     length (corrupt_block input) = n \<and> stripe_ok n (failing_slot input) (other_blocks input) \<and>
     (\<forall>p. p_block input = Some p \<longrightarrow> length p = n) \<and>
     (\<forall>q. q_block input = Some q \<longrightarrow> length q = n)"

lemma p_accumulate_baked:
  assumes "p_consistent n c others p" "length c = n" "lengths_ok n others"
  shows "list_all (\<lambda>x. x = 0) (xor_inplace (p_accumulate c others) p)"
  using assms
  by (auto simp: list_all_length xor_inplace_nth p_accumulate_nth p_consistent_def)

lemma p_not_baked:
  assumes "p_consistent n d others p" "length c = n" "length d = n" "lengths_ok n others"
    and "list_all (\<lambda>x. x = 0) (xor_inplace (p_accumulate c others) p)"
  shows "c = d"
proof (rule bytes_eqI [of _ n])
  fix i
  assume "i < n"
  with assms have "(c ! i XOR p_column others i) XOR (d ! i XOR p_column others i) = 0"
    by (auto simp: list_all_length xor_inplace_nth p_accumulate_nth p_consistent_def)
  then show "c ! i = d ! i" by (simp add: byte_ops)
qed (use assms in simp_all)

lemma p_stage_intact:
  assumes "input_ok input n" "p_block input = Some p" "p_consistent n d (other_blocks input) p"
    and "length d = n" "verifier input d"
    and "unreadable_source input \<or> \<not> verifier input (corrupt_block input)"
  shows "p_stage input n = Ret (Inl (Recovered ViaP d))"
proof -
  have len: "length (corrupt_block input) = n" "lengths_ok n (other_blocks input)" "length p = n"
    using assms(1,2) by (auto simp: input_ok_def stripe_ok_def)
  have "\<not> (\<not> unreadable_source input \<and>
      list_all (\<lambda>x. x = 0) (xor_inplace (p_accumulate (corrupt_block input) (other_blocks input)) p))"
    using p_not_baked [OF assms(3) len(1) assms(4) len(2)] assms(5,6) by auto
  then show ?thesis
    using assms len recover_via_p_correct [OF len(1,2) assms(4,3)]
    by (auto simp: p_stage_def Let_def)
qed

lemma q_stage_intact:
  assumes "input_ok input n" "q_block input = Some q"
    and "q_consistent n (failing_slot input) d (other_blocks input) q"
    and "length d = n" "verifier input d"
    and "unreadable_source input \<and> n \<noteq> 0 \<or> \<not> verifier input (corrupt_block input)"
  shows "q_stage input n = Ret (Inl (Recovered ViaQ d))"
proof -
  have len: "length q = n" "lengths_ok n (other_blocks input)"
    "1 \<le> failing_slot input" "failing_slot input \<le> 255"
    using assms(1,2) by (auto simp: input_ok_def stripe_ok_def)
  have "d \<noteq> (if unreadable_source input then [] else corrupt_block input)"
    using assms(4,5,6) \<open>input_ok input n\<close> by (auto simp: input_ok_def)
  then show ?thesis
    using assms len q_reconstruct_correct [OF len(2) assms(4,3) len(3,4)]
    by (auto simp: q_stage_def recover_via_q_def Let_def)
qed

lemma recover_block_p_intact:
  assumes "input_ok input n" "p_block input = Some p" "p_consistent n d (other_blocks input) p"
    and "length d = n" "verifier input d"
    and "unreadable_source input \<or> \<not> verifier input (corrupt_block input)"
  shows "recover_block input n = Ret (Recovered ViaP d)"
  using p_stage_intact [OF assms] assms(1,6)
  by (auto simp: recover_block_def input_ok_def)

lemma p_stage_total:
  assumes "input_ok input n"
  shows "(\<exists>c. p_stage input n = Ret (Inl (Recovered ViaP c))) \<or> (\<exists>r. p_stage input n = Ret (Inr (Some r)))"
  using assms
  by (cases "p_block input")
    (auto simp: p_stage_def input_ok_def stripe_ok_def recover_via_p_eq Let_def)

lemma q_stage_total:
  assumes "input_ok input n"
  shows "(\<exists>c. q_stage input n = Ret (Inl (Recovered ViaQ c))) \<or> (\<exists>r. q_stage input n = Ret (Inr (Some r)))"
  using assms
  by (cases "q_block input")
    (auto simp: q_stage_def input_ok_def recover_via_q_def Let_def)

lemma solve_two_disk_total:
  assumes "input_ok input n" "(s, b) \<in> set (other_blocks input)" "length p = n" "length q = n"
  shows "\<exists>c. solve_two_disk p q (other_blocks input) s (failing_slot input) n = Ret (Some c) \<and> length c = n"
proof -
  have "s \<in> set (map fst (other_blocks input))" using assms(2) by force
  moreover have "distinct (failing_slot input # map fst (other_blocks input))"
    "\<forall>t \<in> set (failing_slot input # map fst (other_blocks input)). 1 \<le> t \<and> t \<le> 255"
    using assms(1) unfolding input_ok_def stripe_ok_def by blast+
  ultimately have "1 \<le> failing_slot input" "failing_slot input \<le> 255" "1 \<le> s" "s \<le> 255"
    "s \<noteq> failing_slot input"
    by (simp_all only: distinct.simps list.set ball_simps) blast+
  from solve_two_disk_eq [OF this assms(3,4)] show ?thesis .
qed

lemma pq_loop_total:
  assumes "input_ok input n" "length p = n" "length q = n" "set rest \<subseteq> set (other_blocks input)"
  shows "(\<exists>s c. pq_loop input n p q tried rest = Ret (Inl (Recovered (ViaPQ s) c))) \<or>
         pq_loop input n p q tried rest = Ret (Inr (tried @ map fst rest))"
  using assms(4)
proof (induction rest arbitrary: tried)
  case (Cons x rest)
  obtain s b where x: "x = (s, b)" by (cases x)
  from solve_two_disk_total [OF assms(1) _ assms(2,3), of s b] Cons.prems x obtain c
    where "solve_two_disk p q (other_blocks input) s (failing_slot input) n = Ret (Some c)" by auto
  with Cons.IH [of "tried @ [s]"] Cons.prems x show ?case by (cases "verifier input c") auto
qed simp

lemma recover_block_total:
  assumes "input_ok input n"
  shows "recover_block input n \<noteq> Panic"
proof -
  note p_stage_total [OF assms] q_stage_total [OF assms]
  moreover have "final_stage input n pr qr \<noteq> Panic" for pr qr
    using assms pq_loop_total [of input n _ _ "other_blocks input" "[]"]
    by (fastforce simp: final_stage_def Let_def input_ok_def split: option.splits)
  ultimately show ?thesis
    using assms by (auto simp: recover_block_def input_ok_def)
qed

lemma p_stage_sound:
  "p_stage input n = Ret (Inl res) \<Longrightarrow>
   \<exists>c. res = Recovered ViaP c \<and> verifier input c \<and> length c = n \<and> p_block input \<noteq> None"
  by (auto simp: p_stage_def recover_via_p_eq Let_def run_bind_eq_Ret split: option.splits if_splits)

lemma q_stage_sound:
  "q_stage input n = Ret (Inl res) \<Longrightarrow>
   \<exists>c. res = Recovered ViaQ c \<and> verifier input c \<and> length c = n \<and> q_block input \<noteq> None"
  by (auto simp: q_stage_def recover_via_q_def Let_def run_bind_eq_Ret
      split: option.splits if_splits q_outcome.splits)

lemma solve_two_disk_length:
  "solve_two_disk p q others s k n = Ret (Some c) \<Longrightarrow> length c = n"
  by (auto simp: solve_two_disk_def Let_def split: if_splits prod.splits)

lemma pq_loop_sound:
  "pq_loop input n p q tried rest = Ret (Inl res) \<Longrightarrow>
   \<exists>s c. res = Recovered (ViaPQ s) c \<and> verifier input c \<and> length c = n \<and> s \<in> fst ` set rest"
proof (induction rest arbitrary: tried)
  case (Cons x rest)
  obtain s b where x: "x = (s, b)" by (cases x)
  with Cons.prems obtain oc where oc:
    "solve_two_disk p q (other_blocks input) s (failing_slot input) n = Ret oc"
    by (auto simp: run_bind_eq_Ret)
  show ?case
  proof (cases "\<exists>c. oc = Some c \<and> verifier input c")
    case True
    then obtain c where c: "oc = Some c" "verifier input c" by blast
    with oc have "length c = n" by (simp add: solve_two_disk_length)
    with Cons.prems x oc c show ?thesis by auto
  next
    case False
    with Cons.prems x oc have "pq_loop input n p q (tried @ [s]) rest = Ret (Inl res)"
      by (cases oc) auto
    from Cons.IH [OF this] show ?thesis by auto
  qed
qed simp

lemma final_stage_sound:
  "final_stage input n pr qr = Ret (Recovered via c) \<Longrightarrow> verifier input c \<and> length c = n"
  by (auto simp: final_stage_def Let_def run_bind_def split: option.splits sum.splits run.splits
      dest: pq_loop_sound)

lemma final_stage_not_NotCorrupt: "final_stage input n pr qr \<noteq> Ret NotCorrupt"
  by (auto simp: final_stage_def Let_def run_bind_def split: option.splits sum.splits run.splits
      dest: pq_loop_sound)

text \<open>Which branch of \<open>recover_block\<close> made a result.\<close>

lemma recover_block_cases [consumes 1, case_names not_corrupt via_p via_q final]:
  assumes "recover_block input n = Ret res"
  obtains "length (corrupt_block input) = n" "\<not> unreadable_source input"
      "verifier input (corrupt_block input)" "res = NotCorrupt"
  | "p_stage input n = Ret (Inl res)"
  | pr where "p_stage input n = Ret (Inr pr)" "q_stage input n = Ret (Inl res)"
  | pr qr where "p_stage input n = Ret (Inr pr)" "q_stage input n = Ret (Inr qr)"
      "final_stage input n pr qr = Ret res"
  using assms
  by (auto simp: recover_block_def run_bind_def split: if_splits run.splits sum.splits)

lemma recover_block_sound:
  assumes "recover_block input n = Ret (Recovered via c)"
  shows "verifier input c \<and> length c = n"
  using assms
  by (cases rule: recover_block_cases)
    (auto dest: p_stage_sound q_stage_sound final_stage_sound)

lemma recover_block_NotCorrupt:
  "recover_block input n = Ret NotCorrupt \<longleftrightarrow>
     length (corrupt_block input) = n \<and> \<not> unreadable_source input \<and> verifier input (corrupt_block input)"
proof
  assume "recover_block input n = Ret NotCorrupt"
  then show "length (corrupt_block input) = n \<and> \<not> unreadable_source input \<and>
      verifier input (corrupt_block input)"
    by (cases rule: recover_block_cases)
      (auto dest: p_stage_sound q_stage_sound simp: final_stage_not_NotCorrupt)
qed (simp add: recover_block_def)

lemma pq_loop_exact:
  assumes ok: "input_ok input n" and len: "length p = n" "length q = n"
    and sub: "set rest \<subseteq> set (other_blocks input)"
    and hit: "\<exists>(s, b) \<in> set rest. solve_two_disk p q (other_blocks input) s (failing_slot input) n = Ret (Some d)"
    and ex: "\<forall>b. length b = n \<longrightarrow> verifier input b = (b = d)" "length d = n"
  shows "\<exists>s. pq_loop input n p q tried rest = Ret (Inl (Recovered (ViaPQ s) d))"
  using sub hit
proof (induction rest arbitrary: tried)
  case (Cons x rest)
  obtain s b where x: "x = (s, b)" by (cases x)
  from solve_two_disk_total [OF ok _ len, of s b] Cons.prems(1) x obtain c
    where c: "solve_two_disk p q (other_blocks input) s (failing_slot input) n = Ret (Some c)"
      and "length c = n" by auto
  show ?case
  proof (cases "c = d")
    case True
    with c ex x show ?thesis by simp
  next
    case False
    with Cons.prems c x have "\<exists>(s, b) \<in> set rest.
        solve_two_disk p q (other_blocks input) s (failing_slot input) n = Ret (Some d)" by auto
    moreover have "\<not> verifier input c" using ex \<open>length c = n\<close> False by blast
    ultimately show ?thesis using Cons.IH [of "tried @ [s]"] Cons.prems(1) c x by simp
  qed
qed simp

lemma filter_eq_by_key:
  assumes "map fst xs = map fst ys" "distinct (map fst ys)"
    and "\<forall>(s, b) \<in> set xs. s \<noteq> k \<longrightarrow> (s, b) \<in> set ys"
  shows "filter (\<lambda>(s, _). s \<noteq> k) xs = filter (\<lambda>(s, _). s \<noteq> k) ys"
proof -
  have "length xs = length ys" using assms(1) by (rule map_eq_imp_length_eq)
  from this assms show ?thesis
  proof (induction xs ys rule: list_induct2)
    case (Cons x xs y ys)
    have "\<forall>(s, b) \<in> set xs. s \<noteq> k \<longrightarrow> (s, b) \<in> set ys"
    proof safe
      fix s b assume sb: "(s, b) \<in> set xs" "s \<noteq> k"
      then have "(s, b) \<in> set (y # ys)" using Cons.prems(3) by auto
      moreover have "s \<in> set (map fst xs)" using sb(1) by force
      moreover have "map fst xs = map fst ys" using Cons.prems(1) by simp
      moreover have "fst y \<notin> set (map fst ys)" using Cons.prems(2) by simp
      ultimately show "(s, b) \<in> set ys" by (metis fst_conv set_ConsD)
    qed
    then have "filter (\<lambda>(s, _). s \<noteq> k) xs = filter (\<lambda>(s, _). s \<noteq> k) ys"
      using Cons.prems(1,2) by (intro Cons.IH) simp_all
    moreover have "x = y" if "fst x \<noteq> k"
    proof -
      have "x \<in> set (y # ys)" using that Cons.prems(3) by (cases x) auto
      moreover have "fst x \<notin> set (map fst ys)" using Cons.prems(1,2) by simp
      ultimately show ?thesis by auto
    qed
    moreover have "fst x = fst y" using Cons.prems(1) by simp
    ultimately show ?case by (cases "fst x = k") (simp_all add: case_prod_unfold)
  qed simp
qed

text \<open>
  With P and Q intact, one bad block besides the failing one does not matter: some path
  rebuilds the failing block.
\<close>

lemma recover_block_pq_intact:
  assumes ok: "input_ok input n" and gold: "stripe_ok n (failing_slot input) gold"
    and slots: "map fst (other_blocks input) = map fst gold"
    and one: "\<forall>(s, b) \<in> set (other_blocks input). s \<noteq> partner \<longrightarrow> (s, b) \<in> set gold"
    and d: "length d = n"
    and p: "p_block input = Some p" "p_consistent n d gold p"
    and q: "q_block input = Some q" "q_consistent n (failing_slot input) d gold q"
    and ex: "\<forall>b. length b = n \<longrightarrow> verifier input b = (b = d)"
    and bad: "unreadable_source input \<or> corrupt_block input \<noteq> d"
  shows "\<exists>via. recover_block input n = Ret (Recovered via d)"
proof (cases "partner \<in> fst ` set gold")
  case False
  then have "\<forall>(s, b) \<in> set (other_blocks input). s \<noteq> partner"
    using arg_cong [OF slots, of set] by force
  then have "other_blocks input = gold"
    using filter_eq_by_key [OF slots _ one] gold False
    by (auto simp: stripe_ok_def filter_id_conv split_beta rev_image_eqI)
  with assms show ?thesis
    by (intro exI [of _ ViaP] recover_block_p_intact [of input n p d])
      (auto simp: input_ok_def)
next
  case True
  then obtain e where e: "(partner, e) \<in> set gold" by auto
  have len: "length p = n" "length q = n" using p q by (simp_all add: p_consistent_def q_consistent_def)
  have "partner \<in> fst ` set (other_blocks input)" using True arg_cong [OF slots, of set] by simp
  then obtain b where b: "(partner, b) \<in> set (other_blocks input)" by auto
  have fresh: "failing_slot input \<notin> fst ` set gold" "failing_slot input \<notin> fst ` set (other_blocks input)"
    using gold arg_cong [OF slots, of set] by (simp_all add: stripe_ok_def)
  have "good_disks (other_blocks input) partner (failing_slot input) =
      good_disks gold partner (failing_slot input)"
    using filter_eq_by_key [OF slots _ one] gold fresh by (simp add: good_disks_fresh stripe_ok_def)
  from solve_two_disk_correct [OF gold e d p(2) q(2) this] b
  have hit: "\<exists>(s, b) \<in> set (other_blocks input).
      solve_two_disk p q (other_blocks input) s (failing_slot input) n = Ret (Some d)" by blast
  from pq_loop_exact [OF ok len _ hit ex d] obtain s
    where "pq_loop input n p q [] (other_blocks input) = Ret (Inl (Recovered (ViaPQ s) d))" by blast
  then have fin: "final_stage input n pr qr = Ret (Recovered (ViaPQ s) d)" for pr qr
    using p(1) q(1) by (simp add: final_stage_def Let_def)
  have pre: "length (corrupt_block input) = n"
    "\<not> (\<not> unreadable_source input \<and> verifier input (corrupt_block input))"
    using bad ex ok by (auto simp: input_ok_def)
  have exact: "c = d" if "verifier input c \<and> length c = n" for c using that ex by blast
  from p_stage_total [OF ok] show ?thesis
  proof (elim disjE exE)
    fix c assume ps: "p_stage input n = Ret (Inl (Recovered ViaP c))"
    with p_stage_sound [OF ps] exact have "c = d" by auto
    with ps pre show ?thesis by (simp add: recover_block_def)
  next
    fix r assume ps: "p_stage input n = Ret (Inr (Some r))"
    from q_stage_total [OF ok] show ?thesis
    proof (elim disjE exE)
      fix c assume qs: "q_stage input n = Ret (Inl (Recovered ViaQ c))"
      with q_stage_sound [OF qs] exact have "c = d" by auto
      with ps qs pre show ?thesis by (simp add: recover_block_def)
    next
      fix r' assume "q_stage input n = Ret (Inr (Some r'))"
      with ps pre fin show ?thesis by (simp add: recover_block_def)
    qed
  qed
qed

text \<open>With both parities recomputed from the corrupt bytes, every candidate is the corrupt block.\<close>

lemma pq_loop_reject:
  assumes "\<forall>(s, b) \<in> set rest. \<exists>c. solve_two_disk p q (other_blocks input) s (failing_slot input) n = Ret (Some c)
     \<and> \<not> verifier input c"
  shows "pq_loop input n p q tried rest = Ret (Inr (tried @ map fst rest))"
  using assms by (induction rest arbitrary: tried) auto

lemma recover_block_baked:
  assumes ok: "input_ok input n" and "\<not> unreadable_source input"
    and p: "p_block input = Some p" "p_consistent n (corrupt_block input) (other_blocks input) p"
    and q: "q_block input = Some q"
      "q_consistent n (failing_slot input) (corrupt_block input) (other_blocks input) q"
    and rej: "\<not> verifier input (corrupt_block input)"
  shows "recover_block input n =
     Ret (Failed (AllPathsFailed (ParityBakedIn ViaP) (ParityBakedIn ViaQ) (map fst (other_blocks input))))"
proof -
  have st: "stripe_ok n (failing_slot input) (other_blocks input)" "length (corrupt_block input) = n"
    "lengths_ok n (other_blocks input)" "1 \<le> failing_slot input" "failing_slot input \<le> 255"
    using ok by (auto simp: input_ok_def stripe_ok_def)
  have len: "length p = n" "length q = n" using p q by (simp_all add: p_consistent_def q_consistent_def)
  have "p_stage input n = Ret (Inr (Some (ParityBakedIn ViaP)))"
    using p len st(2,3) assms(2) p_accumulate_baked [OF p(2) st(2,3)]
    by (simp add: p_stage_def Let_def)
  moreover have "q_stage input n = Ret (Inr (Some (ParityBakedIn ViaQ)))"
    using q len assms(2) q_reconstruct_correct [OF st(3,2) q(2) st(4,5)]
    by (simp add: q_stage_def recover_via_q_def Let_def)
  moreover have "pq_loop input n p q [] (other_blocks input) = Ret (Inr ([] @ map fst (other_blocks input)))"
    using solve_two_disk_correct [OF st(1) _ st(2) p(2) q(2)] rej
    by (intro pq_loop_reject) auto
  ultimately show ?thesis
    using p(1) q(1) rej st(2) by (simp add: recover_block_def final_stage_def unwrap_reason_def)
qed

lemma recover_block_q_intact:
  assumes ok: "input_ok input n" and "n \<noteq> 0"
    and pr: "p_stage input n = Ret (Inr pr)"
    and q: "q_block input = Some q" "q_consistent n (failing_slot input) d (other_blocks input) q"
    and d: "length d = n" "verifier input d"
    and bad: "unreadable_source input \<or> \<not> verifier input (corrupt_block input)"
  shows "recover_block input n = Ret (Recovered ViaQ d)"
  using q_stage_intact [OF ok q d] bad \<open>n \<noteq> 0\<close> pr ok
  by (auto simp: recover_block_def input_ok_def)

lemma p_stage_absent: "p_block input = None \<Longrightarrow> p_stage input n = Ret (Inr (Some (ParityAbsent ViaP)))"
  by (simp add: p_stage_def)

lemma p_stage_baked:
  assumes "input_ok input n" "\<not> unreadable_source input" "p_block input = Some p"
    "p_consistent n (corrupt_block input) (other_blocks input) p"
  shows "p_stage input n = Ret (Inr (Some (ParityBakedIn ViaP)))"
  using assms p_accumulate_baked [OF assms(4)]
  by (simp add: p_stage_def Let_def input_ok_def stripe_ok_def)

subsection \<open>Properties\<close>

text \<open>The stripe of the witnesses: slot 1 holds 1, slot 2 holds 4, P is 5 and Q is 9.\<close>

definition demo_input :: "byte \<Rightarrow> byte \<Rightarrow> bytes option \<Rightarrow> bytes option \<Rightarrow> (bytes \<Rightarrow> bool) \<Rightarrow> recovery_input" where
  "demo_input c x p q v = \<lparr>failing_slot = 1, corrupt_block = [c], unreadable_source = False,
     other_blocks = [(2, [x])], p_block = p, q_block = q, verifier = v\<rparr>"

lemma demo_input_ok: "p \<in> {None, Some [a]} \<Longrightarrow> q \<in> {None, Some [b]} \<Longrightarrow> input_ok (demo_input c x p q v) 1"
  by (auto simp: input_ok_def demo_input_def stripe_ok_def)

lemma demo_exponents: "gf_exp (slot_exponent 1) = 1" "gf_exp (slot_exponent 2) = 2"
  using gf_exp_of_nat [of 1] by (simp_all add: slot_exponent_ok)

lemma demo_p: "p_consistent 1 [d] [(2, [x])] [d XOR x]"
  by (simp add: p_consistent_def p_column_def)

lemma demo_q: "q_consistent 1 1 [d] [(2, [x])] [d XOR gf_double x]"
  by (simp add: q_consistent_def q_column_def demo_exponents gf_mul_one gf_double_eq del: One_nat_def)

text \<open>Only verified bytes leave the engine: whatever the other blocks and parities hold, a block
  that \<open>recover_block\<close> reports as recovered has the block size and passed the verifier; it
  reports the sector as not corrupt exactly when the source was readable and verified.\<close>

lemma recover_block_verified:
  "(recover_block input n = Ret (Recovered via c) \<longrightarrow> verifier input c \<and> length c = n) \<and>
   (recover_block input n = Ret NotCorrupt \<longleftrightarrow>
      length (corrupt_block input) = n \<and> \<not> unreadable_source input \<and> verifier input (corrupt_block input))"
  using recover_block_sound [of input n via c] recover_block_NotCorrupt [of input n] by simp

lemma recover_block_verified_witness:
  "recover_block (demo_input 7 4 (Some [5]) None (\<lambda>b. b = [1])) 1 = Ret (Recovered ViaP [1]) \<and>
   verifier (demo_input 7 4 (Some [5]) None (\<lambda>b. b = [1])) [1]"
proof -
  have "recover_block (demo_input 7 4 (Some [5]) None (\<lambda>b. b = [1])) 1 = Ret (Recovered ViaP [1])"
    using recover_block_p_intact [OF demo_input_ok, of "Some [5]" 5 None 0 7 4 "\<lambda>b. b = [1]" "[5]" "[1]"]
      demo_p [of 1 4] by (simp add: demo_input_def)
  with recover_block_verified [of _ 1 ViaP "[1]"] show ?thesis by blast
qed

text \<open>a single P parity repairs any damage to one disk: if P is the parity of the original block and
  the other disks, the original block is returned through P, for every corrupt content and also
  for an unreadable source.\<close>

lemma recover_block_via_p:
  assumes "input_ok input n" "p_block input = Some p" "p_consistent n d (other_blocks input) p"
    and "length d = n" "verifier input d"
    and "unreadable_source input \<or> \<not> verifier input (corrupt_block input)"
  shows "recover_block input n = Ret (Recovered ViaP d)"
  by (rule recover_block_p_intact [OF assms])

lemma recover_block_via_p_witness:
  "recover_block (demo_input 7 4 (Some [5]) (Some [0]) (\<lambda>b. b = [1])) 1 = Ret (Recovered ViaP [1])"
  using recover_block_via_p [OF demo_input_ok, of "Some [5]" 5 "Some [0]" 0 7 4 "\<lambda>b. b = [1]" "[5]" "[1]"]
    demo_p [of 1 4] by (simp add: demo_input_def)

text \<open>Q repairs what P cannot: when the P path yields no accepted block (P absent, recomputed
  from the corrupt bytes, or wrong) and Q is the syndrome of the original block, the original
  block is returned through Q.\<close>

lemma recover_block_via_q:
  assumes "input_ok input n" "n \<noteq> 0" "\<forall>c. p_stage input n \<noteq> Ret (Inl (Recovered ViaP c))"
    and "q_block input = Some q" "q_consistent n (failing_slot input) d (other_blocks input) q"
    and "length d = n" "verifier input d"
    and "unreadable_source input \<or> \<not> verifier input (corrupt_block input)"
  shows "recover_block input n = Ret (Recovered ViaQ d)"
proof -
  obtain r where "p_stage input n = Ret (Inr (Some r))" using p_stage_total [OF assms(1)] assms(3) by blast
  from recover_block_q_intact [OF assms(1,2) this assms(4-8)] show ?thesis .
qed

lemma recover_block_via_q_witness:
  "recover_block (demo_input 7 4 None (Some [9]) (\<lambda>b. b = [1])) 1 = Ret (Recovered ViaQ [1])"
  using recover_block_via_q [OF demo_input_ok, of None 0 "Some [9]" 9 7 4 "\<lambda>b. b = [1]" "[9]" "[1]"]
    demo_q [of 1 4] p_stage_absent [of "demo_input 7 4 None (Some [9]) (\<lambda>b. b = [1])" 1]
  by (simp add: demo_input_def gf_double_def)

text \<open>C10: P and Q together repair two damaged disks: when at most one other disk (any of them, not
  known which) differs from the stripe the parities were computed from, and the verifier accepts
  only the original block, the original block of the failing disk is returned.\<close>

theorem recover_block_two_disks:
  assumes "input_ok input n" "stripe_ok n (failing_slot input) gold"
    and "map fst (other_blocks input) = map fst gold"
    and "\<forall>(s, b) \<in> set (other_blocks input). s \<noteq> partner \<longrightarrow> (s, b) \<in> set gold"
    and "length d = n" "p_block input = Some p" "p_consistent n d gold p"
    and "q_block input = Some q" "q_consistent n (failing_slot input) d gold q"
    and "\<forall>b. length b = n \<longrightarrow> verifier input b = (b = d)"
    and "unreadable_source input \<or> corrupt_block input \<noteq> d"
  shows "\<exists>via. recover_block input n = Ret (Recovered via d)"
  by (rule recover_block_pq_intact [OF assms])

theorem recover_block_two_disks_witness:
  "\<exists>via. recover_block (demo_input 7 0xFF (Some [5]) (Some [9]) (\<lambda>b. b = [1])) 1 = Ret (Recovered via [1])"
  using recover_block_two_disks [OF demo_input_ok, of "Some [5]" 5 "Some [9]" 9 7 "0xFF" "\<lambda>b. b = [1]"
      "[(2, [4])]" 2 "[1]" "[5]" "[9]"] demo_p [of 1 4] demo_q [of 1 4]
  by (simp add: demo_input_def gf_double_def stripe_ok_def)

text \<open>baked-in corruption is never written back: if both parities were recomputed from the corrupt
  bytes, the engine fails, names both parities as baked in and lists every slot it tried as
  the partner.\<close>

lemma recover_block_baked_in:
  assumes "input_ok input n" "\<not> unreadable_source input"
    and "p_block input = Some p" "p_consistent n (corrupt_block input) (other_blocks input) p"
    and "q_block input = Some q" "q_consistent n (failing_slot input) (corrupt_block input) (other_blocks input) q"
    and "\<not> verifier input (corrupt_block input)"
  shows "recover_block input n =
     Ret (Failed (AllPathsFailed (ParityBakedIn ViaP) (ParityBakedIn ViaQ) (map fst (other_blocks input))))"
  by (rule recover_block_baked [OF assms])

lemma recover_block_baked_in_witness:
  "recover_block (demo_input 7 4 (Some [3]) (Some [15]) (\<lambda>b. b = [1])) 1 =
     Ret (Failed (AllPathsFailed (ParityBakedIn ViaP) (ParityBakedIn ViaQ) [2]))"
  using recover_block_baked_in [OF demo_input_ok, of "Some [3]" 3 "Some [15]" 15 7 4 "\<lambda>b. b = [1]" "[3]" "[15]"]
    demo_p [of 7 4] demo_q [of 7 4]
  by (simp add: demo_input_def gf_double_def)

end
