(* ===== verification/Array_Io.thy ===== *)
theory Array_Io
  imports Array_Config Recovery_Engine
begin

text \<open>
  Block I/O across the array: \<open>src/scrub-rs/src/array/stripe.rs\<close>, the parity syndromes of
  \<open>src/scrub-rs/src/array/parity.rs\<close> and the startup probe of
  \<open>src/scrub-rs/src/canary.rs\<close>. The disks of the machine are a map from paths to
  devices; a device may refuse to open, report no size, fail reads and writes by
  offset, tear a write, or keep other bytes than it was given.
\<close>

named_theorems io_simps \<open>unfolding the device operations\<close>

subsection \<open>Devices\<close>

record disk =
  content :: bytes
  block_dev :: bool
  open_fault :: "io_kind option"
  size_fault :: "io_kind option"
  read_fault :: "nat \<Rightarrow> nat \<Rightarrow> io_kind option"
  write_fault :: "nat \<Rightarrow> nat \<Rightarrow> (io_kind \<times> nat) option"
  sync_fault :: "io_kind option"
  cache_fault :: "io_kind option"
  stored_as :: "nat \<Rightarrow> bytes \<Rightarrow> bytes"

type_synonym disks = "path \<rightharpoonup> disk"

definition file_open :: "disks \<Rightarrow> path \<Rightarrow> io_kind + disk" where
  "file_open w p =
     (case w p of None \<Rightarrow> Inl NotFound
      | Some d \<Rightarrow> (case open_fault d of Some e \<Rightarrow> Inl e | None \<Rightarrow> Inr d))"

definition device_size :: "disk \<Rightarrow> io_kind + nat" where
  "device_size d = (case size_fault d of Some e \<Rightarrow> Inl e | None \<Rightarrow> Inr (length (content d)))"

text \<open>\<open>seek\<close> then \<open>read_exact\<close>.\<close>

definition read_exact_at :: "disk \<Rightarrow> nat \<Rightarrow> nat \<Rightarrow> io_kind + bytes" where
  "read_exact_at d off n =
     (case read_fault d off n of Some e \<Rightarrow> Inl e
      | None \<Rightarrow>
        if off + n \<le> length (content d) then Inr (take n (drop off (content d)))
        else Inl UnexpectedEof)"

text \<open>Bytes at \<open>off\<close> replaced; a gap before \<open>off\<close> reads as zeros (regular files grow).\<close>

definition overwrite :: "bytes \<Rightarrow> nat \<Rightarrow> bytes \<Rightarrow> bytes" where
  "overwrite c off bs =
     take off (c @ zeros (off - length c)) @ bs @ drop (off + length bs) c"

text \<open>
  \<open>seek\<close> then \<open>write_all\<close>: a fault stores a prefix and fails; a block device does not grow
  (ENOSPC after the bytes that fit).
\<close>

definition write_all_at :: "disk \<Rightarrow> nat \<Rightarrow> bytes \<Rightarrow> disk \<times> (io_kind + unit)" where
  "write_all_at d off bs =
     (let put = (\<lambda>x. d\<lparr>content := overwrite (content d) off (stored_as d off x)\<rparr>)
      in case write_fault d off (length bs) of
           Some (e, k) \<Rightarrow> (put (take k bs), Inl e)
         | None \<Rightarrow>
           if block_dev d \<and> length (content d) < off + length bs
           then (put (take (length (content d) - off) bs), Inl (OsError 28))
           else (put bs, Inr ()))"

subsection \<open>Stripe reads and writes\<close>

record stripe_chunks =
  other_data :: "(nat \<times> bytes) list"
  chunk_p :: "bytes option"
  chunk_q :: "bytes option"

definition read_block_or_zeros :: "array_config \<Rightarrow> disks \<Rightarrow> path \<Rightarrow> nat \<Rightarrow> nat \<Rightarrow> io_kind + bytes" where
  "read_block_or_zeros cfg w dev array_phys block_size =
     (let raw = add64 array_phys (raw_offset_for cfg dev)
      in case file_open w dev of Inl e \<Rightarrow> Inl e
         | Inr f \<Rightarrow>
           (case device_size f of Inl e \<Rightarrow> Inl e
            | Inr sz \<Rightarrow>
              if sz \<le> raw then Inr (zeros block_size)
              else let available = min (sz - raw) block_size
                in (case read_exact_at f raw available of Inl e \<Rightarrow> Inl e
                    | Inr buf \<Rightarrow> Inr (buf @ zeros (block_size - available)))))"

fun gather_data ::
  "array_config \<Rightarrow> disks \<Rightarrow> nat \<Rightarrow> nat \<Rightarrow> nat \<Rightarrow> (nat \<times> path) list \<Rightarrow> io_kind + (nat \<times> bytes) list" where
  "gather_data cfg w failing array_phys block_size [] = Inr []"
| "gather_data cfg w failing array_phys block_size ((slot, dev) # rest) =
     (if slot = failing then gather_data cfg w failing array_phys block_size rest
      else case read_block_or_zeros cfg w dev array_phys block_size of Inl e \<Rightarrow> Inl e
        | Inr block \<Rightarrow>
          map_sum id (\<lambda>l. (slot, block) # l) (gather_data cfg w failing array_phys block_size rest))"

definition gather_parity ::
  "array_config \<Rightarrow> disks \<Rightarrow> nat \<Rightarrow> nat \<Rightarrow> path option \<Rightarrow> io_kind + bytes option" where
  "gather_parity cfg w array_phys block_size par =
     (case par of None \<Rightarrow> Inr None
      | Some dev \<Rightarrow> map_sum id Some (read_block_or_zeros cfg w dev array_phys block_size))"

definition gather_stripe ::
  "array_config \<Rightarrow> disks \<Rightarrow> nat \<Rightarrow> nat \<Rightarrow> nat \<Rightarrow> io_kind + stripe_chunks" where
  "gather_stripe cfg w failing array_phys block_size =
     (case gather_data cfg w failing array_phys block_size (data_devs cfg) of Inl e \<Rightarrow> Inl e
      | Inr others \<Rightarrow>
        (case gather_parity cfg w array_phys block_size (parity_p cfg) of Inl e \<Rightarrow> Inl e
         | Inr p \<Rightarrow>
           (case gather_parity cfg w array_phys block_size (parity_q cfg) of Inl e \<Rightarrow> Inl e
            | Inr q \<Rightarrow> Inr \<lparr>other_data = others, chunk_p = p, chunk_q = q\<rparr>)))"

definition write_block ::
  "array_config \<Rightarrow> disks \<Rightarrow> path \<Rightarrow> nat \<Rightarrow> bytes \<Rightarrow> disks \<times> (io_kind + unit)" where
  "write_block cfg w dev array_phys data =
     (let raw = add64 array_phys (raw_offset_for cfg dev)
      in case file_open w dev of Inl e \<Rightarrow> (w, Inl e)
         | Inr f \<Rightarrow>
           (case write_all_at f raw data of
              (f', Inl e) \<Rightarrow> (w(dev \<mapsto> f'), Inl e)
            | (f', Inr _) \<Rightarrow>
                (w(dev \<mapsto> f'), case sync_fault f of Some e \<Rightarrow> Inl e | None \<Rightarrow> Inr ())))"

subsection \<open>Parity syndromes\<close>

text \<open>The block a slot contributes: the override, or what its disk holds.\<close>

definition parity_source ::
  "array_config \<Rightarrow> disks \<Rightarrow> (nat \<times> bytes) option \<Rightarrow> nat \<Rightarrow> nat \<Rightarrow> nat \<Rightarrow> path \<Rightarrow> io_kind + bytes" where
  "parity_source cfg w override array_phys block_size slot dev =
     (case override of
        Some (s, b) \<Rightarrow> if slot = s then Inr b else read_block_or_zeros cfg w dev array_phys block_size
      | None \<Rightarrow> read_block_or_zeros cfg w dev array_phys block_size)"

fun p_loop ::
  "array_config \<Rightarrow> disks \<Rightarrow> (nat \<times> bytes) option \<Rightarrow> nat \<Rightarrow> nat \<Rightarrow> bytes \<Rightarrow> (nat \<times> path) list \<Rightarrow> io_kind + bytes" where
  "p_loop cfg w override array_phys block_size p [] = Inr p"
| "p_loop cfg w override array_phys block_size p ((slot, dev) # rest) =
     (case parity_source cfg w override array_phys block_size slot dev of
        Inl e \<Rightarrow> Inl e
      | Inr block \<Rightarrow> p_loop cfg w override array_phys block_size (xor_inplace p block) rest)"

fun q_loop ::
  "array_config \<Rightarrow> disks \<Rightarrow> (nat \<times> bytes) option \<Rightarrow> nat \<Rightarrow> nat \<Rightarrow> bytes \<Rightarrow> (nat \<times> path) list \<Rightarrow> io_kind + bytes" where
  "q_loop cfg w override array_phys block_size q [] = Inr q"
| "q_loop cfg w override array_phys block_size q ((slot, dev) # rest) =
     (case parity_source cfg w override array_phys block_size slot dev of
        Inl e \<Rightarrow> Inl e
      | Inr block \<Rightarrow>
          q_loop cfg w override array_phys block_size
            (gf_mul_xor_inplace q block (gf_exp (slot_exponent slot))) rest)"

definition compute_p :: "array_config \<Rightarrow> disks \<Rightarrow> nat \<Rightarrow> nat \<Rightarrow> io_kind + bytes" where
  "compute_p cfg w array_phys block_size =
     p_loop cfg w None array_phys block_size (zeros block_size) (data_devs cfg)"

definition compute_p_with_override ::
  "array_config \<Rightarrow> disks \<Rightarrow> nat \<Rightarrow> bytes \<Rightarrow> nat \<Rightarrow> nat \<Rightarrow> io_kind + bytes" where
  "compute_p_with_override cfg w override_slot override_block array_phys block_size =
     p_loop cfg w (Some (override_slot, override_block)) array_phys block_size
       (zeros block_size) (data_devs cfg)"

definition compute_q :: "array_config \<Rightarrow> disks \<Rightarrow> nat \<Rightarrow> nat \<Rightarrow> io_kind + bytes" where
  "compute_q cfg w array_phys block_size =
     q_loop cfg w None array_phys block_size (zeros block_size) (data_devs cfg)"

definition compute_q_with_override ::
  "array_config \<Rightarrow> disks \<Rightarrow> nat \<Rightarrow> bytes \<Rightarrow> nat \<Rightarrow> nat \<Rightarrow> io_kind + bytes" where
  "compute_q_with_override cfg w override_slot override_block array_phys block_size =
     q_loop cfg w (Some (override_slot, override_block)) array_phys block_size
       (zeros block_size) (data_devs cfg)"

subsection \<open>The parity canary\<close>

definition reconstruct_block ::
  "array_config \<Rightarrow> disks \<Rightarrow> nat \<Rightarrow> nat \<Rightarrow> nat \<Rightarrow> (io_kind + bytes) run" where
  "reconstruct_block cfg w failing array_phys block_size =
     (case gather_stripe cfg w failing array_phys block_size of Inl e \<Rightarrow> Ret (Inl e)
      | Inr chunks \<Rightarrow>
        (case chunk_p chunks of None \<Rightarrow> Ret (Inl NotFound)
         | Some p \<Rightarrow>
           run_bind (recover_via_p (zeros block_size) (other_data chunks) p block_size)
             (\<lambda>b. Ret (Inr b))))"

subsection \<open>Reads\<close>

lemma read_exact_at_length: "read_exact_at d off n = Inr b \<Longrightarrow> length b = n"
  by (auto simp: read_exact_at_def split: option.splits if_splits)

lemma read_block_length:
  "read_block_or_zeros cfg w dev a n = Inr b \<Longrightarrow> length b = n"
  by (auto simp: read_block_or_zeros_def Let_def split: sum.splits if_splits dest: read_exact_at_length)

text \<open>The array-space view of a device: its bytes from the rdev offset on, zeros beyond the end.\<close>

definition array_byte :: "array_config \<Rightarrow> disks \<Rightarrow> path \<Rightarrow> nat \<Rightarrow> byte" where
  "array_byte cfg w dev i =
     (case w dev of None \<Rightarrow> 0
      | Some d \<Rightarrow> (let j = i + raw_offset_for cfg dev
                  in if j < length (content d) then content d ! j else 0))"

lemma read_block_cases:
  assumes "read_block_or_zeros cfg w dev a n = Inr b"
  obtains d where "w dev = Some d" "open_fault d = None"
    "b = take n (drop (add64 a (raw_offset_for cfg dev)) (content d)) @
       zeros (n - (length (content d) - add64 a (raw_offset_for cfg dev)))"
proof -
  obtain d where w: "w dev = Some d"
    using assms by (cases "w dev") (simp_all add: read_block_or_zeros_def file_open_def Let_def)
  have op: "open_fault d = None"
    using assms w by (cases "open_fault d") (simp_all add: read_block_or_zeros_def file_open_def Let_def)
  have "size_fault d = None"
    using assms w op
    by (cases "size_fault d") (simp_all add: read_block_or_zeros_def file_open_def device_size_def Let_def)
  note d = w op this
  let ?raw = "add64 a (raw_offset_for cfg dev)" and ?sz = "length (content d)"
  have "b = take n (drop ?raw (content d)) @ zeros (n - (?sz - ?raw))"
  proof (cases "?sz \<le> ?raw")
    case True
    with assms d show ?thesis
      by (simp add: read_block_or_zeros_def file_open_def device_size_def)
  next
    case False
    with assms d obtain buf where "read_exact_at d ?raw (min (?sz - ?raw) n) = Inr buf"
        and b: "b = buf @ zeros (n - min (?sz - ?raw) n)"
      by (cases "read_exact_at d ?raw (min (?sz - ?raw) n)")
        (simp_all add: read_block_or_zeros_def file_open_def device_size_def)
    then have "buf = take (min (?sz - ?raw) n) (drop ?raw (content d))"
      by (simp add: read_exact_at_def split: option.splits if_splits)
    with b have "b = take (min (?sz - ?raw) n) (drop ?raw (content d)) @ zeros (n - min (?sz - ?raw) n)"
      by simp
    also have "take (min (?sz - ?raw) n) (drop ?raw (content d)) = take n (drop ?raw (content d))"
      by (simp add: min_def)
    also have "n - min (?sz - ?raw) n = n - (?sz - ?raw)" by simp
    finally show ?thesis .
  qed
  with d that show thesis by blast
qed

lemma read_block_nth:
  assumes "read_block_or_zeros cfg w dev a n = Inr b" "a + raw_offset_for cfg dev + n \<le> 2 ^ 64" "i < n"
  shows "b ! i = array_byte cfg w dev (a + i)"
proof -
  from assms(1) obtain d where d: "w dev = Some d" "b = take n (drop (add64 a (raw_offset_for cfg dev)) (content d)) @
       zeros (n - (length (content d) - add64 a (raw_offset_for cfg dev)))"
    by (rule read_block_cases)
  have raw: "add64 a (raw_offset_for cfg dev) = a + raw_offset_for cfg dev" using assms(2,3) by simp
  define r where "r = a + raw_offset_for cfg dev"
  have "array_byte cfg w dev (a + i) = (if r + i < length (content d) then content d ! (r + i) else 0)"
    using d(1) by (simp add: array_byte_def r_def Let_def add.commute add.left_commute)
  moreover have "b = take n (drop r (content d)) @ zeros (n - (length (content d) - r))"
    using d(2) raw by (simp add: r_def)
  ultimately show ?thesis using assms(3) by (auto simp: nth_append)
qed

lemma gather_data_slots:
  "gather_data cfg w k a n devs = Inr os \<Longrightarrow> map fst os = filter (\<lambda>s. s \<noteq> k) (map fst devs)"
  by (induction cfg w k a n devs arbitrary: os rule: gather_data.induct)
    (auto split: if_splits sum.splits simp: map_sum_def)

lemma gather_data_lengths: "gather_data cfg w k a n devs = Inr os \<Longrightarrow> lengths_ok n os"
  by (induction cfg w k a n devs arbitrary: os rule: gather_data.induct)
    (auto split: if_splits sum.splits simp: map_sum_def dest: read_block_length)

lemma gather_parity_length:
  "gather_parity cfg w a n par = Inr q \<Longrightarrow> (\<forall>b. q = Some b \<longrightarrow> length b = n) \<and> (q = None \<longleftrightarrow> par = None)"
  by (auto simp: gather_parity_def map_sum_def split: option.splits sum.splits dest: read_block_length)

lemma gather_stripe_shape:
  assumes "gather_stripe cfg w k a n = Inr ch"
  shows "gather_data cfg w k a n (data_devs cfg) = Inr (other_data ch)"
    and "gather_parity cfg w a n (parity_p cfg) = Inr (chunk_p ch)"
    and "gather_parity cfg w a n (parity_q cfg) = Inr (chunk_q ch)"
  using assms by (auto simp: gather_stripe_def split: sum.splits)

text \<open>Slots of an array the engine can handle: in ascending order, from 1 to 255.\<close>

definition slots_ok :: "array_config \<Rightarrow> bool" where
  "slots_ok cfg \<longleftrightarrow> bt_ok (data_devs cfg) \<and> (\<forall>s \<in> fst ` set (data_devs cfg). 1 \<le> s \<and> s \<le> 255)"

lemma gather_stripe_ok:
  assumes "gather_stripe cfg w k a n = Inr ch" "slots_ok cfg" "1 \<le> k" "k \<le> 255"
  shows "stripe_ok n k (other_data ch)"
proof -
  note sh = gather_stripe_shape(1) [OF assms(1)]
  have "distinct (map fst (other_data ch))"
    using assms(2) gather_data_slots [OF sh] by (simp add: slots_ok_def bt_ok_distinct)
  moreover have "set (map fst (other_data ch)) = fst ` set (data_devs cfg) - {k}"
    using gather_data_slots [OF sh] by auto
  ultimately show ?thesis
    using assms gather_data_lengths [OF sh] by (auto simp: stripe_ok_def slots_ok_def simp del: set_map)
qed

subsection \<open>Computed parity is consistent parity\<close>

text \<open>\<open>d\<close> is the block that slot \<open>k\<close> contributes, every other slot contributes what its disk holds.\<close>

definition contributes ::
  "array_config \<Rightarrow> disks \<Rightarrow> (nat \<times> bytes) option \<Rightarrow> nat \<Rightarrow> nat \<Rightarrow> nat \<Rightarrow> bytes \<Rightarrow> (nat \<times> path) list \<Rightarrow> bool" where
  "contributes cfg w ov a n k d devs \<longleftrightarrow>
     (\<forall>(s, dev) \<in> set devs. (s = k \<longrightarrow> parity_source cfg w ov a n s dev = Inr d) \<and>
        (s \<noteq> k \<longrightarrow> parity_source cfg w ov a n s dev = read_block_or_zeros cfg w dev a n))"

lemma p_loop_column:
  assumes "p_loop cfg w ov a n acc devs = Inr p" "gather_data cfg w k a n devs = Inr os"
    and "contributes cfg w ov a n k d devs" "distinct (map fst devs)" "length acc = n" "length d = n" "i < n"
  shows "p ! i = acc ! i XOR (if k \<in> fst ` set devs then d ! i else 0) XOR p_column os i"
  using assms
proof (induction devs arbitrary: acc os)
  case (Cons x devs)
  obtain s dev where x: "x = (s, dev)" by (cases x)
  have cb: "contributes cfg w ov a n k d devs" using Cons.prems(3) by (simp add: contributes_def)
  show ?case
  proof (cases "s = k")
    case True
    with Cons.prems x have "p_loop cfg w ov a n (xor_inplace acc d) devs = Inr p"
        "gather_data cfg w k a n devs = Inr os" "k \<notin> fst ` set devs"
      by (auto simp: contributes_def)
    from Cons.IH [OF this(1,2) cb] this(3) Cons.prems x True show ?thesis
      by (simp add: xor_inplace_nth xor.assoc)
  next
    case False
    with Cons.prems(2) x obtain b os' where b: "read_block_or_zeros cfg w dev a n = Inr b"
        "gather_data cfg w k a n devs = Inr os'" "os = (s, b) # os'"
      by (auto split: sum.splits simp: map_sum_def)
    moreover have "parity_source cfg w ov a n s dev = Inr b"
      using Cons.prems(3) x False b(1) by (simp add: contributes_def)
    ultimately have "p_loop cfg w ov a n (xor_inplace acc b) devs = Inr p" "length b = n"
      using Cons.prems(1) x by (simp_all add: read_block_length [OF b(1)])
    from Cons.IH [OF this(1) b(2) cb] this(2) Cons.prems x False b(3) show ?thesis
      by (simp add: xor_inplace_nth p_column_def byte_ops)
  qed
qed (simp add: p_column_def)

lemma q_loop_column:
  assumes "q_loop cfg w ov a n acc devs = Inr q" "gather_data cfg w k a n devs = Inr os"
    and "contributes cfg w ov a n k d devs" "distinct (map fst devs)" "length acc = n" "length d = n" "i < n"
  shows "q ! i = acc ! i XOR (if k \<in> fst ` set devs then gf_mul (gf_exp (slot_exponent k)) (d ! i) else 0)
     XOR q_column os i"
  using assms
proof (induction devs arbitrary: acc os)
  case (Cons x devs)
  obtain s dev where x: "x = (s, dev)" by (cases x)
  have cb: "contributes cfg w ov a n k d devs" using Cons.prems(3) by (simp add: contributes_def)
  show ?case
  proof (cases "s = k")
    case True
    with Cons.prems x
    have "q_loop cfg w ov a n (gf_mul_xor_inplace acc d (gf_exp (slot_exponent k))) devs = Inr q"
        "gather_data cfg w k a n devs = Inr os" "k \<notin> fst ` set devs"
      by (auto simp: contributes_def)
    from Cons.IH [OF this(1,2) cb] this(3) Cons.prems x True show ?thesis
      by (simp add: gf_mul_xor_inplace_nth xor.assoc)
  next
    case False
    with Cons.prems(2) x obtain b os' where b: "read_block_or_zeros cfg w dev a n = Inr b"
        "gather_data cfg w k a n devs = Inr os'" "os = (s, b) # os'"
      by (auto split: sum.splits simp: map_sum_def)
    moreover have "parity_source cfg w ov a n s dev = Inr b"
      using Cons.prems(3) x False b(1) by (simp add: contributes_def)
    ultimately have "q_loop cfg w ov a n (gf_mul_xor_inplace acc b (gf_exp (slot_exponent s))) devs = Inr q"
        "length b = n"
      using Cons.prems(1) x by (simp_all add: read_block_length [OF b(1)])
    from Cons.IH [OF this(1) b(2) cb] this(2) Cons.prems x False b(3) show ?thesis
      by (simp add: gf_mul_xor_inplace_nth q_column_def byte_ops)
  qed
qed (simp add: q_column_def)

lemma p_loop_length: "p_loop cfg w ov a n acc devs = Inr p \<Longrightarrow> length p = length acc"
  by (induction devs arbitrary: acc) (auto split: sum.splits)

lemma q_loop_length: "q_loop cfg w ov a n acc devs = Inr q \<Longrightarrow> length q = length acc"
  by (induction devs arbitrary: acc) (auto split: sum.splits)

lemma contributes_read:
  assumes "slots_ok cfg" "data_dev cfg k = Some dev" "read_block_or_zeros cfg w dev a n = Inr d"
  shows "contributes cfg w None a n k d (data_devs cfg)"
proof -
  have "distinct (map fst (data_devs cfg))" using assms(1) by (simp add: slots_ok_def bt_ok_distinct)
  then have "s = dev" if "(k, s) \<in> set (data_devs cfg)" for s
    using assms(2) that by (simp add: data_dev_def)
  with assms(3) show ?thesis by (auto simp: contributes_def parity_source_def)
qed

lemma contributes_override: "contributes cfg w (Some (k, d)) a n k d devs"
  by (auto simp: contributes_def parity_source_def)

lemma data_dev_slot: "data_dev cfg k = Some dev \<Longrightarrow> k \<in> fst ` set (data_devs cfg)"
  by (auto simp: data_dev_def dest!: map_of_SomeD intro: rev_image_eqI)

lemma data_devs_distinct: "slots_ok cfg \<Longrightarrow> distinct (map fst (data_devs cfg))"
  by (simp add: slots_ok_def bt_ok_distinct)

lemma compute_p_consistent:
  assumes "compute_p cfg w a n = Inr s" "slots_ok cfg" "data_dev cfg k = Some dev"
    and "read_block_or_zeros cfg w dev a n = Inr d" "gather_data cfg w k a n (data_devs cfg) = Inr os"
  shows "p_consistent n d os s"
proof -
  have loop: "p_loop cfg w None a n (zeros n) (data_devs cfg) = Inr s"
    using assms(1) by (simp add: compute_p_def)
  show ?thesis
    using p_loop_column [OF loop assms(5) contributes_read [OF assms(2,3,4)] data_devs_distinct [OF assms(2)] length_zeros read_block_length [OF assms(4)]]
      p_loop_length [OF loop] data_dev_slot [OF assms(3)]
    by (simp add: p_consistent_def)
qed

lemma compute_q_consistent:
  assumes "compute_q cfg w a n = Inr s" "slots_ok cfg" "data_dev cfg k = Some dev"
    and "read_block_or_zeros cfg w dev a n = Inr d" "gather_data cfg w k a n (data_devs cfg) = Inr os"
  shows "q_consistent n k d os s"
proof -
  have loop: "q_loop cfg w None a n (zeros n) (data_devs cfg) = Inr s"
    using assms(1) by (simp add: compute_q_def)
  show ?thesis
    using q_loop_column [OF loop assms(5) contributes_read [OF assms(2,3,4)] data_devs_distinct [OF assms(2)] length_zeros read_block_length [OF assms(4)]]
      q_loop_length [OF loop] data_dev_slot [OF assms(3)]
    by (simp add: q_consistent_def)
qed

lemma compute_p_override_consistent:
  assumes "compute_p_with_override cfg w k d a n = Inr s" "slots_ok cfg" "data_dev cfg k = Some dev"
    and "length d = n" "gather_data cfg w k a n (data_devs cfg) = Inr os"
  shows "p_consistent n d os s"
proof -
  have loop: "p_loop cfg w (Some (k, d)) a n (zeros n) (data_devs cfg) = Inr s"
    using assms(1) by (simp add: compute_p_with_override_def)
  show ?thesis
    using p_loop_column [OF loop assms(5) contributes_override data_devs_distinct [OF assms(2)] length_zeros assms(4)]
      p_loop_length [OF loop] data_dev_slot [OF assms(3)]
    by (simp add: p_consistent_def)
qed

lemma compute_q_override_consistent:
  assumes "compute_q_with_override cfg w k d a n = Inr s" "slots_ok cfg" "data_dev cfg k = Some dev"
    and "length d = n" "gather_data cfg w k a n (data_devs cfg) = Inr os"
  shows "q_consistent n k d os s"
proof -
  have loop: "q_loop cfg w (Some (k, d)) a n (zeros n) (data_devs cfg) = Inr s"
    using assms(1) by (simp add: compute_q_with_override_def)
  show ?thesis
    using q_loop_column [OF loop assms(5) contributes_override data_devs_distinct [OF assms(2)] length_zeros assms(4)]
      q_loop_length [OF loop] data_dev_slot [OF assms(3)]
    by (simp add: q_consistent_def)
qed

subsection \<open>The block-store interface\<close>

text \<open>
  What a client of the stripe layer relies on when it writes a block and reads it back:
  reads have the asked length, a write changes no other store, and on an honest device a
  completed write is what the next read of that block returns.
\<close>

locale block_store =
  fixes rd :: "'w \<Rightarrow> 'd \<Rightarrow> nat \<Rightarrow> nat \<Rightarrow> 'e + bytes"
    and wr :: "'w \<Rightarrow> 'd \<Rightarrow> nat \<Rightarrow> bytes \<Rightarrow> 'w \<times> ('e + unit)"
    and honest :: "'w \<Rightarrow> 'd \<Rightarrow> bool"
  assumes rd_length: "rd w d a n = Inr b \<Longrightarrow> length b = n"
    and wr_frame: "d' \<noteq> d \<Longrightarrow> rd (fst (wr w d a bs)) d' a' n = rd w d' a' n"
    and rd_wr: "honest w d \<Longrightarrow> wr w d a bs = (w', Inr ()) \<Longrightarrow> rd w' d a (length bs) = Inr bs"
    and wr_honest: "honest w d' \<Longrightarrow> honest (fst (wr w d a bs)) d'"
begin

text \<open>A verified block that an honest device accepted passes the read-back.\<close>

lemma readback:
  assumes "honest w d" "wr w d a bs = (w', Inr ())" "verify bs" "length bs = n"
  shows "\<exists>b. rd w' d a n = Inr b \<and> verify b"
  using rd_wr [OF assms(1,2)] assms(3,4) by auto

text \<open>A read-back that returns other bytes convicts the device.\<close>

lemma readback_mismatch_dishonest:
  assumes "wr w d a bs = (w', Inr ())" "length bs = n" "rd w' d a n \<noteq> Inr bs"
  shows "\<not> honest w d"
  using rd_wr [of w d a bs w'] assms by auto

end

definition honest_disk :: "disk \<Rightarrow> bool" where
  "honest_disk d \<longleftrightarrow> open_fault d = None \<and> size_fault d = None \<and>
     (\<forall>off n. read_fault d off n = None) \<and> (\<forall>off b. stored_as d off b = b)"

definition honest_at :: "disks \<Rightarrow> path \<Rightarrow> bool" where
  "honest_at w dev \<longleftrightarrow> (\<exists>d. w dev = Some d \<and> honest_disk d)"

text \<open>A fault-free regular file.\<close>

definition plain_disk :: "bytes \<Rightarrow> disk" where
  "plain_disk bs = \<lparr>content = bs, block_dev = False, open_fault = None, size_fault = None,
     read_fault = (\<lambda>_ _. None), write_fault = (\<lambda>_ _. None), sync_fault = None, cache_fault = None,
     stored_as = (\<lambda>_ b. b)\<rparr>"

lemma honest_plain_disk [simp]: "honest_disk (plain_disk bs)"
  by (simp add: honest_disk_def plain_disk_def)

lemma overwrite_read: "take (length bs) (drop off (overwrite c off bs)) = bs"
  by (simp add: overwrite_def zeros_def)

lemma overwrite_length: "length (overwrite c off bs) = max (length c) (off + length bs)"
  by (auto simp: overwrite_def zeros_def max_def)

lemma write_block_other:
  "dev' \<noteq> dev \<Longrightarrow> fst (write_block cfg w dev a bs) dev' = w dev'"
  by (auto simp: write_block_def Let_def split: sum.splits prod.splits)

lemma read_block_cong: "w dev = w' dev \<Longrightarrow> read_block_or_zeros cfg w dev a n = read_block_or_zeros cfg w' dev a n"
  by (simp add: read_block_or_zeros_def file_open_def)

lemma write_block_OkE:
  assumes "write_block cfg w dev a bs = (w', Inr ())"
  obtains d where "w dev = Some d" "open_fault d = None"
    "w' = w(dev \<mapsto> d\<lparr>content := overwrite (content d) (add64 a (raw_offset_for cfg dev))
       (stored_as d (add64 a (raw_offset_for cfg dev)) bs)\<rparr>)"
  using assms
  by (auto simp: write_block_def write_all_at_def file_open_def Let_def
      split: option.splits sum.splits prod.splits if_splits)

lemma write_block_honest: "honest_at w dev' \<Longrightarrow> honest_at (fst (write_block cfg w dev a bs)) dev'"
  by (auto simp: write_block_def write_all_at_def file_open_def Let_def honest_at_def honest_disk_def
      split: option.splits sum.splits prod.splits if_splits)

lemma read_write_block:
  assumes "honest_at w dev" "write_block cfg w dev a bs = (w', Inr ())"
  shows "read_block_or_zeros cfg w' dev a (length bs) = Inr bs"
proof -
  let ?raw = "add64 a (raw_offset_for cfg dev)"
  from assms(2) obtain d where d: "w dev = Some d"
    "w' = w(dev \<mapsto> d\<lparr>content := overwrite (content d) ?raw (stored_as d ?raw bs)\<rparr>)"
    by (rule write_block_OkE)
  with assms(1) have h: "honest_disk d" by (simp add: honest_at_def)
  then have w': "w' dev = Some (d\<lparr>content := overwrite (content d) ?raw bs\<rparr>)"
    using d by (simp add: honest_disk_def)
  show ?thesis
  proof (cases "bs = []")
    case True
    with w' h show ?thesis
      by (auto simp: read_block_or_zeros_def file_open_def device_size_def read_exact_at_def
          honest_disk_def zeros_def Let_def)
  next
    case False
    define c where "c = overwrite (content d) ?raw bs"
    have "length c = max (length (content d)) (?raw + length bs)" by (simp add: c_def overwrite_length)
    then have "min (length c - ?raw) (length bs) = length bs" "\<not> length c \<le> ?raw"
        "?raw + length bs \<le> length c"
      using False by (auto simp: max_def)
    moreover have "take (length bs) (drop ?raw c) = bs" by (simp add: c_def overwrite_read)
    ultimately show ?thesis
      using w' h
      by (simp add: read_block_or_zeros_def file_open_def device_size_def read_exact_at_def
          honest_disk_def Let_def zeros_def flip: c_def)
  qed
qed

interpretation stripe: block_store "read_block_or_zeros cfg" "write_block cfg" honest_at for cfg
proof
  fix w w' :: disks and d d' :: path and a a' n :: nat and b bs :: bytes
  show "read_block_or_zeros cfg w d a n = Inr b \<Longrightarrow> length b = n" by (rule read_block_length)
  show "d' \<noteq> d \<Longrightarrow> read_block_or_zeros cfg (fst (write_block cfg w d a bs)) d' a' n =
      read_block_or_zeros cfg w d' a' n"
    by (intro read_block_cong write_block_other)
  show "honest_at w d \<Longrightarrow> write_block cfg w d a bs = (w', Inr ()) \<Longrightarrow>
      read_block_or_zeros cfg w' d a (length bs) = Inr bs"
    by (rule read_write_block)
  show "honest_at w d' \<Longrightarrow> honest_at (fst (write_block cfg w d a bs)) d'"
    by (rule write_block_honest)
qed

subsection \<open>Reconstruction after damage to one disk\<close>

lemma gather_data_cong:
  "\<forall>(s, dev) \<in> set devs. s \<noteq> k \<longrightarrow> w dev = w0 dev \<Longrightarrow>
   gather_data cfg w k a n devs = gather_data cfg w0 k a n devs"
proof (induction devs)
  case (Cons x devs)
  then show ?case
    using read_block_cong [of w "snd x" w0 cfg a n] by (cases x) (auto split: sum.splits)
qed simp

text \<open>
  \<open>w0\<close> is the machine when parity was last in sync, \<open>w\<close> the machine now: only the disk
  of slot \<open>k\<close> changed, and P at this offset is the parity of \<open>w0\<close>.
\<close>

definition damaged_slot :: "array_config \<Rightarrow> disks \<Rightarrow> disks \<Rightarrow> nat \<Rightarrow> bool" where
  "damaged_slot cfg w0 w k \<longleftrightarrow> (\<forall>(s, dev) \<in> set (data_devs cfg). s \<noteq> k \<longrightarrow> w dev = w0 dev)"

lemma damaged_p_consistent:
  assumes "damaged_slot cfg w0 w k" "slots_ok cfg" "data_dev cfg k = Some dev"
    and "read_block_or_zeros cfg w0 dev a n = Inr d" "compute_p cfg w0 a n = Inr p"
    and "gather_stripe cfg w k a n = Inr ch"
  shows "p_consistent n d (other_data ch) p"
proof -
  have "gather_data cfg w0 k a n (data_devs cfg) = Inr (other_data ch)"
    using gather_stripe_shape(1) [OF assms(6)] gather_data_cong [of "data_devs cfg" k w w0 cfg a n] assms(1)
    by (simp add: damaged_slot_def)
  from compute_p_consistent [OF assms(5,2,3,4) this] show ?thesis .
qed

lemma damaged_q_consistent:
  assumes "damaged_slot cfg w0 w k" "slots_ok cfg" "data_dev cfg k = Some dev"
    and "read_block_or_zeros cfg w0 dev a n = Inr d" "compute_q cfg w0 a n = Inr q"
    and "gather_stripe cfg w k a n = Inr ch"
  shows "q_consistent n k d (other_data ch) q"
proof -
  have "gather_data cfg w0 k a n (data_devs cfg) = Inr (other_data ch)"
    using gather_stripe_shape(1) [OF assms(6)] gather_data_cong [of "data_devs cfg" k w w0 cfg a n] assms(1)
    by (simp add: damaged_slot_def)
  from compute_q_consistent [OF assms(5,2,3,4) this] show ?thesis .
qed

lemma reconstruct_block_correct:
  assumes "damaged_slot cfg w0 w k" "slots_ok cfg" "data_dev cfg k = Some dev"
    and "read_block_or_zeros cfg w0 dev a n = Inr d" "compute_p cfg w0 a n = Inr p"
    and "gather_stripe cfg w k a n = Inr ch" "chunk_p ch = Some p"
  shows "reconstruct_block cfg w k a n = Ret (Inr d)"
proof -
  have "lengths_ok n (other_data ch)"
    by (rule gather_data_lengths [OF gather_stripe_shape(1) [OF assms(6)]])
  then have "recover_via_p (zeros n) (other_data ch) p n = Ret d"
    using damaged_p_consistent [OF assms(1-6)] read_block_length [OF assms(4)]
    by (simp add: recover_via_p_correct)
  with assms show ?thesis by (simp add: reconstruct_block_def)
qed

subsection \<open>Properties\<close>

text \<open>The example of the witnesses: two data disks and P, blocks of two bytes.\<close>

definition demo_config :: array_config where
  "demo_config = \<lparr>data_devs = [(1, ''a''), (2, ''b'')], parity_p = Some ''p'', parity_q = None,
     rdev_offsets = Map.empty\<rparr>"

definition demo_disks :: "bytes \<Rightarrow> disks" where
  "demo_disks bs = [''a'' \<mapsto> plain_disk bs, ''b'' \<mapsto> plain_disk [4, 8], ''p'' \<mapsto> plain_disk [5, 10]]"

lemma demo_slots_ok: "slots_ok demo_config"
  by (simp add: slots_ok_def demo_config_def bt_ok_def)

lemmas demo_defs = demo_config_def demo_disks_def plain_disk_def
  read_block_or_zeros_def file_open_def device_size_def read_exact_at_def raw_offset_for_def add64_def

lemma demo_zeros: "zeros 2 = [0, 0]"
  by (simp add: zeros_def numeral_2_eq_2)

lemma demo_reads:
  "read_block_or_zeros demo_config (demo_disks bs) ''b'' 0 2 = Inr [4, 8]"
  "read_block_or_zeros demo_config (demo_disks bs) ''p'' 0 2 = Inr [5, 10]"
  "read_block_or_zeros demo_config (demo_disks [x, y]) ''a'' 0 2 = Inr [x, y]"
  by (simp_all add: demo_defs zeros_def)

lemma demo_gather:
  "gather_stripe demo_config (demo_disks bs) (Suc 0) 0 2 =
     Inr \<lparr>other_data = [(2, [4, 8])], chunk_p = Some [5, 10], chunk_q = None\<rparr>"
  using demo_reads by (simp add: gather_stripe_def gather_parity_def demo_config_def)

lemma demo_data_dev: "data_dev demo_config (Suc 0) = Some ''a''"
  by (simp add: data_dev_def demo_config_def)

lemma demo_damaged: "damaged_slot demo_config (demo_disks bs) (demo_disks bs') (Suc 0)"
  by (simp add: damaged_slot_def demo_config_def demo_disks_def)

lemma demo_compute_p: "compute_p demo_config (demo_disks [1, 2]) 0 2 = Inr [5, 10]"
  using demo_reads
  by (simp add: compute_p_def parity_source_def demo_config_def xor_inplace_def demo_zeros)

text \<open>the startup canary is sound: when the other data disks are as they were when P was computed
  and P at that offset is that parity, the canary reconstructs the block of the probed slot
  without reading it, whatever that disk holds now.\<close>

lemma canary_reconstructs:
  assumes "damaged_slot cfg w0 w k" "slots_ok cfg" "data_dev cfg k = Some dev"
    and "read_block_or_zeros cfg w0 dev a n = Inr d" "compute_p cfg w0 a n = Inr p"
    and "gather_stripe cfg w k a n = Inr ch" "chunk_p ch = Some p"
  shows "reconstruct_block cfg w k a n = Ret (Inr d)"
  by (rule reconstruct_block_correct [OF assms])

lemma canary_reconstructs_witness:
  "reconstruct_block demo_config (demo_disks []) (Suc 0) 0 2 = Ret (Inr [1, 2])"
  using canary_reconstructs [OF demo_damaged demo_slots_ok demo_data_dev demo_reads(3) demo_compute_p demo_gather]
  by simp

text \<open>the array-space view of a disk: a block read at an array offset holds, byte by byte, the
  device's bytes from that offset plus the disk's rdev offset on, and zeros past the end of the
  device; it has the asked length.\<close>

lemma read_block_view:
  assumes "read_block_or_zeros cfg w dev a n = Inr b" "a + raw_offset_for cfg dev + n \<le> 2 ^ 64"
  shows "b = map (\<lambda>i. array_byte cfg w dev (a + i)) [0..<n]"
  using read_block_length [OF assms(1)] read_block_nth [OF assms] by (intro nth_equalityI) simp_all

lemma read_block_view_witness:
  "map (\<lambda>i. array_byte demo_config (demo_disks [1, 2]) ''a'' (0 + i)) [0..<2] = [1, 2]"
  using read_block_view [OF demo_reads(3) [of 1 2]] by (simp add: demo_config_def raw_offset_for_def)

text \<open>computed parity is the parity the recovery engine expects: P and Q computed over the array's
  disks are consistent with the block of any data slot and the blocks of the other slots, also
  with one slot's block overridden.\<close>

lemma computed_parity_consistent:
  assumes "slots_ok cfg" "data_dev cfg k = Some dev" "read_block_or_zeros cfg w dev a n = Inr d"
    and "gather_data cfg w k a n (data_devs cfg) = Inr others"
  shows "(compute_p cfg w a n = Inr p \<longrightarrow> p_consistent n d others p) \<and>
    (compute_q cfg w a n = Inr q \<longrightarrow> q_consistent n k d others q) \<and>
    (length e = n \<and> compute_p_with_override cfg w k e a n = Inr p \<longrightarrow> p_consistent n e others p) \<and>
    (length e = n \<and> compute_q_with_override cfg w k e a n = Inr q \<longrightarrow> q_consistent n k e others q)"
  using compute_p_consistent [OF _ assms] compute_q_consistent [OF _ assms]
    compute_p_override_consistent [OF _ assms(1,2) _ assms(4)]
    compute_q_override_consistent [OF _ assms(1,2) _ assms(4)]
  by blast

lemma computed_parity_consistent_witness: "p_consistent 2 [1, 2] [(2, [4, 8])] [5, 10]"
  using computed_parity_consistent [OF demo_slots_ok demo_data_dev demo_reads(3)
      gather_stripe_shape(1) [OF demo_gather], where p = "[5, 10]"] demo_compute_p by simp

text \<open>read-back is meaningful: a block that an honest device accepted is what the next read of that
  offset returns, and no write disturbs what is read from another device.\<close>

lemma write_then_read:
  "(honest_at w dev \<and> write_block cfg w dev a bs = (w', Inr ()) \<longrightarrow>
      read_block_or_zeros cfg w' dev a (length bs) = Inr bs) \<and>
   (dev' \<noteq> dev \<longrightarrow> read_block_or_zeros cfg (fst (write_block cfg w dev a bs)) dev' a' n =
      read_block_or_zeros cfg w dev' a' n)"
  using stripe.rd_wr stripe.wr_frame by blast

lemma write_then_read_witness:
  "read_block_or_zeros demo_config (fst (write_block demo_config (demo_disks [9, 9]) ''a'' 0 [1, 2])) ''a'' 0 2 =
     Inr [1, 2]"
proof -
  have "honest_at (demo_disks [9, 9]) ''a''" by (simp add: honest_at_def demo_disks_def)
  moreover have "\<exists>w'. write_block demo_config (demo_disks [9, 9]) ''a'' 0 [1, 2] = (w', Inr ())"
    by (simp add: write_block_def write_all_at_def demo_defs)
  ultimately show ?thesis
    using write_then_read [of "demo_disks [9, 9]" "''a''" demo_config 0 "[1, 2]"]
    by (auto simp: numeral_2_eq_2)
qed

end
