(* ===== verification/Freeze.thy ===== *)
theory Freeze
  imports Array_Config
begin

text \<open>
  The freeze controller of \<open>src/scrub-rs/src/freeze.rs\<close> against a kernel that keeps which
  mounts are frozen. Every FIFREEZE and FITHAW may fail (\<open>ioctl_fault\<close> by call number);
  freezing a frozen mount is EBUSY and thawing one that is not frozen is EINVAL.
\<close>

datatype signal = SIGTERM | SIGINT

text \<open>
  The kernel's side and the process-wide statics: the mounts frozen, the ioctls so far and those that fail, \<open>ACTIVE_FREEZE_MOUNT\<close>,
  whether the panic hook is in place, whether the signal handlers were set up (each \<open>INSTALLED\<close> flag), which \<open>sigaction\<close> calls fail
  and which signals run the thaw handler.
\<close>

record kernel =
  kfrozen :: "path \<Rightarrow> bool"
  ioctl_count :: nat
  ioctl_fault :: "nat \<Rightarrow> io_kind option"
  active_mount :: "path option"
  panic_hook_set :: bool
  handlers_set :: bool
  sigaction_fault :: "signal \<Rightarrow> bool"
  thaw_handled :: "signal \<Rightarrow> bool"

record freeze_controller =
  mountpoint :: "path option"
  frozen :: bool
  last_thaw_error :: "io_kind option"

definition new_controller :: "path option \<Rightarrow> freeze_controller" where
  "new_controller m = \<lparr>mountpoint = m, frozen = False, last_thaw_error = None\<rparr>"

definition has_live_mount :: "freeze_controller \<Rightarrow> bool" where
  "has_live_mount fc \<longleftrightarrow> mountpoint fc \<noteq> None"

definition freeze_path :: "path \<Rightarrow> kernel \<Rightarrow> kernel \<times> (io_kind + unit)" where
  "freeze_path m k =
     (let k' = k\<lparr>ioctl_count := Suc (ioctl_count k)\<rparr>
      in case ioctl_fault k (ioctl_count k) of
           Some e \<Rightarrow> (k', Inl e)
         | None \<Rightarrow> if kfrozen k m then (k', Inl (OsError 16))
                   else (k'\<lparr>kfrozen := (kfrozen k)(m := True)\<rparr>, Inr ()))"

definition thaw_path :: "path \<Rightarrow> kernel \<Rightarrow> kernel \<times> (io_kind + unit)" where
  "thaw_path m k =
     (let k' = k\<lparr>ioctl_count := Suc (ioctl_count k)\<rparr>
      in case ioctl_fault k (ioctl_count k) of
           Some e \<Rightarrow> (k', Inl e)
         | None \<Rightarrow> if \<not> kfrozen k m then (k', Inl (OsError 22))
                   else (k'\<lparr>kfrozen := (kfrozen k)(m := False)\<rparr>, Inr ()))"

definition note_active_mount :: "path \<Rightarrow> kernel \<Rightarrow> kernel" where
  "note_active_mount m k = k\<lparr>active_mount := Some m\<rparr>"

definition clear_active_mount :: "kernel \<Rightarrow> kernel" where
  "clear_active_mount k = k\<lparr>active_mount := None\<rparr>"

text \<open>Both installations happen once; a \<open>sigaction\<close> that fails only leaves a warning.\<close>

definition install_panic_hook :: "kernel \<Rightarrow> kernel" where
  "install_panic_hook k = (if panic_hook_set k then k else k\<lparr>panic_hook_set := True\<rparr>)"

definition install_signal_handlers :: "kernel \<Rightarrow> kernel" where
  "install_signal_handlers k =
     (if handlers_set k then k
      else fold (\<lambda>sig k. if sigaction_fault k sig then k else k\<lparr>thaw_handled := (thaw_handled k)(sig := True)\<rparr>)
             [SIGTERM, SIGINT] (k\<lparr>handlers_set := True\<rparr>))"

definition hooks_installed :: "kernel \<Rightarrow> bool" where
  "hooks_installed k \<longleftrightarrow> panic_hook_set k \<and> handlers_set k"

text \<open>
  \<open>guard\<close>: \<open>Inr True\<close> is \<open>Ok(Some(guard))\<close>, \<open>Inr False\<close> is \<open>Ok(None)\<close> (no live mount).
  The panic hook and the signal handlers are installed at the first success.
\<close>

definition guard :: "kernel \<times> freeze_controller \<Rightarrow> (kernel \<times> freeze_controller) \<times> (io_kind + bool)" where
  "guard s =
     (case s of (k, fc) \<Rightarrow>
        (case mountpoint fc of
           None \<Rightarrow> ((k, fc), Inr False)
         | Some m \<Rightarrow>
             (case freeze_path m k of
                (k', Inr _) \<Rightarrow>
                  ((install_signal_handlers (install_panic_hook (note_active_mount m k')), fc\<lparr>frozen := True\<rparr>), Inr True)
              | (k', Inl e) \<Rightarrow> ((k', fc), Inl e))))"

definition thaw :: "kernel \<times> freeze_controller \<Rightarrow> kernel \<times> freeze_controller" where
  "thaw s =
     (case s of (k, fc) \<Rightarrow>
        if \<not> frozen fc then (k, fc)
        else case mountpoint fc of
               Some m \<Rightarrow>
                 (case thaw_path m k of
                    (k', Inr _) \<Rightarrow> (clear_active_mount k', fc\<lparr>frozen := False\<rparr>)
                  | (k', Inl e) \<Rightarrow> (k', fc\<lparr>last_thaw_error := Some e\<rparr>))
             | None \<Rightarrow> (clear_active_mount k, fc\<lparr>frozen := False\<rparr>))"

definition take_thaw_error :: "freeze_controller \<Rightarrow> freeze_controller \<times> io_kind option" where
  "take_thaw_error fc = (fc\<lparr>last_thaw_error := None\<rparr>, last_thaw_error fc)"

text \<open>Dropping the guard, and dropping the controller, which retries a thaw that failed.\<close>

definition drop_guard :: "kernel \<times> freeze_controller \<Rightarrow> kernel \<times> freeze_controller" where
  "drop_guard s = thaw s"

definition drop_controller :: "kernel \<times> freeze_controller \<Rightarrow> kernel \<times> freeze_controller" where
  "drop_controller s = thaw s"

text \<open>What the panic hook and the signal handler do with an active freeze; the handler leaves the signal to its default action.\<close>

definition panic_hook :: "kernel \<Rightarrow> kernel" where
  "panic_hook k =
     (if \<not> panic_hook_set k then k
      else case active_mount k of None \<Rightarrow> k | Some m \<Rightarrow> fst (thaw_path m k))"

definition signal_thaw_handler :: "signal \<Rightarrow> kernel \<Rightarrow> kernel" where
  "signal_thaw_handler sig k =
     (let k1 = (case active_mount k of None \<Rightarrow> k
                | Some m \<Rightarrow> (case thaw_path m k of (k', Inr _) \<Rightarrow> clear_active_mount k' | (k', Inl _) \<Rightarrow> k'))
      in k1\<lparr>thaw_handled := (thaw_handled k1)(sig := False)\<rparr>)"

text \<open>
  The last steps of a process: a panic while a guard is held runs the hook, then unwinding drops the guard and the controller; a
  signal runs the handler where it is installed and ends the process.
\<close>

definition panic_unwind :: "kernel \<times> freeze_controller \<Rightarrow> kernel \<times> freeze_controller" where
  "panic_unwind s = drop_controller (drop_guard (panic_hook (fst s), snd s))"

definition deliver_signal :: "signal \<Rightarrow> kernel \<Rightarrow> kernel" where
  "deliver_signal sig k = (if thaw_handled k sig then signal_thaw_handler sig k else k)"

lemmas freeze_defs = guard_def thaw_def freeze_path_def thaw_path_def note_active_mount_def
  clear_active_mount_def take_thaw_error_def install_panic_hook_def install_signal_handlers_def hooks_installed_def Let_def

subsection \<open>The invariant of the controller\<close>

text \<open>
  A held freeze is on the declared mount, the kernel has it frozen and the last-resort
  handlers know it; without a held freeze the mount is not frozen by us.
\<close>

definition freeze_inv :: "kernel \<times> freeze_controller \<Rightarrow> bool" where
  "freeze_inv s \<longleftrightarrow>
     (case s of (k, fc) \<Rightarrow>
        (case mountpoint fc of
           None \<Rightarrow> \<not> frozen fc
         | Some m \<Rightarrow> (kfrozen k m \<longleftrightarrow> frozen fc) \<and>
                     (frozen fc \<longrightarrow> active_mount k = Some m \<and> hooks_installed k)))"

lemma guard_inv: "freeze_inv s \<Longrightarrow> guard s = (s', r) \<Longrightarrow> freeze_inv s'"
  by (auto simp: freeze_inv_def freeze_defs split: option.splits prod.splits if_splits sum.splits)

lemma thaw_inv: "freeze_inv s \<Longrightarrow> freeze_inv (thaw s)"
  by (auto simp: freeze_inv_def freeze_defs split: option.splits prod.splits if_splits sum.splits)

lemma guard_mountpoint: "guard s = (s', r) \<Longrightarrow> mountpoint (snd s') = mountpoint (snd s)"
  by (auto simp: freeze_defs split: option.splits prod.splits if_splits sum.splits)

lemma guard_frozen: "guard s = (s', Inr True) \<Longrightarrow> frozen (snd s') \<and> has_live_mount (snd s)"
  by (auto simp: freeze_defs has_live_mount_def split: option.splits prod.splits if_splits sum.splits)

lemma guard_none: "guard s = (s', Inr False) \<Longrightarrow> s' = s \<and> \<not> has_live_mount (snd s)"
  by (auto simp: freeze_defs has_live_mount_def split: option.splits prod.splits if_splits sum.splits)

lemma guard_error: "guard s = (s', Inl e) \<Longrightarrow> snd s' = snd s \<and> has_live_mount (snd s)"
  by (auto simp: freeze_defs has_live_mount_def split: option.splits prod.splits if_splits sum.splits)

text \<open>A thaw either releases the mount or leaves the error for the caller.\<close>

lemma thaw_outcome:
  assumes "freeze_inv s" "thaw s = (k', fc')" "mountpoint (snd s) = Some m"
  shows "\<not> kfrozen k' m \<and> \<not> frozen fc' \<or> frozen fc' \<and> last_thaw_error fc' \<noteq> None"
  using assms
  by (cases s) (auto simp: freeze_inv_def freeze_defs
      split: option.splits prod.splits if_splits sum.splits)

lemma thaw_mountpoint: "mountpoint (snd (thaw s)) = mountpoint (snd s)"
  by (auto simp: freeze_defs split: option.splits prod.splits if_splits sum.splits)

subsection \<open>Freeze and thaw steps\<close>

text \<open>
  The controller as a state machine: a guard is acquired, released, an error is taken,
  the process panics or is killed. The invariant holds for every sequence of the
  program's own steps; the panic and signal paths are the last step of a run.
\<close>

inductive freeze_step :: "kernel \<times> freeze_controller \<Rightarrow> kernel \<times> freeze_controller \<Rightarrow> bool" where
  step_guard: "guard s = (s', r) \<Longrightarrow> freeze_step s s'"
| step_thaw: "freeze_step s (thaw s)"
| step_take: "freeze_step (k, fc) (k, fst (take_thaw_error fc))"

inductive_cases freeze_stepE: "freeze_step s s'"

inductive freeze_reach :: "kernel \<times> freeze_controller \<Rightarrow> bool" where
  reach_init: "\<forall>m. mp = Some m \<longrightarrow> \<not> kfrozen k m \<Longrightarrow> \<not> handlers_set k \<Longrightarrow> freeze_reach (k, new_controller mp)"
| reach_step: "freeze_reach s \<Longrightarrow> freeze_step s s' \<Longrightarrow> freeze_reach s'"

lemma freeze_step_inv: "freeze_step s s' \<Longrightarrow> freeze_inv s \<Longrightarrow> freeze_inv s'"
proof (induction rule: freeze_step.induct)
  case (step_take k fc)
  then show ?case by (auto simp: freeze_inv_def take_thaw_error_def split: option.splits)
qed (auto intro: guard_inv thaw_inv)

lemma freeze_reach_inv: "freeze_reach s \<Longrightarrow> freeze_inv s"
proof (induction rule: freeze_reach.induct)
  case (reach_init mp k)
  then show ?case by (auto simp: freeze_inv_def new_controller_def split: option.splits)
qed (rule freeze_step_inv)

text \<open>Once set up, the thaw handler runs for every signal whose \<open>sigaction\<close> worked.\<close>

definition handlers_ok :: "kernel \<Rightarrow> bool" where
  "handlers_ok k \<longleftrightarrow> (handlers_set k \<longrightarrow> (\<forall>sig. sigaction_fault k sig \<or> thaw_handled k sig))"

lemma install_handlers_ok: "handlers_ok k \<Longrightarrow> handlers_ok (install_signal_handlers k)"
  by (auto simp: handlers_ok_def install_signal_handlers_def) (metis signal.exhaust)+

lemma handlers_ok_other:
  "thaw_path m k = (k', r) \<Longrightarrow> handlers_ok k' = handlers_ok k" "freeze_path m k = (k', r) \<Longrightarrow> handlers_ok k' = handlers_ok k"
  "handlers_ok (clear_active_mount k) = handlers_ok k" "handlers_ok (note_active_mount m k) = handlers_ok k"
  "handlers_ok (install_panic_hook k) = handlers_ok k"
  by (auto simp: handlers_ok_def thaw_path_def freeze_path_def clear_active_mount_def note_active_mount_def install_panic_hook_def Let_def
      split: option.splits if_splits)

lemma freeze_step_handlers: "freeze_step s s' \<Longrightarrow> handlers_ok (fst s) \<Longrightarrow> handlers_ok (fst s')"
proof (induction rule: freeze_step.induct)
  case (step_guard s s' r)
  then show ?case
    by (auto simp: guard_def handlers_ok_other install_handlers_ok split: prod.splits option.splits sum.splits)
next
  case (step_thaw s)
  then show ?case by (auto simp: thaw_def handlers_ok_other split: prod.splits option.splits sum.splits)
qed simp

lemma freeze_reach_handlers: "freeze_reach s \<Longrightarrow> handlers_ok (fst s)"
proof (induction rule: freeze_reach.induct)
  case (reach_step s s')
  then show ?case using freeze_step_handlers by blast
qed (simp add: handlers_ok_def)

text \<open>One FITHAW attempt on a mount that may be frozen: a later attempt can only help.\<close>

lemma thaw_path_attempt:
  assumes "thaw_path m k = (k', r)"
  shows "ioctl_count k' = Suc (ioctl_count k)" "ioctl_fault k' = ioctl_fault k" "\<not> kfrozen k m \<Longrightarrow> \<not> kfrozen k' m"
    "ioctl_fault k (ioctl_count k) = None \<Longrightarrow> \<not> kfrozen k' m"
  using assms by (auto simp: thaw_path_def Let_def split: option.splits if_splits)

lemma thaw_attempt:
  assumes "thaw (k, fc) = (k', fc')" "mountpoint fc = Some m"
  shows "\<not> kfrozen k m \<Longrightarrow> \<not> kfrozen k' m" "mountpoint fc' = Some m" "ioctl_fault k' = ioctl_fault k"
    "frozen fc' \<Longrightarrow> ioctl_count k' = Suc (ioctl_count k)"
    "frozen fc \<Longrightarrow> ioctl_fault k (ioctl_count k) = None \<Longrightarrow> \<not> kfrozen k' m"
    "frozen fc \<Longrightarrow> \<not> frozen fc' \<Longrightarrow> \<not> kfrozen k' m"
  using assms
  by (auto simp: thaw_def clear_active_mount_def thaw_path_def Let_def split: option.splits prod.splits sum.splits if_splits)

lemma panic_unwind_releases:
  assumes "freeze_inv (k, fc)" "mountpoint fc = Some m" "frozen fc" "i < 3" "ioctl_fault k (ioctl_count k + i) = None"
  shows "\<not> kfrozen (fst (panic_unwind (k, fc))) m"
proof -
  obtain k1 r where t: "thaw_path m k = (k1, r)" by (cases "thaw_path m k")
  have hook: "panic_hook k = k1" using assms(1-3) t by (simp add: freeze_inv_def panic_hook_def hooks_installed_def)
  obtain k2 fc2 where g: "thaw (k1, fc) = (k2, fc2)" by (cases "thaw (k1, fc)")
  obtain k3 fc3 where c: "thaw (k2, fc2) = (k3, fc3)" by (cases "thaw (k2, fc2)")
  note a = thaw_path_attempt [OF t] and b = thaw_attempt [OF g assms(2)]
  note d = thaw_attempt [OF c b(2)]
  have "\<not> kfrozen k3 m"
  proof (cases "\<not> kfrozen k2 m")
    case True
    then show ?thesis by (rule d(1))
  next
    case False
    then have "kfrozen k1 m" "frozen fc2" "ioctl_fault k1 (ioctl_count k1) \<noteq> None" using b(1,5,6) assms(3) by blast+
    moreover from this have "ioctl_fault k (ioctl_count k) \<noteq> None" using a(4) by blast
    ultimately have "i = 2" using assms(4,5) a(1,2) by (auto simp: less_Suc_eq numeral_3_eq_3)
    then show ?thesis using d(5) \<open>frozen fc2\<close> assms(5) a(1,2) b(3,4) by (simp add: numeral_2_eq_2)
  qed
  then show ?thesis by (simp add: panic_unwind_def drop_guard_def drop_controller_def hook g c)
qed

lemma signal_releases:
  assumes "freeze_inv (k, fc)" "handlers_ok k" "mountpoint fc = Some m" "frozen fc"
    and "\<not> sigaction_fault k sig" "ioctl_fault k (ioctl_count k) = None"
  shows "\<not> kfrozen (deliver_signal sig k) m"
  using assms
  by (auto simp: freeze_inv_def handlers_ok_def hooks_installed_def deliver_signal_def signal_thaw_handler_def thaw_path_def
      clear_active_mount_def Let_def)

text \<open>
  The hook runs for a panic of any thread: when another thread panics while the writer holds the freeze, the mount is thawed under
  the writer, whose controller still counts it frozen; the writer learns of it at the end of its batch, when its own thaw fails.
\<close>

lemma foreign_panic_unfreezes:
  assumes "freeze_inv (k, fc)" "mountpoint fc = Some m" "frozen fc" "ioctl_fault k (ioctl_count k) = None"
  shows "\<not> kfrozen (panic_hook k) m"
    and "last_thaw_error (snd (drop_guard (panic_hook k, fc))) \<noteq> None" "frozen (snd (drop_guard (panic_hook k, fc)))"
  using assms
  by (auto simp: freeze_inv_def panic_hook_def hooks_installed_def drop_guard_def thaw_def thaw_path_def Let_def split: option.splits)

subsection \<open>Properties\<close>

text \<open>C13: the freeze controller's state machine: from a mount that is not frozen, after any sequence of
  guards, thaws and error hand-overs with any pattern of failing ioctls, the controller believes
  the freeze is held exactly when the kernel has the mount frozen, and then the last-resort
  handlers are installed and know the mount; a controller without a mount never freezes.\<close>

theorem freeze_state_machine:
  assumes "freeze_reach (k, fc)"
  shows "(\<forall>m. mountpoint fc = Some m \<longrightarrow> (kfrozen k m \<longleftrightarrow> frozen fc) \<and>
      (frozen fc \<longrightarrow> active_mount k = Some m \<and> hooks_installed k)) \<and>
    (mountpoint fc = None \<longrightarrow> \<not> frozen fc)"
  using freeze_reach_inv [OF assms] by (auto simp: freeze_inv_def)

definition demo_kernel :: kernel where
  "demo_kernel = \<lparr>kfrozen = (\<lambda>_. False), ioctl_count = 0, ioctl_fault = (\<lambda>_. None),
     active_mount = None, panic_hook_set = False, handlers_set = False, sigaction_fault = (\<lambda>_. False), thaw_handled = (\<lambda>_. False)\<rparr>"

theorem freeze_state_machine_witness:
  "\<exists>k fc. guard (demo_kernel, new_controller (Some ''/mnt'')) = ((k, fc), Inr True) \<and>
     freeze_reach (k, fc) \<and> kfrozen k ''/mnt'' \<and> hooks_installed k"
proof -
  obtain k fc where g: "guard (demo_kernel, new_controller (Some ''/mnt'')) = ((k, fc), Inr True)"
    by (simp add: guard_def new_controller_def freeze_path_def demo_kernel_def Let_def)
  have "freeze_reach (demo_kernel, new_controller (Some ''/mnt''))"
    by (rule reach_init) (simp_all add: demo_kernel_def)
  from reach_step [OF this step_guard [OF g]] have r: "freeze_reach (k, fc)" .
  have "frozen fc \<and> mountpoint fc = Some ''/mnt''"
    using guard_frozen [OF g] guard_mountpoint [OF g] by (simp add: new_controller_def)
  with freeze_state_machine [OF r] r g show ?thesis by blast
qed

text \<open>C14: the last resort works: when the process panics while the controller holds a freeze, the hook and the two drops of
  the unwinding make three attempts, and the mount is thawed when any of their FITHAWs succeeds; when it is killed by SIGTERM or SIGINT
  and the handler of that signal could be set up, the mount is thawed when the handler's FITHAW succeeds.\<close>

theorem last_resort_thaws:
  assumes "freeze_reach (k, fc)" "mountpoint fc = Some m" "frozen fc"
  shows "((\<exists>i < 3. ioctl_fault k (ioctl_count k + i) = None) \<longrightarrow> \<not> kfrozen (fst (panic_unwind (k, fc))) m) \<and>
    (\<not> sigaction_fault k sig \<and> ioctl_fault k (ioctl_count k) = None \<longrightarrow> \<not> kfrozen (deliver_signal sig k) m)"
  using panic_unwind_releases [OF freeze_reach_inv [OF assms(1)] assms(2,3)]
    signal_releases [OF freeze_reach_inv [OF assms(1)] _ assms(2,3)] freeze_reach_handlers [OF assms(1)] by auto

theorem last_resort_thaws_witness:
  "\<exists>k fc. freeze_reach (k, fc) \<and> kfrozen k ''/mnt'' \<and> \<not> kfrozen (fst (panic_unwind (k, fc))) ''/mnt'' \<and>
     \<not> kfrozen (deliver_signal SIGTERM k) ''/mnt''"
proof -
  let ?s = "(demo_kernel, new_controller (Some ''/mnt''))"
  obtain k fc where g: "guard ?s = ((k, fc), Inr True)"
    and k: "kfrozen k ''/mnt''" "ioctl_fault k = (\<lambda>_. None)" "sigaction_fault k = (\<lambda>_. False)"
    by (simp add: freeze_defs new_controller_def demo_kernel_def)
  have "freeze_reach ?s" by (rule reach_init) (simp_all add: demo_kernel_def)
  from reach_step [OF this step_guard [OF g]] have r: "freeze_reach (k, fc)" .
  have "frozen fc" "mountpoint fc = Some ''/mnt''"
    using guard_frozen [OF g] guard_mountpoint [OF g] by (simp_all add: new_controller_def)
  moreover have "\<exists>i < 3. ioctl_fault k (ioctl_count k + i) = None" by (rule exI [of _ 0]) (simp add: k(2))
  ultimately show ?thesis using last_resort_thaws [OF r, of "''/mnt''" SIGTERM] r k by auto
qed

end
