(* ===== verification/Fs_Status.thy ===== *)
theory Fs_Status
  imports Text_Util
begin

text \<open>
  The filesystem contract of \<open>src/scrub-rs/src/fs.rs\<close> (events, re-confirmation requests and
  verdicts, the scrub roll-up) and the live counters with their status page of
  \<open>src/scrub-rs/src/status.rs\<close>. Event counters are natural numbers: each is bumped at most
  once per sector of the device, so none reaches \<open>2 ^ 64\<close>.
\<close>

subsection \<open>The filesystem contract\<close>

type_synonym sector_verifier = "bytes \<Rightarrow> bool"

record reconfirm_request =
  token :: nat
  stored_csum :: bytes

datatype reconfirm = Corruption | Stale | Unverifiable

record scrub_event =
  ev_array_phys :: nat
  ev_block_size :: nat
  ev_verify :: "sector_verifier option"
  ev_reconfirm :: "reconfirm_request option"
  ev_unreadable :: bool

record scrub_stats =
  sectors_checked :: nat
  sectors_ok :: nat
  sectors_mismatch :: nat
  sectors_no_csum :: nat
  sectors_read_error :: nat
  sectors_stale :: nat
  stale_csum_branches :: nat
  isolation_truncated :: nat
  bytes_checked :: nat
  metadata_header_errors :: nat
  metadata_mirror_mismatches :: nat
  metadata_read_errors :: nat

definition default_stats :: scrub_stats where
  "default_stats = \<lparr>sectors_checked = 0, sectors_ok = 0, sectors_mismatch = 0, sectors_no_csum = 0,
     sectors_read_error = 0, sectors_stale = 0, stale_csum_branches = 0, isolation_truncated = 0,
     bytes_checked = 0, metadata_header_errors = 0, metadata_mirror_mismatches = 0,
     metadata_read_errors = 0\<rparr>"

subsection \<open>Live counters\<close>

record status_counters =
  c_sectors_checked :: nat
  c_sectors_ok :: nat
  c_sectors_no_csum :: nat
  c_sectors_read_error :: nat
  c_stale_csum_branches :: nat
  c_isolation_truncated :: nat
  c_bytes_checked :: nat
  c_mismatch :: nat
  c_stale :: nat
  c_metadata_header_errors :: nat
  c_metadata_mirror_mismatches :: nat
  c_metadata_read_errors :: nat
  c_recovered :: nat
  c_failed :: nat
  c_skipped :: nat
  c_not_frozen :: nat
  c_readback_failed :: nat
  c_not_corrupt :: nat
  c_deduped :: nat
  c_repaired_while_mounted :: nat
  c_recovery :: nat
  c_progress_total :: nat
  c_progress_done :: nat
  c_state :: string
  c_device :: string

definition new_counters :: status_counters where
  "new_counters = \<lparr>c_sectors_checked = 0, c_sectors_ok = 0, c_sectors_no_csum = 0,
     c_sectors_read_error = 0, c_stale_csum_branches = 0, c_isolation_truncated = 0,
     c_bytes_checked = 0, c_mismatch = 0, c_stale = 0, c_metadata_header_errors = 0,
     c_metadata_mirror_mismatches = 0, c_metadata_read_errors = 0, c_recovered = 0, c_failed = 0,
     c_skipped = 0, c_not_frozen = 0, c_readback_failed = 0, c_not_corrupt = 0, c_deduped = 0,
     c_repaired_while_mounted = 0, c_recovery = 0, c_progress_total = 0, c_progress_done = 0,
     c_state = [], c_device = []\<rparr>"

definition set_state :: "string \<Rightarrow> status_counters \<Rightarrow> status_counters" where
  "set_state st c = c\<lparr>c_state := st\<rparr>"

definition set_device :: "string \<Rightarrow> status_counters \<Rightarrow> status_counters" where
  "set_device d c = c\<lparr>c_device := d\<rparr>"

definition set_recovery :: "bool \<Rightarrow> status_counters \<Rightarrow> status_counters" where
  "set_recovery on c = c\<lparr>c_recovery := (if on then 1 else 0)\<rparr>"

subsection \<open>The status page\<close>

text \<open>
  Progress in thousandths of a percent; the multiplication is in \<open>u128\<close>, where a 64-bit
  count times \<open>10 ^ 5\<close> cannot saturate. \<open>fmt2\<close> is the two-decimal rendering of the
  \<open>f64\<close> quotient by 1000.
\<close>

definition progress_milli :: "status_counters \<Rightarrow> nat" where
  "progress_milli c =
     (if c_progress_total c = 0 then 100000
      else min (min (c_progress_done c * 100000) (2 ^ 128 - 1) div c_progress_total c) 100000)"

definition snapshot_fields :: "(nat \<Rightarrow> string) \<Rightarrow> status_counters \<Rightarrow> (string \<times> string) list" where
  "snapshot_fields fmt2 c =
     [(''state'', c_state c), (''device'', c_device c),
      (''sectors_checked'', show_nat (c_sectors_checked c)),
      (''sectors_ok'', show_nat (c_sectors_ok c)),
      (''sectors_mismatch'', show_nat (c_mismatch c)),
      (''sectors_stale'', show_nat (c_stale c)),
      (''sectors_no_csum'', show_nat (c_sectors_no_csum c)),
      (''sectors_read_error'', show_nat (c_sectors_read_error c)),
      (''stale_csum_branches'', show_nat (c_stale_csum_branches c)),
      (''isolation_truncated'', show_nat (c_isolation_truncated c)),
      (''bytes_checked'', show_nat (c_bytes_checked c)),
      (''metadata_header_errors'', show_nat (c_metadata_header_errors c)),
      (''metadata_mirror_mismatches'', show_nat (c_metadata_mirror_mismatches c)),
      (''metadata_read_errors'', show_nat (c_metadata_read_errors c)),
      (''recovered'', show_nat (c_recovered c)),
      (''failed'', show_nat (c_failed c)),
      (''skipped'', show_nat (c_skipped c)),
      (''not_frozen'', show_nat (c_not_frozen c)),
      (''readback_failed'', show_nat (c_readback_failed c)),
      (''not_corrupt'', show_nat (c_not_corrupt c)),
      (''deduped'', show_nat (c_deduped c)),
      (''repaired_while_mounted'', show_nat (c_repaired_while_mounted c)),
      (''recovery'', show_nat (c_recovery c)),
      (''progress_total'', show_nat (c_progress_total c)),
      (''progress_done'', show_nat (c_progress_done c)),
      (''progress_pct'', fmt2 (progress_milli c))]"

definition render_field :: "string \<times> string \<Rightarrow> string" where
  "render_field kv = fst kv @ ''='' @ snd kv @ [CHR 0x0A]"

definition snapshot :: "(nat \<Rightarrow> string) \<Rightarrow> status_counters \<Rightarrow> string" where
  "snapshot fmt2 c = concat (map render_field (snapshot_fields fmt2 c))"

text \<open>One request: what the first read of at most 512 bytes holds decides the answer.\<close>

definition crlf :: string where "crlf = [CHR 0x0D, CHR 0x0A]"

definition http_response :: "nat \<Rightarrow> string \<Rightarrow> string \<Rightarrow> string" where
  "http_response code reason body =
     ''HTTP/1.1 '' @ show_nat code @ '' '' @ reason @ crlf @
     ''Content-Length: '' @ show_nat (length body) @ crlf @
     ''Content-Type: text/plain'' @ crlf @ ''Connection: close'' @ crlf @ crlf @ body"

definition serve_request :: "(nat \<Rightarrow> string) \<Rightarrow> status_counters \<Rightarrow> string \<Rightarrow> string" where
  "serve_request fmt2 c request =
     (let buf = take 512 request in
      if strip_prefix ''GET /status'' buf \<noteq> None then http_response 200 ''OK'' (snapshot fmt2 c)
      else http_response 404 ''Not Found'' (''not found'' @ [CHR 0x0A]))"

subsection \<open>Binding the socket\<close>

text \<open>
  What stands at the socket path: nothing, a socket a live server answers on, a socket
  nobody answers on, or anything else. \<open>bind_fault\<close> is a failure of the bind itself other
  than an occupied path; \<open>unlink_fault\<close> one of the removal.
\<close>

datatype sock_node = Absent | LiveSocket | DeadSocket | NotASocket

datatype bind_error = AddrInUse | BindOther nat

definition unix_bind :: "nat option \<Rightarrow> sock_node \<Rightarrow> sock_node \<times> (bind_error + unit)" where
  "unix_bind bind_fault node =
     (case bind_fault of Some e \<Rightarrow> (node, Inl (BindOther e))
      | None \<Rightarrow> if node = Absent then (LiveSocket, Inr ()) else (node, Inl AddrInUse))"

definition status_bind ::
  "nat option \<Rightarrow> nat option \<Rightarrow> nat option \<Rightarrow> sock_node \<Rightarrow> sock_node \<times> (bind_error + unit)" where
  "status_bind mkdir_fault bind_fault unlink_fault node =
     (case mkdir_fault of Some e \<Rightarrow> (node, Inl (BindOther e))
      | None \<Rightarrow>
        (case unix_bind bind_fault node of
           (n, Inr _) \<Rightarrow> (n, Inr ())
         | (n, Inl (BindOther e)) \<Rightarrow> (n, Inl (BindOther e))
         | (n, Inl AddrInUse) \<Rightarrow>
             if n = NotASocket then (n, Inl AddrInUse)
             else if n = LiveSocket then (n, Inl AddrInUse)
             else (case unlink_fault of Some e \<Rightarrow> (n, Inl (BindOther e))
                   | None \<Rightarrow> unix_bind bind_fault Absent)))"

text \<open>
  \<open>spawn\<close>: a thread that cannot be started drops the listener, which leaves the socket file behind with nobody answering.
\<close>

definition status_spawn ::
  "nat option \<Rightarrow> nat option \<Rightarrow> nat option \<Rightarrow> nat option \<Rightarrow> sock_node \<Rightarrow> sock_node \<times> (bind_error + unit)" where
  "status_spawn mkdir_fault bind_fault unlink_fault thread_fault node =
     (case status_bind mkdir_fault bind_fault unlink_fault node of
        (n, Inl e) \<Rightarrow> (n, Inl e)
      | (n, Inr _) \<Rightarrow> (case thread_fault of Some e \<Rightarrow> (DeadSocket, Inl (BindOther e)) | None \<Rightarrow> (n, Inr ())))"

text \<open>
  The accept loop over the incoming streams, each with the counters as they are when it is answered: a stream that could not be
  accepted (its error number is the left value) is passed over, a failed or timed-out read leaves the zeroed buffer, a failed write is ignored.
\<close>

definition serve :: "(nat \<Rightarrow> string) \<Rightarrow> ((nat + (nat + string)) \<times> status_counters) list \<Rightarrow> string list" where
  "serve fmt2 incoming =
     List.map_filter (\<lambda>(stream, c). case stream of Inl e \<Rightarrow> None
       | Inr request \<Rightarrow> Some (serve_request fmt2 c (case request of Inr s \<Rightarrow> s | Inl e \<Rightarrow> replicate 512 (CHR 0x00)))) incoming"

lemma serve_one_per_stream: "length (serve fmt2 incoming) = length (filter (\<lambda>(stream, c). \<not> isl stream) incoming)"
proof (induction incoming)
  case (Cons x incoming)
  then show ?case by (cases x; cases "fst x") (simp_all add: serve_def map_filter_simps)
qed (simp add: serve_def map_filter_simps)

lemma status_spawn_live: "snd (status_spawn mk bf uf tf node) = Inr () \<Longrightarrow> fst (status_spawn mk bf uf tf node) = LiveSocket"
  by (cases node; cases mk; cases bf; cases uf; cases tf) (simp_all add: status_spawn_def status_bind_def unix_bind_def)

subsection \<open>Reading a page back\<close>

text \<open>The reader's side: split the page in lines, each line at its first equals sign.\<close>

definition page_lookup :: "string \<Rightarrow> string \<Rightarrow> string option" where
  "page_lookup page k = map_of (List.map_filter (split_once (CHR ''='')) (split_on (CHR 0x0A) page)) k"

lemma split_on_line:
  "c \<notin> set l \<Longrightarrow> split_on c (l @ c # rest) = l # split_on c rest"
  by (induction l) auto

lemma split_once_key:
  "c \<notin> set k \<Longrightarrow> split_once c (k @ c # v) = Some (k, v)"
  by (induction k) auto

definition plain_fields :: "(string \<times> string) list \<Rightarrow> bool" where
  "plain_fields kvs \<longleftrightarrow>
     (\<forall>(k, v) \<in> set kvs. CHR ''='' \<notin> set k \<and> CHR 0x0A \<notin> set k \<and> CHR 0x0A \<notin> set v)"

lemma page_fields:
  "plain_fields kvs \<Longrightarrow>
   List.map_filter (split_once (CHR ''='')) (split_on (CHR 0x0A) (concat (map render_field kvs))) = kvs"
proof (induction kvs)
  case (Cons kv kvs)
  obtain k v where kv: "kv = (k, v)" by (cases kv)
  with Cons.prems have "CHR 0x0A \<notin> set (k @ CHR ''='' # v)" "CHR ''='' \<notin> set k" "plain_fields kvs"
    by (auto simp: plain_fields_def)
  with Cons.IH kv split_on_line [of "CHR 0x0A" "k @ CHR ''='' # v"] show ?case
    by (simp add: render_field_def split_once_key map_filter_simps)
qed (simp add: map_filter_simps)

lemma show_nat_plain: "c \<in> set (show_nat n) \<Longrightarrow> is_digit c"
  using show_nat_digits [of n] by (simp add: list_all_iff)

lemma show_nat_no_newline: "CHR 0x0A \<notin> set (show_nat n)"
  by (auto dest!: show_nat_plain simp: is_digit_def)

lemma snapshot_fields_plain:
  assumes "CHR 0x0A \<notin> set (c_state c)" "CHR 0x0A \<notin> set (c_device c)" "\<And>n. CHR 0x0A \<notin> set (fmt2 n)"
  shows "plain_fields (snapshot_fields fmt2 c)"
  using assms by (simp add: plain_fields_def snapshot_fields_def show_nat_no_newline)

lemma page_lookup_snapshot:
  assumes "CHR 0x0A \<notin> set (c_state c)" "CHR 0x0A \<notin> set (c_device c)" "\<And>n. CHR 0x0A \<notin> set (fmt2 n)"
  shows "page_lookup (snapshot fmt2 c) k = map_of (snapshot_fields fmt2 c) k"
  by (simp add: page_lookup_def snapshot_def page_fields [OF snapshot_fields_plain] assms)

subsection \<open>Properties\<close>

text \<open>the status page can be read back: splitting it at newlines and at the first equals
  sign of each line gives the state, the device and every counter it was rendered from (here the
  mismatch, recovered and failed counters and the progress, which the plugin's page shows).\<close>

lemma snapshot_readback:
  assumes "CHR 0x0A \<notin> set (c_state c)" "CHR 0x0A \<notin> set (c_device c)" "\<And>n. CHR 0x0A \<notin> set (fmt2 n)"
  shows "page_lookup (snapshot fmt2 c) ''state'' = Some (c_state c) \<and>
    page_lookup (snapshot fmt2 c) ''sectors_mismatch'' = Some (show_nat (c_mismatch c)) \<and>
    page_lookup (snapshot fmt2 c) ''recovered'' = Some (show_nat (c_recovered c)) \<and>
    page_lookup (snapshot fmt2 c) ''failed'' = Some (show_nat (c_failed c)) \<and>
    page_lookup (snapshot fmt2 c) ''progress_pct'' = Some (fmt2 (progress_milli c))"
  unfolding page_lookup_snapshot [OF assms] by (simp add: snapshot_fields_def)

lemma snapshot_readback_witness:
  "page_lookup (snapshot (\<lambda>n. show_nat (n div 1000)) (set_state ''scrubbing'' new_counters)) ''state''
     = Some ''scrubbing''"
proof -
  have "CHR 0x0A \<notin> set (c_state (set_state ''scrubbing'' new_counters))"
    "CHR 0x0A \<notin> set (c_device (set_state ''scrubbing'' new_counters))"
    by (simp_all add: set_state_def new_counters_def)
  from snapshot_readback [of "set_state ''scrubbing'' new_counters" "\<lambda>n. show_nat (n div 1000)",
      OF this show_nat_no_newline]
  show ?thesis by (simp add: set_state_def)
qed

text \<open>binding the status socket never removes what is not a dead socket: a regular file, a
  directory or a socket on which another instance answers is left in place and the bind fails;
  a stale socket is replaced by a live one when the system calls work. A server that cannot be started leaves whatever it did not bind
  itself.\<close>

lemma status_bind_preserves:
  "(node = NotASocket \<or> node = LiveSocket \<longrightarrow>
      (\<exists>e. status_bind mk bf uf node = (node, Inl e))) \<and>
   (node = DeadSocket \<longrightarrow> status_bind None None None node = (LiveSocket, Inr ())) \<and>
   (snd (status_bind mk bf uf node) = Inr () \<longrightarrow> fst (status_bind mk bf uf node) = LiveSocket) \<and>
   (node = NotASocket \<or> node = LiveSocket \<longrightarrow> fst (status_spawn mk bf uf tf node) = node)"
  by (cases node; cases mk; cases bf; cases uf)
    (simp_all add: status_spawn_def status_bind_def unix_bind_def)

lemma status_bind_preserves_witness:
  "status_bind None None None NotASocket = (NotASocket, Inl AddrInUse) \<and>
   status_bind None None None DeadSocket = (LiveSocket, Inr ())"
  using status_bind_preserves [of DeadSocket None None None None]
  by (simp add: status_bind_def unix_bind_def)

end
