(* ===== verification/Batch_Recover.thy ===== *)
theory Batch_Recover
  imports Array_Io Freeze Fs_Status
begin

text \<open>
  The recovery pipeline of \<open>src/scrub-rs/src/batch_recover.rs\<close>: the accumulator that groups
  candidates, the writer that flushes batches under a filesystem freeze, and the treatment
  of one candidate (re-confirm, re-read, gather, recover, write back, verify). The
  re-confirmer is the trait object of the source: a function of the disks, its own state
  and the request. Wall-clock decisions (idle timeouts, an exceeded freeze window) are
  arguments.
\<close>

named_theorems batch_ops \<open>the operations on the writer's state\<close>

subsection \<open>Data\<close>

record candidate =
  array_phys :: nat
  block_size :: nat
  verify :: sector_verifier
  cand_raw_phys :: nat
  failing_dev :: path
  cand_reconfirm :: "reconfirm_request option"
  cand_unreadable :: bool

datatype msg = CandidateMsg candidate | DoneMsg

datatype batch_msg = Batch "candidate list" | BatchDone

record batch_stats =
  mismatch :: nat
  stale :: nat
  recovered :: nat
  failed :: nat
  skipped :: nat
  not_frozen :: nat
  readback_failed :: nat
  not_corrupt :: nat
  deduped :: nat

definition default_batch_stats :: batch_stats where
  "default_batch_stats = \<lparr>mismatch = 0, stale = 0, recovered = 0, failed = 0, skipped = 0,
     not_frozen = 0, readback_failed = 0, not_corrupt = 0, deduped = 0\<rparr>"

type_synonym 'r reconfirmer = "disks \<Rightarrow> 'r \<Rightarrow> reconfirm_request \<Rightarrow> 'r \<times> reconfirm"

record 'r writer =
  w_disks :: disks
  w_reconfirmer :: 'r
  w_stats :: batch_stats
  w_counters :: "status_counters option"

subsection \<open>Counting\<close>

text \<open>Every count is taken in the run's statistics and, when present, in the live counters.\<close>

definition count_stale :: "'r writer \<Rightarrow> 'r writer" where
  [batch_ops]: "count_stale s = s\<lparr>w_stats := (w_stats s)\<lparr>stale := stale (w_stats s) + 1\<rparr>,
     w_counters := map_option (\<lambda>c. c\<lparr>c_stale := c_stale c + 1\<rparr>) (w_counters s)\<rparr>"

definition count_skipped :: "'r writer \<Rightarrow> 'r writer" where
  [batch_ops]: "count_skipped s = s\<lparr>w_stats := (w_stats s)\<lparr>skipped := skipped (w_stats s) + 1\<rparr>,
     w_counters := map_option (\<lambda>c. c\<lparr>c_skipped := c_skipped c + 1\<rparr>) (w_counters s)\<rparr>"

definition count_mismatch :: "'r writer \<Rightarrow> 'r writer" where
  [batch_ops]: "count_mismatch s = s\<lparr>w_stats := (w_stats s)\<lparr>mismatch := mismatch (w_stats s) + 1\<rparr>,
     w_counters := map_option (\<lambda>c. c\<lparr>c_mismatch := c_mismatch c + 1\<rparr>) (w_counters s)\<rparr>"

definition count_failed :: "'r writer \<Rightarrow> 'r writer" where
  [batch_ops]: "count_failed s = s\<lparr>w_stats := (w_stats s)\<lparr>failed := failed (w_stats s) + 1\<rparr>,
     w_counters := map_option (\<lambda>c. c\<lparr>c_failed := c_failed c + 1\<rparr>) (w_counters s)\<rparr>"

definition count_recovered :: "'r writer \<Rightarrow> 'r writer" where
  [batch_ops]: "count_recovered s = s\<lparr>w_stats := (w_stats s)\<lparr>recovered := recovered (w_stats s) + 1\<rparr>,
     w_counters := map_option (\<lambda>c. c\<lparr>c_recovered := c_recovered c + 1\<rparr>) (w_counters s)\<rparr>"

definition count_not_frozen :: "'r writer \<Rightarrow> 'r writer" where
  [batch_ops]: "count_not_frozen s = s\<lparr>w_stats := (w_stats s)\<lparr>not_frozen := not_frozen (w_stats s) + 1\<rparr>,
     w_counters := map_option (\<lambda>c. c\<lparr>c_not_frozen := c_not_frozen c + 1\<rparr>) (w_counters s)\<rparr>"

definition count_readback_failed :: "'r writer \<Rightarrow> 'r writer" where
  [batch_ops]: "count_readback_failed s =
     s\<lparr>w_stats := (w_stats s)\<lparr>readback_failed := readback_failed (w_stats s) + 1\<rparr>,
     w_counters := map_option (\<lambda>c. c\<lparr>c_readback_failed := c_readback_failed c + 1\<rparr>) (w_counters s)\<rparr>"

definition count_not_corrupt :: "'r writer \<Rightarrow> 'r writer" where
  [batch_ops]: "count_not_corrupt s = s\<lparr>w_stats := (w_stats s)\<lparr>not_corrupt := not_corrupt (w_stats s) + 1\<rparr>,
     w_counters := map_option (\<lambda>c. c\<lparr>c_not_corrupt := c_not_corrupt c + 1\<rparr>) (w_counters s)\<rparr>"

definition count_deduped :: "nat \<Rightarrow> 'r writer \<Rightarrow> 'r writer" where
  [batch_ops]: "count_deduped n s = s\<lparr>w_stats := (w_stats s)\<lparr>deduped := deduped (w_stats s) + n\<rparr>,
     w_counters := map_option (\<lambda>c. c\<lparr>c_deduped := c_deduped c + n\<rparr>) (w_counters s)\<rparr>"

definition note_repair :: "bool \<Rightarrow> 'r writer \<Rightarrow> 'r writer" where
  [batch_ops]: "note_repair live s =
     (if live then s\<lparr>w_counters := map_option (\<lambda>c. c\<lparr>c_repaired_while_mounted := 1\<rparr>) (w_counters s)\<rparr>
      else s)"

subsection \<open>One candidate\<close>

text \<open>BLKFLSBUF: ENOTTY on anything but a block device.\<close>

definition drop_cache :: "disks \<Rightarrow> path \<Rightarrow> io_kind + unit" where
  "drop_cache w dev =
     (case file_open w dev of Inl e \<Rightarrow> Inl e
      | Inr f \<Rightarrow> if \<not> block_dev f then Inl (OsError 25)
                else (case cache_fault f of Some e \<Rightarrow> Inl e | None \<Rightarrow> Inr ()))"

definition is_block_file :: "disks \<Rightarrow> path \<Rightarrow> bool" where
  "is_block_file w dev = (case w dev of Some f \<Rightarrow> block_dev f | None \<Rightarrow> False)"

definition reconfirm_stage :: "'r reconfirmer \<Rightarrow> candidate \<Rightarrow> 'r writer \<Rightarrow> 'r writer \<times> reconfirm" where
  "reconfirm_stage rc cand s =
     (case cand_reconfirm cand of
        Some req \<Rightarrow>
          (case rc (w_disks s) (w_reconfirmer s) req of (r', v) \<Rightarrow> (s\<lparr>w_reconfirmer := r'\<rparr>, v))
      | None \<Rightarrow> (s, Corruption))"

text \<open>\<open>None\<close>: the failing disk now verifies; otherwise the corrupt block and the unreadable flag.\<close>

definition fetch_corrupt :: "array_config \<Rightarrow> disks \<Rightarrow> candidate \<Rightarrow> (bytes \<times> bool) option" where
  "fetch_corrupt cfg w cand =
     (if cand_unreadable cand then Some (zeros (block_size cand), True)
      else case read_block_or_zeros cfg w (failing_dev cand) (array_phys cand) (block_size cand) of
             Inr block \<Rightarrow> if verify cand block then None else Some (block, False)
           | Inl e \<Rightarrow> Some (zeros (block_size cand), True))"

definition verify_readback :: "array_config \<Rightarrow> candidate \<Rightarrow> 'r writer \<Rightarrow> 'r writer" where
  "verify_readback cfg cand s =
     (case read_block_or_zeros cfg (w_disks s) (failing_dev cand) (array_phys cand) (block_size cand) of
        Inr b \<Rightarrow> if verify cand b then count_recovered s else count_readback_failed s
      | Inl e \<Rightarrow> count_readback_failed s)"

definition write_back ::
  "array_config \<Rightarrow> bool \<Rightarrow> candidate \<Rightarrow> bytes \<Rightarrow> 'r writer \<Rightarrow> 'r writer" where
  "write_back cfg live cand block s =
     (case write_block cfg (w_disks s) (failing_dev cand) (array_phys cand) block of
        (w', Inl e) \<Rightarrow> count_failed (s\<lparr>w_disks := w'\<rparr>)
      | (w', Inr _) \<Rightarrow>
          (let s' = note_repair live (s\<lparr>w_disks := w'\<rparr>)
           in case drop_cache w' (failing_dev cand) of
                Inr _ \<Rightarrow> verify_readback cfg cand s'
              | Inl e \<Rightarrow> if is_block_file w' (failing_dev cand) then count_readback_failed s'
                        else verify_readback cfg cand s'))"

definition act_on_result ::
  "array_config \<Rightarrow> bool \<Rightarrow> bool \<Rightarrow> bool \<Rightarrow> candidate \<Rightarrow> recovery_result \<Rightarrow> 'r writer \<Rightarrow> 'r writer" where
  "act_on_result cfg dry_run live writes_allowed cand res s =
     (case res of
        Recovered via block \<Rightarrow>
          if dry_run \<or> \<not> writes_allowed
          then (if writes_allowed then count_recovered s else count_not_frozen s)
          else write_back cfg live cand block s
      | NotCorrupt \<Rightarrow> count_not_corrupt s
      | Failed reason \<Rightarrow> count_failed s)"

definition recover_candidate ::
  "array_config \<Rightarrow> nat \<Rightarrow> bool \<Rightarrow> bool \<Rightarrow> bool \<Rightarrow> candidate \<Rightarrow> bytes \<Rightarrow> bool \<Rightarrow> 'r writer \<Rightarrow> 'r writer run" where
  "recover_candidate cfg scrub_slot dry_run live writes_allowed cand block unreadable s =
     (case gather_stripe cfg (w_disks s) scrub_slot (array_phys cand) (block_size cand) of
        Inl e \<Rightarrow> Ret (count_failed s)
      | Inr chunks \<Rightarrow>
          run_bind
            (recover_block
               \<lparr>failing_slot = scrub_slot, corrupt_block = block, unreadable_source = unreadable,
                other_blocks = other_data chunks, p_block = chunk_p chunks, q_block = chunk_q chunks,
                verifier = verify cand\<rparr> (block_size cand))
            (\<lambda>res. Ret (act_on_result cfg dry_run live writes_allowed cand res s)))"

definition process_candidate ::
  "'r reconfirmer \<Rightarrow> array_config \<Rightarrow> nat \<Rightarrow> bool \<Rightarrow> bool \<Rightarrow> bool \<Rightarrow> candidate \<Rightarrow> 'r writer \<Rightarrow> 'r writer run" where
  "process_candidate rc cfg scrub_slot dry_run live writes_allowed cand s =
     (case reconfirm_stage rc cand s of
        (s1, Stale) \<Rightarrow> Ret (count_stale s1)
      | (s1, Unverifiable) \<Rightarrow> Ret (count_skipped s1)
      | (s1, Corruption) \<Rightarrow>
          (case fetch_corrupt cfg (w_disks s1) cand of
             None \<Rightarrow> Ret (count_stale s1)
           | Some (block, unreadable) \<Rightarrow>
               recover_candidate cfg scrub_slot dry_run live writes_allowed cand block unreadable
                 (count_mismatch s1)))"

subsection \<open>One batch\<close>

fun dedup_phys :: "candidate list \<Rightarrow> candidate list" where
  "dedup_phys [] = []"
| "dedup_phys [a] = [a]"
| "dedup_phys (a # b # rest) =
     (if array_phys b = array_phys a then dedup_phys (a # rest) else a # dedup_phys (b # rest))"

definition sort_dedup :: "candidate list \<Rightarrow> candidate list" where
  "sort_dedup batch = dedup_phys (sort_key array_phys batch)"

text \<open>
  The loop over the batch: candidate number \<open>i > 0\<close> finds the window exceeded when
  \<open>expired i\<close>; the rest of the batch is then deferred.
\<close>

fun batch_loop ::
  "(candidate \<Rightarrow> 's \<Rightarrow> 's run) \<Rightarrow> bool \<Rightarrow> (nat \<Rightarrow> bool) \<Rightarrow> nat \<Rightarrow> candidate list \<Rightarrow> 's \<Rightarrow>
   ('s \<times> candidate list) run" where
  "batch_loop proc writes_allowed expired i [] s = Ret (s, [])"
| "batch_loop proc writes_allowed expired i (c # rest) s =
     (if 0 < i \<and> writes_allowed \<and> expired i then Ret (s, c # rest)
      else run_bind (proc c s) (batch_loop proc writes_allowed expired (Suc i) rest))"

type_synonym 'r flush_state = "(kernel \<times> freeze_controller) \<times> 'r writer"

definition flush_batch ::
  "'r reconfirmer \<Rightarrow> array_config \<Rightarrow> nat \<Rightarrow> bool \<Rightarrow> (nat \<Rightarrow> bool) \<Rightarrow> candidate list \<Rightarrow> 'r flush_state \<Rightarrow>
   ('r flush_state \<times> (io_kind + candidate list)) run" where
  "flush_batch rc cfg scrub_slot dry_run expired batch st =
     (let sorted_batch = sort_dedup batch;
          s0 = count_deduped (length batch - length sorted_batch) (snd st);
          live = has_live_mount (snd (fst st))
      in case guard (fst st) of
           (fz, g) \<Rightarrow>
             (let writes_allowed = (g = Inr True \<or> \<not> live)
              in run_bind
                   (batch_loop (process_candidate rc cfg scrub_slot dry_run live writes_allowed)
                      writes_allowed expired 0 sorted_batch s0)
                   (\<lambda>(s', deferred).
                      let fz' = (if g = Inr True then thaw fz else fz)
                      in case take_thaw_error (snd fz') of
                           (fc, Some e) \<Rightarrow> Ret (((fst fz', fc), s'), Inl OtherError)
                         | (fc, None) \<Rightarrow> Ret (((fst fz', fc), s'), Inr deferred))))"

subsection \<open>Accumulator\<close>

text \<open>
  What the accumulator observes on its channel: a message, or that \<open>batch_idle\<close> passed
  without one. The end of the list is the disconnected channel. \<open>alive k\<close> tells whether
  send number \<open>k\<close> finds the writer still receiving.
\<close>

datatype chan_event = Recv msg | Idle

definition finish_accumulator :: "(nat \<Rightarrow> bool) \<Rightarrow> nat \<Rightarrow> candidate list \<Rightarrow> batch_msg list" where
  "finish_accumulator alive k batch =
     (if batch \<noteq> [] then
        (if \<not> alive k then [] else Batch batch # (if alive (Suc k) then [BatchDone] else []))
      else if alive k then [BatchDone] else [])"

function (sequential) recv_first ::
  "nat \<Rightarrow> (nat \<Rightarrow> bool) \<Rightarrow> nat \<Rightarrow> candidate list \<Rightarrow> chan_event list \<Rightarrow> batch_msg list"
and fill_batch ::
  "nat \<Rightarrow> (nat \<Rightarrow> bool) \<Rightarrow> nat \<Rightarrow> candidate list \<Rightarrow> chan_event list \<Rightarrow> batch_msg list" where
  "recv_first batch_max alive k batch [] = finish_accumulator alive k batch"
| "recv_first batch_max alive k batch (Recv (CandidateMsg c) # es) =
     fill_batch batch_max alive k (batch @ [c]) es"
| "recv_first batch_max alive k batch (Recv DoneMsg # es) = finish_accumulator alive k batch"
| "recv_first batch_max alive k batch (Idle # es) = recv_first batch_max alive k batch es"
| "fill_batch batch_max alive k batch es =
     (if length batch < batch_max then
        (case es of
           [] \<Rightarrow> finish_accumulator alive k batch
         | Recv (CandidateMsg c) # es' \<Rightarrow> fill_batch batch_max alive k (batch @ [c]) es'
         | Recv DoneMsg # es' \<Rightarrow> finish_accumulator alive k batch
         | Idle # es' \<Rightarrow>
             if alive k then Batch batch # recv_first batch_max alive (Suc k) [] es' else [])
      else if alive k then Batch batch # recv_first batch_max alive (Suc k) [] es else [])"
  by pat_completeness auto

termination
  by (relation "measure (\<lambda>x. case x of Inl (_, _, _, _, es) \<Rightarrow> 2 * length es
        | Inr (_, _, _, _, es) \<Rightarrow> 2 * length es + 1)") auto

definition run_accumulator :: "nat \<Rightarrow> (nat \<Rightarrow> bool) \<Rightarrow> chan_event list \<Rightarrow> batch_msg list" where
  "run_accumulator batch_max alive es = recv_first batch_max alive 0 [] es"

subsection \<open>What one candidate does to the state\<close>

definition intake :: "batch_stats \<Rightarrow> nat" where
  "intake st = mismatch st + stale st + skipped st"

definition outcomes :: "batch_stats \<Rightarrow> nat" where
  "outcomes st = recovered st + failed st + not_frozen st + readback_failed st + not_corrupt st"

text \<open>The live counters show the writer's own statistics.\<close>

definition mirrors :: "status_counters \<Rightarrow> batch_stats \<Rightarrow> bool" where
  "mirrors c st \<longleftrightarrow> c_mismatch c = mismatch st \<and> c_stale c = stale st \<and> c_skipped c = skipped st \<and>
     c_recovered c = recovered st \<and> c_failed c = failed st \<and> c_not_frozen c = not_frozen st \<and>
     c_readback_failed c = readback_failed st \<and> c_not_corrupt c = not_corrupt st \<and>
     c_deduped c = deduped st"

definition mirrored :: "'r writer \<Rightarrow> bool" where
  "mirrored s \<longleftrightarrow> (\<forall>c. w_counters s = Some c \<longrightarrow> mirrors c (w_stats s))"

lemma count_disks [simp]:
  "w_disks (count_stale s) = w_disks s" "w_disks (count_skipped s) = w_disks s"
  "w_disks (count_mismatch s) = w_disks s" "w_disks (count_failed s) = w_disks s"
  "w_disks (count_recovered s) = w_disks s" "w_disks (count_not_frozen s) = w_disks s"
  "w_disks (count_readback_failed s) = w_disks s" "w_disks (count_not_corrupt s) = w_disks s"
  "w_disks (count_deduped n s) = w_disks s" "w_disks (note_repair live s) = w_disks s"
  by (simp_all add: batch_ops)

lemma count_intake [simp]:
  "intake (w_stats (count_stale s)) = Suc (intake (w_stats s))"
  "intake (w_stats (count_skipped s)) = Suc (intake (w_stats s))"
  "intake (w_stats (count_mismatch s)) = Suc (intake (w_stats s))"
  "intake (w_stats (count_failed s)) = intake (w_stats s)"
  "intake (w_stats (count_recovered s)) = intake (w_stats s)"
  "intake (w_stats (count_not_frozen s)) = intake (w_stats s)"
  "intake (w_stats (count_readback_failed s)) = intake (w_stats s)"
  "intake (w_stats (count_not_corrupt s)) = intake (w_stats s)"
  "intake (w_stats (count_deduped n s)) = intake (w_stats s)"
  "w_stats (note_repair live s) = w_stats s"
  by (simp_all add: batch_ops intake_def)

lemma count_outcomes [simp]:
  "outcomes (w_stats (count_stale s)) = outcomes (w_stats s)"
  "outcomes (w_stats (count_skipped s)) = outcomes (w_stats s)"
  "outcomes (w_stats (count_mismatch s)) = outcomes (w_stats s)"
  "outcomes (w_stats (count_failed s)) = Suc (outcomes (w_stats s))"
  "outcomes (w_stats (count_recovered s)) = Suc (outcomes (w_stats s))"
  "outcomes (w_stats (count_not_frozen s)) = Suc (outcomes (w_stats s))"
  "outcomes (w_stats (count_readback_failed s)) = Suc (outcomes (w_stats s))"
  "outcomes (w_stats (count_not_corrupt s)) = Suc (outcomes (w_stats s))"
  "outcomes (w_stats (count_deduped n s)) = outcomes (w_stats s)"
  by (simp_all add: batch_ops outcomes_def)

lemma count_mirrored [simp]:
  "mirrored s \<Longrightarrow> mirrored (count_stale s)" "mirrored s \<Longrightarrow> mirrored (count_skipped s)"
  "mirrored s \<Longrightarrow> mirrored (count_mismatch s)" "mirrored s \<Longrightarrow> mirrored (count_failed s)"
  "mirrored s \<Longrightarrow> mirrored (count_recovered s)" "mirrored s \<Longrightarrow> mirrored (count_not_frozen s)"
  "mirrored s \<Longrightarrow> mirrored (count_readback_failed s)" "mirrored s \<Longrightarrow> mirrored (count_not_corrupt s)"
  "mirrored s \<Longrightarrow> mirrored (count_deduped n s)" "mirrored s \<Longrightarrow> mirrored (note_repair live s)"
  by (auto simp: batch_ops mirrored_def mirrors_def)

lemma mirrored_other [simp]:
  "mirrored (s\<lparr>w_disks := w\<rparr>) = mirrored s" "mirrored (s\<lparr>w_reconfirmer := r\<rparr>) = mirrored s"
  by (simp_all add: mirrored_def)

lemma count_mismatch_fields:
  "mismatch (w_stats (count_mismatch s)) = Suc (mismatch (w_stats s))"
  "mismatch (w_stats (count_stale s)) = mismatch (w_stats s)"
  "mismatch (w_stats (count_skipped s)) = mismatch (w_stats s)"
  "mismatch (w_stats (count_failed s)) = mismatch (w_stats s)"
  "mismatch (w_stats (count_recovered s)) = mismatch (w_stats s)"
  "mismatch (w_stats (count_not_frozen s)) = mismatch (w_stats s)"
  "mismatch (w_stats (count_readback_failed s)) = mismatch (w_stats s)"
  "mismatch (w_stats (count_not_corrupt s)) = mismatch (w_stats s)"
  "mismatch (w_stats (count_deduped n s)) = mismatch (w_stats s)"
  "not_corrupt (w_stats (count_mismatch s)) = not_corrupt (w_stats s)"
  "not_corrupt (w_stats (count_stale s)) = not_corrupt (w_stats s)"
  "not_corrupt (w_stats (count_skipped s)) = not_corrupt (w_stats s)"
  "not_corrupt (w_stats (count_failed s)) = not_corrupt (w_stats s)"
  "not_corrupt (w_stats (count_recovered s)) = not_corrupt (w_stats s)"
  "not_corrupt (w_stats (count_not_frozen s)) = not_corrupt (w_stats s)"
  "not_corrupt (w_stats (count_readback_failed s)) = not_corrupt (w_stats s)"
  "not_corrupt (w_stats (count_deduped n s)) = not_corrupt (w_stats s)"
  "deduped (w_stats (count_mismatch s)) = deduped (w_stats s)"
  "deduped (w_stats (count_stale s)) = deduped (w_stats s)"
  "deduped (w_stats (count_skipped s)) = deduped (w_stats s)"
  by (simp_all add: batch_ops)

text \<open>
  One step of the outcome stage: exactly one outcome is counted, the intake is untouched,
  the mirror kept.
\<close>

definition one_outcome :: "'r writer \<Rightarrow> 'r writer \<Rightarrow> bool" where
  "one_outcome s s' \<longleftrightarrow>
     outcomes (w_stats s') = Suc (outcomes (w_stats s)) \<and> intake (w_stats s') = intake (w_stats s) \<and>
     mismatch (w_stats s') = mismatch (w_stats s) \<and> deduped (w_stats s') = deduped (w_stats s) \<and>
     (mirrored s \<longrightarrow> mirrored s')"

lemma count_one_outcome [simp]:
  "one_outcome s (count_failed s)" "one_outcome s (count_recovered s)"
  "one_outcome s (count_not_frozen s)" "one_outcome s (count_readback_failed s)"
  "one_outcome s (count_not_corrupt s)"
  by (simp_all add: one_outcome_def) (simp_all add: batch_ops)

lemma one_outcome_disks: "one_outcome (s\<lparr>w_disks := w\<rparr>) s' = one_outcome s s'"
  by (simp add: one_outcome_def)

lemma one_outcome_repair: "one_outcome (note_repair live s) s' \<Longrightarrow> one_outcome s s'"
  by (auto simp: one_outcome_def)

lemma verify_readback_outcome: "one_outcome s (verify_readback cfg cand s)"
  by (simp add: verify_readback_def split: sum.split)

lemma write_back_outcome: "one_outcome s (write_back cfg live cand block s)"
proof -
  obtain w' r where wb: "write_block cfg (w_disks s) (failing_dev cand) (array_phys cand) block = (w', r)"
    by fastforce
  let ?s = "note_repair live (s\<lparr>w_disks := w'\<rparr>)"
  have "one_outcome s x" if "one_outcome ?s x" for x
    using one_outcome_repair [OF that] by (simp add: one_outcome_disks)
  then have "one_outcome s (verify_readback cfg cand ?s)" "one_outcome s (count_readback_failed ?s)"
    by (simp_all add: verify_readback_outcome)
  moreover have "one_outcome s (count_failed (s\<lparr>w_disks := w'\<rparr>))"
    by (rule one_outcome_disks [THEN iffD1, OF count_one_outcome(1)])
  ultimately show ?thesis by (simp add: write_back_def wb Let_def split: sum.split)
qed

lemma act_on_result_outcome: "one_outcome s (act_on_result cfg dry live wa cand res s)"
  by (simp add: act_on_result_def write_back_outcome split: recovery_result.split)

lemma recover_candidate_outcome:
  assumes "recover_candidate cfg slot dry live wa cand block unr s = Ret s'"
  shows "one_outcome s s'"
  using assms
  by (auto simp: recover_candidate_def run_bind_def act_on_result_outcome split: sum.splits run.splits)

text \<open>Which disks a candidate may touch, and with what.\<close>

lemma verify_readback_disks [simp]: "w_disks (verify_readback cfg cand s) = w_disks s"
  by (simp add: verify_readback_def split: sum.split)

lemma write_back_disks:
  "w_disks (write_back cfg live cand block s) =
     fst (write_block cfg (w_disks s) (failing_dev cand) (array_phys cand) block)"
  by (auto simp: write_back_def Let_def split: prod.split sum.split)

lemma act_on_result_disks:
  assumes "w_disks (act_on_result cfg dry live wa cand res s) \<noteq> w_disks s"
  obtains via block where "res = Recovered via block" "\<not> dry" "wa"
    "act_on_result cfg dry live wa cand res s = write_back cfg live cand block s"
  using assms that by (auto simp: act_on_result_def split: recovery_result.splits if_splits)

lemma fetch_corrupt_Some:
  "fetch_corrupt cfg w cand = Some (block, unr) \<Longrightarrow> length block = block_size cand \<and> (unr \<or> \<not> verify cand block)"
  by (auto simp: fetch_corrupt_def split: if_splits sum.splits dest: read_block_length)

lemma reconfirm_stage_keeps:
  assumes "reconfirm_stage rc cand s = (s1, v)"
  shows "w_disks s1 = w_disks s" "w_stats s1 = w_stats s" "w_counters s1 = w_counters s"
  using assms by (auto simp: reconfirm_stage_def split: option.splits prod.splits)

lemma reconfirm_stage_same:
  "reconfirm_stage rc cand s = (s1, v) \<Longrightarrow>
   w_disks s1 = w_disks s \<and> w_stats s1 = w_stats s \<and> w_counters s1 = w_counters s"
  by (simp add: reconfirm_stage_keeps)

text \<open>The stages of one candidate, as the cases of its processing.\<close>

lemma process_candidate_cases [consumes 1, case_names stale skipped clean recover]:
  assumes "process_candidate rc cfg slot dry live wa cand s = Ret s'"
  obtains s1 where "reconfirm_stage rc cand s = (s1, Stale)" "s' = count_stale s1"
  | s1 where "reconfirm_stage rc cand s = (s1, Unverifiable)" "s' = count_skipped s1"
  | s1 where "reconfirm_stage rc cand s = (s1, Corruption)" "fetch_corrupt cfg (w_disks s1) cand = None"
      "s' = count_stale s1"
  | s1 block unr where "reconfirm_stage rc cand s = (s1, Corruption)"
      "fetch_corrupt cfg (w_disks s1) cand = Some (block, unr)"
      "recover_candidate cfg slot dry live wa cand block unr (count_mismatch s1) = Ret s'"
  using assms
  by (auto simp: process_candidate_def split: prod.splits reconfirm.splits option.splits)

lemma recover_candidate_result:
  assumes "recover_candidate cfg slot dry live wa cand block unr s = Ret s'"
    and "length block = block_size cand" "unr \<or> \<not> verify cand block"
  obtains "s' = count_failed s"
  | res where "s' = act_on_result cfg dry live wa cand res s" "res \<noteq> NotCorrupt"
      "\<And>via b. res = Recovered via b \<Longrightarrow> verify cand b \<and> length b = block_size cand"
proof (cases "gather_stripe cfg (w_disks s) slot (array_phys cand) (block_size cand)")
  case (Inl e)
  with assms that show ?thesis by (simp add: recover_candidate_def)
next
  case (Inr ch)
  let ?in = "\<lparr>failing_slot = slot, corrupt_block = block, unreadable_source = unr,
    other_blocks = other_data ch, p_block = chunk_p ch, q_block = chunk_q ch, verifier = verify cand\<rparr>"
  from assms(1) Inr obtain res where res: "recover_block ?in (block_size cand) = Ret res"
      and s': "s' = act_on_result cfg dry live wa cand res s"
    by (auto simp: recover_candidate_def run_bind_def split: run.splits)
  from assms(3) have "res \<noteq> NotCorrupt"
    using recover_block_NotCorrupt [of ?in "block_size cand"] res by auto
  moreover have "verify cand b \<and> length b = block_size cand" if "res = Recovered via b" for via b
    using recover_block_sound [of ?in "block_size cand" via b] res that by simp
  ultimately show ?thesis using that(2) s' by blast
qed

text \<open>A candidate writes only a verified block, to its own device, after a Corruption verdict.\<close>

lemma process_candidate_disks:
  assumes "process_candidate rc cfg slot dry live wa cand s = Ret s'" "w_disks s' \<noteq> w_disks s"
  shows "\<not> dry \<and> wa \<and> snd (reconfirm_stage rc cand s) = Corruption \<and>
    (\<exists>block. verify cand block \<and> length block = block_size cand \<and>
       w_disks s' = fst (write_block cfg (w_disks s) (failing_dev cand) (array_phys cand) block))"
  using assms(1)
proof (cases rule: process_candidate_cases)
  case (recover s1 block unr)
  note w1 = reconfirm_stage_keeps(1) [OF recover(1)]
  from recover(3) fetch_corrupt_Some [OF recover(2)] show ?thesis
  proof (elim recover_candidate_result conjE)
    assume "s' = count_failed (count_mismatch s1)"
    with assms(2) w1 show ?thesis by simp
  next
    fix res
    assume s': "s' = act_on_result cfg dry live wa cand res (count_mismatch s1)"
      and ok: "\<And>via b. res = Recovered via b \<Longrightarrow> verify cand b \<and> length b = block_size cand"
    with assms(2) w1 have "w_disks (act_on_result cfg dry live wa cand res (count_mismatch s1)) \<noteq>
        w_disks (count_mismatch s1)" by simp
    then obtain via b where "res = Recovered via b" "\<not> dry" wa
        "s' = write_back cfg live cand b (count_mismatch s1)"
      by (rule act_on_result_disks) (simp add: s')
    with ok w1 recover(1) show ?thesis by (auto simp: write_back_disks)
  qed
qed (use assms(2) in \<open>auto dest: reconfirm_stage_keeps\<close>)

lemma process_candidate_frame:
  "process_candidate rc cfg slot dry live wa cand s = Ret s' \<Longrightarrow> p \<noteq> failing_dev cand \<Longrightarrow>
   w_disks s' p = w_disks s p"
  using process_candidate_disks [of rc cfg slot dry live wa cand s s']
  by (cases "w_disks s' = w_disks s") (auto simp: write_block_other)

subsection \<open>The handler contract of the batch loop\<close>

text \<open>
  What the batch loop relies on of the code that handles one candidate: it keeps the
  bookkeeping invariant and takes exactly one candidate into the intake.
\<close>

locale candidate_handler =
  fixes proc :: "candidate \<Rightarrow> 's \<Rightarrow> 's run"
    and inv :: "'s \<Rightarrow> bool" and tally :: "'s \<Rightarrow> nat"
  assumes proc_inv: "inv s \<Longrightarrow> proc c s = Ret s' \<Longrightarrow> inv s'"
    and proc_tally: "proc c s = Ret s' \<Longrightarrow> tally s' = Suc (tally s)"
begin

lemma loop_inv: "inv s \<Longrightarrow> batch_loop proc wa ex i cs s = Ret (s', rest) \<Longrightarrow> inv s'"
  by (induction cs arbitrary: i s)
    (auto split: if_splits run.splits simp: run_bind_def intro: proc_inv)

lemma loop_tally:
  "batch_loop proc wa ex i cs s = Ret (s', rest) \<Longrightarrow> tally s' + length rest = tally s + length cs"
proof (induction cs arbitrary: i s)
  case (Cons c cs)
  then show ?case by (fastforce split: if_splits run.splits simp: run_bind_def dest: proc_tally)
qed simp

end

text \<open>The bookkeeping invariant of the writer.\<close>

definition books_ok :: "'r writer \<Rightarrow> bool" where
  "books_ok s \<longleftrightarrow> outcomes (w_stats s) = mismatch (w_stats s) \<and> not_corrupt (w_stats s) = 0 \<and> mirrored s"

definition received :: "'r writer \<Rightarrow> nat" where
  "received s = intake (w_stats s) + deduped (w_stats s)"

lemma reconfirm_stage_books: "reconfirm_stage rc cand s = (s1, v) \<Longrightarrow> books_ok s1 = books_ok s"
  using reconfirm_stage_keeps [of rc cand s s1 v] by (simp add: books_ok_def mirrored_def)

lemma verify_readback_not_corrupt: "not_corrupt (w_stats (verify_readback cfg cand s)) = not_corrupt (w_stats s)"
  by (simp add: verify_readback_def count_mismatch_fields split: sum.split)

lemma write_back_not_corrupt:
  "not_corrupt (w_stats (write_back cfg live cand block s)) = not_corrupt (w_stats s)"
proof -
  obtain w' r where wb: "write_block cfg (w_disks s) (failing_dev cand) (array_phys cand) block = (w', r)"
    by fastforce
  show ?thesis
    by (cases r; cases "drop_cache w' (failing_dev cand)")
      (simp_all add: write_back_def wb Let_def verify_readback_not_corrupt count_mismatch_fields)
qed

lemma act_on_result_not_corrupt:
  "res \<noteq> NotCorrupt \<Longrightarrow> not_corrupt (w_stats (act_on_result cfg dry live wa cand res s)) = not_corrupt (w_stats s)"
  by (cases res) (simp_all add: act_on_result_def write_back_not_corrupt count_mismatch_fields)

lemma process_candidate_received:
  assumes "process_candidate rc cfg slot dry live wa cand s = Ret s'"
  shows "received s' = Suc (received s)"
  using assms
proof (cases rule: process_candidate_cases)
  case (recover s1 block unr)
  from recover_candidate_outcome [OF recover(3)] reconfirm_stage_keeps [OF recover(1)] show ?thesis
    by (simp add: one_outcome_def received_def count_mismatch_fields)
qed (auto dest!: reconfirm_stage_same simp: received_def count_mismatch_fields)

lemma process_candidate_books:
  assumes "books_ok s" "process_candidate rc cfg slot dry live wa cand s = Ret s'"
  shows "books_ok s'"
  using assms(2)
proof (cases rule: process_candidate_cases)
  case (recover s1 block unr)
  have "mirrored s1" "outcomes (w_stats s1) = mismatch (w_stats s1)" "not_corrupt (w_stats s1) = 0"
    using assms(1) reconfirm_stage_keeps [OF recover(1)] by (simp_all add: books_ok_def mirrored_def)
  moreover from recover(3) fetch_corrupt_Some [OF recover(2)]
  have "not_corrupt (w_stats s') = not_corrupt (w_stats s1)"
    by (elim recover_candidate_result conjE)
      (simp_all add: act_on_result_not_corrupt count_mismatch_fields)
  ultimately show ?thesis
    using recover_candidate_outcome [OF recover(3)]
    by (simp add: books_ok_def one_outcome_def count_mismatch_fields)
qed (use assms(1) in \<open>auto dest!: reconfirm_stage_books simp: books_ok_def count_mismatch_fields\<close>)

interpretation handler: candidate_handler
  "process_candidate rc cfg slot dry live wa" books_ok received for rc cfg slot dry live wa
proof
  fix s s' c
  show "books_ok s \<Longrightarrow> process_candidate rc cfg slot dry live wa c s = Ret s' \<Longrightarrow> books_ok s'"
    by (rule process_candidate_books)
  show "process_candidate rc cfg slot dry live wa c s = Ret s' \<Longrightarrow> received s' = Suc (received s)"
    by (rule process_candidate_received)
qed

subsection \<open>One flush\<close>

lemma dedup_phys_length: "length (dedup_phys cs) \<le> length cs"
  by (induction cs rule: dedup_phys.induct) auto

lemma dedup_phys_set: "set (dedup_phys cs) \<subseteq> set cs"
  by (induction cs rule: dedup_phys.induct) auto

lemma dedup_phys_keys: "array_phys ` set (dedup_phys cs) = array_phys ` set cs"
  by (induction cs rule: dedup_phys.induct) auto

lemma dedup_phys_strict:
  "sorted (map array_phys cs) \<Longrightarrow> sorted_wrt (<) (map array_phys (dedup_phys cs))"
proof (induction cs rule: dedup_phys.induct)
  case (3 a b rest)
  show ?case
  proof (cases "array_phys b = array_phys a")
    case True
    with 3 show ?thesis by simp
  next
    case False
    with 3 have "sorted_wrt (<) (map array_phys (dedup_phys (b # rest)))" by simp
    moreover have "\<forall>x \<in> array_phys ` set (dedup_phys (b # rest)). array_phys a < x"
      unfolding dedup_phys_keys using False "3.prems" by force
    ultimately show ?thesis using False by simp
  qed
qed simp_all

lemma sort_dedup_length: "length (sort_dedup cs) \<le> length cs"
  using dedup_phys_length [of "sort_key array_phys cs"] by (simp add: sort_dedup_def)

lemma sort_dedup_set: "set (sort_dedup cs) \<subseteq> set cs"
  using dedup_phys_set [of "sort_key array_phys cs"] by (simp add: sort_dedup_def)

lemma sort_dedup_keys: "array_phys ` set (sort_dedup cs) = array_phys ` set cs"
  by (simp add: sort_dedup_def dedup_phys_keys)

lemma sort_dedup_empty [simp]: "sort_dedup cs = [] \<longleftrightarrow> cs = []"
  using sort_dedup_keys [of cs] by force

lemma sort_dedup_strict: "sorted_wrt (<) (map array_phys (sort_dedup cs))"
  by (simp add: sort_dedup_def dedup_phys_strict)

lemma batch_loop_rest:
  "batch_loop proc wa ex i cs s = Ret (s', rest) \<Longrightarrow> \<exists>k. rest = drop k cs"
proof (induction cs arbitrary: i s)
  case (Cons c cs)
  show ?case
  proof (cases "0 < i \<and> wa \<and> ex i")
    case True
    with Cons.prems have "rest = drop 0 (c # cs)" by simp
    then show ?thesis by blast
  next
    case False
    with Cons.prems obtain s1 where "batch_loop proc wa ex (Suc i) cs s1 = Ret (s', rest)"
      by (auto simp: run_bind_def split: run.splits)
    then obtain k where "rest = drop (Suc k) (c # cs)" using Cons.IH by auto
    then show ?thesis by blast
  qed
qed simp

lemma batch_loop_progress:
  assumes "batch_loop proc wa ex 0 cs s = Ret (s', rest)" "cs \<noteq> []"
  shows "length rest < length cs"
proof -
  obtain c cs' where cs: "cs = c # cs'" using assms(2) by (cases cs) auto
  with assms(1) obtain s1 where "batch_loop proc wa ex (Suc 0) cs' s1 = Ret (s', rest)"
    by (auto simp: run_bind_def split: run.splits)
  from batch_loop_rest [OF this] obtain k where "rest = drop k cs'" ..
  then show ?thesis by (simp add: cs)
qed

text \<open>The parts of a flush that returned.\<close>

lemma flush_batch_parts [consumes 1, case_names parts]:
  assumes "flush_batch rc cfg slot dry ex batch (fz, s) = Ret ((fz', s'), res)"
  obtains fz1 g deferred where "guard fz = (fz1, g)"
    "batch_loop (process_candidate rc cfg slot dry (has_live_mount (snd fz))
       (g = Inr True \<or> \<not> has_live_mount (snd fz))) (g = Inr True \<or> \<not> has_live_mount (snd fz)) ex 0
       (sort_dedup batch) (count_deduped (length batch - length (sort_dedup batch)) s) = Ret (s', deferred)"
    "fst fz' = fst (if g = Inr True then thaw fz1 else fz1)"
    "snd fz' = fst (take_thaw_error (snd (if g = Inr True then thaw fz1 else fz1)))"
    "res = (case last_thaw_error (snd (if g = Inr True then thaw fz1 else fz1)) of
              Some _ \<Rightarrow> Inl OtherError | None \<Rightarrow> Inr deferred)"
proof -
  obtain fz1 g where g: "guard fz = (fz1, g)" by fastforce
  from assms obtain d where "batch_loop (process_candidate rc cfg slot dry (has_live_mount (snd fz))
       (g = Inr True \<or> \<not> has_live_mount (snd fz))) (g = Inr True \<or> \<not> has_live_mount (snd fz)) ex 0
       (sort_dedup batch) (count_deduped (length batch - length (sort_dedup batch)) s) = Ret (s', d)"
    "fz' = (fst (if g = Inr True then thaw fz1 else fz1),
       fst (take_thaw_error (snd (if g = Inr True then thaw fz1 else fz1))))"
    "res = (case last_thaw_error (snd (if g = Inr True then thaw fz1 else fz1)) of
              Some _ \<Rightarrow> Inl OtherError | None \<Rightarrow> Inr d)"
    by (auto simp: flush_batch_def Let_def g take_thaw_error_def run_bind_def
        split: run.splits prod.splits option.splits if_splits)
  with that [OF g] show thesis by simp
qed

lemma flush_batch_progress:
  assumes "flush_batch rc cfg slot dry ex batch st = Ret (st', Inr deferred)" "batch \<noteq> []"
  shows "length deferred < length batch"
proof -
  obtain fz s fz' s' where st: "st = (fz, s)" "st' = (fz', s')" by (cases st; cases st')
  from assms(1) [unfolded st] show ?thesis
  proof (cases rule: flush_batch_parts)
    case (parts fz1 g d)
    have "d = deferred" using parts(5) by (simp split: option.splits)
    then show ?thesis
      using batch_loop_progress [OF parts(2)] sort_dedup_length [of batch] assms(2) by simp
  qed
qed

subsection \<open>The writer\<close>

text \<open>
  \<open>flush_pending\<close> replaces the pending candidates by the deferred ones. \<open>clock f i\<close> tells
  whether flush number \<open>f\<close> finds its window exceeded at candidate \<open>i\<close>.
\<close>

function drain ::
  "'r reconfirmer \<Rightarrow> array_config \<Rightarrow> nat \<Rightarrow> bool \<Rightarrow> (nat \<Rightarrow> nat \<Rightarrow> bool) \<Rightarrow> nat \<Rightarrow> candidate list \<Rightarrow>
   'r flush_state \<Rightarrow> ('r flush_state \<times> (io_kind + batch_stats)) run" where
  "drain rc cfg scrub_slot dry_run clock f pending st =
     (if pending = [] then Ret (st, Inr (w_stats (snd st)))
      else case flush_batch rc cfg scrub_slot dry_run (clock f) pending st of
             Panic \<Rightarrow> Panic
           | Ret (st', Inl e) \<Rightarrow> Ret (st', Inl e)
           | Ret (st', Inr deferred) \<Rightarrow>
               drain rc cfg scrub_slot dry_run clock (Suc f) deferred st')"
  by pat_completeness auto

termination
  by (relation "measure (\<lambda>(_, _, _, _, _, _, pending, _). length pending)")
    (auto dest: flush_batch_progress)

declare drain.simps [simp del]

text \<open>The end of the message list is the disconnected channel.\<close>

fun run_writer ::
  "'r reconfirmer \<Rightarrow> array_config \<Rightarrow> nat \<Rightarrow> bool \<Rightarrow> (nat \<Rightarrow> nat \<Rightarrow> bool) \<Rightarrow> nat \<Rightarrow> candidate list \<Rightarrow>
   batch_msg list \<Rightarrow> 'r flush_state \<Rightarrow> ('r flush_state \<times> (io_kind + batch_stats)) run" where
  "run_writer rc cfg scrub_slot dry_run clock f pending [] st =
     drain rc cfg scrub_slot dry_run clock f pending st"
| "run_writer rc cfg scrub_slot dry_run clock f pending (BatchDone # ms) st =
     drain rc cfg scrub_slot dry_run clock f pending st"
| "run_writer rc cfg scrub_slot dry_run clock f pending (Batch batch # ms) st =
     (case flush_batch rc cfg scrub_slot dry_run (clock f) (pending @ batch) st of
        Panic \<Rightarrow> Panic
      | Ret (st', Inl e) \<Rightarrow> Ret (st', Inl e)
      | Ret (st', Inr deferred) \<Rightarrow>
          run_writer rc cfg scrub_slot dry_run clock (Suc f) deferred ms st')"

text \<open>
  Both threads: what the accumulator sends is what the writer receives. The writer thread
  owns the freeze controller; dropping it thaws a freeze that is still held.
\<close>

definition spawn_pipeline ::
  "'r reconfirmer \<Rightarrow> array_config \<Rightarrow> nat \<Rightarrow> bool \<Rightarrow> (nat \<Rightarrow> nat \<Rightarrow> bool) \<Rightarrow> nat \<Rightarrow> (nat \<Rightarrow> bool) \<Rightarrow>
   chan_event list \<Rightarrow> (kernel \<times> freeze_controller) \<Rightarrow> disks \<Rightarrow> 'r \<Rightarrow> status_counters option \<Rightarrow>
   ('r flush_state \<times> (io_kind + batch_stats)) run" where
  "spawn_pipeline rc cfg scrub_slot dry_run clock batch_max alive es fz w r counters =
     run_bind
       (run_writer rc cfg scrub_slot dry_run clock 0 [] (run_accumulator batch_max alive es)
          (fz, \<lparr>w_disks = w, w_reconfirmer = r, w_stats = default_batch_stats, w_counters = counters\<rparr>))
       (\<lambda>((fz', s'), res). Ret ((thaw fz', s'), res))"

end
