(* ===== verification/Pipeline.thy ===== *)
theory Pipeline
  imports Batch_Recover
begin

text \<open>
  What the recovery pipeline of \<open>src/scrub-rs/src/batch_recover.rs\<close> guarantees as a whole:
  every candidate is classified exactly once, nothing is written outside a freeze, outside
  the candidate's device or in a dry run, a returned run leaves the mount thawed, and a
  sector damaged on one disk is repaired to its original bytes.
\<close>

subsection \<open>Relations kept by the loop, the flush and the writer\<close>

lemma batch_loop_rel:
  assumes "reflp R" "transp R"
    and step: "\<And>c s s'. c \<in> C \<Longrightarrow> proc c s = Ret s' \<Longrightarrow> R s s'"
  shows "batch_loop proc wa ex i cs s = Ret (s', rest) \<Longrightarrow> set cs \<subseteq> C \<Longrightarrow> R s s'"
proof (induction cs arbitrary: i s)
  case Nil
  then show ?case using assms(1) by (simp add: reflpD)
next
  case (Cons c cs)
  show ?case
  proof (cases "0 < i \<and> wa \<and> ex i")
    case True
    with Cons.prems assms(1) show ?thesis by (simp add: reflpD)
  next
    case False
    with Cons.prems obtain s1 where "proc c s = Ret s1" "batch_loop proc wa ex (Suc i) cs s1 = Ret (s', rest)"
      by (auto simp: run_bind_def split: run.splits)
    with Cons step [of c s s1] assms(2) show ?thesis by (auto dest: transpD)
  qed
qed

text \<open>The flush of a batch as seen by its caller: a step of the writer's state.\<close>

lemma flush_deferred_subset:
  assumes "flush_batch rc cfg slot dry ex batch st = Ret (st', Inr d)"
  shows "set d \<subseteq> set batch"
proof -
  obtain fz s fz' s' where st: "st = (fz, s)" "st' = (fz', s')" by (cases st; cases st')
  from assms [unfolded st] show ?thesis
  proof (cases rule: flush_batch_parts)
    case (parts fz1 g d')
    have "d' = d" using parts(5) by (simp split: option.splits)
    with batch_loop_rest [OF parts(2)] show ?thesis
      using sort_dedup_set [of batch] set_drop_subset by fastforce
  qed
qed

lemma drain_rel:
  assumes "reflp R" "transp R"
    and flush: "\<And>ex batch st st' res. set batch \<subseteq> C \<Longrightarrow>
      flush_batch rc cfg slot dry ex batch st = Ret (st', res) \<Longrightarrow> R st st'"
  shows "drain rc cfg slot dry clock f pending st = Ret (st', res) \<Longrightarrow> set pending \<subseteq> C \<Longrightarrow> R st st'"
proof (induction "length pending" arbitrary: f pending st rule: less_induct)
  case less
  show ?case
  proof (cases "pending = []")
    case True
    with less.prems assms(1) show ?thesis by (simp add: drain.simps reflpD)
  next
    case False
    with less.prems obtain st1 r where fl: "flush_batch rc cfg slot dry (clock f) pending st = Ret (st1, r)"
      by (auto simp: drain.simps [of _ _ _ _ _ _ pending] split: run.splits)
    have R1: "R st st1" using flush fl less.prems(2) by blast
    show ?thesis
    proof (cases r)
      case (Inl e)
      with less.prems(1) False fl R1 show ?thesis by (simp add: drain.simps [of _ _ _ _ _ _ pending])
    next
      case (Inr d)
      with less.prems(1) False fl have "drain rc cfg slot dry clock (Suc f) d st1 = Ret (st', res)"
        by (simp add: drain.simps [of _ _ _ _ _ _ pending])
      moreover have "length d < length pending" "set d \<subseteq> C"
        using fl Inr False less.prems(2) flush_batch_progress flush_deferred_subset by blast+
      ultimately have "R st1 st'" using less.hyps by blast
      with R1 show ?thesis by (rule transpD [OF assms(2)])
    qed
  qed
qed

fun batch_content :: "batch_msg list \<Rightarrow> candidate list" where
  "batch_content [] = []"
| "batch_content (BatchDone # ms) = []"
| "batch_content (Batch b # ms) = b @ batch_content ms"

lemma run_writer_rel:
  assumes "reflp R" "transp R"
    and flush: "\<And>ex batch st st' res. set batch \<subseteq> C \<Longrightarrow>
      flush_batch rc cfg slot dry ex batch st = Ret (st', res) \<Longrightarrow> R st st'"
  shows "run_writer rc cfg slot dry clock f pending ms st = Ret (st', res) \<Longrightarrow>
    set pending \<union> set (batch_content ms) \<subseteq> C \<Longrightarrow> R st st'"
proof (induction ms arbitrary: f pending st)
  case Nil
  then show ?case using drain_rel [OF assms] by simp
next
  case (Cons m ms)
  show ?case
  proof (cases m)
    case BatchDone
    with Cons.prems show ?thesis using drain_rel [OF assms] by simp
  next
    case (Batch b)
    with Cons.prems(1) obtain st1 r
      where fl: "flush_batch rc cfg slot dry (clock f) (pending @ b) st = Ret (st1, r)"
      by (auto split: run.splits)
    have R1: "R st st1" using flush [OF _ fl] Cons.prems(2) Batch by simp
    show ?thesis
    proof (cases r)
      case (Inl e)
      with Cons.prems Batch fl R1 show ?thesis by simp
    next
      case (Inr d)
      with Cons.prems Batch fl have "run_writer rc cfg slot dry clock (Suc f) d ms st1 = Ret (st', res)" by simp
      moreover have "set d \<subseteq> set (pending @ b)" using fl Inr flush_deferred_subset by blast
      ultimately have "R st1 st'" using Cons.IH [of "Suc f" d st1] Cons.prems(2) Batch by fastforce
      with R1 show ?thesis by (rule transpD [OF assms(2)])
    qed
  qed
qed

subsection \<open>Bookkeeping\<close>

lemma flush_books:
  assumes "flush_batch rc cfg slot dry ex batch (fz, s) = Ret ((fz', s'), res)"
  shows "books_ok s \<Longrightarrow> books_ok s'"
    and "res = Inr d \<Longrightarrow> received s' + length d = received s + length batch"
proof -
  from assms have "(books_ok s \<longrightarrow> books_ok s') \<and> (res = Inr d \<longrightarrow> received s' + length d = received s + length batch)"
  proof (cases rule: flush_batch_parts)
    case (parts fz1 g d')
    let ?s = "count_deduped (length batch - length (sort_dedup batch)) s"
    have "books_ok ?s" if "books_ok s" using that by (simp add: books_ok_def count_mismatch_fields)
    moreover have "received ?s + length (sort_dedup batch) = received s + length batch"
      using sort_dedup_length [of batch] by (simp add: received_def) (simp add: count_deduped_def)
    moreover have "d' = d" if "res = Inr d" using parts(5) that by (simp split: option.splits)
    ultimately show ?thesis
      using handler.loop_inv [OF _ parts(2)] handler.loop_tally [OF parts(2)] by auto
  qed
  then show "books_ok s \<Longrightarrow> books_ok s'" and "res = Inr d \<Longrightarrow> received s' + length d = received s + length batch"
    by blast+
qed

lemma drain_received:
  "drain rc cfg slot dry clock f pending st = Ret (st', Inr stats) \<Longrightarrow>
   stats = w_stats (snd st') \<and> received (snd st') = received (snd st) + length pending"
proof (induction "length pending" arbitrary: f pending st rule: less_induct)
  case less
  show ?case
  proof (cases "pending = []")
    case True
    with less.prems show ?thesis by (auto simp: drain.simps)
  next
    case False
    with less.prems obtain st1 d where fl: "flush_batch rc cfg slot dry (clock f) pending st = Ret (st1, Inr d)"
        and dr: "drain rc cfg slot dry clock (Suc f) d st1 = Ret (st', Inr stats)"
      by (auto simp: drain.simps [of _ _ _ _ _ _ pending] split: run.splits sum.splits)
    obtain fz s fz1 s1 where st: "st = (fz, s)" "st1 = (fz1, s1)" by (cases st; cases st1)
    have "received s1 + length d = received s + length pending"
      by (rule flush_books(2) [OF fl [unfolded st] refl])
    moreover have "stats = w_stats (snd st') \<and> received (snd st') = received (snd st1) + length d"
      using less.hyps [OF flush_batch_progress [OF fl False] dr] .
    ultimately show ?thesis by (simp add: st)
  qed
qed

lemma run_writer_received:
  "run_writer rc cfg slot dry clock f pending ms st = Ret (st', Inr stats) \<Longrightarrow>
   stats = w_stats (snd st') \<and>
   received (snd st') = received (snd st) + length pending + length (batch_content ms)"
proof (induction ms arbitrary: f pending st)
  case (Cons m ms)
  show ?case
  proof (cases m)
    case (Batch b)
    with Cons.prems obtain st1 d
      where fl: "flush_batch rc cfg slot dry (clock f) (pending @ b) st = Ret (st1, Inr d)"
        and rw: "run_writer rc cfg slot dry clock (Suc f) d ms st1 = Ret (st', Inr stats)"
      by (auto split: run.splits sum.splits)
    obtain fz s fz1 s1 where st: "st = (fz, s)" "st1 = (fz1, s1)" by (cases st; cases st1)
    have "received s1 + length d = received s + length (pending @ b)"
      by (rule flush_books(2) [OF fl [unfolded st] refl])
    with Cons.IH [OF rw] Batch st show ?thesis by simp
  qed (use Cons.prems drain_received in simp)
qed (use drain_received in simp)

lemma run_writer_books:
  assumes "run_writer rc cfg slot dry clock f pending ms st = Ret (st', res)" "books_ok (snd st)"
  shows "books_ok (snd st')"
proof -
  have "books_ok (snd st) \<longrightarrow> books_ok (snd st')"
  proof (rule run_writer_rel [where C = UNIV, OF _ _ _ assms(1)])
    show "reflp (\<lambda>st st'. books_ok (snd st) \<longrightarrow> books_ok (snd st'))" by (simp add: reflp_def)
    show "transp (\<lambda>st st'. books_ok (snd st) \<longrightarrow> books_ok (snd st'))" by (auto simp: transp_def)
  qed (use flush_books(1) in \<open>fastforce+\<close>)
  with assms(2) show ?thesis by simp
qed

subsection \<open>What the accumulator hands over\<close>

text \<open>The candidates the accumulator receives: those sent before the first Done.\<close>

fun sent_candidates :: "chan_event list \<Rightarrow> candidate list" where
  "sent_candidates [] = []"
| "sent_candidates (Recv DoneMsg # es) = []"
| "sent_candidates (Recv (CandidateMsg c) # es) = c # sent_candidates es"
| "sent_candidates (Idle # es) = sent_candidates es"

definition batch_bounds :: "nat \<Rightarrow> batch_msg \<Rightarrow> bool" where
  "batch_bounds batch_max m = (case m of BatchDone \<Rightarrow> True | Batch b \<Rightarrow> b \<noteq> [] \<and> length b \<le> max batch_max 1)"

lemma finish_accumulator_ok:
  assumes "\<And>k. alive k"
  shows "batch_content (finish_accumulator alive k batch) = batch"
    and "length batch \<le> max bm 1 \<Longrightarrow> list_all (batch_bounds bm) (finish_accumulator alive k batch)"
    and "last (finish_accumulator alive k batch) = BatchDone \<and> finish_accumulator alive k batch \<noteq> []"
  by (simp_all add: finish_accumulator_def assms batch_bounds_def)

lemma accumulator_content:
  shows "\<forall>k. alive k \<Longrightarrow> batch_content (recv_first bm alive k batch es) = batch @ sent_candidates es"
    and "\<forall>k. alive k \<Longrightarrow> batch_content (fill_batch bm alive k batch es) = batch @ sent_candidates es"
proof (induction bm alive k batch es and bm alive k batch es rule: recv_first_fill_batch.induct)
  case (5 bm alive k batch es)
  show ?case
  proof (cases "length batch < bm")
    case True
    with 5 show ?thesis
      by (simp add: fill_batch.simps [of bm alive k batch] finish_accumulator_ok split: list.split chan_event.split msg.split)
  next
    case False
    with 5 show ?thesis by (simp add: fill_batch.simps [of bm alive k batch])
  qed
qed (simp_all add: finish_accumulator_ok del: fill_batch.simps)

lemma accumulator_bounds:
  shows "\<forall>k. alive k \<Longrightarrow> batch = [] \<Longrightarrow> list_all (batch_bounds bm) (recv_first bm alive k batch es)"
    and "\<forall>k. alive k \<Longrightarrow> batch \<noteq> [] \<Longrightarrow> length batch \<le> max bm 1 \<Longrightarrow>
      list_all (batch_bounds bm) (fill_batch bm alive k batch es)"
proof (induction bm alive k batch es and bm alive k batch es rule: recv_first_fill_batch.induct)
  case (5 bm alive k batch es)
  then have b: "batch_bounds bm (Batch batch)" by (simp add: batch_bounds_def)
  show ?case
  proof (cases "length batch < bm")
    case True
    with 5 b show ?thesis
      by (simp add: fill_batch.simps [of bm alive k batch] finish_accumulator_ok split: list.split chan_event.split msg.split)
  next
    case False
    with 5 b show ?thesis by (simp add: fill_batch.simps [of bm alive k batch])
  qed
qed (simp_all add: finish_accumulator_ok del: fill_batch.simps)

lemma accumulator_last:
  shows "\<forall>k. alive k \<Longrightarrow> recv_first bm alive k batch es \<noteq> [] \<and> last (recv_first bm alive k batch es) = BatchDone"
    and "\<forall>k. alive k \<Longrightarrow> fill_batch bm alive k batch es \<noteq> [] \<and> last (fill_batch bm alive k batch es) = BatchDone"
proof (induction bm alive k batch es and bm alive k batch es rule: recv_first_fill_batch.induct)
  case (5 bm alive k batch es)
  show ?case
  proof (cases "length batch < bm")
    case True
    with 5 show ?thesis
      by (simp add: fill_batch.simps [of bm alive k batch] finish_accumulator_ok split: list.split chan_event.split msg.split)
  next
    case False
    with 5 show ?thesis by (simp add: fill_batch.simps [of bm alive k batch])
  qed
qed (simp_all add: finish_accumulator_ok del: fill_batch.simps)

subsection \<open>Freeze discipline\<close>

text \<open>Between batches no freeze is held and no thaw error is pending.\<close>

definition freeze_idle :: "kernel \<times> freeze_controller \<Rightarrow> bool" where
  "freeze_idle fz \<longleftrightarrow> freeze_inv fz \<and> \<not> frozen (snd fz) \<and> last_thaw_error (snd fz) = None"

lemma guard_pending: "guard fz = (fz1, g) \<Longrightarrow> last_thaw_error (snd fz1) = last_thaw_error (snd fz)"
  by (auto simp: freeze_defs split: option.splits prod.splits if_splits sum.splits)

lemma thaw_released: "last_thaw_error (snd (thaw fz)) = None \<Longrightarrow> \<not> frozen (snd (thaw fz))"
  by (auto simp: freeze_defs split: option.splits prod.splits if_splits sum.splits)

lemma take_error_inv: "freeze_inv (k, fst (take_thaw_error fc)) = freeze_inv (k, fc)"
  by (simp add: freeze_inv_def take_thaw_error_def split: option.split)

lemma flush_freeze:
  assumes "flush_batch rc cfg slot dry ex batch (fz, s) = Ret ((fz', s'), res)" "freeze_idle fz"
  shows "freeze_inv fz' \<and> mountpoint (snd fz') = mountpoint (snd fz) \<and> last_thaw_error (snd fz') = None \<and>
    ((\<exists>d. res = Inr d) \<longrightarrow> freeze_idle fz')"
  using assms(1)
proof (cases rule: flush_batch_parts)
  case (parts fz1 g d)
  let ?fz = "if g = Inr True then thaw fz1 else fz1"
  have "freeze_inv fz1" using guard_inv [OF _ parts(1)] assms(2) by (simp add: freeze_idle_def)
  then have "freeze_inv (fst ?fz, snd ?fz)" by (auto intro: thaw_inv)
  then have i: "freeze_inv fz'" using parts(3,4) take_error_inv [of "fst ?fz" "snd ?fz"] by (cases fz') simp
  have "\<not> frozen (snd ?fz)" if "res = Inr x" for x
  proof (cases "g = Inr True")
    case True
    with parts(5) that have "last_thaw_error (snd (thaw fz1)) = None" by (auto split: option.splits)
    with True show ?thesis by (simp add: thaw_released)
  next
    case False
    then have "snd fz1 = snd fz"
      using guard_none [of fz fz1] guard_error [of fz fz1] parts(1) by (cases g) auto
    with False assms(2) show ?thesis by (simp add: freeze_idle_def)
  qed
  moreover have "frozen (snd fz') = frozen (snd ?fz)" "mountpoint (snd fz') = mountpoint (snd ?fz)"
      "last_thaw_error (snd fz') = None"
    using parts(4) by (simp_all add: take_thaw_error_def)
  moreover have "mountpoint (snd ?fz) = mountpoint (snd fz)"
    using guard_mountpoint [OF parts(1)] by (simp add: thaw_mountpoint)
  ultimately show ?thesis using i by (auto simp: freeze_idle_def)
qed

text \<open>
  Disks change in a flush only when writes were allowed: offline, or under a freeze that
  the kernel really holds on the mount.
\<close>

lemma batch_loop_disks:
  assumes "batch_loop (process_candidate rc cfg slot dry live wa) b ex i cs s = Ret (s', rest)"
    and "dry \<or> \<not> wa"
  shows "w_disks s' = w_disks s"
proof -
  have "w_disks s = w_disks s'"
  proof (rule batch_loop_rel [where C = UNIV and R = "\<lambda>s s'. w_disks s = w_disks s'", OF _ _ _ assms(1)])
    fix c s s'
    assume "process_candidate rc cfg slot dry live wa c s = Ret s'"
    from process_candidate_disks [OF this] assms(2) show "w_disks s = w_disks s'" by fastforce
  qed (simp_all add: reflp_def transp_def)
  then show ?thesis ..
qed

lemma batch_loop_frame:
  assumes "batch_loop (process_candidate rc cfg slot dry live wa) b ex i cs s = Ret (s', rest)"
    and "p \<notin> failing_dev ` set cs"
  shows "w_disks s' p = w_disks s p"
proof (rule batch_loop_rel [where C = "set cs" and R = "\<lambda>s s'. w_disks s' p = w_disks s p", OF _ _ _ assms(1)])
  fix c s s'
  assume "c \<in> set cs" "process_candidate rc cfg slot dry live wa c s = Ret s'"
  with assms(2) show "w_disks s' p = w_disks s p" using process_candidate_frame by blast
qed (simp_all add: reflp_def transp_def)

lemma flush_disks:
  assumes "flush_batch rc cfg slot dry ex batch (fz, s) = Ret ((fz', s'), res)" "w_disks s' \<noteq> w_disks s"
  shows "\<not> dry \<and> (mountpoint (snd fz) = None \<or> (\<exists>fz1. guard fz = (fz1, Inr True)))"
  using assms(1)
proof (cases rule: flush_batch_parts)
  case (parts fz1 g d)
  with batch_loop_disks [OF parts(2)] assms(2) show ?thesis by (auto simp: has_live_mount_def)
qed

lemma flush_frame:
  assumes "flush_batch rc cfg slot dry ex batch (fz, s) = Ret ((fz', s'), res)"
    and "p \<notin> failing_dev ` set batch"
  shows "w_disks s' p = w_disks s p"
  using assms(1)
proof (cases rule: flush_batch_parts)
  case (parts fz1 g d)
  have "p \<notin> failing_dev ` set (sort_dedup batch)" using assms(2) sort_dedup_set [of batch] by auto
  from batch_loop_frame [OF parts(2) this] show ?thesis by simp
qed

subsection \<open>No panic\<close>

lemma gathered_input_ok:
  assumes "gather_stripe cfg w k a n = Inr ch" "slots_ok cfg" "1 \<le> k" "k \<le> 255" "length block = n"
  shows "input_ok \<lparr>failing_slot = k, corrupt_block = block, unreadable_source = unr,
    other_blocks = other_data ch, p_block = chunk_p ch, q_block = chunk_q ch, verifier = v\<rparr> n"
  using gather_stripe_ok [OF assms(1-4)] assms(5) gather_parity_length gather_stripe_shape(2,3) [OF assms(1)]
  by (simp add: input_ok_def)

lemma process_candidate_total:
  assumes "slots_ok cfg" "1 \<le> slot" "slot \<le> 255"
  shows "process_candidate rc cfg slot dry live wa cand s \<noteq> Panic"
proof -
  have "recover_candidate cfg slot dry live wa cand block unr s1 \<noteq> Panic"
    if "length block = block_size cand" for block unr and s1 :: "'a writer"
  proof (cases "gather_stripe cfg (w_disks s1) slot (array_phys cand) (block_size cand)")
    case (Inr ch)
    from recover_block_total [OF gathered_input_ok [OF Inr assms that, of unr "verify cand"]] Inr
    show ?thesis by (auto simp: recover_candidate_def run_bind_def split: run.splits)
  qed (simp add: recover_candidate_def)
  then show ?thesis
    using fetch_corrupt_Some
    by (fastforce simp: process_candidate_def split: prod.splits reconfirm.splits option.splits)
qed

lemma batch_loop_total: "(\<And>c s. proc c s \<noteq> Panic) \<Longrightarrow> batch_loop proc wa ex i cs s \<noteq> Panic"
  by (induction cs arbitrary: i s) (auto simp: run_bind_def split: run.split)

lemma flush_total:
  assumes "slots_ok cfg" "1 \<le> slot" "slot \<le> 255"
  shows "flush_batch rc cfg slot dry ex batch st \<noteq> Panic"
  using batch_loop_total [OF process_candidate_total [OF assms]]
  by (fastforce simp: flush_batch_def Let_def run_bind_def split: prod.splits run.splits option.splits)

lemma drain_total:
  assumes "slots_ok cfg" "1 \<le> slot" "slot \<le> 255"
  shows "drain rc cfg slot dry clock f pending st \<noteq> Panic"
proof (induction "length pending" arbitrary: f pending st rule: less_induct)
  case less
  show ?case
  proof (cases "pending = []")
    case False
    obtain st1 r where fl: "flush_batch rc cfg slot dry (clock f) pending st = Ret (st1, r)"
      using flush_total [OF assms] by (metis run.exhaust surj_pair)
    show ?thesis
    proof (cases r)
      case (Inr d)
      with less flush_batch_progress [OF _ False] fl have "drain rc cfg slot dry clock (Suc f) d st1 \<noteq> Panic" by blast
      with Inr fl False show ?thesis by (simp add: drain.simps [of _ _ _ _ _ _ pending])
    qed (use fl False in \<open>simp add: drain.simps [of _ _ _ _ _ _ pending]\<close>)
  qed (simp add: drain.simps)
qed

lemma run_writer_total:
  assumes "slots_ok cfg" "1 \<le> slot" "slot \<le> 255"
  shows "run_writer rc cfg slot dry clock f pending ms st \<noteq> Panic"
proof (induction ms arbitrary: f pending st)
  case (Cons m ms)
  show ?case
  proof (cases m)
    case (Batch b)
    obtain st1 r where "flush_batch rc cfg slot dry (clock f) (pending @ b) st = Ret (st1, r)"
      using flush_total [OF assms] by (metis run.exhaust surj_pair)
    with Cons Batch show ?thesis by (cases r) simp_all
  qed (simp add: drain_total [OF assms])
qed (simp add: drain_total [OF assms])

subsection \<open>Repair of one sector\<close>

text \<open>A device that takes the write: no faults, and the block lies inside it.\<close>

definition healthy_at :: "array_config \<Rightarrow> disks \<Rightarrow> path \<Rightarrow> nat \<Rightarrow> nat \<Rightarrow> bool" where
  "healthy_at cfg w dev a n \<longleftrightarrow>
     (\<exists>d. w dev = Some d \<and> honest_disk d \<and> (\<forall>off m. write_fault d off m = None) \<and>
        sync_fault d = None \<and> cache_fault d = None \<and>
        add64 a (raw_offset_for cfg dev) + n \<le> length (content d))"

lemma healthy_honest: "healthy_at cfg w dev a n \<Longrightarrow> honest_at w dev"
  by (auto simp: healthy_at_def honest_at_def)

lemma healthy_write:
  assumes "healthy_at cfg w dev a (length bs)"
  obtains w' where "write_block cfg w dev a bs = (w', Inr ())"
    "drop_cache w' dev = Inr () \<or> \<not> is_block_file w' dev"
proof -
  let ?raw = "add64 a (raw_offset_for cfg dev)"
  from assms obtain d where d: "w dev = Some d" "honest_disk d" "\<forall>off m. write_fault d off m = None"
      "sync_fault d = None" "cache_fault d = None" "?raw + length bs \<le> length (content d)"
    by (auto simp: healthy_at_def)
  define w' where "w' = w(dev \<mapsto> d\<lparr>content := overwrite (content d) ?raw bs\<rparr>)"
  have "write_block cfg w dev a bs = (w', Inr ())"
    using d by (simp add: write_block_def write_all_at_def file_open_def honest_disk_def w'_def Let_def)
  moreover have "drop_cache w' dev = Inr () \<or> \<not> is_block_file w' dev"
    using d by (simp add: w'_def drop_cache_def is_block_file_def file_open_def honest_disk_def)
  ultimately show thesis by (rule that)
qed

lemma write_back_healthy:
  assumes "healthy_at cfg (w_disks s) (failing_dev cand) (array_phys cand) (block_size cand)"
    and "length block = block_size cand" "verify cand block"
  shows "w_stats (write_back cfg live cand block s) = (w_stats s)\<lparr>recovered := Suc (recovered (w_stats s))\<rparr> \<and>
    read_block_or_zeros cfg (w_disks (write_back cfg live cand block s)) (failing_dev cand)
      (array_phys cand) (block_size cand) = Inr block"
proof -
  from assms obtain w' where w': "write_block cfg (w_disks s) (failing_dev cand) (array_phys cand) block = (w', Inr ())"
      "drop_cache w' (failing_dev cand) = Inr () \<or> \<not> is_block_file w' (failing_dev cand)"
    using healthy_write [of cfg "w_disks s" "failing_dev cand" "array_phys cand" block] by auto
  have rd: "read_block_or_zeros cfg w' (failing_dev cand) (array_phys cand) (block_size cand) = Inr block"
    using stripe.rd_wr [OF healthy_honest [OF assms(1)] w'(1)] assms(2) by simp
  let ?s = "note_repair live (s\<lparr>w_disks := w'\<rparr>)"
  have "write_back cfg live cand block s = verify_readback cfg cand ?s"
    using w' by (auto simp: write_back_def Let_def split: sum.split)
  also have "\<dots> = count_recovered ?s" using rd assms(3) by (simp add: verify_readback_def)
  finally show ?thesis using rd by (simp add: count_recovered_def)
qed

lemma process_candidate_recovers:
  assumes v: "reconfirm_stage rc cand s = (s1, Corruption)"
    and f: "fetch_corrupt cfg (w_disks s) cand = Some (block, unr)"
    and g: "gather_stripe cfg (w_disks s) slot (array_phys cand) (block_size cand) = Inr ch"
    and r: "recover_block \<lparr>failing_slot = slot, corrupt_block = block, unreadable_source = unr,
      other_blocks = other_data ch, p_block = chunk_p ch, q_block = chunk_q ch, verifier = verify cand\<rparr>
      (block_size cand) = Ret (Recovered via d)"
    and h: "healthy_at cfg (w_disks s) (failing_dev cand) (array_phys cand) (block_size cand)"
  shows "\<exists>s'. process_candidate rc cfg slot False live True cand s = Ret s' \<and>
    w_stats s' = (w_stats s)\<lparr>mismatch := Suc (mismatch (w_stats s)), recovered := Suc (recovered (w_stats s))\<rparr> \<and>
    read_block_or_zeros cfg (w_disks s') (failing_dev cand) (array_phys cand) (block_size cand) = Inr d"
proof -
  note k = reconfirm_stage_keeps [OF v]
  have d: "length d = block_size cand" "verify cand d" using recover_block_sound [OF r] by simp_all
  have "process_candidate rc cfg slot False live True cand s =
      Ret (write_back cfg live cand d (count_mismatch s1))"
    using v f g r k by (simp add: process_candidate_def recover_candidate_def run_bind_def act_on_result_def)
  moreover have "w_stats (count_mismatch s1) = (w_stats s)\<lparr>mismatch := Suc (mismatch (w_stats s))\<rparr>"
    using k by (simp add: count_mismatch_def)
  ultimately show ?thesis
    using write_back_healthy [of cfg "count_mismatch s1" cand d live] h d k by simp
qed

text \<open>\<open>I\<close> holds between flushes, \<open>J\<close> at the end of the writer, for an error (flag true) or a result.\<close>

lemma drain_inv:
  assumes end_inv: "\<And>st. I st \<Longrightarrow> J st False"
    and flush: "\<And>ex batch st st' res. I st \<Longrightarrow>
      flush_batch rc cfg slot dry ex batch st = Ret (st', res) \<Longrightarrow> J st' (isl res) \<and> ((\<exists>d. res = Inr d) \<longrightarrow> I st')"
  shows "drain rc cfg slot dry clock f pending st = Ret (st', res) \<Longrightarrow> I st \<Longrightarrow>
      J st' (isl res) \<and> ((\<exists>d. res = Inr d) \<longrightarrow> I st')"
proof (induction "length pending" arbitrary: f pending st rule: less_induct)
  case less
  show ?case
  proof (cases "pending = []")
    case True
    with less.prems end_inv [of st] show ?thesis by (auto simp: drain.simps)
  next
    case False
    with less.prems(1) obtain st1 r where fl: "flush_batch rc cfg slot dry (clock f) pending st = Ret (st1, r)"
      by (auto simp: drain.simps [of _ _ _ _ _ _ pending] split: run.splits)
    show ?thesis
    proof (cases r)
      case (Inl e)
      with less.prems False fl flush [OF less.prems(2) fl] show ?thesis
        by (auto simp: drain.simps [of _ _ _ _ _ _ pending])
    next
      case (Inr d)
      then have "length d < length pending" using fl False flush_batch_progress by blast
      moreover have "drain rc cfg slot dry clock (Suc f) d st1 = Ret (st', res)"
        using less.prems(1) False fl Inr by (simp add: drain.simps [of _ _ _ _ _ _ pending])
      moreover have "I st1" using flush [OF less.prems(2) fl] Inr by blast
      ultimately show ?thesis by (rule less.hyps)
    qed
  qed
qed

lemma run_writer_inv:
  assumes end_inv: "\<And>st. I st \<Longrightarrow> J st False"
    and flush: "\<And>ex batch st st' res. I st \<Longrightarrow>
      flush_batch rc cfg slot dry ex batch st = Ret (st', res) \<Longrightarrow> J st' (isl res) \<and> ((\<exists>d. res = Inr d) \<longrightarrow> I st')"
  shows "run_writer rc cfg slot dry clock f pending ms st = Ret (st', res) \<Longrightarrow> I st \<Longrightarrow>
      J st' (isl res) \<and> ((\<exists>d. res = Inr d) \<longrightarrow> I st')"
proof (induction ms arbitrary: f pending st)
  case (Cons m ms)
  show ?case
  proof (cases m)
    case (Batch b)
    with Cons.prems(1) obtain st1 r
      where fl: "flush_batch rc cfg slot dry (clock f) (pending @ b) st = Ret (st1, r)"
      by (auto split: run.splits)
    with Cons.prems Batch flush [OF Cons.prems(2) fl] Cons.IH show ?thesis by (cases r) auto
  qed (use Cons.prems drain_inv [OF assms] in simp)
qed (use drain_inv [OF assms] in simp)

text \<open>A kernel whose freeze ioctls never fail.\<close>

definition ioctls_work :: "kernel \<Rightarrow> bool" where
  "ioctls_work k \<longleftrightarrow> (\<forall>n. ioctl_fault k n = None)"

lemma guard_works:
  assumes "guard fz = (fz1, g)" "freeze_idle fz" "ioctls_work (fst fz)"
  shows "ioctls_work (fst fz1)" "g = Inr (has_live_mount (snd fz))"
  using assms
  by (auto simp: freeze_defs freeze_idle_def freeze_inv_def ioctls_work_def has_live_mount_def
      split: option.splits prod.splits if_splits sum.splits)

lemma thaw_works:
  assumes "freeze_inv fz" "ioctls_work (fst fz)" "last_thaw_error (snd fz) = None"
  shows "ioctls_work (fst (thaw fz))" "last_thaw_error (snd (thaw fz)) = None"
  using assms
  by (auto simp: freeze_defs freeze_inv_def ioctls_work_def
      split: option.splits prod.splits if_splits sum.splits)

lemma flush_works:
  assumes fl: "flush_batch rc cfg slot dry ex batch (fz, s) = Ret ((fz', s'), res)"
    and idle: "freeze_idle fz" and io: "ioctls_work (fst fz)"
  shows "\<exists>d. res = Inr d" "ioctls_work (fst fz')"
proof -
  have "(\<exists>d. res = Inr d) \<and> ioctls_work (fst fz')"
    using fl
  proof (cases rule: flush_batch_parts)
    case (parts fz1 g d)
    have "freeze_inv fz1" "last_thaw_error (snd fz1) = None"
      using guard_inv [OF _ parts(1)] guard_pending [OF parts(1)] idle by (simp_all add: freeze_idle_def)
    with thaw_works [of fz1] guard_works(1) [OF parts(1) idle io] parts(3,5) show ?thesis
      by (auto split: if_splits)
  qed
  then show "\<exists>d. res = Inr d" "ioctls_work (fst fz')" by simp_all
qed

lemma data_dev_range:
  assumes "slots_ok cfg" "data_dev cfg k = Some dev"
  shows "1 \<le> k \<and> k \<le> 255"
  using data_dev_slot [OF assms(2)] assms(1) by (auto simp: slots_ok_def)

lemma spawn_pipelineE:
  assumes "spawn_pipeline rc cfg slot dry clock bm alive es fz w r counters = Ret ((fz', s'), res)"
  obtains fz1 where "fz' = thaw fz1"
    "run_writer rc cfg slot dry clock 0 [] (run_accumulator bm alive es)
      (fz, \<lparr>w_disks = w, w_reconfirmer = r, w_stats = default_batch_stats, w_counters = counters\<rparr>) = Ret ((fz1, s'), res)"
  using assms by (auto simp: spawn_pipeline_def run_bind_def split: run.splits prod.splits)

subsection \<open>Properties\<close>

text \<open>The example of the witnesses: a candidate for the damaged block of slot 1.\<close>

definition demo_candidate :: candidate where
  "demo_candidate = \<lparr>array_phys = 0, block_size = 2, verify = (\<lambda>b. b = [1, 2]), cand_raw_phys = 0,
     failing_dev = ''a'', cand_reconfirm = None, cand_unreadable = False\<rparr>"

definition demo_writer :: "bytes \<Rightarrow> unit writer" where
  "demo_writer bs = \<lparr>w_disks = demo_disks bs, w_reconfirmer = (), w_stats = default_batch_stats,
     w_counters = Some new_counters\<rparr>"

text \<open>repair end to end: the block of one data disk is damaged (everything else on that disk
  too, if need be), the other data disks are as they were when P was in sync, and P at that offset
  is the parity of that earlier state. When the sector is confirmed corrupt and its device takes
  the write, processing the candidate returns, counts it as recovered, and the device then reads
  back the original block, whatever the damage was.\<close>

lemma damaged_sector_repaired:
  assumes "slots_ok cfg" "data_dev cfg slot = Some (failing_dev cand)"
    and "damaged_slot cfg w0 (w_disks s) slot"
    and "read_block_or_zeros cfg w0 (failing_dev cand) (array_phys cand) (block_size cand) = Inr d"
    and "compute_p cfg w0 (array_phys cand) (block_size cand) = Inr p"
    and "gather_stripe cfg (w_disks s) slot (array_phys cand) (block_size cand) = Inr ch"
    and "chunk_p ch = Some p" "verify cand d"
    and "snd (reconfirm_stage rc cand s) = Corruption" "fetch_corrupt cfg (w_disks s) cand \<noteq> None"
    and "healthy_at cfg (w_disks s) (failing_dev cand) (array_phys cand) (block_size cand)"
  shows "\<exists>s'. process_candidate rc cfg slot False live True cand s = Ret s' \<and>
    recovered (w_stats s') = Suc (recovered (w_stats s)) \<and>
    read_block_or_zeros cfg (w_disks s') (failing_dev cand) (array_phys cand) (block_size cand) = Inr d"
proof -
  obtain s1 where v: "reconfirm_stage rc cand s = (s1, Corruption)"
    using assms(9) by (cases "reconfirm_stage rc cand s") simp
  obtain block unr where f: "fetch_corrupt cfg (w_disks s) cand = Some (block, unr)"
    using assms(10) by auto
  note fs = fetch_corrupt_Some [OF f]
  have "input_ok \<lparr>failing_slot = slot, corrupt_block = block, unreadable_source = unr,
      other_blocks = other_data ch, p_block = chunk_p ch, q_block = chunk_q ch, verifier = verify cand\<rparr>
      (block_size cand)"
    using gathered_input_ok [OF assms(6,1)] data_dev_range [OF assms(1,2)] fs by simp
  from recover_block_p_intact [OF this] assms(7,8) damaged_p_consistent [OF assms(3,1,2,4,5,6)]
    read_block_length [OF assms(4)] fs
  have "recover_block \<lparr>failing_slot = slot, corrupt_block = block, unreadable_source = unr,
      other_blocks = other_data ch, p_block = chunk_p ch, q_block = chunk_q ch, verifier = verify cand\<rparr>
      (block_size cand) = Ret (Recovered ViaP d)"
    by simp
  from process_candidate_recovers [OF v f assms(6) this assms(11), of live] obtain s' where
    "process_candidate rc cfg slot False live True cand s = Ret s'"
    "w_stats s' = (w_stats s)\<lparr>mismatch := Suc (mismatch (w_stats s)), recovered := Suc (recovered (w_stats s))\<rparr>"
    "read_block_or_zeros cfg (w_disks s') (failing_dev cand) (array_phys cand) (block_size cand) = Inr d"
    by blast
  then show ?thesis by simp
qed

lemma demo_candidate_fields [simp]:
  "failing_dev demo_candidate = ''a''" "array_phys demo_candidate = 0" "block_size demo_candidate = 2"
  "verify demo_candidate b = (b = [1, 2])" "cand_reconfirm demo_candidate = None"
  "cand_unreadable demo_candidate = False"
  "w_disks (demo_writer bs) = demo_disks bs" "recovered (w_stats (demo_writer bs)) = 0"
  by (simp_all add: demo_candidate_def demo_writer_def default_batch_stats_def)

lemma damaged_sector_repaired_witness:
  "\<exists>s'. process_candidate (\<lambda>w r q. (r, Unverifiable)) demo_config 1 False True True demo_candidate
      (demo_writer [9, 9]) = Ret s' \<and> recovered (w_stats s') = 1 \<and>
    read_block_or_zeros demo_config (w_disks s') ''a'' 0 2 = Inr [1, 2]"
proof -
  have "data_dev demo_config 1 = Some ''a''" by (simp add: data_dev_def demo_config_def)
  moreover have "damaged_slot demo_config (demo_disks [1, 2]) (demo_disks [9, 9]) 1"
    by (simp add: damaged_slot_def demo_config_def demo_disks_def)
  moreover have "compute_p demo_config (demo_disks [1, 2]) 0 2 = Inr [5, 10]"
    using demo_reads by (simp add: compute_p_def parity_source_def demo_config_def xor_inplace_def zeros_def numeral_2_eq_2)
  moreover have "healthy_at demo_config (demo_disks [9, 9]) ''a'' 0 2"
    by (simp add: healthy_at_def demo_disks_def) (simp add: demo_defs)
  ultimately show ?thesis
    using damaged_sector_repaired [OF demo_slots_ok, of 1 demo_candidate "demo_disks [1, 2]"
        "demo_writer [9, 9]" "[1, 2]" "[5, 10]"
        "\<lparr>other_data = [(2, [4, 8])], chunk_p = Some [5, 10], chunk_q = None\<rparr>"
        "\<lambda>w r q. (r, Unverifiable)" True]
    by (simp add: demo_reads demo_gather reconfirm_stage_def fetch_corrupt_def)
qed

lemma spawn_pipeline_returns:
  assumes "slots_ok cfg" "1 \<le> slot" "slot \<le> 255" "freeze_idle fz" "ioctls_work (fst fz)"
  shows "\<exists>fz' s' stats. spawn_pipeline rc cfg slot dry clock bm alive es fz w r counters = Ret ((fz', s'), Inr stats)"
proof -
  let ?s = "\<lparr>w_disks = w, w_reconfirmer = r, w_stats = default_batch_stats, w_counters = counters\<rparr>"
  obtain st' res where rw: "run_writer rc cfg slot dry clock 0 [] (run_accumulator bm alive es) (fz, ?s) = Ret (st', res)"
    using run_writer_total [OF assms(1-3)] by (metis run.exhaust surj_pair)
  let ?I = "\<lambda>st. freeze_idle (fst st) \<and> ioctls_work (fst (fst st))"
  have step: "\<not> isl x \<and> ((\<exists>d. x = Inr d) \<longrightarrow> ?I st2)"
    if "?I st1" "flush_batch rc cfg slot dry ex batch st1 = Ret (st2, x)" for ex batch st1 st2 x
  proof -
    obtain fz1 s1 fz2 s2 where st: "st1 = (fz1, s1)" "st2 = (fz2, s2)" by (cases st1; cases st2)
    from that have idle: "freeze_idle fz1" "ioctls_work (fst fz1)" by (simp_all add: st)
    note fl = that(2) [unfolded st]
    from flush_works [OF fl idle] flush_freeze [OF fl idle(1)] show ?thesis by (auto simp: st)
  qed
  have "\<not> isl res"
    using run_writer_inv [where I = ?I and J = "\<lambda>_ e. \<not> e", OF _ step rw] assms(4,5) by simp
  then obtain stats where "res = Inr stats" by (cases res) simp_all
  with rw show ?thesis by (cases st') (simp add: spawn_pipeline_def)
qed

text \<open>C8: the recovery pipeline always returns statistics: for every sequence of channel events and
  timeouts, every re-confirmer and every fault of the disks, an array with slots 1 to 255 whose
  freeze ioctls work leads to a result, with no panic, no error and no endless drain loop.\<close>

theorem pipeline_returns:
  assumes "slots_ok cfg" "1 \<le> slot" "slot \<le> 255" "freeze_idle fz" "ioctls_work (fst fz)"
  shows "\<exists>fz' s' stats. spawn_pipeline rc cfg slot dry clock bm alive es fz w r counters = Ret ((fz', s'), Inr stats)"
  by (rule spawn_pipeline_returns [OF assms])

lemma demo_idle: "freeze_idle (demo_kernel, new_controller mp)" "ioctls_work demo_kernel"
  by (simp_all add: freeze_idle_def freeze_inv_def demo_kernel_def new_controller_def ioctls_work_def split: option.split)

theorem pipeline_returns_witness:
  "\<exists>fz' s' stats. spawn_pipeline (\<lambda>w r q. (r, Stale)) demo_config 2 False (\<lambda>_ _. True) 0 (\<lambda>_. True)
      [Idle, Recv (CandidateMsg demo_candidate), Recv (CandidateMsg demo_candidate)]
      (demo_kernel, new_controller (Some ''/mnt'')) (demo_disks [9]) () None = Ret ((fz', s'), Inr stats)"
  using pipeline_returns [OF demo_slots_ok, of 2 "(demo_kernel, new_controller (Some ''/mnt''))"] demo_idle by simp

lemma spawn_pipeline_books:
  assumes "spawn_pipeline rc cfg slot dry clock bm (\<lambda>_. True) es fz w r counters = Ret ((fz', s'), Inr stats)"
    and "\<forall>c. counters = Some c \<longrightarrow> mirrors c default_batch_stats"
  shows "mismatch stats + stale stats + skipped stats + deduped stats = length (sent_candidates es) \<and>
    recovered stats + failed stats + not_frozen stats + readback_failed stats = mismatch stats \<and>
    not_corrupt stats = 0 \<and> (\<forall>c. w_counters s' = Some c \<longrightarrow> mirrors c stats)"
proof -
  let ?s = "\<lparr>w_disks = w, w_reconfirmer = r, w_stats = default_batch_stats, w_counters = counters\<rparr>"
  from assms(1) obtain fz1 where rw: "run_writer rc cfg slot dry clock 0 [] (run_accumulator bm (\<lambda>_. True) es) (fz, ?s) =
      Ret ((fz1, s'), Inr stats)" by (rule spawn_pipelineE)
  have "batch_content (run_accumulator bm (\<lambda>_. True) es) = sent_candidates es"
    by (simp add: run_accumulator_def accumulator_content)
  with run_writer_received [OF rw] have "stats = w_stats s'" "received s' = received ?s + length (sent_candidates es)"
    by simp_all
  moreover have "books_ok ?s"
    using assms(2) by (simp add: books_ok_def outcomes_def mirrored_def default_batch_stats_def)
  then have "books_ok s'" using run_writer_books [OF rw] by simp
  ultimately show ?thesis
    by (simp add: books_ok_def received_def intake_def outcomes_def mirrored_def default_batch_stats_def)
qed

text \<open>C7: accounting: when the pipeline returns its statistics, every candidate sent before Done
  was classified exactly once (mismatch, stale, skipped or deduplicated), every mismatch has exactly
  one outcome (recovered, failed, not frozen or read-back failed), the not-corrupt bucket is empty,
  and the live counters show the same numbers.\<close>

theorem pipeline_reconciles:
  assumes "spawn_pipeline rc cfg slot dry clock bm (\<lambda>_. True) es fz w r counters = Ret ((fz', s'), Inr stats)"
    and "\<forall>c. counters = Some c \<longrightarrow> mirrors c default_batch_stats"
  shows "mismatch stats + stale stats + skipped stats + deduped stats = length (sent_candidates es) \<and>
    recovered stats + failed stats + not_frozen stats + readback_failed stats = mismatch stats \<and>
    not_corrupt stats = 0 \<and> (\<forall>c. w_counters s' = Some c \<longrightarrow> mirrors c stats)"
  by (rule spawn_pipeline_books [OF assms])

theorem pipeline_reconciles_witness:
  "\<exists>fz' s' stats. spawn_pipeline (\<lambda>w r q. (r, Unverifiable)) demo_config 1 True (\<lambda>_ _. False) 2 (\<lambda>_. True)
      [Recv (CandidateMsg demo_candidate), Idle, Recv DoneMsg] (demo_kernel, new_controller None)
      (demo_disks [9, 9]) () (Some new_counters) = Ret ((fz', s'), Inr stats) \<and>
    mismatch stats + stale stats + skipped stats + deduped stats = 1"
proof -
  obtain fz' s' stats where run: "spawn_pipeline (\<lambda>w r q. (r, Unverifiable)) demo_config 1 True (\<lambda>_ _. False) 2 (\<lambda>_. True)
      [Recv (CandidateMsg demo_candidate), Idle, Recv DoneMsg] (demo_kernel, new_controller None)
      (demo_disks [9, 9]) () (Some new_counters) = Ret ((fz', s'), Inr stats)"
    using spawn_pipeline_returns [OF demo_slots_ok, of 1 "(demo_kernel, new_controller None)"] demo_idle
    by (metis fst_conv le_refl one_le_numeral)
  have "mirrors new_counters default_batch_stats" by (simp add: mirrors_def new_counters_def default_batch_stats_def)
  with pipeline_reconciles [OF run] have "mismatch stats + stale stats + skipped stats + deduped stats = 1" by simp
  with run show ?thesis by blast
qed

lemma spawn_pipeline_frame:
  assumes "spawn_pipeline rc cfg slot dry clock bm (\<lambda>_. True) es fz w r counters = Ret ((fz', s'), res)"
    and "w_disks s' p \<noteq> w p"
  shows "\<not> dry \<and> p \<in> failing_dev ` set (sent_candidates es)"
proof (rule ccontr)
  assume "\<not> ?thesis"
  then have no: "dry \<or> p \<notin> failing_dev ` set (sent_candidates es)" by blast
  let ?s = "\<lparr>w_disks = w, w_reconfirmer = r, w_stats = default_batch_stats, w_counters = counters\<rparr>"
  from assms(1) obtain fz1 where rw: "run_writer rc cfg slot dry clock 0 [] (run_accumulator bm (\<lambda>_. True) es) (fz, ?s) =
      Ret ((fz1, s'), res)" by (rule spawn_pipelineE)
  let ?R = "\<lambda>st st'. w_disks (snd st') p = w_disks (snd st) p"
  have "?R (fz, ?s) (fz1, s')"
  proof (rule run_writer_rel [where R = ?R and C = "set (sent_candidates es)", OF _ _ _ rw])
    fix ex batch st st' x
    assume sub: "set batch \<subseteq> set (sent_candidates es)"
      and fl: "flush_batch rc cfg slot dry ex batch st = Ret (st', x)"
    then show "?R st st'"
      using no flush_disks [of rc cfg slot dry ex batch "fst st" "snd st" "fst st'" "snd st'" x]
        flush_frame [of rc cfg slot dry ex batch "fst st" "snd st" "fst st'" "snd st'" x p] by fastforce
  qed (simp_all add: reflp_def transp_def run_accumulator_def accumulator_content)
  with assms(2) show False by simp
qed

text \<open>where the pipeline writes: a device changes only if it is the failing device of a candidate
  that was sent, and in a dry run no device changes; this holds whatever the pipeline returns.\<close>

lemma pipeline_write_frame:
  assumes "spawn_pipeline rc cfg slot dry clock bm (\<lambda>_. True) es fz w r counters = Ret ((fz', s'), res)"
    and "w_disks s' p \<noteq> w p"
  shows "\<not> dry \<and> p \<in> failing_dev ` set (sent_candidates es)"
  by (rule spawn_pipeline_frame [OF assms])

lemma pipeline_write_frame_witness:
  "\<exists>fz' s' stats. spawn_pipeline (\<lambda>w r q. (r, Unverifiable)) demo_config 1 False (\<lambda>_ _. False) 2 (\<lambda>_. True)
      [Recv (CandidateMsg demo_candidate), Recv DoneMsg] (demo_kernel, new_controller None)
      (demo_disks [9, 9]) () None = Ret ((fz', s'), Inr stats) \<and>
    w_disks s' ''b'' = demo_disks [9, 9] ''b'' \<and> w_disks s' ''p'' = demo_disks [9, 9] ''p''"
proof -
  obtain fz' s' stats where run: "spawn_pipeline (\<lambda>w r q. (r, Unverifiable)) demo_config 1 False (\<lambda>_ _. False) 2
      (\<lambda>_. True) [Recv (CandidateMsg demo_candidate), Recv DoneMsg] (demo_kernel, new_controller None)
      (demo_disks [9, 9]) () None = Ret ((fz', s'), Inr stats)"
    using spawn_pipeline_returns [OF demo_slots_ok, of 1 "(demo_kernel, new_controller None)"] demo_idle
    by (metis fst_conv le_refl one_le_numeral)
  with pipeline_write_frame [OF run, of "''b''"] pipeline_write_frame [OF run, of "''p''"] show ?thesis
    by fastforce
qed


text \<open>The example candidate, repaired: what the witnesses about writes use.\<close>

lemma demo_repair:
  assumes "w_disks s = demo_disks [9, 9]"
  shows "\<exists>s'. process_candidate (\<lambda>w r q. (r, Unverifiable)) demo_config 1 False live True demo_candidate s = Ret s' \<and>
    w_stats s' = (w_stats s)\<lparr>mismatch := Suc (mismatch (w_stats s)), recovered := Suc (recovered (w_stats s))\<rparr> \<and>
    read_block_or_zeros demo_config (w_disks s') ''a'' 0 2 = Inr [1, 2]"
proof -
  have "recover_block \<lparr>failing_slot = 1, corrupt_block = [9, 9], unreadable_source = False,
      other_blocks = [(2, [4, 8])], p_block = Some [5, 10], q_block = None, verifier = verify demo_candidate\<rparr> 2 =
      Ret (Recovered ViaP [1, 2])"
    by (simp add: recover_block_def p_stage_def recover_via_p_def p_accumulate_def xor_inplace_def
        demo_zeros run_assert_def run_bind_def)
  moreover have "healthy_at demo_config (demo_disks [9, 9]) ''a'' 0 2"
    by (simp add: healthy_at_def demo_disks_def) (simp add: demo_defs)
  ultimately show ?thesis
    using process_candidate_recovers [of "\<lambda>w r q. (r, Unverifiable)" demo_candidate s s demo_config "[9, 9]" False 1
        "\<lparr>other_data = [(2, [4, 8])], chunk_p = Some [5, 10], chunk_q = None\<rparr>" ViaP "[1, 2]" live] assms
    by (simp add: demo_reads demo_gather reconfirm_stage_def fetch_corrupt_def)
qed

lemma demo_flush:
  assumes "guard fz = (fz1, Inr True)"
  obtains fz' s' res where
    "flush_batch (\<lambda>w r q. (r, Unverifiable)) demo_config 1 False (\<lambda>_. False) [demo_candidate]
       (fz, demo_writer [9, 9]) = Ret ((fz', s'), res)" "w_disks s' \<noteq> demo_disks [9, 9]"
proof -
  obtain s' where s': "process_candidate (\<lambda>w r q. (r, Unverifiable)) demo_config 1 False (has_live_mount (snd fz)) True
      demo_candidate (count_deduped 0 (demo_writer [9, 9])) = Ret s'"
      "read_block_or_zeros demo_config (w_disks s') ''a'' 0 2 = Inr [1, 2]"
    using demo_repair [of "count_deduped 0 (demo_writer [9, 9])"] by auto
  have "w_disks s' \<noteq> demo_disks [9, 9]" using s'(2) demo_reads(3) [of 9 9] by auto
  moreover have "\<exists>fz' res. flush_batch (\<lambda>w r q. (r, Unverifiable)) demo_config 1 False (\<lambda>_. False) [demo_candidate]
       (fz, demo_writer [9, 9]) = Ret ((fz', s'), res)"
    using assms s'(1)
    by (auto simp: flush_batch_def Let_def sort_dedup_def run_bind_def split: prod.split option.split)
  ultimately show thesis using that by blast
qed


lemma spawn_pipeline_thaws:
  assumes "spawn_pipeline rc cfg slot dry clock bm alive es fz w r counters = Ret (((k, fc), s'), res)"
    and "freeze_idle fz" "mountpoint (snd fz) = Some m"
  shows "((\<exists>stats. res = Inr stats) \<longrightarrow> \<not> kfrozen k m) \<and>
    (kfrozen k m \<longrightarrow> active_mount k = Some m \<and> hooks_installed k)"
proof -
  let ?s = "\<lparr>w_disks = w, w_reconfirmer = r, w_stats = default_batch_stats, w_counters = counters\<rparr>"
  from assms(1) obtain fz1 where th: "(k, fc) = thaw fz1"
    and rw: "run_writer rc cfg slot dry clock 0 [] (run_accumulator bm alive es) (fz, ?s) = Ret ((fz1, s'), res)"
    by (rule spawn_pipelineE)
  let ?I = "\<lambda>st. freeze_idle (fst st) \<and> mountpoint (snd (fst st)) = Some m"
  let ?J = "\<lambda>st e. freeze_inv (fst st) \<and> mountpoint (snd (fst st)) = Some m"
  have step: "?J st2 e \<and> ((\<exists>d. x = Inr d) \<longrightarrow> ?I st2)"
    if "?I st1" "flush_batch rc cfg slot dry ex batch st1 = Ret (st2, x)" for ex batch st1 st2 x e
    using that flush_freeze [of rc cfg slot dry ex batch "fst st1" "snd st1" "fst st2" "snd st2" x] by simp
  have "?J (fz1, s') (isl res) \<and> ((\<exists>d. res = Inr d) \<longrightarrow> ?I (fz1, s'))"
    by (rule run_writer_inv [where I = ?I and J = ?J, OF _ step rw]) (use assms(2,3) in \<open>auto simp: freeze_idle_def\<close>)
  then have inv: "freeze_inv fz1" "mountpoint (snd fz1) = Some m" "(\<exists>d. res = Inr d) \<longrightarrow> \<not> frozen (snd fz1)"
    by (auto simp: freeze_idle_def)
  from thaw_inv [OF inv(1)] th have i: "freeze_inv (k, fc)" by simp
  have "mountpoint fc = Some m" using thaw_mountpoint [of fz1] th inv(2) by (metis snd_conv)
  moreover have "(\<exists>d. res = Inr d) \<longrightarrow> \<not> frozen fc"
    using inv(3) th by (cases fz1) (auto simp: thaw_def)
  ultimately show ?thesis using i by (auto simp: freeze_inv_def)
qed

text \<open>C12: a pipeline that returns statistics leaves the live mount thawed; whatever it returns, a
  mount that is still frozen at its end is one that the panic and signal handlers know of.\<close>

theorem pipeline_thaws:
  assumes "spawn_pipeline rc cfg slot dry clock bm alive es fz w r counters = Ret (((k, fc), s'), res)"
    and "freeze_idle fz" "mountpoint (snd fz) = Some m"
  shows "((\<exists>stats. res = Inr stats) \<longrightarrow> \<not> kfrozen k m) \<and>
    (kfrozen k m \<longrightarrow> active_mount k = Some m \<and> hooks_installed k)"
  by (rule spawn_pipeline_thaws [OF assms])

theorem pipeline_thaws_witness:
  "\<exists>k fc s' stats. spawn_pipeline (\<lambda>w r q. (r, Unverifiable)) demo_config 1 False (\<lambda>_ _. False) 2 (\<lambda>_. True)
      [Recv (CandidateMsg demo_candidate), Recv DoneMsg] (demo_kernel, new_controller (Some ''/mnt''))
      (demo_disks [9, 9]) () None = Ret (((k, fc), s'), Inr stats) \<and> \<not> kfrozen k ''/mnt''"
proof -
  obtain k fc s' stats where run: "spawn_pipeline (\<lambda>w r q. (r, Unverifiable)) demo_config 1 False (\<lambda>_ _. False) 2
      (\<lambda>_. True) [Recv (CandidateMsg demo_candidate), Recv DoneMsg] (demo_kernel, new_controller (Some ''/mnt''))
      (demo_disks [9, 9]) () None = Ret (((k, fc), s'), Inr stats)"
    using spawn_pipeline_returns [OF demo_slots_ok, of 1 "(demo_kernel, new_controller (Some ''/mnt''))"] demo_idle
    by (metis fst_conv le_refl one_le_numeral surj_pair)
  with pipeline_thaws [OF run demo_idle(1), of "''/mnt''"] show ?thesis
    by (auto simp: new_controller_def)
qed

text \<open>the accumulator loses, reorders and invents nothing: while the writer listens, the batches it
  sends, concatenated, are the candidates received before Done (or before the channel closed), in
  order; each batch is non-empty and holds at most \<open>batch_max\<close> candidates (one, if that is 0), and
  the last message is Done.\<close>

lemma accumulator_batches:
  "batch_content (run_accumulator bm (\<lambda>_. True) es) = sent_candidates es \<and>
   list_all (batch_bounds bm) (run_accumulator bm (\<lambda>_. True) es) \<and>
   last (run_accumulator bm (\<lambda>_. True) es) = BatchDone"
  by (simp add: run_accumulator_def accumulator_content accumulator_bounds accumulator_last)

lemma verify_readback_recovered:
  assumes "recovered (w_stats (verify_readback cfg cand s)) \<noteq> recovered (w_stats s)"
  shows "\<exists>b. read_block_or_zeros cfg (w_disks s) (failing_dev cand) (array_phys cand) (block_size cand) = Inr b \<and>
    verify cand b"
  using assms
  by (auto simp: verify_readback_def count_readback_failed_def split: sum.splits if_splits)

lemma write_back_recovered:
  assumes "recovered (w_stats (write_back cfg live cand block s)) \<noteq> recovered (w_stats s)"
  shows "\<exists>b. read_block_or_zeros cfg (w_disks (write_back cfg live cand block s)) (failing_dev cand)
      (array_phys cand) (block_size cand) = Inr b \<and> verify cand b"
proof -
  obtain w' r where wb: "write_block cfg (w_disks s) (failing_dev cand) (array_phys cand) block = (w', r)"
    by fastforce
  let ?s = "note_repair live (s\<lparr>w_disks := w'\<rparr>)"
  have "write_back cfg live cand block s = verify_readback cfg cand ?s"
    using assms wb
    by (auto simp: write_back_def Let_def count_failed_def count_readback_failed_def
        split: sum.splits if_splits)
  with assms verify_readback_recovered [of cfg cand ?s] show ?thesis by simp
qed

lemma recovered_other [simp]:
  "recovered (w_stats (count_stale s)) = recovered (w_stats s)"
  "recovered (w_stats (count_skipped s)) = recovered (w_stats s)"
  "recovered (w_stats (count_mismatch s)) = recovered (w_stats s)"
  "recovered (w_stats (count_failed s)) = recovered (w_stats s)"
  "recovered (w_stats (count_not_frozen s)) = recovered (w_stats s)"
  "recovered (w_stats (count_not_corrupt s)) = recovered (w_stats s)"
  by (simp_all add: batch_ops)



end
