(* ===== verification/Main_Driver.thy ===== *)
theory Main_Driver
  imports Pipeline
begin

text \<open>
  The command line driver of \<open>src/scrub-rs/src/main.rs\<close>: argument parsing, the slot lookup, the
  parity canary, the callbacks that turn scrub events into recovery candidates, the choice of
  the freeze controller, the reconciliation of the pipeline's statistics and the exit code.
  The filesystem behind the \<open>FilesystemScrub\<close> trait is a record of functions; \<open>f64\<close> values
  (two durations) are an abstract type with its parser and comparisons.
\<close>

subsection \<open>Exit codes and options\<close>

definition EXIT_SUCCESS :: nat where "EXIT_SUCCESS = 0"
definition EXIT_RUNTIME_ERROR :: nat where "EXIT_RUNTIME_ERROR = 1"
definition EXIT_USAGE_ERROR :: nat where "EXIT_USAGE_ERROR = 2"
definition EXIT_ISSUES_FOUND :: nat where "EXIT_ISSUES_FOUND = 3"
definition EXIT_RECOVERED :: nat where "EXIT_RECOVERED = 4"
definition EXIT_RECOVER_FAILED :: nat where "EXIT_RECOVER_FAILED = 5"
definition EXIT_METADATA_FATAL :: nat where "EXIT_METADATA_FATAL = 6"

lemmas exit_codes = EXIT_SUCCESS_def EXIT_RUNTIME_ERROR_def EXIT_USAGE_ERROR_def EXIT_ISSUES_FOUND_def
  EXIT_RECOVERED_def EXIT_RECOVER_FAILED_def EXIT_METADATA_FATAL_def

record 'f options =
  base_offset :: nat
  dry_run :: bool
  freeze_enabled :: bool
  freeze_mount :: "path option"
  batch_max :: nat
  batch_idle :: 'f
  freeze_max :: 'f
  status_sock :: "string option"

definition hex_val :: "char \<Rightarrow> nat option" where
  "hex_val c =
     (let n = of_char c :: nat in
      if 48 \<le> n \<and> n \<le> 57 then Some (n - 48)
      else if 97 \<le> n \<and> n \<le> 102 then Some (n - 87)
      else if 65 \<le> n \<and> n \<le> 70 then Some (n - 55)
      else None)"

definition hex_digits_val :: "string \<Rightarrow> nat" where
  "hex_digits_val ds = foldl (\<lambda>acc c. acc * 16 + the (hex_val c)) 0 ds"

text \<open>\<open>u64::from_str_radix\<close> with radix 16: an optional plus sign, at least one digit, no overflow.\<close>

definition parse_hex :: "string \<Rightarrow> nat option" where
  "parse_hex s =
     (let ds = (case s of c # cs \<Rightarrow> if c = CHR ''+'' then cs else s | [] \<Rightarrow> s)
      in if ds \<noteq> [] \<and> list_all (\<lambda>c. hex_val c \<noteq> None) ds \<and> hex_digits_val ds < 2 ^ 64
         then Some (hex_digits_val ds) else None)"

datatype offset_error = NegativeOffset | InvalidHex | InvalidDecimal

definition parse_offset :: "string \<Rightarrow> offset_error + nat" where
  "parse_offset str =
     (let s = trim str;
          rest = (if take 1 s = ''+'' then drop 1 s else s)
      in if take 1 s = ''-'' then Inl NegativeOffset
         else let raw = (case strip_prefix ''0x'' rest of
                           Some h \<Rightarrow> (case parse_hex h of Some n \<Rightarrow> Inr n | None \<Rightarrow> Inl InvalidHex)
                         | None \<Rightarrow> (case parse_u64 rest of Some n \<Rightarrow> Inr n | None \<Rightarrow> Inl InvalidDecimal))
           in case raw of
                Inl e \<Rightarrow> Inl e
              | Inr n \<Rightarrow> Inr (if take 1 s = ''+'' then mul64 n 512 else n))"

text \<open>What the driver uses of \<open>f64\<close>: parsing, \<open>s >= 0.0\<close> and \<open>s.is_finite() && s > 0.0\<close>.\<close>

record 'f f64_ops =
  parse_f64 :: "string \<Rightarrow> 'f option"
  f64_nonneg :: "'f \<Rightarrow> bool"
  f64_finite_pos :: "'f \<Rightarrow> bool"
  f64_5 :: 'f
  f64_60 :: 'f

definition default_options :: "'f f64_ops \<Rightarrow> 'f options" where
  "default_options F = \<lparr>base_offset = 0, dry_run = True, freeze_enabled = True, freeze_mount = None,
     batch_max = 64, batch_idle = f64_5 F, freeze_max = f64_60 F, status_sock = None\<rparr>"

text \<open>The argument loop; \<open>None\<close> is the usage error exit. Path lengths are in bytes.\<close>

fun parse_args :: "'f f64_ops \<Rightarrow> string list \<Rightarrow> 'f options \<Rightarrow> 'f options option" where
  "parse_args F [] opts = Some opts"
| "parse_args F (arg # args) opts =
     (if arg = ''--status-sock'' then
        (case args of [] \<Rightarrow> None
         | v # rest \<Rightarrow> if v = [] \<or> 100 \<le> length v then None
                       else parse_args F rest (opts\<lparr>status_sock := Some v\<rparr>))
      else if arg = ''--offset'' then
        (case args of [] \<Rightarrow> None
         | v # rest \<Rightarrow> (case parse_offset v of Inl e \<Rightarrow> None
                        | Inr off \<Rightarrow> parse_args F rest (opts\<lparr>base_offset := off\<rparr>)))
      else if arg = ''--repair'' then parse_args F args (opts\<lparr>dry_run := False\<rparr>)
      else if arg = ''--batch-max'' then
        (case args of [] \<Rightarrow> None
         | v # rest \<Rightarrow> (case parse_u64 v of
                          Some n \<Rightarrow> if 0 < n then parse_args F rest (opts\<lparr>batch_max := n\<rparr>) else None
                        | None \<Rightarrow> None))
      else if arg = ''--batch-idle'' then
        (case args of [] \<Rightarrow> None
         | v # rest \<Rightarrow> (case parse_f64 F v of
                          Some x \<Rightarrow> if f64_nonneg F x then parse_args F rest (opts\<lparr>batch_idle := x\<rparr>) else None
                        | None \<Rightarrow> None))
      else if arg = ''--freeze-max'' then
        (case args of [] \<Rightarrow> None
         | v # rest \<Rightarrow> (case parse_f64 F v of
                          Some x \<Rightarrow> if f64_finite_pos F x then parse_args F rest (opts\<lparr>freeze_max := x\<rparr>) else None
                        | None \<Rightarrow> None))
      else if arg = ''--freeze-mount'' then
        (case args of [] \<Rightarrow> None | v # rest \<Rightarrow> parse_args F rest (opts\<lparr>freeze_mount := Some v\<rparr>))
      else if arg = ''--no-freeze'' then parse_args F args (opts\<lparr>freeze_enabled := False\<rparr>)
      else None)"

subsection \<open>Set-up\<close>

definition resolve_slot ::
  "(path \<Rightarrow> path option) \<Rightarrow> io_kind + array_config \<Rightarrow> path \<Rightarrow> array_config option \<times> nat" where
  "resolve_slot canonicalize loaded dev =
     (case loaded of
        Inr cfg \<Rightarrow>
          (case (case slot_from_array_partition dev of
                   Some s \<Rightarrow> Some s | None \<Rightarrow> slot_for_raw_dev canonicalize cfg dev) of
             Some slot \<Rightarrow> (Some cfg, slot)
           | None \<Rightarrow> (None, 0))
      | Inl e \<Rightarrow> (None, 0))"

definition SB_BLOCK :: nat where "SB_BLOCK = 4096"

text \<open>The canary: whether the run may go on; \<open>Panic\<close> is a failed assertion in the engine.\<close>

definition canary_gate ::
  "array_config option \<Rightarrow> nat \<Rightarrow> disks \<Rightarrow> nat \<Rightarrow> (bytes \<Rightarrow> bool) \<Rightarrow> bool run" where
  "canary_gate cfg slot w superblock_offset block_has_magic =
     (case cfg of
        Some c \<Rightarrow>
          if slot \<noteq> 0 then
            run_bind (reconstruct_block c w slot superblock_offset SB_BLOCK)
              (\<lambda>r. Ret (case r of Inr block \<Rightarrow> block_has_magic block | Inl e \<Rightarrow> False))
          else Ret True
      | None \<Rightarrow> Ret True)"

definition select_freeze :: "'f options \<Rightarrow> freeze_controller" where
  "select_freeze opts =
     (if \<not> dry_run opts \<and> freeze_enabled opts \<and> freeze_mount opts \<noteq> None
      then new_controller (freeze_mount opts) else new_controller None)"

subsection \<open>The scrub callbacks\<close>

record driver =
  drv_cfg :: "array_config option"
  drv_tx :: bool
  drv_slot :: nat
  drv_sent :: nat

definition wants_raw_candidates :: "driver \<Rightarrow> bool" where
  "wants_raw_candidates drv = drv_tx drv"

text \<open>
  \<open>on_event\<close>: the candidate sent, if any. \<open>alive\<close> is whether the accumulator still receives.
  The \<open>expect\<close> of the source is the \<open>Panic\<close> branch.
\<close>

definition on_event :: "bool \<Rightarrow> scrub_event \<Rightarrow> driver \<Rightarrow> (driver \<times> candidate option) run" where
  "on_event alive ev drv =
     (if \<not> drv_tx drv then Ret (drv, None)
      else case drv_cfg drv of None \<Rightarrow> Ret (drv, None)
      | Some cfg \<Rightarrow>
        (case ev_verify ev of None \<Rightarrow> Ret (drv, None)
         | Some v \<Rightarrow>
           (case data_dev cfg (drv_slot drv) of None \<Rightarrow> Ret (drv, None)
            | Some dev \<Rightarrow>
              (case raw_phys cfg (drv_slot drv) (ev_array_phys ev) of None \<Rightarrow> Panic
               | Some raw \<Rightarrow>
                 if alive then
                   Ret (drv\<lparr>drv_sent := drv_sent drv + 1\<rparr>,
                        Some \<lparr>array_phys = ev_array_phys ev, block_size = ev_block_size ev, verify = v,
                              cand_raw_phys = raw, failing_dev = dev, cand_reconfirm = ev_reconfirm ev,
                              cand_unreadable = ev_unreadable ev\<rparr>)
                 else Ret (drv, None)))))"

fun drive_events :: "scrub_event list \<Rightarrow> driver \<Rightarrow> (driver \<times> candidate list) run" where
  "drive_events [] drv = Ret (drv, [])"
| "drive_events (ev # evs) drv =
     run_bind (on_event True ev drv)
       (\<lambda>(drv1, c). run_bind (drive_events evs drv1)
          (\<lambda>(drv2, cs). Ret (drv2, (case c of Some x \<Rightarrow> x # cs | None \<Rightarrow> cs))))"

subsection \<open>The end of the run\<close>

definition classified :: "batch_stats \<Rightarrow> nat" where
  "classified bs = mismatch bs + stale bs + skipped bs + deduped bs"

definition sub_buckets :: "batch_stats \<Rightarrow> nat" where
  "sub_buckets bs = recovered bs + failed bs + not_corrupt bs + not_frozen bs + readback_failed bs"

definition issues_found :: "scrub_stats \<Rightarrow> batch_stats \<Rightarrow> bool" where
  "issues_found st bs \<longleftrightarrow> sectors_mismatch st + mismatch bs > 0 \<or> sectors_read_error st > 0 \<or>
     metadata_header_errors st > 0 \<or> metadata_read_errors st > 0 \<or> skipped bs > 0"

definition exit_code :: "bool \<Rightarrow> scrub_stats \<Rightarrow> batch_stats \<Rightarrow> nat" where
  "exit_code had_writer st bs =
     (if metadata_header_errors st > 0 then EXIT_METADATA_FATAL
      else if \<not> issues_found st bs then EXIT_SUCCESS
      else if had_writer \<and> metadata_read_errors st = 0 \<and> failed bs = 0 \<and> skipped bs = 0 \<and>
              not_frozen bs = 0 \<and> readback_failed bs = 0 \<and> not_corrupt bs = 0
      then EXIT_RECOVERED
      else if had_writer then EXIT_RECOVER_FAILED
      else EXIT_ISSUES_FOUND)"

subsection \<open>The whole run\<close>

text \<open>
  The filesystem as the driver sees it. \<open>fs_run raw\<close> gives the events of a completed scrub
  and its statistics, or the error that ended it.
\<close>

record 'r filesystem =
  fs_run :: "bool \<Rightarrow> io_kind + scrub_event list \<times> scrub_stats"
  fs_reconfirmer :: "io_kind + 'r reconfirmer \<times> 'r"
  fs_superblock_offset :: nat
  fs_block_has_magic :: "bytes \<Rightarrow> bool"

text \<open>
  What a run leaves behind: the exit code, the disks and the kernel's freeze state where the
  driver waited for the writer thread (a scrub error abandons that thread, a panic ends it
  somewhere), and the live counters.
\<close>

record session =
  exit_status :: nat
  final_state :: "(disks \<times> kernel) option"
  final_counters :: status_counters

text \<open>
  The messages on the channel: the candidates in order, with \<open>gap k\<close> idle windows before
  message \<open>k\<close>, then Done.
\<close>

fun channel_events :: "(nat \<Rightarrow> nat) \<Rightarrow> nat \<Rightarrow> candidate list \<Rightarrow> chan_event list" where
  "channel_events gap k [] = replicate (gap k) Idle @ [Recv DoneMsg]"
| "channel_events gap k (c # cs) = replicate (gap k) Idle @ Recv (CandidateMsg c) # channel_events gap (Suc k) cs"

text \<open>Joining the writer thread, reconciling its statistics, and the exit code.\<close>

definition join_pipeline ::
  "scrub_stats \<Rightarrow> nat \<Rightarrow> status_counters \<Rightarrow> ('r flush_state \<times> (io_kind + batch_stats)) run \<Rightarrow> session" where
  "join_pipeline st sent counters outcome =
     (case outcome of
        Panic \<Rightarrow> \<lparr>exit_status = EXIT_RUNTIME_ERROR, final_state = None,
                 final_counters = set_state ''error'' counters\<rparr>
      | Ret (fs', res) \<Rightarrow>
          let c' = (case w_counters (snd fs') of Some c \<Rightarrow> c | None \<Rightarrow> counters);
              left = Some (w_disks (snd fs'), fst (fst fs'));
              abort = \<lparr>exit_status = EXIT_RUNTIME_ERROR, final_state = left,
                       final_counters = set_state ''error'' c'\<rparr>
          in (case res of
                Inl e \<Rightarrow> abort
              | Inr bs \<Rightarrow>
                  if classified bs \<noteq> sent then abort
                  else if sub_buckets bs \<noteq> mismatch bs then abort
                  else \<lparr>exit_status = exit_code True st bs, final_state = left,
                        final_counters = set_state ''done'' c'\<rparr>))"

definition recovery_run ::
  "'r reconfirmer \<times> 'r \<Rightarrow> array_config \<Rightarrow> nat \<Rightarrow> 'f options \<Rightarrow> (nat \<Rightarrow> nat \<Rightarrow> bool) \<Rightarrow> (nat \<Rightarrow> nat) \<Rightarrow>
   disks \<Rightarrow> kernel \<Rightarrow> status_counters \<Rightarrow> candidate list \<Rightarrow> ('r flush_state \<times> (io_kind + batch_stats)) run" where
  "recovery_run rcr cfg slot opts clock gap w k counters cands =
     spawn_pipeline (fst rcr) cfg slot (dry_run opts) clock (batch_max opts) (\<lambda>_. True)
       (channel_events gap 0 cands) (k, select_freeze opts) w (snd rcr) (Some counters)"

definition finish_recovery ::
  "'r reconfirmer \<times> 'r \<Rightarrow> array_config \<Rightarrow> nat \<Rightarrow> 'f options \<Rightarrow> (nat \<Rightarrow> nat \<Rightarrow> bool) \<Rightarrow> (nat \<Rightarrow> nat) \<Rightarrow>
   disks \<Rightarrow> kernel \<Rightarrow> status_counters \<Rightarrow> scrub_event list \<times> scrub_stats \<Rightarrow> session run" where
  "finish_recovery rcr cfg slot opts clock gap w k counters result =
     run_bind (drive_events (fst result) \<lparr>drv_cfg = Some cfg, drv_tx = True, drv_slot = slot, drv_sent = 0\<rparr>)
       (\<lambda>(drv, cands).
          Ret (join_pipeline (snd result) (drv_sent drv) counters
                 (recovery_run rcr cfg slot opts clock gap w k counters cands)))"

definition run_scrub ::
  "'r filesystem \<Rightarrow> array_config option \<times> nat \<Rightarrow> 'f options \<Rightarrow> (nat \<Rightarrow> nat \<Rightarrow> bool) \<Rightarrow> (nat \<Rightarrow> nat) \<Rightarrow>
   disks \<Rightarrow> kernel \<Rightarrow> status_counters \<Rightarrow> session run" where
  "run_scrub fs target opts clock gap w k counters =
     (let stop = (\<lambda>st code. Ret \<lparr>exit_status = code, final_state = Some (w, k),
                    final_counters = set_state st counters\<rparr>)
      in run_bind (canary_gate (fst target) (snd target) w (fs_superblock_offset fs) (fs_block_has_magic fs))
        (\<lambda>ok.
           if \<not> ok then stop ''error'' EXIT_RUNTIME_ERROR
           else case fst target of
             Some cfg \<Rightarrow>
               (case fs_reconfirmer fs of
                  Inl e \<Rightarrow> stop ''error'' EXIT_RUNTIME_ERROR
                | Inr rcr \<Rightarrow>
                    (case fs_run fs True of
                       Inl e \<Rightarrow> Ret \<lparr>exit_status = EXIT_RUNTIME_ERROR, final_state = None,
                                   final_counters = set_state ''error'' counters\<rparr>
                     | Inr result \<Rightarrow>
                         finish_recovery rcr cfg (snd target) opts clock gap w k
                           (set_state ''done'' (set_recovery True counters)) result))
           | None \<Rightarrow>
               (case fs_run fs False of
                  Inl e \<Rightarrow> stop ''error'' EXIT_RUNTIME_ERROR
                | Inr result \<Rightarrow> stop ''done'' (exit_code False (snd result) default_batch_stats))))"

subsection \<open>Events become candidates\<close>

lemma on_event_total: "on_event alive ev drv \<noteq> Panic"
  by (simp add: on_event_def raw_phys_def split: option.split)

lemma on_event_sent:
  assumes "on_event True ev drv = Ret (drv', c)"
  shows "drv_sent drv' = drv_sent drv + (case c of Some _ \<Rightarrow> 1 | None \<Rightarrow> 0)"
    and "drv_cfg drv' = drv_cfg drv" "drv_tx drv' = drv_tx drv" "drv_slot drv' = drv_slot drv"
    and "c = Some x \<Longrightarrow> \<exists>cfg. drv_cfg drv = Some cfg \<and> data_dev cfg (drv_slot drv) = Some (failing_dev x)"
  using assms by (auto simp: on_event_def split: if_splits option.splits)

lemma drive_events_sent:
  "drive_events evs drv = Ret (drv', cs) \<Longrightarrow>
   drv_sent drv' = drv_sent drv + length cs \<and>
   (\<forall>x \<in> set cs. \<exists>cfg. drv_cfg drv = Some cfg \<and> data_dev cfg (drv_slot drv) = Some (failing_dev x))"
proof (induction evs arbitrary: drv drv' cs)
  case (Cons ev evs)
  obtain drv1 c drv2 cs1 where 1: "on_event True ev drv = Ret (drv1, c)" "drive_events evs drv1 = Ret (drv2, cs1)"
      "drv' = drv2" "cs = (case c of Some x \<Rightarrow> x # cs1 | None \<Rightarrow> cs1)"
    using Cons.prems by (auto simp: run_bind_def split: run.splits prod.splits)
  from Cons.IH [OF 1(2)] on_event_sent [OF 1(1)] 1(3,4) show ?case by (auto split: option.splits)
qed simp

lemma drive_events_total: "drive_events evs drv \<noteq> Panic"
proof (induction evs arbitrary: drv)
  case (Cons ev evs)
  obtain drv1 c where "on_event True ev drv = Ret (drv1, c)"
    using on_event_total [of True ev drv] by (cases "on_event True ev drv") auto
  moreover obtain drv2 cs where "drive_events evs drv1 = Ret (drv2, cs)"
    using Cons [of drv1] by (cases "drive_events evs drv1") auto
  ultimately show ?case by simp
qed simp

lemma sent_replicate_idle: "sent_candidates (replicate n Idle @ es) = sent_candidates es"
  by (induction n) simp_all

lemma sent_channel_events: "sent_candidates (channel_events gap k cs) = cs"
  by (induction cs arbitrary: k) (simp_all add: sent_replicate_idle)

lemma drive_eventsE:
  obtains drv cs where "drive_events evs d0 = Ret (drv, cs)"
  using drive_events_total [of evs d0] by (cases "drive_events evs d0") auto

subsection \<open>The recovery half of a run\<close>

lemma select_freeze_idle:
  assumes "\<forall>m. freeze_mount opts = Some m \<longrightarrow> \<not> kfrozen k m"
  shows "freeze_idle (k, select_freeze opts)"
  using assms by (auto simp: freeze_idle_def freeze_inv_def select_freeze_def new_controller_def split: option.splits)

text \<open>The driver's events become candidates on one device, all of them counted as sent.\<close>

lemma finish_recovery_eq:
  obtains cands where "\<forall>x \<in> set cands. data_dev cfg slot = Some (failing_dev x)"
    "finish_recovery rcr cfg slot opts clock gap w k counters result =
       Ret (join_pipeline (snd result) (length cands) counters
              (recovery_run rcr cfg slot opts clock gap w k counters cands))"
proof -
  let ?d = "\<lparr>drv_cfg = Some cfg, drv_tx = True, drv_slot = slot, drv_sent = 0\<rparr>"
  obtain drv cands where d: "drive_events (fst result) ?d = Ret (drv, cands)" by (rule drive_eventsE)
  from drive_events_sent [OF d] have "drv_sent drv = length cands"
      "\<forall>x \<in> set cands. data_dev cfg slot = Some (failing_dev x)" by simp_all
  then show thesis using that [of cands] by (simp add: finish_recovery_def d)
qed

text \<open>The live counters before the pipeline starts: no recovery bucket has been used.\<close>

definition fresh_counters :: "status_counters \<Rightarrow> bool" where
  "fresh_counters c \<longleftrightarrow> mirrors c default_batch_stats"

lemma recovery_run_books:
  assumes "recovery_run rcr cfg slot opts clock gap w k c cands = Ret ((fz', s'), Inr bs)" "fresh_counters c"
  shows "classified bs = length cands" "sub_buckets bs = mismatch bs" "not_corrupt bs = 0"
  using spawn_pipeline_books [OF assms(1) [unfolded recovery_run_def]] assms(2)
  by (simp_all add: fresh_counters_def classified_def sub_buckets_def sent_channel_events)

lemma finish_recovery_complete:
  assumes "slots_ok cfg" "1 \<le> slot" "slot \<le> 255" "ioctls_work k" "fresh_counters counters"
    and "\<forall>m. freeze_mount opts = Some m \<longrightarrow> \<not> kfrozen k m"
  shows "\<exists>bs ses. finish_recovery rcr cfg slot opts clock gap w k counters result = Ret ses \<and>
    exit_status ses = exit_code True (snd result) bs \<and> sub_buckets bs = mismatch bs \<and> not_corrupt bs = 0"
proof -
  obtain cands where eq: "finish_recovery rcr cfg slot opts clock gap w k counters result =
       Ret (join_pipeline (snd result) (length cands) counters
              (recovery_run rcr cfg slot opts clock gap w k counters cands))"
    by (rule finish_recovery_eq)
  obtain fz' s' bs where run: "recovery_run rcr cfg slot opts clock gap w k counters cands = Ret ((fz', s'), Inr bs)"
    using spawn_pipeline_returns [OF assms(1-3) select_freeze_idle [OF assms(6)]] assms(4)
    unfolding recovery_run_def by (metis fst_conv)
  from recovery_run_books [OF run assms(5)] eq run show ?thesis
    by (intro exI [of _ bs]) (simp add: join_pipeline_def Let_def)
qed

lemma finish_recovery_dry:
  assumes "finish_recovery rcr cfg slot opts clock gap w k counters result = Ret ses"
    and "final_state ses = Some (w', k')" "w' p \<noteq> w p"
  shows "\<not> dry_run opts \<and> data_dev cfg slot = Some p"
proof -
  obtain cands where c: "\<forall>x \<in> set cands. data_dev cfg slot = Some (failing_dev x)"
    and eq: "finish_recovery rcr cfg slot opts clock gap w k counters result =
       Ret (join_pipeline (snd result) (length cands) counters
              (recovery_run rcr cfg slot opts clock gap w k counters cands))"
    by (rule finish_recovery_eq)
  obtain fz' s' res where run: "recovery_run rcr cfg slot opts clock gap w k counters cands = Ret ((fz', s'), res)"
      and w': "w' = w_disks s'"
    using assms(1,2) eq by (auto simp: join_pipeline_def Let_def split: run.splits sum.splits if_splits)
  from spawn_pipeline_frame [OF run [unfolded recovery_run_def], of p] assms(3) w' c show ?thesis
    by (auto simp: sent_channel_events)
qed

subsection \<open>Properties\<close>

text \<open>the exit code is a function of what was found: 0 exactly when there is no mismatch, read error,
  metadata error or skipped sector; 6 exactly when a metadata node has no good copy; 4 only when
  every mismatch was recovered and nothing was skipped or left unverified; with a recovery
  pipeline the code is 0, 4, 5 or 6, without one 0, 3 or 6.\<close>

lemma exit_code_contract:
  "(exit_code hw st bs = EXIT_SUCCESS \<longleftrightarrow> sectors_mismatch st = 0 \<and> mismatch bs = 0 \<and> sectors_read_error st = 0 \<and>
      metadata_header_errors st = 0 \<and> metadata_read_errors st = 0 \<and> skipped bs = 0) \<and>
   (exit_code hw st bs = EXIT_METADATA_FATAL \<longleftrightarrow> metadata_header_errors st > 0) \<and>
   (exit_code hw st bs = EXIT_RECOVERED \<and> sub_buckets bs = mismatch bs \<longrightarrow>
      hw \<and> recovered bs = mismatch bs \<and> skipped bs = 0 \<and> metadata_read_errors st = 0) \<and>
   exit_code hw st bs \<in> (if hw then {EXIT_SUCCESS, EXIT_RECOVERED, EXIT_RECOVER_FAILED, EXIT_METADATA_FATAL}
     else {EXIT_SUCCESS, EXIT_ISSUES_FOUND, EXIT_METADATA_FATAL})"
  by (auto simp: exit_code_def exit_codes issues_found_def sub_buckets_def)

lemma exit_code_contract_witness:
  "exit_code True (default_stats\<lparr>sectors_read_error := 1\<rparr>) (default_batch_stats\<lparr>mismatch := 1, recovered := 1\<rparr>) =
     EXIT_RECOVERED \<and> recovered (default_batch_stats\<lparr>mismatch := 1, recovered := 1\<rparr>) = 1"
  using exit_code_contract [of True "default_stats\<lparr>sectors_read_error := 1\<rparr>"
      "default_batch_stats\<lparr>mismatch := 1, recovered := 1\<rparr>"]
  by (simp add: exit_code_def exit_codes issues_found_def sub_buckets_def default_stats_def default_batch_stats_def)


definition demo_fs :: "scrub_event list \<Rightarrow> unit filesystem" where
  "demo_fs evs = \<lparr>fs_run = (\<lambda>_. Inr (evs, default_stats)), fs_reconfirmer = Inr (\<lambda>w r q. (r, Corruption), ()),
     fs_superblock_offset = 0, fs_block_has_magic = (\<lambda>b. take 2 b = [1, 2])\<rparr>"

definition demo_event :: scrub_event where
  "demo_event = \<lparr>ev_array_phys = 0, ev_block_size = 2, ev_verify = Some (\<lambda>b. b = [1, 2]), ev_reconfirm = None,
     ev_unreadable = False\<rparr>"

definition demo_options :: "bool \<Rightarrow> path option \<Rightarrow> nat options" where
  "demo_options dry mnt = \<lparr>base_offset = 0, dry_run = dry, freeze_enabled = True, freeze_mount = mnt, batch_max = 64,
     batch_idle = 5, freeze_max = 60, status_sock = None\<rparr>"

lemma demo_sb_reads:
  "read_block_or_zeros demo_config (demo_disks bs) ''b'' 0 SB_BLOCK = Inr ([4, 8] @ zeros 4094)"
  "read_block_or_zeros demo_config (demo_disks bs) ''p'' 0 SB_BLOCK = Inr ([5, 10] @ zeros 4094)"
  by (simp_all add: demo_defs SB_BLOCK_def)

lemma xor_zeros: "xor_inplace (zeros n) (zeros n) = zeros n"
  by (simp add: xor_inplace_def zeros_def zip_replicate)

lemma demo_canary:
  "canary_gate (Some demo_config) 1 (demo_disks bs) (fs_superblock_offset (demo_fs evs)) (fs_block_has_magic (demo_fs evs)) = Ret True"
proof -
  have g: "gather_stripe demo_config (demo_disks bs) 1 0 SB_BLOCK =
      Inr \<lparr>other_data = [(2, [4, 8] @ zeros 4094)], chunk_p = Some ([5, 10] @ zeros 4094), chunk_q = None\<rparr>"
    using demo_sb_reads by (simp add: gather_stripe_def gather_parity_def demo_config_def)
  have z: "zeros SB_BLOCK = 0 # 0 # zeros 4094"
    by (simp add: SB_BLOCK_def zeros_def numeral_eq_Suc)
  have "recover_via_p (zeros SB_BLOCK) [(2, [4, 8] @ zeros 4094)] ([5, 10] @ zeros 4094) SB_BLOCK =
      Ret ([1, 2] @ zeros 4094)"
    using xor_zeros [of 4094]
    by (simp add: recover_via_p_def z run_assert_def run_bind_def xor_inplace_def) (simp add: SB_BLOCK_def)
  with g show ?thesis
    by (simp add: canary_gate_def reconstruct_block_def demo_fs_def)
qed

lemma demo_fresh: "fresh_counters new_counters"
  by (simp add: fresh_counters_def mirrors_def new_counters_def default_batch_stats_def)


text \<open>what a run may write: a device that a finished run leaves changed is the data disk of the
  scrubbed slot, \<open>--repair\<close> was given, and the parity canary had passed.\<close>

lemma run_scrub_writes:
  fixes fs :: "'r filesystem"
  assumes "run_scrub fs (Some cfg, slot) opts clock gap w k counters = Ret ses"
    and "final_state ses = Some (w', k')"
  shows "w' p = w p \<or> \<not> dry_run opts \<and> data_dev cfg slot = Some p \<and>
    canary_gate (Some cfg) slot w (fs_superblock_offset fs) (fs_block_has_magic fs) = Ret True"
proof (cases "w' p = w p")
  case False
  with assms obtain rcr :: "'r reconfirmer \<times> 'r" and result where
    "canary_gate (Some cfg) slot w (fs_superblock_offset fs) (fs_block_has_magic fs) = Ret True"
    and "finish_recovery rcr cfg slot opts clock gap w k (set_state ''done'' (set_recovery True counters)) result = Ret ses"
    by (auto simp: run_scrub_def Let_def run_bind_def split: run.splits if_splits sum.splits)
  with finish_recovery_dry [OF this(2) assms(2) False] show ?thesis by blast
qed simp

lemma demo_session:
  "\<exists>ses w' k'. run_scrub (demo_fs evs) (Some demo_config, 1) (demo_options dry mnt) clock gap
     (demo_disks [9, 9]) demo_kernel new_counters = Ret ses \<and> final_state ses = Some (w', k')"
proof -
  let ?c = "set_state ''done'' (set_recovery True new_counters)" and ?o = "demo_options dry mnt"
  obtain cands where eq: "finish_recovery (\<lambda>w r q. (r, Corruption), ()) demo_config 1 ?o clock gap
      (demo_disks [9, 9]) demo_kernel ?c (evs, default_stats) =
       Ret (join_pipeline (snd (evs, default_stats)) (length cands) ?c
              (recovery_run (\<lambda>w r q. (r, Corruption), ()) demo_config 1 ?o clock gap (demo_disks [9, 9]) demo_kernel ?c cands))"
    by (rule finish_recovery_eq)
  have "freeze_idle (demo_kernel, select_freeze ?o)"
    by (rule select_freeze_idle) (simp add: demo_kernel_def)
  from spawn_pipeline_returns [OF demo_slots_ok _ _ this, of 1] demo_idle(2)
  obtain fz' s' bs where "recovery_run (\<lambda>w r q. (r, Corruption), ()) demo_config 1 ?o clock gap
      (demo_disks [9, 9]) demo_kernel ?c cands = Ret ((fz', s'), Inr bs)"
    unfolding recovery_run_def by (metis fst_conv le_refl one_le_numeral)
  with eq demo_canary [of "[9, 9]" evs] show ?thesis
    by (simp add: run_scrub_def Let_def demo_fs_def join_pipeline_def)
qed

lemma run_scrub_writes_witness:
  "\<exists>ses w' k'. run_scrub (demo_fs [demo_event]) (Some demo_config, 1) (demo_options True None) (\<lambda>_ _. False) (\<lambda>_. 0)
     (demo_disks [9, 9]) demo_kernel new_counters = Ret ses \<and> final_state ses = Some (w', k') \<and>
     w' ''a'' = demo_disks [9, 9] ''a''"
proof -
  obtain ses w' k' where s: "run_scrub (demo_fs [demo_event]) (Some demo_config, 1) (demo_options True None)
      (\<lambda>_ _. False) (\<lambda>_. 0) (demo_disks [9, 9]) demo_kernel new_counters = Ret ses" "final_state ses = Some (w', k')"
    using demo_session by blast
  from run_scrub_writes [OF s, of "''a''"] s show ?thesis by (auto simp: demo_options_def)
qed

lemma dropWhile_none: "\<forall>c \<in> set s. \<not> f c \<Longrightarrow> dropWhile f s = s"
  by (cases s) simp_all

lemma trim_no_space: "\<forall>c \<in> set s. \<not> is_space c \<Longrightarrow> trim s = s"
  by (simp add: trim_def dropWhile_none)

lemma digit_not_space: "is_digit c \<Longrightarrow> \<not> is_space c"
  by (auto simp: is_digit_def is_space_def)

lemma show_nat_first: "show_nat n = c # cs \<Longrightarrow> is_digit c"
  using show_nat_digits [of n] by simp

text \<open>byte offsets: a decimal offset is taken as bytes, with a leading plus sign as 512-byte sectors
  (the product wraps at \<open>2 ^ 64\<close>), and a negative one is refused.\<close>

lemma parse_offset_decimal:
  assumes "n < 2 ^ 64"
  shows "parse_offset (show_nat n) = Inr n \<and>
    parse_offset (''+'' @ show_nat n) = Inr (n * 512 mod 2 ^ 64) \<and>
    parse_offset (''-'' @ show_nat n) = Inl NegativeOffset"
proof -
  obtain c cs where sn: "show_nat n = c # cs" by (cases "show_nat n") simp_all
  have d: "is_digit c" using show_nat_first [OF sn] .
  have no: "\<forall>x \<in> set (show_nat n). \<not> is_space x" using show_nat_char digit_not_space by blast
  moreover have "\<not> is_space (CHR ''+'')" "\<not> is_space (CHR ''-'')" by (simp_all add: is_space_def)
  ultimately have "trim (show_nat n) = show_nat n" "trim (''+'' @ show_nat n) = ''+'' @ show_nat n"
      "trim (''-'' @ show_nat n) = ''-'' @ show_nat n"
    by (simp_all add: trim_no_space)
  moreover have "parse_u64 (show_nat n) = Some n" using assms by (rule parse_show_nat)
  moreover have "strip_prefix ''0x'' (show_nat n) = None"
  proof -
    have "\<forall>x \<in> set (show_nat n). x \<noteq> CHR ''x''" using show_nat_char by (fastforce simp: is_digit_def)
    then show ?thesis using sn by (cases cs) (auto simp: strip_prefix_def)
  qed
  moreover have "c \<noteq> CHR ''+''" "c \<noteq> CHR ''-''" using d by (auto simp: is_digit_def)
  then have "take 1 (show_nat n) \<noteq> ''+''" "take 1 (show_nat n) \<noteq> ''-''" by (simp_all add: sn)
  ultimately show ?thesis by (simp add: parse_offset_def mul64_def)
qed

lemma parse_offset_decimal_witness:
  "parse_offset ''2048'' = Inr 2048 \<and> parse_offset ''+64'' = Inr 32768"
proof -
  have "show_nat 2048 = ''2048''" "show_nat 64 = ''64''" by code_simp+
  with parse_offset_decimal [of 2048] parse_offset_decimal [of 64] show ?thesis by simp
qed

text \<open>
  Two facts about the documentation: in repair mode without a declared mount the writer has no
  freeze at all, also when freezing was not disabled; and the same damage may end in code 4
  when it is only assessed and in code 5 when the written block does not read back.
\<close>

lemma repair_without_mount_never_freezes:
  "freeze_mount opts = None \<Longrightarrow> \<not> has_live_mount (select_freeze opts)"
  by (simp add: select_freeze_def new_controller_def has_live_mount_def)

lemma exit_code_depends_on_mode:
  "exit_code True default_stats (default_batch_stats\<lparr>mismatch := 1, recovered := 1\<rparr>) = EXIT_RECOVERED \<and>
   exit_code True default_stats (default_batch_stats\<lparr>mismatch := 1, readback_failed := 1\<rparr>) = EXIT_RECOVER_FAILED"
  by (simp add: exit_code_def exit_codes issues_found_def default_stats_def default_batch_stats_def)

end
