(* ===== verification/Btrfs_Format.thy ===== *)
theory Btrfs_Format
  imports Array_Io
begin

text \<open>
  The on-disk formats of \<open>src/scrub-rs/src/btrfs\<close>: little-endian fields (\<open>util.rs\<close>), keys and
  key pointers (\<open>key.rs\<close>), node headers, leaves and internal nodes (\<open>node.rs\<close>), root items
  (\<open>root.rs\<close>), checksum strategies (\<open>csum_strategy.rs\<close>) and superblocks (\<open>superblock.rs\<close>).
  Slicing past the end of a buffer is a panic. The four hash functions come from other
  crates and are arguments.
\<close>

subsection \<open>Little-endian fields\<close>

fun le_nat :: "bytes \<Rightarrow> nat" where
  "le_nat [] = 0"
| "le_nat (b # bs) = unat b + 256 * le_nat bs"

fun le_bytes :: "nat \<Rightarrow> nat \<Rightarrow> bytes" where
  "le_bytes 0 n = []"
| "le_bytes (Suc k) n = of_nat (n mod 256) # le_bytes k (n div 256)"

definition slice :: "bytes \<Rightarrow> nat \<Rightarrow> nat \<Rightarrow> bytes run" where
  "slice buf pos n = (if pos + n \<le> length buf then Ret (take n (drop pos buf)) else Panic)"

definition byte_at :: "bytes \<Rightarrow> nat \<Rightarrow> nat run" where
  "byte_at buf pos = (if pos < length buf then Ret (unat (buf ! pos)) else Panic)"

definition le_u16 :: "bytes \<Rightarrow> nat \<Rightarrow> nat run" where
  "le_u16 buf pos = run_bind (slice buf pos 2) (\<lambda>b. Ret (le_nat b))"

definition le_u32 :: "bytes \<Rightarrow> nat \<Rightarrow> nat run" where
  "le_u32 buf pos = run_bind (slice buf pos 4) (\<lambda>b. Ret (le_nat b))"

definition le_u64 :: "bytes \<Rightarrow> nat \<Rightarrow> nat run" where
  "le_u64 buf pos = run_bind (slice buf pos 8) (\<lambda>b. Ret (le_nat b))"

definition hex_digit :: "nat \<Rightarrow> char" where
  "hex_digit d = char_of (if d < 10 then 48 + d else 87 + d)"

definition hex :: "bytes \<Rightarrow> string" where
  "hex bs = concat (map (\<lambda>b. [hex_digit (unat b div 16), hex_digit (unat b mod 16)]) bs)"

subsection \<open>Reading the device\<close>

definition read_at :: "disk \<Rightarrow> nat \<Rightarrow> nat \<Rightarrow> io_kind + bytes" where
  "read_at fp off n = read_exact_at fp off n"

text \<open>
  \<open>pread_at\<close> with the fault-injection range of the environment, when one is set; additions
  in the overlap test saturate.
\<close>

definition sat64 :: "nat \<Rightarrow> nat \<Rightarrow> nat" where
  "sat64 a b = min (a + b) (2 ^ 64 - 1)"

definition pread_at :: "(nat \<times> nat) option \<Rightarrow> disk \<Rightarrow> nat \<Rightarrow> nat \<Rightarrow> io_kind + bytes" where
  "pread_at fault fp off n =
     (case fault of
        Some (fstart, flen) \<Rightarrow>
          if off < sat64 fstart flen \<and> sat64 off n > fstart then Inl (OsError 5)
          else read_exact_at fp off n
      | None \<Rightarrow> read_exact_at fp off n)"

definition fault_range :: "string option \<Rightarrow> (nat \<times> nat) option" where
  "fault_range env =
     (case env of None \<Rightarrow> None
      | Some raw \<Rightarrow>
        (let (s, l) = (case split_once (CHR '','') raw of
                         Some (s, l) \<Rightarrow> (trim s, trim l) | None \<Rightarrow> (trim raw, ''4096''))
         in case (parse_u64 s, parse_u64 l) of
              (Some start, Some len) \<Rightarrow> Some (start, max len 1)
            | _ \<Rightarrow> None))"

subsection \<open>Keys\<close>

definition ROOT_TREE :: nat where "ROOT_TREE = 1"
definition EXTENT_TREE :: nat where "EXTENT_TREE = 2"
definition CHUNK_TREE :: nat where "CHUNK_TREE = 3"
definition DEV_TREE :: nat where "DEV_TREE = 4"
definition FS_TREE :: nat where "FS_TREE = 5"
definition CSUM_TREE :: nat where "CSUM_TREE = 7"
definition EXTENT_CSUM_OBJECTID :: nat where "EXTENT_CSUM_OBJECTID = 0xFFFFFFFFFFFFFFF6"

definition EXTENT_DATA :: nat where "EXTENT_DATA = 108"
definition EXTENT_CSUM :: nat where "EXTENT_CSUM = 128"
definition ROOT_ITEM :: nat where "ROOT_ITEM = 132"
definition EXTENT_ITEM :: nat where "EXTENT_ITEM = 168"
definition METADATA_ITEM :: nat where "METADATA_ITEM = 169"
definition DEV_EXTENT_KEY :: nat where "DEV_EXTENT_KEY = 204"
definition CHUNK_ITEM :: nat where "CHUNK_ITEM = 228"

datatype key = Key (objectid: nat) (key_ty: nat) (key_offset: nat)

instantiation key :: linorder
begin

definition less_eq_key :: "key \<Rightarrow> key \<Rightarrow> bool" where
  "less_eq_key a b \<longleftrightarrow> objectid a < objectid b \<or> objectid a = objectid b \<and>
     (key_ty a < key_ty b \<or> key_ty a = key_ty b \<and> key_offset a \<le> key_offset b)"

definition less_key :: "key \<Rightarrow> key \<Rightarrow> bool" where
  "less_key a b \<longleftrightarrow> objectid a < objectid b \<or> objectid a = objectid b \<and>
     (key_ty a < key_ty b \<or> key_ty a = key_ty b \<and> key_offset a < key_offset b)"

instance
proof
  fix x y z :: key
  show "x < y \<longleftrightarrow> x \<le> y \<and> \<not> y \<le> x" by (auto simp: less_key_def less_eq_key_def)
  show "x \<le> x" by (simp add: less_eq_key_def)
  show "x \<le> y \<Longrightarrow> y \<le> z \<Longrightarrow> x \<le> z" by (auto simp: less_eq_key_def)
  show "x \<le> y \<Longrightarrow> y \<le> x \<Longrightarrow> x = y" by (cases x; cases y) (auto simp: less_eq_key_def)
  show "x \<le> y \<or> y \<le> x" by (auto simp: less_eq_key_def)
qed

end

definition key_parse :: "bytes \<Rightarrow> nat \<Rightarrow> key run" where
  "key_parse buf pos =
     run_bind (le_u64 buf pos) (\<lambda>oid.
     run_bind (byte_at buf (pos + 8)) (\<lambda>ty.
     run_bind (le_u64 buf (pos + 9)) (\<lambda>off. Ret (Key oid ty off))))"

record key_ptr =
  kp_key :: key
  blockptr :: nat
  kp_generation :: nat

definition key_ptr_parse :: "bytes \<Rightarrow> nat \<Rightarrow> key_ptr run" where
  "key_ptr_parse buf pos =
     run_bind (key_parse buf pos) (\<lambda>k.
     run_bind (le_u64 buf (pos + 17)) (\<lambda>bp.
     run_bind (le_u64 buf (pos + 25)) (\<lambda>g.
     Ret \<lparr>kp_key = k, blockptr = bp, kp_generation = g\<rparr>)))"

subsection \<open>Nodes\<close>

definition HEADER_SIZE :: nat where "HEADER_SIZE = 101"
definition LEAF_ITEM_SIZE :: nat where "LEAF_ITEM_SIZE = 25"
definition KEYPTR_SIZE :: nat where "KEYPTR_SIZE = 33"

record header =
  h_fsid :: bytes
  h_bytenr :: nat
  h_flags :: nat
  h_chunk_tree_uuid :: bytes
  h_generation :: nat
  h_owner :: nat
  h_nritems :: nat
  h_level :: nat

definition header_parse :: "bytes \<Rightarrow> header run" where
  "header_parse buf =
     run_bind (slice buf 32 16) (\<lambda>fsid.
     run_bind (le_u64 buf 48) (\<lambda>bytenr.
     run_bind (le_u64 buf 56) (\<lambda>flags.
     run_bind (slice buf 64 16) (\<lambda>uuid.
     run_bind (le_u64 buf 80) (\<lambda>generation.
     run_bind (le_u64 buf 88) (\<lambda>owner.
     run_bind (le_u32 buf 96) (\<lambda>nritems.
     run_bind (byte_at buf 100) (\<lambda>level.
     Ret \<lparr>h_fsid = fsid, h_bytenr = bytenr, h_flags = flags, h_chunk_tree_uuid = uuid,
          h_generation = generation, h_owner = owner, h_nritems = nritems, h_level = level\<rparr>))))))))"

record leaf_item_slot =
  slot_key :: key
  data_offset :: nat
  data_size :: nat

definition slot_parse :: "bytes \<Rightarrow> nat \<Rightarrow> leaf_item_slot run" where
  "slot_parse buf pos =
     run_bind (key_parse buf pos) (\<lambda>k.
     run_bind (le_u32 buf (pos + 17)) (\<lambda>doff.
     run_bind (le_u32 buf (pos + 21)) (\<lambda>dsize.
     Ret \<lparr>slot_key = k, data_offset = doff, data_size = dsize\<rparr>)))"

record leaf =
  leaf_header :: header
  slots :: "leaf_item_slot list"
  leaf_buf :: bytes

definition item_data :: "leaf \<Rightarrow> nat \<Rightarrow> bytes run" where
  "item_data lf i =
     (if i < length (slots lf)
      then slice (leaf_buf lf) (HEADER_SIZE + data_offset (slots lf ! i)) (data_size (slots lf ! i))
      else Panic)"

record internal_node =
  int_header :: header
  ptrs :: "key_ptr list"

datatype node = LeafNode leaf | InternalNode internal_node

definition node_header :: "node \<Rightarrow> header" where
  "node_header n = (case n of LeafNode l \<Rightarrow> leaf_header l | InternalNode i \<Rightarrow> int_header i)"

text \<open>The slot loops: \<open>n\<close> entries of a fixed size from \<open>pos\<close> on.\<close>

fun parse_array :: "(bytes \<Rightarrow> nat \<Rightarrow> 'a run) \<Rightarrow> nat \<Rightarrow> bytes \<Rightarrow> nat \<Rightarrow> nat \<Rightarrow> 'a list run" where
  "parse_array f stride buf pos 0 = Ret []"
| "parse_array f stride buf pos (Suc n) =
     run_bind (f buf pos) (\<lambda>x.
     run_bind (parse_array f stride buf (pos + stride) n) (\<lambda>xs. Ret (x # xs)))"

definition node_parse :: "bytes \<Rightarrow> node run" where
  "node_parse buf =
     run_bind (header_parse buf) (\<lambda>h.
       if h_level h = 0 then
         run_bind (parse_array slot_parse LEAF_ITEM_SIZE buf HEADER_SIZE (h_nritems h))
           (\<lambda>ss. Ret (LeafNode \<lparr>leaf_header = h, slots = ss, leaf_buf = buf\<rparr>))
       else
         run_bind (parse_array key_ptr_parse KEYPTR_SIZE buf HEADER_SIZE (h_nritems h))
           (\<lambda>ps. Ret (InternalNode \<lparr>int_header = h, ptrs = ps\<rparr>)))"

record root_item =
  ri_bytenr :: nat
  ri_level :: nat

definition root_item_parse :: "bytes \<Rightarrow> root_item run" where
  "root_item_parse buf =
     run_bind (le_u64 buf 176) (\<lambda>b. run_bind (byte_at buf 238) (\<lambda>l. Ret \<lparr>ri_bytenr = b, ri_level = l\<rparr>))"

subsection \<open>Checksum strategies\<close>

definition CRC32C :: nat where "CRC32C = 0"
definition XXHASH :: nat where "XXHASH = 1"
definition SHA256 :: nat where "SHA256 = 2"
definition BLAKE2 :: nat where "BLAKE2 = 3"

text \<open>The hash functions of the other crates, as numbers or digests.\<close>

record hashes =
  crc32c :: "bytes \<Rightarrow> nat"
  xxh64 :: "bytes \<Rightarrow> nat"
  sha256 :: "bytes \<Rightarrow> bytes"
  blake2b_32 :: "bytes \<Rightarrow> bytes"

record csum_strategy =
  st_csum_type :: nat
  st_name :: string
  hash_len :: nat
  st_sector_size :: nat

definition csum_params :: "nat \<Rightarrow> (string \<times> nat) option" where
  "csum_params t =
     (if t = CRC32C then Some (''crc32c'', 4)
      else if t = XXHASH then Some (''xxhash'', 8)
      else if t = SHA256 then Some (''sha256'', 32)
      else if t = BLAKE2 then Some (''blake2'', 32)
      else None)"

definition hash_bytes :: "hashes \<Rightarrow> nat \<Rightarrow> bytes \<Rightarrow> bytes run" where
  "hash_bytes H t dat =
     (if t = CRC32C then Ret (le_bytes 4 (crc32c H dat))
      else if t = XXHASH then Ret (le_bytes 8 (xxh64 H dat))
      else if t = SHA256 then Ret (sha256 H dat)
      else if t = BLAKE2 then Ret (blake2b_32 H dat)
      else Panic)"

definition verify_header :: "hashes \<Rightarrow> nat \<Rightarrow> bytes \<Rightarrow> (io_kind + bool) run" where
  "verify_header H t node_buf =
     (if length node_buf \<le> 32 then Ret (Inr False)
      else case csum_params t of
             None \<Rightarrow> Ret (Inl InvalidData)
           | Some (_, hlen) \<Rightarrow>
               run_bind (hash_bytes H t (drop 32 node_buf)) (\<lambda>actual.
                 Ret (Inr (take hlen node_buf = actual))))"

definition csum_compute :: "hashes \<Rightarrow> csum_strategy \<Rightarrow> bytes \<Rightarrow> bytes run" where
  "csum_compute H st dat = hash_bytes H (st_csum_type st) dat"

definition csum_matches :: "hashes \<Rightarrow> csum_strategy \<Rightarrow> bytes \<Rightarrow> bytes \<Rightarrow> bool run" where
  "csum_matches H st stored dat = run_bind (csum_compute H st dat) (\<lambda>c. Ret (stored = c))"

definition verify_node_header :: "hashes \<Rightarrow> csum_strategy \<Rightarrow> bytes \<Rightarrow> bool run" where
  "verify_node_header H st node_buf =
     run_bind (verify_header H (st_csum_type st) node_buf)
       (\<lambda>r. Ret (case r of Inr b \<Rightarrow> b | Inl e \<Rightarrow> False))"

subsection \<open>Superblocks\<close>

definition SUPERBLOCK_OFFSET :: nat where "SUPERBLOCK_OFFSET = 0x10000"

definition SUPERBLOCK_BACKUP_OFFSETS :: "nat list" where
  "SUPERBLOCK_BACKUP_OFFSETS = [0x10000, 0x4000000, 0x4000000000, 0x10000000000]"

definition BTRFS_MAGIC :: bytes where
  "BTRFS_MAGIC = [0x5F, 0x42, 0x48, 0x52, 0x66, 0x53, 0x5F, 0x4D]"

definition OFF_MAGIC :: nat where "OFF_MAGIC = 64"

definition has_magic_at :: "bytes \<Rightarrow> nat \<Rightarrow> bool" where
  "has_magic_at buf off \<longleftrightarrow>
     off + length BTRFS_MAGIC \<le> length buf \<and> take (length BTRFS_MAGIC) (drop off buf) = BTRFS_MAGIC"

record superblock =
  sb_fsid :: bytes
  sb_bytenr :: nat
  sb_magic :: bytes
  sb_generation :: nat
  sb_root :: nat
  sb_chunk_root :: nat
  sb_total_bytes :: nat
  sb_bytes_used :: nat
  sb_num_devices :: nat
  sb_sector_size :: nat
  sb_node_size :: nat
  sb_stripesize :: nat
  sb_sys_chunk_array_size :: nat
  sb_chunk_root_generation :: nat
  sb_csum_type :: nat
  sb_devid :: nat
  sb_sys_chunks :: bytes

definition from_superblock :: "superblock \<Rightarrow> io_kind + csum_strategy" where
  "from_superblock sb =
     (case csum_params (sb_csum_type sb) of
        None \<Rightarrow> Inl InvalidData
      | Some (name, hlen) \<Rightarrow>
          if sb_sector_size sb = 0 then Inl InvalidData
          else Inr \<lparr>st_csum_type = sb_csum_type sb, st_name = name, hash_len = hlen,
                    st_sector_size = sb_sector_size sb\<rparr>)"

text \<open>A 4096-byte block; every field offset is inside it, so the reads are total.\<close>

definition field :: "bytes \<Rightarrow> nat \<Rightarrow> nat \<Rightarrow> nat" where
  "field buf pos n = le_nat (take n (drop pos buf))"

definition superblock_fields :: "bytes \<Rightarrow> superblock" where
  "superblock_fields buf =
     \<lparr>sb_fsid = take 16 (drop 32 buf), sb_bytenr = field buf 48 8, sb_magic = take 8 (drop 64 buf),
      sb_generation = field buf 72 8, sb_root = field buf 80 8, sb_chunk_root = field buf 88 8,
      sb_total_bytes = field buf 112 8, sb_bytes_used = field buf 120 8, sb_num_devices = field buf 136 8,
      sb_sector_size = field buf 144 4, sb_node_size = field buf 148 4, sb_stripesize = field buf 156 4,
      sb_sys_chunk_array_size = field buf 160 4, sb_chunk_root_generation = field buf 164 8,
      sb_csum_type = field buf 196 2, sb_devid = field buf 201 8,
      sb_sys_chunks = take (field buf 160 4) (drop 811 buf)\<rparr>"

definition read_one :: "hashes \<Rightarrow> disk \<Rightarrow> nat \<Rightarrow> (io_kind + superblock) run" where
  "read_one H fp abs_off =
     (case read_at fp abs_off 4096 of
        Inl e \<Rightarrow> Ret (Inl e)
      | Inr buf \<Rightarrow>
          if take 8 (drop OFF_MAGIC buf) \<noteq> BTRFS_MAGIC then Ret (Inl InvalidData)
          else run_bind (verify_header H (field buf 196 2) buf) (\<lambda>v.
            case v of
              Inl e \<Rightarrow> Ret (Inl e)
            | Inr ok \<Rightarrow>
                if \<not> ok then Ret (Inl InvalidData)
                else if 811 + field buf 160 4 \<le> length buf then Ret (Inr (superblock_fields buf))
                else Ret (Inl InvalidData)))"

fun read_copies ::
  "hashes \<Rightarrow> disk \<Rightarrow> nat \<Rightarrow> nat list \<Rightarrow> io_kind option \<Rightarrow> (io_kind + superblock) run" where
  "read_copies H fp off [] last_err = Ret (Inl (case last_err of Some e \<Rightarrow> e | None \<Rightarrow> InvalidData))"
| "read_copies H fp off (sb_off # rest) last_err =
     run_bind (read_one H fp (add64 off sb_off)) (\<lambda>r.
       case r of
         Inr sb \<Rightarrow> Ret (Inr sb)
       | Inl e \<Rightarrow> if e = UnexpectedEof then read_copies H fp off rest last_err
                 else read_copies H fp off rest (Some e))"

definition superblock_read :: "hashes \<Rightarrow> disk \<Rightarrow> nat \<Rightarrow> (io_kind + superblock) run" where
  "superblock_read H fp off = read_copies H fp off SUPERBLOCK_BACKUP_OFFSETS None"

definition read_primary :: "hashes \<Rightarrow> disk \<Rightarrow> nat \<Rightarrow> (io_kind + superblock) run" where
  "read_primary H fp off = read_one H fp (add64 off (hd SUPERBLOCK_BACKUP_OFFSETS))"

subsection \<open>Encoding and decoding\<close>

lemma length_le_bytes [simp]: "length (le_bytes k n) = k"
  by (induction k arbitrary: n) simp_all

lemma le_nat_le_bytes: "n < 256 ^ k \<Longrightarrow> le_nat (le_bytes k n) = n"
proof (induction k arbitrary: n)
  case (Suc k)
  then have "n div 256 < 256 ^ k" by (simp add: less_mult_imp_div_less mult.commute)
  with Suc show ?case by (simp add: unat_of_nat)
qed simp

lemma le_nat_bound: "le_nat bs < 256 ^ length bs"
proof (induction bs)
  case (Cons b bs)
  have "unat b + 256 * le_nat bs < 256 + 256 * le_nat bs" by simp
  also have "\<dots> = 256 * (le_nat bs + 1)" by simp
  also have "\<dots> \<le> 256 * 256 ^ length bs" using Cons by (intro mult_le_mono2) simp
  finally show ?case by simp
qed simp

lemma slice_after: "length xs \<le> pos \<Longrightarrow> slice (xs @ ys) pos n = slice ys (pos - length xs) n"
  by (auto simp: slice_def)

lemma slice_here: "length xs = n \<Longrightarrow> slice (xs @ ys) 0 n = Ret xs"
  by (simp add: slice_def)

lemma byte_at_after: "length xs \<le> pos \<Longrightarrow> byte_at (xs @ ys) pos = byte_at ys (pos - length xs)"
  by (simp add: byte_at_def nth_append less_diff_conv2)

lemma byte_at_here: "b < 256 \<Longrightarrow> byte_at (of_nat b # ys) 0 = Ret b"
  by (simp add: byte_at_def unat_of_nat)

lemma slice_Cons: "0 < pos \<Longrightarrow> slice (x # ys) pos n = slice ys (pos - 1) n"
  by (cases pos) (simp_all add: slice_def)

lemma byte_at_Cons: "0 < pos \<Longrightarrow> byte_at (x # ys) pos = byte_at ys (pos - 1)"
  by (cases pos) (simp_all add: byte_at_def)

lemmas decode_simps = slice_after slice_here byte_at_after byte_at_here slice_Cons byte_at_Cons
  le_u16_def le_u32_def le_u64_def le_nat_le_bytes

definition enc_key :: "key \<Rightarrow> bytes" where
  "enc_key k = le_bytes 8 (objectid k) @ of_nat (key_ty k) # le_bytes 8 (key_offset k)"

definition key_ok :: "key \<Rightarrow> bool" where
  "key_ok k \<longleftrightarrow> objectid k < 256 ^ 8 \<and> key_ty k < 256 \<and> key_offset k < 256 ^ 8"

lemma length_enc_key [simp]: "length (enc_key k) = 17"
  by (simp add: enc_key_def)

lemma key_parse_enc: "key_ok k \<Longrightarrow> key_parse (enc_key k @ rest) 0 = Ret k"
  by (cases k) (simp add: key_parse_def enc_key_def key_ok_def decode_simps)

lemma key_parse_after: "length xs \<le> pos \<Longrightarrow> key_parse (xs @ ys) pos = key_parse ys (pos - length xs)"
  by (simp add: key_parse_def le_u64_def slice_after byte_at_after)

definition enc_key_ptr :: "key_ptr \<Rightarrow> bytes" where
  "enc_key_ptr p = enc_key (kp_key p) @ le_bytes 8 (blockptr p) @ le_bytes 8 (kp_generation p)"

definition key_ptr_ok :: "key_ptr \<Rightarrow> bool" where
  "key_ptr_ok p \<longleftrightarrow> key_ok (kp_key p) \<and> blockptr p < 256 ^ 8 \<and> kp_generation p < 256 ^ 8"

definition enc_slot :: "leaf_item_slot \<Rightarrow> bytes" where
  "enc_slot s = enc_key (slot_key s) @ le_bytes 4 (data_offset s) @ le_bytes 4 (data_size s)"

definition slot_ok :: "leaf_item_slot \<Rightarrow> bool" where
  "slot_ok s \<longleftrightarrow> key_ok (slot_key s) \<and> data_offset s < 256 ^ 4 \<and> data_size s < 256 ^ 4"

lemma key_ptr_parse_enc:
  assumes "key_ptr_ok p"
  shows "key_ptr_parse (xs @ enc_key_ptr p @ ys) (length xs) = Ret p"
  using assms
  by (simp add: key_ptr_parse_def enc_key_ptr_def key_ptr_ok_def key_parse_after key_parse_enc decode_simps)

lemma slot_parse_enc:
  assumes "slot_ok s"
  shows "slot_parse (xs @ enc_slot s @ ys) (length xs) = Ret s"
  using assms
  by (simp add: slot_parse_def enc_slot_def slot_ok_def key_parse_after key_parse_enc decode_simps)

lemma parse_array_enc:
  assumes "\<And>x xs ys. ok x \<Longrightarrow> f (xs @ enc x @ ys) (length xs) = Ret x" "\<And>x. length (enc x) = stride"
  shows "\<forall>x \<in> set es. ok x \<Longrightarrow> n = length es \<Longrightarrow> pos = length pre \<Longrightarrow>
    parse_array f stride (pre @ concat (map enc es) @ post) pos n = Ret es"
proof (induction es arbitrary: pre n pos)
  case (Cons e es)
  have "parse_array f stride ((pre @ enc e) @ concat (map enc es) @ post) (length (pre @ enc e)) (length es) = Ret es"
    using Cons.IH [of "length es" "length (pre @ enc e)" "pre @ enc e"] Cons.prems(1) by simp
  with Cons.prems assms(1) [of e pre] assms(2) show ?case by simp
qed simp

definition enc_header :: "bytes \<Rightarrow> header \<Rightarrow> bytes" where
  "enc_header csum h = csum @ h_fsid h @ le_bytes 8 (h_bytenr h) @ le_bytes 8 (h_flags h) @
     h_chunk_tree_uuid h @ le_bytes 8 (h_generation h) @ le_bytes 8 (h_owner h) @
     le_bytes 4 (h_nritems h) @ [of_nat (h_level h)]"

definition header_ok :: "header \<Rightarrow> bool" where
  "header_ok h \<longleftrightarrow> length (h_fsid h) = 16 \<and> h_bytenr h < 256 ^ 8 \<and> h_flags h < 256 ^ 8 \<and>
     length (h_chunk_tree_uuid h) = 16 \<and> h_generation h < 256 ^ 8 \<and> h_owner h < 256 ^ 8 \<and>
     h_nritems h < 256 ^ 4 \<and> h_level h < 256"

lemma length_enc_header: "header_ok h \<Longrightarrow> length csum = 32 \<Longrightarrow> length (enc_header csum h) = HEADER_SIZE"
  by (simp add: enc_header_def header_ok_def HEADER_SIZE_def)

lemma header_parse_enc:
  assumes "header_ok h" "length csum = 32"
  shows "header_parse (enc_header csum h @ rest) = Ret h"
  using assms
  by (simp add: header_parse_def enc_header_def header_ok_def decode_simps)

subsection \<open>Properties\<close>

text \<open>C20: tree nodes are decoded as the format defines them: a node written with a 101-byte header, then
  33-byte key pointers (level above 0) or 25-byte item slots (level 0), with any item data after
  them, is parsed back field by field; nothing panics.\<close>

theorem node_parse_roundtrip:
  assumes "header_ok h" "length csum = 32"
  shows "(h_level h \<noteq> 0 \<and> h_nritems h = length ps \<and> (\<forall>p \<in> set ps. key_ptr_ok p) \<longrightarrow>
      node_parse (enc_header csum h @ concat (map enc_key_ptr ps) @ rest) =
        Ret (InternalNode \<lparr>int_header = h, ptrs = ps\<rparr>)) \<and>
    (h_level h = 0 \<and> h_nritems h = length ss \<and> (\<forall>s \<in> set ss. slot_ok s) \<longrightarrow>
      node_parse (enc_header csum h @ concat (map enc_slot ss) @ rest) =
        Ret (LeafNode \<lparr>leaf_header = h, slots = ss,
               leaf_buf = enc_header csum h @ concat (map enc_slot ss) @ rest\<rparr>))"
  using parse_array_enc [of key_ptr_ok key_ptr_parse enc_key_ptr KEYPTR_SIZE ps "h_nritems h" HEADER_SIZE
      "enc_header csum h" rest] key_ptr_parse_enc
    parse_array_enc [of slot_ok slot_parse enc_slot LEAF_ITEM_SIZE ss "h_nritems h" HEADER_SIZE
      "enc_header csum h" rest] slot_parse_enc
  by (simp add: node_parse_def header_parse_enc [OF assms] length_enc_header [OF assms]
      enc_key_ptr_def KEYPTR_SIZE_def enc_slot_def LEAF_ITEM_SIZE_def)

definition demo_header :: "nat \<Rightarrow> nat \<Rightarrow> header" where
  "demo_header lvl n = \<lparr>h_fsid = zeros 16, h_bytenr = 0x4000, h_flags = 1, h_chunk_tree_uuid = zeros 16,
     h_generation = 7, h_owner = 2, h_nritems = n, h_level = lvl\<rparr>"

theorem node_parse_roundtrip_witness:
  "node_parse (enc_header (zeros 32) (demo_header 1 1) @
      concat (map enc_key_ptr [\<lparr>kp_key = Key 256 EXTENT_ITEM 4096, blockptr = 0x8000, kp_generation = 7\<rparr>]) @ zeros 10) =
   Ret (InternalNode \<lparr>int_header = demo_header 1 1,
      ptrs = [\<lparr>kp_key = Key 256 EXTENT_ITEM 4096, blockptr = 0x8000, kp_generation = 7\<rparr>]\<rparr>)"
  using node_parse_roundtrip [of "demo_header 1 1" "zeros 32"
      "[\<lparr>kp_key = Key 256 EXTENT_ITEM 4096, blockptr = 0x8000, kp_generation = 7\<rparr>]"]
  by (simp add: demo_header_def header_ok_def key_ptr_ok_def key_ok_def EXTENT_ITEM_def)

text \<open>The copies of a superblock are tried in order; the first good one is used.\<close>

lemma read_copies_first:
  "read_copies H fp off offs e = Ret (Inr sb) \<longleftrightarrow>
   (\<exists>pre o' post. offs = pre @ o' # post \<and> read_one H fp (add64 off o') = Ret (Inr sb) \<and>
      (\<forall>p \<in> set pre. \<exists>e. read_one H fp (add64 off p) = Ret (Inl e)))"
proof (induction offs arbitrary: e)
  case (Cons a offs)
  show ?case
  proof (cases "read_one H fp (add64 off a)")
    case Panic
    then show ?thesis by (auto simp: Cons_eq_append_conv)
  next
    case (Ret r)
    show ?thesis
    proof (cases r)
      case (Inl x)
      have "read_copies H fp off (a # offs) e = Ret (Inr sb) \<longleftrightarrow>
          (\<exists>pre o' post. offs = pre @ o' # post \<and> read_one H fp (add64 off o') = Ret (Inr sb) \<and>
             (\<forall>p \<in> set pre. \<exists>e. read_one H fp (add64 off p) = Ret (Inl e)))"
        using Ret Inl Cons.IH by simp
      also have "\<dots> \<longleftrightarrow> (\<exists>pre o' post. a # offs = pre @ o' # post \<and> read_one H fp (add64 off o') = Ret (Inr sb) \<and>
             (\<forall>p \<in> set pre. \<exists>e. read_one H fp (add64 off p) = Ret (Inl e)))"
      proof
        assume "\<exists>pre o' post. offs = pre @ o' # post \<and> read_one H fp (add64 off o') = Ret (Inr sb) \<and>
             (\<forall>p \<in> set pre. \<exists>e. read_one H fp (add64 off p) = Ret (Inl e))"
        then obtain pre o' post where "offs = pre @ o' # post" "read_one H fp (add64 off o') = Ret (Inr sb)"
            "\<forall>p \<in> set pre. \<exists>e. read_one H fp (add64 off p) = Ret (Inl e)" by blast
        then show "\<exists>pre o' post. a # offs = pre @ o' # post \<and> read_one H fp (add64 off o') = Ret (Inr sb) \<and>
             (\<forall>p \<in> set pre. \<exists>e. read_one H fp (add64 off p) = Ret (Inl e))"
          using Ret Inl by (intro exI [of _ "a # pre"]) auto
      qed (use Ret Inl in \<open>auto simp: Cons_eq_append_conv, blast\<close>)
      finally show ?thesis .
    next
      case (Inr x)
      have "x = sb" if "a # offs = pre @ o' # post" "read_one H fp (add64 off o') = Ret (Inr sb)"
          "\<forall>p \<in> set pre. \<exists>e. read_one H fp (add64 off p) = Ret (Inl e)" for pre o' post
        using that Ret Inr by (cases pre) auto
      moreover have "\<exists>pre o' post. a # offs = pre @ o' # post \<and> read_one H fp (add64 off o') = Ret (Inr sb) \<and>
             (\<forall>p \<in> set pre. \<exists>e. read_one H fp (add64 off p) = Ret (Inl e))" if "x = sb"
        using that Ret Inr by (intro exI [of _ "[]"] exI [of _ a] exI [of _ offs]) simp
      ultimately show ?thesis using Ret Inr by auto
    qed
  qed
qed simp

text \<open>A good copy: readable, with the magic, a valid header checksum and a chunk array that fits.\<close>

definition good_copy :: "hashes \<Rightarrow> disk \<Rightarrow> nat \<Rightarrow> bytes \<Rightarrow> bool" where
  "good_copy H fp abs_off buf \<longleftrightarrow> read_at fp abs_off 4096 = Inr buf \<and> has_magic_at buf OFF_MAGIC \<and>
     verify_header H (field buf 196 2) buf = Ret (Inr True) \<and> 811 + field buf 160 4 \<le> 4096"

lemma length_magic: "length BTRFS_MAGIC = 8"
  by (simp add: BTRFS_MAGIC_def)

lemma read_one_good:
  "read_one H fp abs_off = Ret (Inr sb) \<longleftrightarrow> (\<exists>buf. good_copy H fp abs_off buf \<and> sb = superblock_fields buf)"
  by (auto simp: read_one_def good_copy_def has_magic_at_def OFF_MAGIC_def length_magic run_bind_def read_at_def
      dest: read_exact_at_length split: sum.splits run.splits if_splits)

lemma verify_header_total: "verify_header H t buf \<noteq> Panic"
  by (auto simp: verify_header_def csum_params_def hash_bytes_def)

lemma read_one_total: "read_one H fp off \<noteq> Panic"
  using verify_header_total
  by (auto simp: read_one_def run_bind_def split: sum.splits run.splits)

lemma read_copies_total: "read_copies H fp off offs e \<noteq> Panic"
proof (induction offs arbitrary: e)
  case (Cons a offs)
  obtain r where "read_one H fp (add64 off a) = Ret r"
    using read_one_total [of H fp "add64 off a"] by (cases "read_one H fp (add64 off a)") auto
  with Cons show ?case by (simp split: sum.split)
qed simp

text \<open>C21: opening survives a lost primary superblock: reading the superblock never panics, and it
  succeeds exactly when one of the four copies (64 KiB, 64 MiB, 256 GiB, 1 TiB) is readable with
  the magic, a valid header checksum and a chunk array inside the block; the first such copy in
  that order is the one decoded.\<close>

theorem superblock_read_first_good:
  "superblock_read H fp off \<noteq> Panic \<and>
   (superblock_read H fp off = Ret (Inr sb) \<longleftrightarrow>
      (\<exists>pre o' post buf. SUPERBLOCK_BACKUP_OFFSETS = pre @ o' # post \<and> good_copy H fp (add64 off o') buf \<and>
         sb = superblock_fields buf \<and> (\<forall>p \<in> set pre. \<nexists>b. good_copy H fp (add64 off p) b)))"
proof -
  have no: "(\<exists>e. read_one H fp a = Ret (Inl e)) \<longleftrightarrow> (\<nexists>b. good_copy H fp a b)" for a
  proof (cases "read_one H fp a")
    case (Ret r)
    then show ?thesis using read_one_good [of H fp a] by (cases r) (metis run.inject sum.distinct(1))+
  qed (simp add: read_one_total)
  have "superblock_read H fp off = Ret (Inr sb) \<longleftrightarrow>
      (\<exists>pre o' post. SUPERBLOCK_BACKUP_OFFSETS = pre @ o' # post \<and> read_one H fp (add64 off o') = Ret (Inr sb) \<and>
      (\<forall>p \<in> set pre. \<exists>e. read_one H fp (add64 off p) = Ret (Inl e)))"
    unfolding superblock_read_def by (rule read_copies_first)
  also have "\<dots> \<longleftrightarrow> (\<exists>pre o' post buf. SUPERBLOCK_BACKUP_OFFSETS = pre @ o' # post \<and> good_copy H fp (add64 off o') buf \<and>
         sb = superblock_fields buf \<and> (\<forall>p \<in> set pre. \<nexists>b. good_copy H fp (add64 off p) b))"
    unfolding no read_one_good by blast
  finally show ?thesis by (simp add: superblock_read_def read_copies_total)
qed

text \<open>A disk whose only superblock is the primary copy, under a constant checksum.\<close>

definition demo_hashes :: hashes where
  "demo_hashes = \<lparr>crc32c = (\<lambda>_. 0), xxh64 = (\<lambda>_. 0), sha256 = (\<lambda>_. zeros 32), blake2b_32 = (\<lambda>_. zeros 32)\<rparr>"

definition demo_sb_block :: bytes where
  "demo_sb_block = zeros 64 @ BTRFS_MAGIC @ zeros 4024"

lemma field_zeros: "pos + n \<le> k \<Longrightarrow> field (zeros k) pos n = 0"
proof -
  have "le_nat (zeros m) = 0" for m by (induction m) (simp_all add: zeros_def)
  then show "pos + n \<le> k \<Longrightarrow> field (zeros k) pos n = 0" by (simp add: field_def zeros_def)
qed

lemma field_after: "length xs \<le> pos \<Longrightarrow> field (xs @ ys) pos n = field ys (pos - length xs) n"
  by (simp add: field_def)

lemma demo_sb_good: "good_copy demo_hashes (plain_disk (zeros 0x10000 @ demo_sb_block)) 0x10000 demo_sb_block"
proof -
  have len: "length demo_sb_block = 4096" by (simp add: demo_sb_block_def length_magic zeros_def)
  have "field demo_sb_block 196 2 = 0" "field demo_sb_block 160 4 = 0"
    by (simp_all add: demo_sb_block_def field_after field_zeros length_magic)
  moreover have "le_bytes k 0 = zeros k" for k by (induction k) (simp_all add: zeros_def)
  then have "take 4 demo_sb_block = le_bytes 4 0" by (simp add: demo_sb_block_def zeros_def)
  moreover have "has_magic_at demo_sb_block OFF_MAGIC"
    by (simp add: has_magic_at_def demo_sb_block_def OFF_MAGIC_def length_magic)
  ultimately show ?thesis
    using len by (simp add: good_copy_def read_at_def read_exact_at_def plain_disk_def verify_header_def
        csum_params_def hash_bytes_def CRC32C_def demo_hashes_def)
qed

theorem superblock_read_first_good_witness:
  "superblock_read demo_hashes (plain_disk (zeros 0x10000 @ demo_sb_block)) 0 =
     Ret (Inr (superblock_fields demo_sb_block))"
proof -
  have "SUPERBLOCK_BACKUP_OFFSETS = [] @ 0x10000 # [0x4000000, 0x4000000000, 0x10000000000]"
    by (simp add: SUPERBLOCK_BACKUP_OFFSETS_def)
  moreover have "good_copy demo_hashes (plain_disk (zeros 0x10000 @ demo_sb_block)) (add64 0 0x10000) demo_sb_block"
    using demo_sb_good by (simp add: add64_def)
  moreover have "\<forall>p \<in> set []. \<nexists>b. good_copy demo_hashes (plain_disk (zeros 0x10000 @ demo_sb_block)) (add64 0 p) b"
    by simp
  ultimately show ?thesis
    by - (rule superblock_read_first_good [THEN conjunct2, THEN iffD2], intro exI conjI; (assumption | rule refl))
qed

end
