(* ===== verification/Btrfs_Chunk.thy ===== *)
theory Btrfs_Chunk
  imports Btrfs_Format
begin

text \<open>
  Chunk items and the logical-to-physical map of \<open>src/scrub-rs/src/btrfs/chunk.rs\<close>. The map is a
  list sorted by logical start, searched with the standard library's binary search.
\<close>

subsection \<open>Chunk items\<close>

definition BG_DATA :: nat where "BG_DATA = 1"
definition BG_RAID0 :: nat where "BG_RAID0 = 8"
definition BG_RAID1 :: nat where "BG_RAID1 = 16"
definition BG_DUP :: nat where "BG_DUP = 32"
definition BG_RAID10 :: nat where "BG_RAID10 = 64"
definition BG_RAID5 :: nat where "BG_RAID5 = 128"
definition BG_RAID6 :: nat where "BG_RAID6 = 256"
definition BG_RAID1C3 :: nat where "BG_RAID1C3 = 512"
definition BG_RAID1C4 :: nat where "BG_RAID1C4 = 1024"

definition PROFILE_MASK :: nat where
  "PROFILE_MASK = BG_RAID0 OR BG_RAID1 OR BG_DUP OR BG_RAID10 OR BG_RAID5 OR BG_RAID6 OR BG_RAID1C3 OR BG_RAID1C4"

record stripe =
  s_devid :: nat
  s_offset :: nat

record chunk_item =
  ch_length :: nat
  ch_stripe_len :: nat
  ch_ty :: nat
  ch_num_stripes :: nat
  ch_stripes :: "stripe list"

definition stripe_parse :: "bytes \<Rightarrow> nat \<Rightarrow> stripe run" where
  "stripe_parse buf base =
     run_bind (le_u64 buf base) (\<lambda>d. run_bind (le_u64 buf (base + 8)) (\<lambda>off. Ret \<lparr>s_devid = d, s_offset = off\<rparr>))"

definition chunk_parse :: "bytes \<Rightarrow> chunk_item run" where
  "chunk_parse buf =
     run_bind (le_u64 buf 0) (\<lambda>len.
     run_bind (le_u64 buf 8) (\<lambda>_.
     run_bind (le_u64 buf 16) (\<lambda>slen.
     run_bind (le_u64 buf 24) (\<lambda>ty.
     run_bind (le_u16 buf 44) (\<lambda>n.
     run_bind (le_u16 buf 46) (\<lambda>_.
     run_bind (parse_array stripe_parse 32 buf 48 n) (\<lambda>ss.
     Ret \<lparr>ch_length = len, ch_stripe_len = slen, ch_ty = ty, ch_num_stripes = n, ch_stripes = ss\<rparr>)))))))"

record chunk_record =
  cr_logical :: nat
  cr_chunk :: chunk_item

definition profile_name :: "nat \<Rightarrow> string" where
  "profile_name ty =
     (let p = ty AND PROFILE_MASK in
      if p = 0 then ''SINGLE'' else if p = BG_RAID0 then ''RAID0'' else if p = BG_RAID1 then ''RAID1''
      else if p = BG_DUP then ''DUP'' else if p = BG_RAID10 then ''RAID10'' else if p = BG_RAID5 then ''RAID5''
      else if p = BG_RAID6 then ''RAID6'' else if p = BG_RAID1C3 then ''RAID1C3''
      else if p = BG_RAID1C4 then ''RAID1C4'' else ''UNKNOWN'')"

text \<open>The loop over the system chunk array from byte \<open>pos\<close> on.\<close>

function parse_sys_loop :: "bytes \<Rightarrow> nat \<Rightarrow> chunk_record list run" where
  "parse_sys_loop buf pos =
     (if pos + 17 + 48 \<le> length buf then
        run_bind (key_parse buf pos) (\<lambda>k.
          if key_ty k \<noteq> CHUNK_ITEM then Ret []
          else run_bind (le_u16 buf (pos + 17 + 44)) (\<lambda>n.
            let chunk_len = 48 + n * 32 in
            if pos + 17 + chunk_len > length buf then Ret []
            else run_bind (slice buf (pos + 17) chunk_len) (\<lambda>cb.
              run_bind (chunk_parse cb) (\<lambda>ch.
              run_bind (parse_sys_loop buf (pos + 17 + chunk_len)) (\<lambda>rest.
              Ret (\<lparr>cr_logical = key_offset k, cr_chunk = ch\<rparr> # rest))))))
      else Ret [])"
  by pat_completeness auto

termination
  by (relation "measure (\<lambda>(buf, pos). length buf - pos)") auto

declare parse_sys_loop.simps [simp del]

definition parse_sys_chunks :: "bytes \<Rightarrow> chunk_record list run" where
  "parse_sys_chunks buf = parse_sys_loop buf 0"

subsection \<open>Binary search\<close>

datatype ordering = Less | Equal | Greater

text \<open>\<open>slice::binary_search_by\<close>: halve the window \<open>[base, base + size)\<close> until one element is left.\<close>

function bs_loop :: "('a \<Rightarrow> ordering) \<Rightarrow> 'a list \<Rightarrow> nat \<Rightarrow> nat \<Rightarrow> nat" where
  "bs_loop cmp xs base sz =
     (if 1 < sz then
        (let half = sz div 2; mid = base + half
         in bs_loop cmp xs (if cmp (xs ! mid) = Greater then base else mid) (sz - half))
      else base)"
  by pat_completeness auto

termination
  by (relation "measure (\<lambda>(_, _, _, sz). sz)") auto

declare bs_loop.simps [simp del]

definition binary_search_by :: "('a \<Rightarrow> ordering) \<Rightarrow> 'a list \<Rightarrow> nat option" where
  "binary_search_by cmp xs =
     (if xs = [] then None
      else let i = bs_loop cmp xs 0 (length xs)
           in if cmp (xs ! i) = Equal then Some i else None)"

subsection \<open>The chunk map\<close>

record map_entry =
  m_begin :: nat
  m_end :: nat
  m_ty :: nat
  m_stripes :: "stripe list"

type_synonym chunk_map = "map_entry list"

record chunk_info =
  ci_length :: nat
  ci_flags :: nat

definition chunk_insert :: "chunk_map \<Rightarrow> chunk_record \<Rightarrow> chunk_map" where
  "chunk_insert m rec =
     sort_key m_begin (m @ [\<lparr>m_begin = cr_logical rec, m_end = add64 (cr_logical rec) (ch_length (cr_chunk rec)),
       m_ty = ch_ty (cr_chunk rec), m_stripes = ch_stripes (cr_chunk rec)\<rparr>])"

definition range_cmp :: "nat \<Rightarrow> map_entry \<Rightarrow> ordering" where
  "range_cmp logical e =
     (if logical < m_begin e then Greater else if m_end e \<le> logical then Less else Equal)"

definition chunk_find :: "chunk_map \<Rightarrow> nat \<Rightarrow> map_entry option" where
  "chunk_find m logical = map_option (\<lambda>i. m ! i) (binary_search_by (range_cmp logical) m)"

definition chunk_info_at :: "chunk_map \<Rightarrow> nat \<Rightarrow> chunk_info option" where
  "chunk_info_at m chunk_offset =
     map_option (\<lambda>e. \<lparr>ci_length = m_end e - m_begin e, ci_flags = m_ty e\<rparr>) (chunk_find m chunk_offset)"

definition chunk_lookup :: "chunk_map \<Rightarrow> nat \<Rightarrow> (nat \<times> nat) option run" where
  "chunk_lookup m logical =
     (case chunk_find m logical of
        None \<Rightarrow> Ret None
      | Some e \<Rightarrow> (case m_stripes e of
                     [] \<Rightarrow> Panic
                   | s # _ \<Rightarrow> Ret (Some (s_devid s, add64 (s_offset s) (logical - m_begin e)))))"

definition lookup_stripes :: "chunk_map \<Rightarrow> nat \<Rightarrow> (nat \<times> nat) list option" where
  "lookup_stripes m logical =
     map_option (\<lambda>e. map (\<lambda>s. (s_devid s, add64 (s_offset s) (logical - m_begin e))) (m_stripes e))
       (chunk_find m logical)"

text \<open>The error carries the logical start and the profile the message of the source names.\<close>

fun validate_data_profiles :: "chunk_map \<Rightarrow> (nat \<times> string) + unit" where
  "validate_data_profiles [] = Inr ()"
| "validate_data_profiles (e # es) =
     (if m_ty e AND BG_DATA = 0 then validate_data_profiles es
      else let profile = m_ty e AND PROFILE_MASK
           in if profile \<noteq> 0 \<and> profile \<noteq> BG_DUP then Inl (m_begin e, profile_name profile)
              else validate_data_profiles es)"

subsection \<open>Binary search finds\<close>

text \<open>Comparison results along the list: first Less, then Equal, then Greater.\<close>

definition cmp_sorted :: "('a \<Rightarrow> ordering) \<Rightarrow> 'a list \<Rightarrow> bool" where
  "cmp_sorted cmp xs \<longleftrightarrow>
     (\<forall>i j. i < j \<longrightarrow> j < length xs \<longrightarrow> (cmp (xs ! i) = Greater \<longrightarrow> cmp (xs ! j) = Greater) \<and>
        (cmp (xs ! j) = Less \<longrightarrow> cmp (xs ! i) = Less))"

lemma bs_loop_range: "0 < sz \<Longrightarrow> base \<le> bs_loop cmp xs base sz \<and> bs_loop cmp xs base sz < base + sz"
proof (induction cmp xs base sz rule: bs_loop.induct)
  case (1 cmp xs base sz)
  show ?case
  proof (cases "1 < sz")
    case True
    have h: "sz div 2 + (sz - sz div 2) = sz" by simp
    have "0 < sz - sz div 2" using True by simp
    then show ?thesis
      using 1(1) [OF True refl refl] True h
      by (subst (1 2) bs_loop.simps) (auto simp: Let_def split: if_splits)
  qed (use 1(2) in \<open>simp add: bs_loop.simps\<close>)
qed

lemma bs_loop_finds:
  assumes "cmp_sorted cmp xs"
  shows "base + sz \<le> length xs \<Longrightarrow> base \<le> k \<Longrightarrow> k < base + sz \<Longrightarrow> cmp (xs ! k) = Equal \<Longrightarrow>
    cmp (xs ! bs_loop cmp xs base sz) = Equal"
proof (induction sz arbitrary: base k rule: less_induct)
  case (less sz)
  show ?case
  proof (cases "1 < sz")
    case False
    with less.prems have "k = base" by simp
    with less.prems False show ?thesis by (simp add: bs_loop.simps)
  next
    case True
    define half where "half = sz div 2"
    define mid where "mid = base + half"
    have half: "0 < half" "half \<le> sz - half" "half < sz" using True by (auto simp: half_def)
    have bs: "bs_loop cmp xs base sz = bs_loop cmp xs (if cmp (xs ! mid) = Greater then base else mid) (sz - half)"
      using True by (subst bs_loop.simps) (simp add: Let_def half_def mid_def)
    have mid: "mid < length xs" using less.prems half by (simp add: mid_def)
    show ?thesis
    proof (cases "cmp (xs ! mid) = Greater")
      case True
      have "k < mid"
      proof (rule ccontr)
        assume "\<not> k < mid"
        moreover have "k \<noteq> mid" using True less.prems by auto
        ultimately have "cmp (xs ! k) = Greater"
          using assms True less.prems unfolding cmp_sorted_def by (metis linorder_neqE_nat order_less_le_trans)
        then show False using less.prems by simp
      qed
      then show ?thesis
        using less.IH [of "sz - half" base k] less.prems half True bs by (simp add: mid_def)
    next
      case False
      have "\<exists>k'. mid \<le> k' \<and> k' < base + sz \<and> cmp (xs ! k') = Equal"
      proof (cases "cmp (xs ! mid) = Equal")
        case True
        then show ?thesis using half by (intro exI [of _ mid]) (simp add: mid_def)
      next
        case neq: False
        with False have "cmp (xs ! mid) = Less" by (cases "cmp (xs ! mid)") auto
        then have "mid \<le> k"
          using assms less.prems mid unfolding cmp_sorted_def by (metis linorder_not_le ordering.distinct(1))
        with less.prems show ?thesis by blast
      qed
      then obtain k' where "mid \<le> k'" "k' < base + sz" "cmp (xs ! k') = Equal" by blast
      then show ?thesis
        using less.IH [of "sz - half" mid k'] less.prems half False bs by (simp add: mid_def)
    qed
  qed
qed

lemma binary_search_finds:
  assumes "cmp_sorted cmp xs"
  shows "binary_search_by cmp xs = None \<longleftrightarrow> (\<forall>x \<in> set xs. cmp x \<noteq> Equal)"
    and "binary_search_by cmp xs = Some i \<Longrightarrow> i < length xs \<and> cmp (xs ! i) = Equal"
proof -
  show "binary_search_by cmp xs = None \<longleftrightarrow> (\<forall>x \<in> set xs. cmp x \<noteq> Equal)"
  proof (cases "xs = []")
    case False
    let ?i = "bs_loop cmp xs 0 (length xs)"
    have "?i < length xs" using bs_loop_range [of "length xs" 0 cmp xs] False by simp
    then have "cmp (xs ! ?i) = Equal \<longleftrightarrow> (\<exists>x \<in> set xs. cmp x = Equal)"
      using bs_loop_finds [OF assms, of 0 "length xs"] by (metis add_0 in_set_conv_nth le_refl zero_le)
    then show ?thesis using False by (auto simp: binary_search_by_def Let_def)
  qed (simp add: binary_search_by_def)
  show "binary_search_by cmp xs = Some i \<Longrightarrow> i < length xs \<and> cmp (xs ! i) = Equal"
    using bs_loop_range [of "length xs" 0 cmp xs]
    by (auto simp: binary_search_by_def Let_def split: if_splits)
qed

subsection \<open>Maps of compatible chunks\<close>

definition covers :: "map_entry \<Rightarrow> nat \<Rightarrow> bool" where
  "covers e l \<longleftrightarrow> m_begin e \<le> l \<and> l < m_end e"

text \<open>Two entries are the same chunk or span disjoint ranges.\<close>

definition compat :: "map_entry \<Rightarrow> map_entry \<Rightarrow> bool" where
  "compat e f \<longleftrightarrow> e = f \<or> m_end e \<le> m_begin f \<or> m_end f \<le> m_begin e"

definition chunks_ok :: "chunk_map \<Rightarrow> bool" where
  "chunks_ok m \<longleftrightarrow> sorted (map m_begin m) \<and> (\<forall>e \<in> set m. m_begin e < m_end e) \<and>
     (\<forall>e \<in> set m. \<forall>f \<in> set m. compat e f)"

definition entry_of :: "chunk_record \<Rightarrow> map_entry" where
  "entry_of r = \<lparr>m_begin = cr_logical r, m_end = add64 (cr_logical r) (ch_length (cr_chunk r)),
     m_ty = ch_ty (cr_chunk r), m_stripes = ch_stripes (cr_chunk r)\<rparr>"

definition fits :: "chunk_map \<Rightarrow> chunk_record \<Rightarrow> bool" where
  "fits m r \<longleftrightarrow> m_begin (entry_of r) < m_end (entry_of r) \<and> (\<forall>e \<in> set m. compat e (entry_of r))"

lemma range_cmp_Equal [simp]: "range_cmp l e = Equal \<longleftrightarrow> covers e l"
  by (auto simp: range_cmp_def covers_def)

lemma chunks_ok_cmp_sorted:
  assumes "chunks_ok m"
  shows "cmp_sorted (range_cmp l) m"
  unfolding cmp_sorted_def
proof (intro allI impI conjI)
  fix i j assume ij: "i < j" "j < length m"
  have le: "m_begin (m ! i) \<le> m_begin (m ! j)"
    using assms ij by (simp add: chunks_ok_def sorted_iff_nth_mono_less)
  have c: "compat (m ! i) (m ! j)" and b: "m_begin (m ! i) < m_end (m ! i)" "m_begin (m ! j) < m_end (m ! j)"
    using assms ij by (auto simp: chunks_ok_def)
  show "range_cmp l (m ! i) = Greater \<Longrightarrow> range_cmp l (m ! j) = Greater"
    using le by (auto simp: range_cmp_def split: if_splits)
  show "range_cmp l (m ! j) = Less \<Longrightarrow> range_cmp l (m ! i) = Less"
    using le c b by (auto simp: range_cmp_def compat_def split: if_splits)
qed

lemma compat_cover_eq: "compat e f \<Longrightarrow> covers e l \<Longrightarrow> covers f l \<Longrightarrow> e = f"
  by (auto simp: compat_def covers_def)

lemma chunk_find_Some:
  assumes "chunks_ok m"
  shows "chunk_find m l = Some e \<longleftrightarrow> e \<in> set m \<and> covers e l"
proof -
  note fnd = binary_search_finds [OF chunks_ok_cmp_sorted [OF assms, of l]]
  have uniq: "e \<in> set m \<Longrightarrow> f \<in> set m \<Longrightarrow> covers e l \<Longrightarrow> covers f l \<Longrightarrow> e = f" for e f
    using assms compat_cover_eq unfolding chunks_ok_def by blast
  show ?thesis
  proof (cases "binary_search_by (range_cmp l) m")
    case None
    then show ?thesis using fnd(1) by (auto simp: chunk_find_def)
  next
    case (Some i)
    then have "i < length m" "covers (m ! i) l" using fnd(2) by auto
    then show ?thesis using Some uniq [of "m ! i" e] by (auto simp: chunk_find_def)
  qed
qed

lemma chunk_find_None:
  assumes "chunks_ok m"
  shows "chunk_find m l = None \<longleftrightarrow> (\<forall>e \<in> set m. \<not> covers e l)"
  using chunk_find_Some [OF assms, of l] by (metis not_None_eq)

lemma compat_sym: "compat e f = compat f e"
  by (auto simp: compat_def)

lemma chunk_insert_set [simp]: "set (chunk_insert m r) = insert (entry_of r) (set m)"
  by (auto simp: chunk_insert_def entry_of_def)

lemma chunk_insert_ok: "chunks_ok m \<Longrightarrow> fits m r \<Longrightarrow> chunks_ok (chunk_insert m r)"
  by (auto simp: chunks_ok_def fits_def chunk_insert_def entry_of_def compat_sym compat_def [of e e for e])

lemma chunk_find_insert:
  assumes "chunks_ok m" "fits m r"
  shows "chunk_find (chunk_insert m r) l = (if covers (entry_of r) l then Some (entry_of r) else chunk_find m l)"
proof (cases "covers (entry_of r) l")
  case True
  then show ?thesis using chunk_find_Some [OF chunk_insert_ok [OF assms]] by simp
next
  case False
  then have "chunk_find (chunk_insert m r) l = Some e \<longleftrightarrow> chunk_find m l = Some e" for e
    using chunk_find_Some [OF chunk_insert_ok [OF assms]] chunk_find_Some [OF assms(1)] by auto
  with False show ?thesis by (metis not_None_eq)
qed

subsection \<open>The interface of the address map\<close>

text \<open>
  What the callers of the map rely on: inserting a chunk that fits keeps the map well formed, and an
  address resolves to the inserted chunk when it covers it and as before otherwise.
\<close>

locale address_map =
  fixes ok :: "'m \<Rightarrow> bool"
    and fit :: "'m \<Rightarrow> 'r \<Rightarrow> bool"
    and ins :: "'m \<Rightarrow> 'r \<Rightarrow> 'm"
    and find :: "'m \<Rightarrow> nat \<Rightarrow> 'e option"
    and ent :: "'r \<Rightarrow> 'e"
    and cov :: "'e \<Rightarrow> nat \<Rightarrow> bool"
    and cmpt :: "'r \<Rightarrow> 'r \<Rightarrow> bool"
  assumes ins_ok: "ok m \<Longrightarrow> fit m r \<Longrightarrow> ok (ins m r)"
    and ins_fit: "fit m r \<Longrightarrow> fit m r' \<Longrightarrow> cmpt r r' \<Longrightarrow> fit (ins m r) r'"
    and find_ins: "ok m \<Longrightarrow> fit m r \<Longrightarrow> find (ins m r) l = (if cov (ent r) l then Some (ent r) else find m l)"
    and cmpt_cov: "cmpt r r' \<Longrightarrow> cov (ent r) l \<Longrightarrow> cov (ent r') l \<Longrightarrow> ent r = ent r'"
begin

lemma build_ok:
  "ok m \<Longrightarrow> \<forall>r \<in> set rs. fit m r \<Longrightarrow> \<forall>r \<in> set rs. \<forall>r' \<in> set rs. cmpt r r' \<Longrightarrow>
    ok (fold (\<lambda>r m. ins m r) rs m)"
proof (induction rs arbitrary: m)
  case (Cons r rs)
  have "ok (fold (\<lambda>r m. ins m r) rs (ins m r))"
    using Cons.prems by (intro Cons.IH) (auto intro: ins_ok ins_fit)
  then show ?case by simp
qed simp

lemma build_find_out:
  "ok m \<Longrightarrow> \<forall>r \<in> set rs. fit m r \<Longrightarrow> \<forall>r \<in> set rs. \<forall>r' \<in> set rs. cmpt r r' \<Longrightarrow>
    \<forall>r \<in> set rs. \<not> cov (ent r) l \<Longrightarrow> find (fold (\<lambda>r m. ins m r) rs m) l = find m l"
proof (induction rs arbitrary: m)
  case (Cons r rs)
  have "find (fold (\<lambda>r m. ins m r) rs (ins m r)) l = find (ins m r) l"
    using Cons.prems by (intro Cons.IH) (auto intro: ins_ok ins_fit)
  then show ?case using Cons.prems by (simp add: find_ins)
qed simp

lemma build_find_in:
  "ok m \<Longrightarrow> \<forall>r \<in> set rs. fit m r \<Longrightarrow> \<forall>r \<in> set rs. \<forall>r' \<in> set rs. cmpt r r' \<Longrightarrow>
    r \<in> set rs \<Longrightarrow> cov (ent r) l \<Longrightarrow> find (fold (\<lambda>r m. ins m r) rs m) l = Some (ent r)"
proof (induction rs arbitrary: m r)
  case (Cons a rs)
  have a: "ok (ins m a)" "\<forall>x \<in> set rs. fit (ins m a) x" "\<forall>x \<in> set rs. \<forall>y \<in> set rs. cmpt x y"
    using Cons.prems by (auto intro: ins_ok ins_fit)
  show ?case
  proof (cases "\<exists>x \<in> set rs. cov (ent x) l")
    case True
    then obtain x where x: "x \<in> set rs" "cov (ent x) l" by blast
    then have "ent r = ent x" using Cons.prems cmpt_cov [of r x l] by auto
    then show ?thesis using Cons.IH [OF a x] by simp
  next
    case False
    with Cons.prems have "r = a" by auto
    then show ?thesis using build_find_out [OF a] False Cons.prems by (simp add: find_ins)
  qed
qed simp

end

definition rec_compat :: "chunk_record \<Rightarrow> chunk_record \<Rightarrow> bool" where
  "rec_compat r r' \<longleftrightarrow> compat (entry_of r) (entry_of r')"

interpretation cmap: address_map chunks_ok fits chunk_insert chunk_find entry_of covers rec_compat
proof unfold_locales
  show "chunks_ok m \<Longrightarrow> fits m r \<Longrightarrow> chunks_ok (chunk_insert m r)" for m r by (rule chunk_insert_ok)
  show "fits m r \<Longrightarrow> fits m r' \<Longrightarrow> rec_compat r r' \<Longrightarrow> fits (chunk_insert m r) r'" for m r r'
    by (auto simp: fits_def rec_compat_def)
  show "chunks_ok m \<Longrightarrow> fits m r \<Longrightarrow>
      chunk_find (chunk_insert m r) l = (if covers (entry_of r) l then Some (entry_of r) else chunk_find m l)" for m r l
    by (rule chunk_find_insert)
  show "rec_compat r r' \<Longrightarrow> covers (entry_of r) l \<Longrightarrow> covers (entry_of r') l \<Longrightarrow> entry_of r = entry_of r'" for r r' l
    unfolding rec_compat_def by (rule compat_cover_eq)
qed

text \<open>The records of a healthy chunk tree: non-empty, not wrapping, pairwise the same or disjoint.\<close>

definition recs_ok :: "chunk_record list \<Rightarrow> bool" where
  "recs_ok rs \<longleftrightarrow> (\<forall>r \<in> set rs. 0 < ch_length (cr_chunk r) \<and> cr_logical r + ch_length (cr_chunk r) < 2 ^ 64 \<and>
     ch_stripes (cr_chunk r) \<noteq> []) \<and>
     (\<forall>r \<in> set rs. \<forall>r' \<in> set rs. rec_compat r r')"

lemma entry_of_range:
  "recs_ok rs \<Longrightarrow> r \<in> set rs \<Longrightarrow> m_begin (entry_of r) = cr_logical r \<and>
     m_end (entry_of r) = cr_logical r + ch_length (cr_chunk r) \<and> m_begin (entry_of r) < m_end (entry_of r)"
  by (auto simp: recs_ok_def entry_of_def add64_def)

lemma recs_fit_empty: "recs_ok rs \<Longrightarrow> \<forall>r \<in> set rs. fits [] r"
  by (auto simp: fits_def dest: entry_of_range)

lemma recs_pairwise: "recs_ok rs \<Longrightarrow> \<forall>r \<in> set rs. \<forall>r' \<in> set rs. rec_compat r r'"
  by (simp add: recs_ok_def)

lemma chunks_ok_Nil [simp]: "chunks_ok []"
  by (simp add: chunks_ok_def)

lemmas build_facts = recs_fit_empty recs_pairwise

text \<open>C22: Address translation is right whatever order the chunk records were inserted in, system chunks
  inserted twice included: the map built from the records of a chunk tree resolves an address inside
  a chunk to every stripe of that chunk at the same displacement, its first stripe being what
  \<open>lookup\<close> returns, and resolves an address outside all chunks to nothing.\<close>

theorem chunk_map_translates:
  assumes "recs_ok rs"
  defines "m \<equiv> fold (\<lambda>r m. chunk_insert m r) rs []"
  shows "(\<forall>r \<in> set rs. \<forall>l \<in> {cr_logical r ..< cr_logical r + ch_length (cr_chunk r)}.
      let phys = (\<lambda>s. (s_devid s, add64 (s_offset s) (l - cr_logical r))) in
       lookup_stripes m l = Some (map phys (ch_stripes (cr_chunk r))) \<and>
       chunk_lookup m l = Ret (Some (phys (hd (ch_stripes (cr_chunk r))))) \<and>
       chunk_info_at m l = Some \<lparr>ci_length = ch_length (cr_chunk r), ci_flags = ch_ty (cr_chunk r)\<rparr>) \<and>
    (\<forall>l. (\<forall>r \<in> set rs. l \<notin> {cr_logical r ..< cr_logical r + ch_length (cr_chunk r)}) \<longrightarrow>
      lookup_stripes m l = None \<and> chunk_lookup m l = Ret None \<and> chunk_info_at m l = None)"
proof (intro conjI ballI allI impI)
  note ok = chunks_ok_Nil build_facts [OF assms(1)]
  fix r l assume r: "r \<in> set rs" and l: "l \<in> {cr_logical r ..< cr_logical r + ch_length (cr_chunk r)}"
  note rng = entry_of_range [OF assms(1) r]
  have cov: "covers (entry_of r) l" using rng l by (simp add: covers_def)
  have fnd: "chunk_find m l = Some (entry_of r)"
    unfolding m_def using cmap.build_find_in [OF ok(1) _ _ r cov] ok by blast
  have st: "m_stripes (entry_of r) = ch_stripes (cr_chunk r)" "m_ty (entry_of r) = ch_ty (cr_chunk r)"
    by (simp_all add: entry_of_def)
  obtain s ss where ss: "ch_stripes (cr_chunk r) = s # ss"
    using assms(1) r by (cases "ch_stripes (cr_chunk r)") (auto simp: recs_ok_def)
  show "let phys = (\<lambda>s. (s_devid s, add64 (s_offset s) (l - cr_logical r))) in
       lookup_stripes m l = Some (map phys (ch_stripes (cr_chunk r))) \<and>
       chunk_lookup m l = Ret (Some (phys (hd (ch_stripes (cr_chunk r))))) \<and>
       chunk_info_at m l = Some \<lparr>ci_length = ch_length (cr_chunk r), ci_flags = ch_ty (cr_chunk r)\<rparr>"
    using rng by (simp add: lookup_stripes_def chunk_lookup_def chunk_info_at_def fnd st ss Let_def)
next
  note ok = chunks_ok_Nil build_facts [OF assms(1)]
  fix l assume out: "\<forall>r \<in> set rs. l \<notin> {cr_logical r ..< cr_logical r + ch_length (cr_chunk r)}"
  have "\<forall>r \<in> set rs. \<not> covers (entry_of r) l"
    using out entry_of_range [OF assms(1)] by (fastforce simp: covers_def)
  then have "chunk_find m l = chunk_find [] l"
    unfolding m_def using cmap.build_find_out [OF ok] by blast
  then have "chunk_find m l = None" by (simp add: chunk_find_def binary_search_by_def)
  then show "lookup_stripes m l = None" "chunk_lookup m l = Ret None" "chunk_info_at m l = None"
    by (simp_all add: lookup_stripes_def chunk_lookup_def chunk_info_at_def)
qed

text \<open>A system chunk with two copies, found in the superblock and again in the chunk tree, and a data chunk below it.\<close>

definition demo_chunks :: "chunk_record list" where
  "demo_chunks =
     (let sys = \<lparr>cr_logical = 4096, cr_chunk = \<lparr>ch_length = 8192, ch_stripe_len = 65536, ch_ty = 34, ch_num_stripes = 2,
                  ch_stripes = [\<lparr>s_devid = 1, s_offset = 1000\<rparr>, \<lparr>s_devid = 1, s_offset = 50000\<rparr>]\<rparr>\<rparr>;
          dat = \<lparr>cr_logical = 0, cr_chunk = \<lparr>ch_length = 4096, ch_stripe_len = 65536, ch_ty = 1, ch_num_stripes = 1,
                  ch_stripes = [\<lparr>s_devid = 1, s_offset = 90000\<rparr>]\<rparr>\<rparr>
      in [sys, sys, dat])"

theorem chunk_map_translates_witness:
  "recs_ok demo_chunks \<and>
   lookup_stripes (fold (\<lambda>r m. chunk_insert m r) demo_chunks []) 5000 = Some [(1, 1904), (1, 50904)] \<and>
   lookup_stripes (fold (\<lambda>r m. chunk_insert m r) demo_chunks []) 20000 = None"
proof -
  have ok: "recs_ok demo_chunks"
    by (simp add: recs_ok_def demo_chunks_def Let_def rec_compat_def compat_def entry_of_def add64_def)
  have mem: "demo_chunks ! 0 \<in> set demo_chunks" by (simp add: demo_chunks_def Let_def)
  note t = chunk_map_translates [OF ok]
  have "lookup_stripes (fold (\<lambda>r m. chunk_insert m r) demo_chunks []) 5000 = Some [(1, 1904), (1, 50904)]"
    using bspec [OF bspec [OF conjunct1 [OF t] mem], of 5000]
    by (simp add: demo_chunks_def Let_def add64_def)
  moreover have "lookup_stripes (fold (\<lambda>r m. chunk_insert m r) demo_chunks []) 20000 = None"
    using spec [OF conjunct2 [OF t], of 20000] by (simp add: demo_chunks_def Let_def)
  ultimately show ?thesis using ok by simp
qed

end
