(* ===== verification/Btrfs_Reader.thy ===== *)
theory Btrfs_Reader
  imports Btrfs_Chunk
begin

text \<open>
  Node reads of \<open>src/scrub-rs/src/btrfs/reader.rs\<close>: logical and physical reads, mirror copies and
  header checks. Read-ahead hints (\<open>posix_fadvise\<close>) have no result and are left out. A reader
  carries the device it was opened on; the hash functions, the fault-injection range and whether a
  descriptor can be duplicated are an environment every operation takes.
\<close>

record env =
  env_hashes :: hashes
  env_fault :: "(nat \<times> nat) option"
  env_dup_fault :: "io_kind option"

definition GEN_DONT_CHECK :: nat where "GEN_DONT_CHECK = 2 ^ 64 - 1"

record read_node_result =
  rn_node :: "node option"
  all_mirrors_failed :: bool
  generation_mismatch :: bool
  mirror_mismatch :: bool

record fs_reader =
  fp :: disk
  node_size :: nat
  base_offset :: nat
  rd_devid :: "nat option"
  rd_strategy :: "csum_strategy option"
  rd_fsid :: "bytes option"

definition new_reader :: "disk \<Rightarrow> nat \<Rightarrow> nat \<Rightarrow> csum_strategy option \<Rightarrow> fs_reader" where
  "new_reader f nsize base st =
     \<lparr>fp = f, node_size = nsize, base_offset = base, rd_devid = None, rd_strategy = st, rd_fsid = None\<rparr>"

definition with_devid :: "nat \<Rightarrow> fs_reader \<Rightarrow> fs_reader" where
  "with_devid d r = r\<lparr>rd_devid := Some d\<rparr>"

definition with_fsid :: "bytes \<Rightarrow> fs_reader \<Rightarrow> fs_reader" where
  "with_fsid f r = r\<lparr>rd_fsid := Some f\<rparr>"

text \<open>\<open>File::try_clone\<close>: a second handle on the same device.\<close>

definition reopen :: "env \<Rightarrow> fs_reader \<Rightarrow> io_kind + disk" where
  "reopen E r = (case env_dup_fault E of Some e \<Rightarrow> Inl e | None \<Rightarrow> Inr (fp r))"

definition read_logical :: "env \<Rightarrow> fs_reader \<Rightarrow> chunk_map \<Rightarrow> nat \<Rightarrow> nat \<Rightarrow> (io_kind + bytes) run" where
  "read_logical E r cm logical n =
     run_bind (chunk_lookup cm logical) (\<lambda>m.
       case m of
         None \<Rightarrow> Ret (Inl NotFound)
       | Some (_, phys) \<Rightarrow> Ret (pread_at (env_fault E) (fp r) (add64 (base_offset r) phys) n))"

definition read_physical :: "env \<Rightarrow> fs_reader \<Rightarrow> nat \<Rightarrow> nat \<Rightarrow> nat \<Rightarrow> io_kind + bytes" where
  "read_physical E r devid phys n =
     (case rd_devid r of
        Some expected \<Rightarrow>
          if devid \<noteq> expected then Inl InvalidInput
          else pread_at (env_fault E) (fp r) (add64 (base_offset r) phys) n
      | None \<Rightarrow> pread_at (env_fault E) (fp r) (add64 (base_offset r) phys) n)"

definition validate_header ::
  "fs_reader \<Rightarrow> header \<Rightarrow> nat \<Rightarrow> nat \<Rightarrow> nat option \<Rightarrow> nat option \<Rightarrow> bool" where
  "validate_header r hdr logical expected_generation expected_level expected_owner \<longleftrightarrow>
     h_bytenr hdr = logical \<and>
     (\<forall>f \<in> set_option (rd_fsid r). h_fsid hdr = f) \<and>
     (\<forall>l \<in> set_option expected_level. h_level hdr = l) \<and>
     (\<forall>w \<in> set_option expected_owner. h_owner hdr = w) \<and>
     (expected_generation = GEN_DONT_CHECK \<or> h_generation hdr = expected_generation)"

text \<open>The loop over the mirror copies: the first good, stale and corrupt buffer, and how many were valid.\<close>

record copies =
  cp_good :: "bytes option"
  cp_stale :: "bytes option"
  cp_corrupt :: "bytes option"
  cp_valid :: nat

definition first_of :: "'a option \<Rightarrow> 'a \<Rightarrow> 'a option" where
  "first_of old new = (case old of None \<Rightarrow> Some new | Some x \<Rightarrow> Some x)"

text \<open>\<open>good.or(stale).or(corrupt)\<close>.\<close>

fun first_some :: "'a option list \<Rightarrow> 'a option" where
  "first_some [] = None"
| "first_some (None # xs) = first_some xs"
| "first_some (Some x # xs) = Some x"

text \<open>The expectations of a node read: generation, level and owner.\<close>

type_synonym expect = "nat \<times> nat option \<times> nat option"

fun scan_copies ::
  "env \<Rightarrow> fs_reader \<Rightarrow> csum_strategy \<Rightarrow> nat \<Rightarrow> expect \<Rightarrow> (nat \<times> nat) list \<Rightarrow> copies \<Rightarrow> copies run" where
  "scan_copies E r st logical ex [] acc = Ret acc"
| "scan_copies E r st logical ex ((devid, phys) # rest) acc =
     (case pread_at (env_fault E) (fp r) (add64 (base_offset r) phys) (node_size r) of
        Inl e \<Rightarrow> scan_copies E r st logical ex rest acc
      | Inr buf \<Rightarrow>
          run_bind (verify_node_header (env_hashes E) st buf) (\<lambda>ok.
            if \<not> ok then
              scan_copies E r st logical ex rest (acc\<lparr>cp_corrupt := first_of (cp_corrupt acc) buf\<rparr>)
            else
              run_bind (header_parse buf) (\<lambda>hdr.
                let acc' = acc\<lparr>cp_valid := Suc (cp_valid acc)\<rparr>
                in if \<not> validate_header r hdr logical (fst ex) (fst (snd ex)) (snd (snd ex))
                   then scan_copies E r st logical ex rest (acc'\<lparr>cp_stale := first_of (cp_stale acc) buf\<rparr>)
                   else scan_copies E r st logical ex rest (acc'\<lparr>cp_good := first_of (cp_good acc) buf\<rparr>))))"

definition no_copies :: copies where
  "no_copies = \<lparr>cp_good = None, cp_stale = None, cp_corrupt = None, cp_valid = 0\<rparr>"

definition node_stripes :: "chunk_map \<Rightarrow> nat \<Rightarrow> (nat \<times> nat) list" where
  "node_stripes cm logical = (case lookup_stripes cm logical of Some ss \<Rightarrow> ss | None \<Rightarrow> [(0, 0)])"

definition read_node ::
  "env \<Rightarrow> fs_reader \<Rightarrow> chunk_map \<Rightarrow> nat \<Rightarrow> nat \<Rightarrow> nat option \<Rightarrow> nat option \<Rightarrow> (io_kind + read_node_result) run" where
  "read_node E r cm logical expected_generation expected_level expected_owner =
     (case rd_strategy r of
        None \<Rightarrow>
          run_bind (read_logical E r cm logical (node_size r)) (\<lambda>b.
            case b of
              Inl e \<Rightarrow> Ret (Inl e)
            | Inr buf \<Rightarrow>
                run_bind (node_parse buf) (\<lambda>n.
                  Ret (Inr \<lparr>rn_node = Some n, all_mirrors_failed = False, generation_mismatch = False,
                            mirror_mismatch = False\<rparr>)))
      | Some st \<Rightarrow>
          (let stripes = node_stripes cm logical
           in run_bind (scan_copies E r st logical (expected_generation, expected_level, expected_owner) stripes no_copies)
             (\<lambda>cs.
                let gm = (cp_good cs = None \<and> cp_stale cs \<noteq> None);
                    mm = (length stripes > 1 \<and> cp_valid cs > 0 \<and> cp_valid cs < length stripes)
                in case first_some [cp_good cs, cp_stale cs, cp_corrupt cs] of
                     None \<Rightarrow> Ret (Inl NotFound)
                   | Some buf \<Rightarrow>
                       run_bind (verify_node_header (env_hashes E) st buf) (\<lambda>ok.
                         if \<not> ok then
                           Ret (Inr \<lparr>rn_node = None, all_mirrors_failed = True, generation_mismatch = gm,
                                     mirror_mismatch = mm\<rparr>)
                         else run_bind (node_parse buf) (\<lambda>n.
                           Ret (Inr \<lparr>rn_node = Some n, all_mirrors_failed = False, generation_mismatch = gm,
                                     mirror_mismatch = mm\<rparr>))))))"

subsection \<open>What one mirror copy is\<close>

datatype copy = UnreadableCopy | BadCopy bytes | OutdatedCopy bytes | GoodCopy bytes

definition copy_at :: "env \<Rightarrow> fs_reader \<Rightarrow> csum_strategy \<Rightarrow> nat \<Rightarrow> expect \<Rightarrow> nat \<Rightarrow> copy" where
  "copy_at E r st logical ex phys =
     (case pread_at (env_fault E) (fp r) (add64 (base_offset r) phys) (node_size r) of
        Inl e \<Rightarrow> UnreadableCopy
      | Inr buf \<Rightarrow>
          if verify_node_header (env_hashes E) st buf \<noteq> Ret True then BadCopy buf
          else case header_parse buf of
                 Ret hdr \<Rightarrow> if validate_header r hdr logical (fst ex) (fst (snd ex)) (snd (snd ex))
                             then GoodCopy buf else OutdatedCopy buf
               | Panic \<Rightarrow> OutdatedCopy buf)"

fun good_of :: "copy \<Rightarrow> bytes option" where
  "good_of (GoodCopy b) = Some b" | "good_of _ = None"

fun outdated_of :: "copy \<Rightarrow> bytes option" where
  "outdated_of (OutdatedCopy b) = Some b" | "outdated_of _ = None"

fun bad_of :: "copy \<Rightarrow> bytes option" where
  "bad_of (BadCopy b) = Some b" | "bad_of _ = None"

fun valid_copy :: "copy \<Rightarrow> bool" where
  "valid_copy (GoodCopy b) = True" | "valid_copy (OutdatedCopy b) = True" | "valid_copy _ = False"

text \<open>A reader as the program builds it: with a checksum strategy, and nodes that hold a header.\<close>

definition reader_ok :: "fs_reader \<Rightarrow> csum_strategy \<Rightarrow> bool" where
  "reader_ok r st \<longleftrightarrow> rd_strategy r = Some st \<and> HEADER_SIZE \<le> node_size r"

lemma pread_at_length: "pread_at f d off n = Inr buf \<Longrightarrow> length buf = n"
  by (auto simp: pread_at_def read_exact_at_def split: option.splits if_splits prod.splits)

lemma verify_node_header_total: "\<exists>b. verify_node_header H st buf = Ret b"
  using verify_header_total [of H "st_csum_type st" buf]
  by (cases "verify_header H (st_csum_type st) buf") (simp_all add: verify_node_header_def)

lemma header_parse_total: "HEADER_SIZE \<le> length buf \<Longrightarrow> \<exists>h. header_parse buf = Ret h"
  by (simp add: header_parse_def slice_def le_u64_def le_u32_def byte_at_def HEADER_SIZE_def)

lemma first_of_first_some [simp]: "first_of x y = first_some [x, Some y]"
  by (cases x) (simp_all add: first_of_def)

lemma first_some_Cons: "first_some (x # xs) = (case x of None \<Rightarrow> first_some xs | Some y \<Rightarrow> Some y)"
  by (cases x) simp_all

lemma first_some_None: "first_some xs = None \<longleftrightarrow> (\<forall>x \<in> set xs. x = None)"
  by (induction xs) (auto simp: first_some_Cons split: option.splits)

lemma scan_copies_eq:
  assumes "reader_ok r st"
  shows "scan_copies E r st logical ex ss acc =
    (let cs = map (\<lambda>s. copy_at E r st logical ex (snd s)) ss
     in Ret \<lparr>cp_good = first_some (cp_good acc # map good_of cs),
             cp_stale = first_some (cp_stale acc # map outdated_of cs),
             cp_corrupt = first_some (cp_corrupt acc # map bad_of cs),
             cp_valid = cp_valid acc + length (filter valid_copy cs)\<rparr>)"
proof (induction ss arbitrary: acc)
  case Nil
  show ?case by (cases acc) (simp add: Let_def first_some_Cons split: option.splits)
next
  case (Cons s ss)
  obtain d ph where s: "s = (d, ph)" by (cases s)
  show ?case
  proof (cases "pread_at (env_fault E) (fp r) (add64 (base_offset r) ph) (node_size r)")
    case (Inl e)
    then have "copy_at E r st logical ex ph = UnreadableCopy" by (simp add: copy_at_def)
    with Inl show ?thesis
      using Cons [of acc] by (simp add: s Let_def first_some_Cons split: option.splits)
  next
    case (Inr buf)
    obtain b where b: "verify_node_header (env_hashes E) st buf = Ret b"
      using verify_node_header_total by blast
    obtain h where h: "header_parse buf = Ret h"
      using assms header_parse_total pread_at_length [OF Inr] unfolding reader_ok_def by metis
    have c: "copy_at E r st logical ex ph = (if \<not> b then BadCopy buf
        else if validate_header r h logical (fst ex) (fst (snd ex)) (snd (snd ex)) then GoodCopy buf
        else OutdatedCopy buf)"
      using Inr b h by (simp add: copy_at_def)
    show ?thesis
      using Cons Inr b h
      by (cases b; cases "validate_header r h logical (fst ex) (fst (snd ex)) (snd (snd ex))")
        (simp_all add: s c Let_def first_some_Cons split: option.splits)
  qed
qed

lemma copy_at_verified:
  assumes "copy_at E r st logical ex phys = GoodCopy buf \<or> copy_at E r st logical ex phys = OutdatedCopy buf"
  shows "verify_node_header (env_hashes E) st buf = Ret True"
  using assms by (auto simp: copy_at_def split: sum.splits if_splits run.splits)

lemma copy_at_bad:
  assumes "copy_at E r st logical ex phys = BadCopy buf"
  shows "verify_node_header (env_hashes E) st buf \<noteq> Ret True"
  using assms by (auto simp: copy_at_def split: sum.splits if_splits run.splits)

lemma first_some_map_in: "first_some (map f cs) = Some b \<Longrightarrow> \<exists>c \<in> set cs. f c = Some b"
  by (induction cs) (auto simp: first_some_Cons split: option.splits)

lemma good_of_Some: "good_of c = Some b \<longleftrightarrow> c = GoodCopy b"
  and outdated_of_Some: "outdated_of c = Some b \<longleftrightarrow> c = OutdatedCopy b"
  and bad_of_Some: "bad_of c = Some b \<longleftrightarrow> c = BadCopy b"
  by (cases c; simp)+

lemma length_filter_bounds:
  "0 < length (filter P xs) \<longleftrightarrow> (\<exists>x \<in> set xs. P x)"
  "length (filter P xs) < length xs \<longleftrightarrow> (\<exists>x \<in> set xs. \<not> P x)"
proof -
  show "0 < length (filter P xs) \<longleftrightarrow> (\<exists>x \<in> set xs. P x)" by (auto simp: filter_empty_conv)
  show "length (filter P xs) < length xs \<longleftrightarrow> (\<exists>x \<in> set xs. \<not> P x)"
    by (metis filter_True filter_id_conv length_filter_less nless_le)
qed

text \<open>The result of a node read as a function of what its copies are.\<close>

definition node_outcome :: "copy list \<Rightarrow> (io_kind + read_node_result) run" where
  "node_outcome cs =
     (let mm = (length cs > 1 \<and> (\<exists>c \<in> set cs. valid_copy c) \<and> (\<exists>c \<in> set cs. \<not> valid_copy c));
          found = (\<lambda>gm buf. run_bind (node_parse buf) (\<lambda>n.
            Ret (Inr \<lparr>rn_node = Some n, all_mirrors_failed = False, generation_mismatch = gm, mirror_mismatch = mm\<rparr>)))
      in case first_some (map good_of cs) of
           Some buf \<Rightarrow> found False buf
         | None \<Rightarrow>
             (case first_some (map outdated_of cs) of
                Some buf \<Rightarrow> found True buf
              | None \<Rightarrow>
                  if \<exists>b. BadCopy b \<in> set cs
                  then Ret (Inr \<lparr>rn_node = None, all_mirrors_failed = True, generation_mismatch = False,
                                 mirror_mismatch = False\<rparr>)
                  else Ret (Inl NotFound)))"

lemma read_node_outcome:
  assumes "reader_ok r st"
  shows "read_node E r cm logical g lv w =
    node_outcome (map (\<lambda>s. copy_at E r st logical (g, lv, w) (snd s)) (node_stripes cm logical))"
proof -
  define cs where "cs = map (\<lambda>s. copy_at E r st logical (g, lv, w) (snd s)) (node_stripes cm logical)"
  have len: "length (node_stripes cm logical) = length cs" by (simp add: cs_def)
  have ver: "verify_node_header (env_hashes E) st b = Ret True" if "GoodCopy b \<in> set cs \<or> OutdatedCopy b \<in> set cs" for b
    using that copy_at_verified [of E r st logical "(g, lv, w)"] unfolding cs_def by fastforce
  have bad: "\<exists>x. verify_node_header (env_hashes E) st b = Ret x \<and> \<not> x" if "BadCopy b \<in> set cs" for b
    using that copy_at_bad [of E r st logical "(g, lv, w)"] verify_node_header_total [of "env_hashes E" st b]
    by (auto simp: cs_def)
  have sc: "scan_copies E r st logical (g, lv, w) (node_stripes cm logical) no_copies =
      Ret \<lparr>cp_good = first_some (map good_of cs), cp_stale = first_some (map outdated_of cs),
           cp_corrupt = first_some (map bad_of cs), cp_valid = length (filter valid_copy cs)\<rparr>"
    unfolding scan_copies_eq [OF assms] cs_def no_copies_def by (simp add: Let_def)
  have rn: "read_node E r cm logical g lv w =
     (let gm = (first_some (map good_of cs) = None \<and> first_some (map outdated_of cs) \<noteq> None);
          mm = (length cs > 1 \<and> (\<exists>c \<in> set cs. valid_copy c) \<and> (\<exists>c \<in> set cs. \<not> valid_copy c))
      in case first_some [first_some (map good_of cs), first_some (map outdated_of cs), first_some (map bad_of cs)] of
           None \<Rightarrow> Ret (Inl NotFound)
         | Some buf \<Rightarrow>
             run_bind (verify_node_header (env_hashes E) st buf) (\<lambda>ok.
               if \<not> ok then Ret (Inr \<lparr>rn_node = None, all_mirrors_failed = True, generation_mismatch = gm,
                                       mirror_mismatch = mm\<rparr>)
               else run_bind (node_parse buf) (\<lambda>n.
                 Ret (Inr \<lparr>rn_node = Some n, all_mirrors_failed = False, generation_mismatch = gm,
                           mirror_mismatch = mm\<rparr>))))"
    using assms unfolding read_node_def reader_ok_def
    by (simp add: sc Let_def len length_filter_bounds filter_empty_conv cong del: option.case_cong_weak if_weak_cong)
  show ?thesis
  proof (cases "first_some (map good_of cs)")
    case (Some b)
    then have "verify_node_header (env_hashes E) st b = Ret True"
      using first_some_map_in [OF Some] by (auto simp: good_of_Some intro: ver)
    with Some show ?thesis unfolding rn cs_def [symmetric] by (simp add: node_outcome_def Let_def)
  next
    case None
    show ?thesis
    proof (cases "first_some (map outdated_of cs)")
      case (Some b)
      then have "verify_node_header (env_hashes E) st b = Ret True"
        using first_some_map_in [OF Some] by (auto simp: outdated_of_Some intro: ver)
      with None Some show ?thesis unfolding rn cs_def [symmetric] by (simp add: node_outcome_def Let_def)
    next
      case none2: None
      have nv: "\<not> valid_copy c" if "c \<in> set cs" for c
      proof -
        have "good_of c = None" "outdated_of c = None" using that None none2 by (auto simp: first_some_None)
        then show ?thesis by (cases c) simp_all
      qed
      show ?thesis
      proof (cases "first_some (map bad_of cs)")
        case (Some b)
        then have mem: "BadCopy b \<in> set cs" using first_some_map_in [OF Some] by (auto simp: bad_of_Some)
        obtain x where x: "BadCopy b \<in> set cs" "verify_node_header (env_hashes E) st b = Ret x" "\<not> x"
          using bad [OF mem] mem by blast
        with None none2 Some nv show ?thesis unfolding rn cs_def [symmetric] by (auto simp: node_outcome_def Let_def)
      next
        case none3: None
        then have "BadCopy b \<notin> set cs" for b by (force simp: first_some_None)
        with None none2 none3 nv show ?thesis unfolding rn cs_def [symmetric] by (auto simp: node_outcome_def Let_def)
      qed
    qed
  qed
qed

lemma node_parse_header: "node_parse buf = Ret n \<Longrightarrow> header_parse buf = Ret (node_header n)"
  by (auto simp: node_parse_def run_bind_eq_Ret node_header_def split: if_splits)

lemma good_copy_validated:
  assumes "copy_at E r st logical ex ph = GoodCopy buf" "node_parse buf = Ret n"
  shows "validate_header r (node_header n) logical (fst ex) (fst (snd ex)) (snd (snd ex))"
  using assms node_parse_header [OF assms(2)]
  by (auto simp: copy_at_def split: sum.splits if_splits run.splits)

lemma good_copy_length: "copy_at E r st logical ex ph = GoodCopy buf \<Longrightarrow> length buf = node_size r"
  by (auto simp: copy_at_def dest: pread_at_length split: sum.splits if_splits run.splits)

text \<open>A node that is neither failed nor stale met every expectation.\<close>

lemma read_node_validated:
  assumes "reader_ok r st" "read_node E r cm logical g lv w = Ret (Inr res)"
    and "\<not> all_mirrors_failed res" "\<not> generation_mismatch res"
  shows "\<exists>n buf. rn_node res = Some n \<and> validate_header r (node_header n) logical g lv w \<and>
    node_parse buf = Ret n \<and> length buf = node_size r"
proof -
  define cs where "cs = map (\<lambda>s. copy_at E r st logical (g, lv, w) (snd s)) (node_stripes cm logical)"
  have eq: "node_outcome cs = Ret (Inr res)" using assms(2) read_node_outcome [OF assms(1)] by (simp add: cs_def)
  with assms(3,4) obtain b n where b: "first_some (map good_of cs) = Some b" "node_parse b = Ret n" "rn_node res = Some n"
    by (auto simp: node_outcome_def Let_def run_bind_eq_Ret split: option.splits if_splits)
  from first_some_map_in [OF b(1)] obtain ph where "copy_at E r st logical (g, lv, w) ph = GoodCopy b"
    by (auto simp: cs_def good_of_Some)
  from good_copy_validated [OF this b(2)] good_copy_length [OF this] b(2,3) show ?thesis by auto
qed

text \<open>C23: A metadata node survives damage to its mirrors: when the first copies are unreadable, corrupt or
  outdated and the next one is good, the read returns exactly that copy's node, whose header is the
  expected one, and reports a mirror mismatch exactly when some other copy failed its checksum or could
  not be read.\<close>

theorem read_node_survives_mirrors:
  assumes "reader_ok r st" "node_stripes cm logical = pre @ (d, ph) # post"
    and "copy_at E r st logical (g, lv, w) ph = GoodCopy buf" "node_parse buf = Ret n"
    and "\<forall>s \<in> set pre. good_of (copy_at E r st logical (g, lv, w) (snd s)) = None"
  shows "read_node E r cm logical g lv w =
      Ret (Inr \<lparr>rn_node = Some n, all_mirrors_failed = False, generation_mismatch = False,
        mirror_mismatch = (\<exists>s \<in> set (pre @ post). \<not> valid_copy (copy_at E r st logical (g, lv, w) (snd s)))\<rparr>) \<and>
    validate_header r (node_header n) logical g lv w"
proof -
  let ?c = "\<lambda>s. copy_at E r st logical (g, lv, w) (snd s)"
  have fs: "first_some (map good_of (map ?c (pre @ (d, ph) # post))) = Some buf"
    using assms(5) by (induction pre) (simp_all add: assms(3) first_some_Cons)
  have mm: "(length (pre @ (d, ph) # post) > 1 \<and> (\<exists>c \<in> set (map ?c (pre @ (d, ph) # post)). valid_copy c) \<and>
      (\<exists>c \<in> set (map ?c (pre @ (d, ph) # post)). \<not> valid_copy c)) \<longleftrightarrow> (\<exists>s \<in> set (pre @ post). \<not> valid_copy (?c s))"
    using assms(3) by (cases pre) auto
  have "read_node E r cm logical g lv w =
      Ret (Inr \<lparr>rn_node = Some n, all_mirrors_failed = False, generation_mismatch = False,
        mirror_mismatch = (\<exists>s \<in> set (pre @ post). \<not> valid_copy (?c s))\<rparr>)"
    unfolding read_node_outcome [OF assms(1)] assms(2) node_outcome_def Let_def fs
    using mm assms(4) by simp
  then show ?thesis using good_copy_validated [OF assms(3,4)] by simp
qed

text \<open>A node with two copies, the first one wiped.\<close>

definition demo_env :: env where
  "demo_env = \<lparr>env_hashes = demo_hashes\<lparr>crc32c := \<lambda>_. 1\<rparr>, env_fault = None, env_dup_fault = None\<rparr>"

definition demo_strategy :: csum_strategy where
  "demo_strategy = \<lparr>st_csum_type = CRC32C, st_name = ''crc32c'', hash_len = 4, st_sector_size = 4096\<rparr>"

definition demo_node :: bytes where
  "demo_node = enc_header (1 # zeros 31) (demo_header 0 0)"

definition demo_reader :: fs_reader where
  "demo_reader = new_reader (plain_disk (zeros 101 @ demo_node)) 101 0 (Some demo_strategy)"

definition demo_map :: chunk_map where
  "demo_map = [\<lparr>m_begin = 0x4000, m_end = 0x5000, m_ty = 34,
     m_stripes = [\<lparr>s_devid = 1, s_offset = 0\<rparr>, \<lparr>s_devid = 1, s_offset = 101\<rparr>]\<rparr>]"

lemma demo_header_ok: "header_ok (demo_header 0 0)"
  by (simp add: header_ok_def demo_header_def)

lemma demo_node_length: "length demo_node = 101"
  using length_enc_header [OF demo_header_ok, of "1 # zeros 31"] by (simp add: demo_node_def HEADER_SIZE_def)

lemma demo_node_parse: "node_parse demo_node = Ret (LeafNode \<lparr>leaf_header = demo_header 0 0, slots = [], leaf_buf = demo_node\<rparr>)"
  using header_parse_enc [OF demo_header_ok, of "1 # zeros 31" "[]"]
  by (simp add: node_parse_def demo_node_def) (simp add: demo_header_def)

lemma le_bytes_4_1: "le_bytes 4 (Suc 0) = 1 # zeros 3"
  by code_simp

lemma demo_node_take: "take 4 demo_node = le_bytes 4 1"
proof -
  have "take 3 (zeros 31) = zeros 3" by (simp add: zeros_def)
  then show ?thesis
    by (simp add: demo_node_def enc_header_def le_bytes_4_1 take_Cons' del: le_bytes.simps)
qed

lemma zeros_not_valid: "take 4 (zeros 101) = le_bytes 4 (Suc 0) \<longleftrightarrow> False"
  by (auto simp: le_bytes_4_1 zeros_def dest: arg_cong [of _ _ hd])

lemma demo_reader_ok: "reader_ok demo_reader demo_strategy"
  by (simp add: reader_ok_def demo_reader_def new_reader_def HEADER_SIZE_def)

lemma demo_stripes: "node_stripes demo_map 0x4000 = [(1, 0)] @ (1, 101) # []"
  by (simp add: node_stripes_def lookup_stripes_def chunk_find_def binary_search_by_def bs_loop.simps demo_map_def
      range_cmp_def add64_def covers_def)

lemma demo_copies:
  "copy_at demo_env demo_reader demo_strategy 0x4000 (GEN_DONT_CHECK, None, None) 0 = BadCopy (zeros 101)"
  "copy_at demo_env demo_reader demo_strategy 0x4000 (GEN_DONT_CHECK, None, None) 101 = GoodCopy demo_node"
proof -
  have h: "header_parse demo_node = Ret (demo_header 0 0)"
    using header_parse_enc [OF demo_header_ok, of "1 # zeros 31" "[]"] by (simp add: demo_node_def)
  have rd: "fp demo_reader = plain_disk (zeros 101 @ demo_node)" "node_size demo_reader = 101" "base_offset demo_reader = 0"
    "rd_fsid demo_reader = None" by (simp_all add: demo_reader_def new_reader_def)
  have env: "env_fault demo_env = None" "crc32c (env_hashes demo_env) = (\<lambda>_. 1)" by (simp_all add: demo_env_def)
  have ver: "verify_node_header (env_hashes demo_env) demo_strategy b = Ret (take 4 b = le_bytes 4 1)" if "length b = 101" for b
    using that by (simp add: verify_node_header_def verify_header_def csum_params_def hash_bytes_def demo_strategy_def env)
  show "copy_at demo_env demo_reader demo_strategy 0x4000 (GEN_DONT_CHECK, None, None) 0 = BadCopy (zeros 101)"
    by (simp add: copy_at_def rd env pread_at_def read_exact_at_def plain_disk_def ver add64_def zeros_not_valid)
  show "copy_at demo_env demo_reader demo_strategy 0x4000 (GEN_DONT_CHECK, None, None) 101 = GoodCopy demo_node"
    by (simp add: copy_at_def rd env pread_at_def read_exact_at_def plain_disk_def ver add64_def demo_node_length
        demo_node_take h validate_header_def) (simp add: demo_header_def)
qed

theorem read_node_survives_mirrors_witness:
  "read_node demo_env demo_reader demo_map 0x4000 GEN_DONT_CHECK None None =
     Ret (Inr \<lparr>rn_node = Some (LeafNode \<lparr>leaf_header = demo_header 0 0, slots = [], leaf_buf = demo_node\<rparr>),
       all_mirrors_failed = False, generation_mismatch = False, mirror_mismatch = True\<rparr>)"
  using read_node_survives_mirrors [OF demo_reader_ok demo_stripes demo_copies(2) demo_node_parse] demo_copies(1)
  by simp

lemma demo_read_node:
  "read_node demo_env demo_reader demo_map 0x4000 GEN_DONT_CHECK None None =
     Ret (Inr \<lparr>rn_node = Some (LeafNode \<lparr>leaf_header = demo_header 0 0, slots = [], leaf_buf = demo_node\<rparr>),
       all_mirrors_failed = False, generation_mismatch = False, mirror_mismatch = True\<rparr>)"
  by (simp add: read_node_outcome [OF demo_reader_ok] demo_stripes demo_copies node_outcome_def demo_node_parse)

end
