(* ===== verification/Btrfs_Tree.thy ===== *)
theory Btrfs_Tree
  imports Btrfs_Reader
begin

text \<open>
  Tree walks of \<open>src/scrub-rs/src/btrfs/tree.rs\<close>. The loop over the work queue is a partial
  function: not returning is the value None. Its specification is the recursive traversal of the
  tree the device holds; the loop is proved to return and to refine that traversal on every
  device, and pruning by key range is proved to lose no item of the range.
\<close>

subsection \<open>The walk\<close>

record node_ref =
  nr_logical :: nat
  nr_gen :: "nat option"
  nr_level :: "nat option"
  nr_owner :: "nat option"

text \<open>The callbacks of a walk over the caller's state.\<close>

record 's visitor =
  on_leaf :: "leaf \<Rightarrow> nat \<Rightarrow> 's \<Rightarrow> ('s \<times> (io_kind + unit)) run"
  on_metadata_error :: "nat \<Rightarrow> 's \<Rightarrow> 's"
  on_stale :: "nat \<Rightarrow> 's \<Rightarrow> 's"
  on_mirror_mismatch :: "nat \<Rightarrow> 's \<Rightarrow> 's"
  on_read_error :: "nat \<Rightarrow> 's \<Rightarrow> 's"

type_synonym bounds = "(key \<times> key) option"

definition keep_child :: "bounds \<Rightarrow> key_ptr list \<Rightarrow> nat \<Rightarrow> bool" where
  "keep_child bounds ps idx =
     (case bounds of
        None \<Rightarrow> True
      | Some (key_lo, key_hi) \<Rightarrow>
          let below = (idx + 1 < length ps \<and> kp_key (ps ! (idx + 1)) \<le> key_lo);
              above = (key_hi \<le> kp_key (ps ! idx))
          in \<not> (below \<or> above))"

definition child_ref :: "internal_node \<Rightarrow> nat \<Rightarrow> node_ref" where
  "child_ref n idx =
     \<lparr>nr_logical = blockptr (ptrs n ! idx), nr_gen = Some (kp_generation (ptrs n ! idx)),
      nr_level = Some (h_level (int_header n) - 1), nr_owner = Some (h_owner (int_header n))\<rparr>"

text \<open>The children are pushed last to first, so they are popped in order: the queue's top is the list's head.\<close>

definition kept_children :: "bounds \<Rightarrow> internal_node \<Rightarrow> nat list" where
  "kept_children bounds n = filter (keep_child bounds (ptrs n)) [0..<length (ptrs n)]"

definition read_ref :: "env \<Rightarrow> fs_reader \<Rightarrow> chunk_map \<Rightarrow> node_ref \<Rightarrow> (io_kind + read_node_result) run" where
  "read_ref E r cm nr =
     read_node E r cm (nr_logical nr) (case nr_gen nr of Some g \<Rightarrow> g | None \<Rightarrow> GEN_DONT_CHECK) (nr_level nr) (nr_owner nr)"

definition note_mirror :: "'s visitor \<Rightarrow> bool \<Rightarrow> nat \<Rightarrow> 's \<Rightarrow> 's" where
  "note_mirror v mm logical s = (if mm then on_mirror_mismatch v logical s else s)"

partial_function (option) walk_loop ::
  "env \<Rightarrow> fs_reader \<Rightarrow> chunk_map \<Rightarrow> bounds \<Rightarrow> 's visitor \<Rightarrow> node_ref list \<Rightarrow> 's \<Rightarrow> ('s \<times> (io_kind + unit)) run option" where
  "walk_loop E r cm bounds v queue s =
     (case queue of
        [] \<Rightarrow> Some (Ret (s, Inr ()))
      | nr # rest \<Rightarrow>
          (case read_ref E r cm nr of
             Panic \<Rightarrow> Some Panic
           | Ret (Inl e) \<Rightarrow> walk_loop E r cm bounds v rest (on_read_error v (nr_logical nr) s)
           | Ret (Inr res) \<Rightarrow>
               if all_mirrors_failed res then
                 walk_loop E r cm bounds v rest (on_metadata_error v (nr_logical nr) s)
               else if generation_mismatch res then
                 walk_loop E r cm bounds v rest (on_stale v (nr_logical nr) s)
               else
                 (case rn_node res of
                    None \<Rightarrow> Some Panic
                  | Some (LeafNode lf) \<Rightarrow>
                      (case on_leaf v lf (nr_logical nr) (note_mirror v (mirror_mismatch res) (nr_logical nr) s) of
                         Panic \<Rightarrow> Some Panic
                       | Ret (s', Inl e) \<Rightarrow> Some (Ret (s', Inl e))
                       | Ret (s', Inr u) \<Rightarrow> walk_loop E r cm bounds v rest s')
                  | Some (InternalNode n) \<Rightarrow>
                      walk_loop E r cm bounds v (map (child_ref n) (kept_children bounds n) @ rest)
                        (note_mirror v (mirror_mismatch res) (nr_logical nr) s))))"

text \<open>Sequencing after a walk: not returning and panicking are passed on.\<close>

definition walk_bind :: "'a run option \<Rightarrow> ('a \<Rightarrow> 'b run option) \<Rightarrow> 'b run option" where
  "walk_bind m f = (case m of None \<Rightarrow> None | Some Panic \<Rightarrow> Some Panic | Some (Ret x) \<Rightarrow> f x)"

lemma walk_bind_simps [simp]:
  "walk_bind (Some (Ret x)) f = f x" "walk_bind (Some Panic) f = Some Panic" "walk_bind None f = None"
  by (simp_all add: walk_bind_def)

definition root_ref :: "nat \<Rightarrow> node_ref" where
  "root_ref l = \<lparr>nr_logical = l, nr_gen = None, nr_level = None, nr_owner = None\<rparr>"

definition walk_leaves_impl ::
  "env \<Rightarrow> fs_reader \<Rightarrow> chunk_map \<Rightarrow> nat \<Rightarrow> bounds \<Rightarrow> 's visitor \<Rightarrow> 's \<Rightarrow> ('s \<times> (io_kind + unit)) run option" where
  "walk_leaves_impl E r cm root_logical bounds v s = walk_loop E r cm bounds v [root_ref root_logical] s"

definition walk_leaves ::
  "env \<Rightarrow> fs_reader \<Rightarrow> chunk_map \<Rightarrow> nat \<Rightarrow> 's visitor \<Rightarrow> 's \<Rightarrow> ('s \<times> (io_kind + unit)) run option" where
  "walk_leaves E r cm root_logical v s = walk_leaves_impl E r cm root_logical None v s"

definition walk_leaves_range ::
  "env \<Rightarrow> fs_reader \<Rightarrow> chunk_map \<Rightarrow> nat \<Rightarrow> key \<Rightarrow> key \<Rightarrow> 's visitor \<Rightarrow> 's \<Rightarrow> ('s \<times> (io_kind + unit)) run option" where
  "walk_leaves_range E r cm root_logical key_lo key_hi v s =
     walk_leaves_impl E r cm root_logical (Some (key_lo, key_hi)) v s"

lemma root_logical [simp]: "nr_logical (root_ref l) = l"
  by (simp add: root_ref_def)

subsection \<open>The tree a device holds\<close>

datatype loss = LostRead | LostHeader | LostStale

datatype btree =
    TLeaf bool nat leaf
  | TNode bool nat internal_node "btree list"
  | TLost loss nat
  | TPanic

inductive stored :: "env \<Rightarrow> fs_reader \<Rightarrow> chunk_map \<Rightarrow> bounds \<Rightarrow> node_ref \<Rightarrow> btree \<Rightarrow> bool"
  for E :: env and r :: fs_reader and cm :: chunk_map and bounds :: bounds where
  st_panic: "read_ref E r cm nr = Panic \<Longrightarrow> stored E r cm bounds nr TPanic"
| st_read: "read_ref E r cm nr = Ret (Inl e) \<Longrightarrow> stored E r cm bounds nr (TLost LostRead (nr_logical nr))"
| st_header: "read_ref E r cm nr = Ret (Inr res) \<Longrightarrow> all_mirrors_failed res \<Longrightarrow>
    stored E r cm bounds nr (TLost LostHeader (nr_logical nr))"
| st_stale: "read_ref E r cm nr = Ret (Inr res) \<Longrightarrow> \<not> all_mirrors_failed res \<Longrightarrow> generation_mismatch res \<Longrightarrow>
    stored E r cm bounds nr (TLost LostStale (nr_logical nr))"
| st_leaf: "read_ref E r cm nr = Ret (Inr res) \<Longrightarrow> \<not> all_mirrors_failed res \<Longrightarrow> \<not> generation_mismatch res \<Longrightarrow>
    rn_node res = Some (LeafNode lf) \<Longrightarrow> stored E r cm bounds nr (TLeaf (mirror_mismatch res) (nr_logical nr) lf)"
| st_node: "read_ref E r cm nr = Ret (Inr res) \<Longrightarrow> \<not> all_mirrors_failed res \<Longrightarrow> \<not> generation_mismatch res \<Longrightarrow>
    rn_node res = Some (InternalNode n) \<Longrightarrow>
    list_all2 (\<lambda>i t. stored E r cm bounds (child_ref n i) t) (kept_children bounds n) ts \<Longrightarrow>
    stored E r cm bounds nr (TNode (mirror_mismatch res) (nr_logical nr) n ts)"

text \<open>The recursive traversal: what a walk is meant to do with the tree.\<close>

definition lose :: "'s visitor \<Rightarrow> loss \<Rightarrow> nat \<Rightarrow> 's \<Rightarrow> 's" where
  "lose v l logical s =
     (case l of LostRead \<Rightarrow> on_read_error v logical s | LostHeader \<Rightarrow> on_metadata_error v logical s
      | LostStale \<Rightarrow> on_stale v logical s)"

fun visit :: "'s visitor \<Rightarrow> btree \<Rightarrow> 's \<Rightarrow> ('s \<times> (io_kind + unit)) run"
  and visit_all :: "'s visitor \<Rightarrow> btree list \<Rightarrow> 's \<Rightarrow> ('s \<times> (io_kind + unit)) run" where
  "visit v (TLeaf mm l lf) s = on_leaf v lf l (note_mirror v mm l s)"
| "visit v (TNode mm l n ts) s = visit_all v ts (note_mirror v mm l s)"
| "visit v (TLost k l) s = Ret (lose v k l s, Inr ())"
| "visit v TPanic s = Panic"
| "visit_all v [] s = Ret (s, Inr ())"
| "visit_all v (t # ts) s =
     (case visit v t s of
        Panic \<Rightarrow> Panic
      | Ret (s', Inl e) \<Rightarrow> Ret (s', Inl e)
      | Ret (s', Inr u) \<Rightarrow> visit_all v ts s')"

text \<open>What remains of the queue after one tree was visited.\<close>

definition and_then :: "('s \<times> (io_kind + unit)) run \<Rightarrow> ('s \<Rightarrow> ('s \<times> (io_kind + unit)) run option) \<Rightarrow> ('s \<times> (io_kind + unit)) run option" where
  "and_then m f =
     (case m of
        Panic \<Rightarrow> Some Panic
      | Ret (s', Inl e) \<Rightarrow> Some (Ret (s', Inl e))
      | Ret (s', Inr u) \<Rightarrow> f s')"

lemma and_then_simps [simp]:
  "and_then Panic f = Some Panic"
  "and_then (Ret (s, Inl e)) f = Some (Ret (s, Inl e))"
  "and_then (Ret (s, Inr u)) f = f s"
  by (simp_all add: and_then_def)

lemma and_then_visit_all:
  "and_then (visit_all v (t # ts) s) f = and_then (visit v t s) (\<lambda>s'. and_then (visit_all v ts s') f)"
  by (auto simp: and_then_def split: run.splits sum.splits prod.splits)

lemma walk_loop_Nil [simp]: "walk_loop E r cm bounds v [] s = Some (Ret (s, Inr ()))"
  by (simp add: walk_loop.simps)

lemma walk_loop_all:
  assumes "list_all2 (\<lambda>i t. \<forall>q s. walk_loop E r cm b v (c i # q) s = and_then (visit v t s) (walk_loop E r cm b v q)) js ts"
  shows "walk_loop E r cm b v (map c js @ q) s = and_then (visit_all v ts s) (walk_loop E r cm b v q)"
  using assms
proof (induction arbitrary: s rule: list_all2_induct)
  case (Cons i js t ts)
  have "walk_loop E r cm b v (map c js @ q) = (\<lambda>s'. and_then (visit_all v ts s') (walk_loop E r cm b v q))"
    using Cons.IH by blast
  with Cons.hyps(1) show ?case by (simp add: and_then_visit_all del: visit_all.simps)
qed simp

lemma walk_loop_stored:
  assumes "stored E r cm b nr t"
  shows "walk_loop E r cm b v (nr # q) s = and_then (visit v t s) (walk_loop E r cm b v q)"
  using assms
proof (induction arbitrary: q s rule: stored.induct)
  case (st_leaf nr res lf)
  then show ?case
    by (subst walk_loop.simps) (auto simp: and_then_def split: run.splits prod.splits sum.splits)
next
  case (st_node nr res n ts)
  have all: "list_all2 (\<lambda>i t. \<forall>q s. walk_loop E r cm b v (child_ref n i # q) s = and_then (visit v t s) (walk_loop E r cm b v q))
      (kept_children b n) ts"
    using st_node.IH by (rule list_all2_mono) blast
  show ?case
    using st_node.hyps walk_loop_all [OF all] by (subst walk_loop.simps) simp
qed (subst walk_loop.simps, simp add: lose_def)+

subsection \<open>Every device holds a finite tree\<close>

text \<open>
  The level a node must have bounds the depth below it: an internal node is at level one or more,
  and its children must be one level lower.
\<close>

definition rank :: "node_ref \<Rightarrow> nat" where
  "rank nr = (case nr_level nr of Some l \<Rightarrow> l | None \<Rightarrow> 256)"

lemma byte_at_less: "byte_at buf pos = Ret n \<Longrightarrow> n < 256"
  by (auto simp: byte_at_def split: if_splits)

lemma internal_level:
  "node_parse buf = Ret (InternalNode n) \<Longrightarrow> 0 < h_level (int_header n) \<and> h_level (int_header n) < 256"
  by (auto simp: node_parse_def header_parse_def run_bind_eq_Ret dest!: byte_at_less split: if_splits)

lemma read_ref_node:
  assumes "reader_ok r st" "read_ref E r cm nr = Ret (Inr res)" "\<not> all_mirrors_failed res" "\<not> generation_mismatch res"
  obtains n buf where "rn_node res = Some n" "node_parse buf = Ret n" "length buf = node_size r"
    "\<forall>l \<in> set_option (nr_level nr). h_level (node_header n) = l"
  using read_node_validated [OF assms(1) assms(2) [unfolded read_ref_def] assms(3,4)]
  by (auto simp: validate_header_def)

lemma child_rank:
  assumes "reader_ok r st" "read_ref E r cm nr = Ret (Inr res)" "\<not> all_mirrors_failed res" "\<not> generation_mismatch res"
    and "rn_node res = Some (InternalNode n)"
  shows "rank (child_ref n i) < rank nr"
proof -
  obtain buf where "node_parse buf = Ret (InternalNode n)" "\<forall>l \<in> set_option (nr_level nr). h_level (int_header n) = l"
    using read_ref_node [OF assms(1-4)] assms(5) by (metis node.simps(6) node_header_def option.inject)
  with internal_level [of buf n] show ?thesis
    by (auto simp: rank_def child_ref_def split: option.splits)
qed

lemma list_all2_choice: "\<forall>x \<in> set xs. \<exists>y. P x y \<Longrightarrow> \<exists>ys. list_all2 P xs ys"
proof (induction xs)
  case (Cons x xs)
  then obtain y ys where "P x y" "list_all2 P xs ys" by auto
  then show ?case by (intro exI [of _ "y # ys"]) simp
qed (auto intro: exI [of _ "[]"])

lemma stored_exists:
  assumes "reader_ok r st"
  shows "\<exists>t. stored E r cm b nr t"
proof (induction nr rule: measure_induct_rule [of rank])
  case (less nr)
  show ?case
  proof (cases "read_ref E r cm nr")
    case (Ret x)
    show ?thesis
    proof (cases x)
      case (Inr res)
      show ?thesis
      proof (cases "all_mirrors_failed res \<or> generation_mismatch res")
        case True
        then show ?thesis using Ret Inr by (metis st_header st_stale)
      next
        case False
        then obtain n where n: "rn_node res = Some n"
          using read_ref_node [OF assms] Ret Inr by metis
        show ?thesis
        proof (cases n)
          case (LeafNode lf)
          then show ?thesis using False n Ret Inr by (metis st_leaf)
        next
          case (InternalNode i)
          then have "\<forall>j \<in> set (kept_children b i). \<exists>t. stored E r cm b (child_ref i j) t"
            using less child_rank [OF assms] False n Ret Inr by blast
          from list_all2_choice [OF this] show ?thesis
            using False n Ret Inr InternalNode by (metis st_node)
        qed
      qed
    qed (use Ret in \<open>auto intro: st_read\<close>)
  qed (auto intro: st_panic)
qed

text \<open>C24: A tree walk always ends, and does what a recursive traversal does: whatever bytes the device holds,
  cyclic or forged pointers included, there is a finite tree of the nodes reachable from the root such
  that the loop over the work queue returns exactly the result of visiting that tree depth first,
  leaf by leaf in key-pointer order, with unreadable, corrupt and stale subtrees reported once each.\<close>

theorem walk_refines_traversal:
  assumes "reader_ok r st"
  shows "\<exists>t. stored E r cm b (root_ref root) t \<and> (\<forall>v s. walk_leaves_impl E r cm root b v s = Some (visit v t s))"
proof -
  obtain t where t: "stored E r cm b (root_ref root) t" using stored_exists [OF assms] by blast
  have "and_then m (walk_loop E r cm b v []) = Some m" for m and v :: "'s visitor"
    by (auto simp: and_then_def split: run.splits prod.splits sum.splits)
  then have "walk_leaves_impl E r cm root b v s = Some (visit v t s)" for v :: "'s visitor" and s
    unfolding walk_leaves_impl_def by (simp add: walk_loop_stored [OF t])
  with t show ?thesis by blast
qed

text \<open>Counting the leaves of the one-node tree with a wiped first copy.\<close>

inductive_cases storedE: "stored E r cm b nr t"

definition leaf_counter :: "(nat \<times> nat) visitor" where
  "leaf_counter =
     \<lparr>on_leaf = (\<lambda>_ _ (n, m). Ret ((Suc n, m), Inr ())), on_metadata_error = (\<lambda>_ s. s), on_stale = (\<lambda>_ s. s),
      on_mirror_mismatch = (\<lambda>_ (n, m). (n, Suc m)), on_read_error = (\<lambda>_ s. s)\<rparr>"

theorem walk_refines_traversal_witness:
  "reader_ok demo_reader demo_strategy \<and>
   walk_leaves_impl demo_env demo_reader demo_map 0x4000 None leaf_counter (0, 0) = Some (Ret ((1, 1), Inr ()))"
proof -
  obtain t where t: "stored demo_env demo_reader demo_map None (root_ref 0x4000) t"
      "walk_leaves_impl demo_env demo_reader demo_map 0x4000 None leaf_counter (0, 0) = Some (visit leaf_counter t (0, 0))"
    using walk_refines_traversal [OF demo_reader_ok] by metis
  have rd: "read_ref demo_env demo_reader demo_map (root_ref 0x4000) =
     Ret (Inr \<lparr>rn_node = Some (LeafNode \<lparr>leaf_header = demo_header 0 0, slots = [], leaf_buf = demo_node\<rparr>),
       all_mirrors_failed = False, generation_mismatch = False, mirror_mismatch = True\<rparr>)"
    using demo_read_node by (simp add: read_ref_def root_ref_def)
  from t(1) have "\<exists>lf. t = TLeaf True 0x4000 lf"
    by (rule storedE) (auto simp: rd root_logical)
  then show ?thesis using t(2) demo_reader_ok by (auto simp: leaf_counter_def note_mirror_def)
qed

subsection \<open>Pruning by key range\<close>

fun tree_leaves :: "btree \<Rightarrow> leaf list" where
  "tree_leaves (TLeaf mm l lf) = [lf]"
| "tree_leaves (TNode mm l n ts) = concat (map tree_leaves ts)"
| "tree_leaves (TLost k l) = []"
| "tree_leaves TPanic = []"

text \<open>The items of a tree: a leaf and a slot number.\<close>

definition leaf_items :: "leaf \<Rightarrow> (leaf \<times> nat) list" where
  "leaf_items lf = map (Pair lf) [0..<length (slots lf)]"

definition tree_items :: "btree \<Rightarrow> (leaf \<times> nat) list" where
  "tree_items t = concat (map leaf_items (tree_leaves t))"

definition item_key :: "leaf \<times> nat \<Rightarrow> key" where
  "item_key it = slot_key (slots (fst it) ! snd it)"

text \<open>The search-tree order of a healthy tree: the keys below child \<open>i\<close> lie between pointer \<open>i\<close> and the next.\<close>

fun ordered :: "btree \<Rightarrow> bool" where
  "ordered (TNode mm l n ts) \<longleftrightarrow>
     length ts = length (ptrs n) \<and> list_all ordered ts \<and>
     (\<forall>i < length ts. \<forall>it \<in> set (tree_items (ts ! i)).
        kp_key (ptrs n ! i) \<le> item_key it \<and> (i + 1 < length ts \<longrightarrow> item_key it < kp_key (ptrs n ! (i + 1))))"
| "ordered t \<longleftrightarrow> True"

fun prune :: "key \<times> key \<Rightarrow> btree \<Rightarrow> btree" where
  "prune b (TNode mm l n ts) = TNode mm l n (map (\<lambda>i. map (prune b) ts ! i) (kept_children (Some b) n))"
| "prune b t = t"

lemma kept_children_None [simp]: "kept_children None n = [0..<length (ptrs n)]"
  by (simp add: kept_children_def keep_child_def)

lemma stored_prune:
  assumes "stored E r cm None nr t"
  shows "stored E r cm (Some b) nr (prune b t)"
  using assms
proof (induction rule: stored.induct)
  case (st_node nr res n ts)
  from st_node.IH have ih: "list_all2 (\<lambda>i t. stored E r cm (Some b) (child_ref n i) (prune b t)) [0..<length (ptrs n)] ts"
    by (simp add: list_all2_conv_all_nth)
  then have "\<forall>i \<in> set (kept_children (Some b) n). stored E r cm (Some b) (child_ref n i) (map (prune b) ts ! i)"
    by (auto simp: list_all2_conv_all_nth kept_children_def)
  then have "list_all2 (\<lambda>i t. stored E r cm (Some b) (child_ref n i) t) (kept_children (Some b) n)
      (map (\<lambda>i. map (prune b) ts ! i) (kept_children (Some b) n))"
    by (simp add: list_all2_conv_all_nth)
  with st_node.hyps show ?case by (auto intro: stored.st_node)
qed (auto intro: stored.intros)

lemma tree_items_Node [simp]: "tree_items (TNode mm l n ts) = concat (map tree_items ts)"
  by (induction ts) (simp_all add: tree_items_def)

lemma filter_concat_drop:
  assumes "\<And>x. x \<in> set xs \<Longrightarrow> \<not> K x \<Longrightarrow> filter P (f x) = []"
  shows "filter P (concat (map f (filter K xs))) = filter P (concat (map f xs))"
  using assms by (induction xs) auto

lemma filter_concat_cong:
  assumes "\<And>x. x \<in> set xs \<Longrightarrow> filter P (f x) = filter P (g x)"
  shows "filter P (concat (map f xs)) = filter P (concat (map g xs))"
  using assms by (induction xs) auto

definition in_bounds :: "key \<times> key \<Rightarrow> leaf \<times> nat \<Rightarrow> bool" where
  "in_bounds b it \<longleftrightarrow> fst b \<le> item_key it \<and> item_key it < snd b"

text \<open>Pruning loses no item of the range.\<close>

lemma prune_items: "ordered t \<Longrightarrow> filter (in_bounds b) (tree_items (prune b t)) = filter (in_bounds b) (tree_items t)"
proof (induction t)
  case (TNode mm l n ts)
  let ?P = "in_bounds b"
  have ih: "filter ?P (tree_items (prune b t)) = filter ?P (tree_items t)" if "t \<in> set ts" for t
    using TNode that by (auto simp: list_all_iff)
  have len: "length ts = length (ptrs n)" using TNode.prems by simp
  have out: "filter ?P (tree_items (ts ! i)) = []" if i: "i < length ts" and k: "\<not> keep_child (Some b) (ptrs n) i" for i
  proof -
    have ord: "\<forall>it \<in> set (tree_items (ts ! i)). kp_key (ptrs n ! i) \<le> item_key it \<and>
        (i + 1 < length ts \<longrightarrow> item_key it < kp_key (ptrs n ! (i + 1)))"
      using TNode.prems i by simp
    show ?thesis
      using k ord len
      by (cases b) (fastforce simp: filter_empty_conv in_bounds_def keep_child_def Let_def)
  qed
  have kin: "i < length ts" if "i \<in> set (kept_children (Some b) n)" for i
    using that len by (simp add: kept_children_def)
  have "filter ?P (tree_items (prune b (TNode mm l n ts))) =
      filter ?P (concat (map (\<lambda>i. tree_items (prune b (ts ! i))) (kept_children (Some b) n)))"
    using kin by (simp add: comp_def cong: map_cong)
  also have "\<dots> = filter ?P (concat (map (\<lambda>i. tree_items (ts ! i)) (kept_children (Some b) n)))"
    by (rule filter_concat_cong) (rule ih, rule nth_mem, rule kin)
  also have "\<dots> = filter ?P (concat (map (\<lambda>i. tree_items (ts ! i)) [0..<length ts]))"
    unfolding kept_children_def len [symmetric] using out by (intro filter_concat_drop) simp
  also have "map (\<lambda>i. tree_items (ts ! i)) [0..<length ts] = map tree_items ts"
    by (rule nth_equalityI) simp_all
  finally show ?case by simp
qed simp_all

lemma prune_items_subset: "ordered t \<Longrightarrow> set (tree_items (prune b t)) \<subseteq> set (tree_items t)"
proof (induction t)
  case (TNode mm l n ts)
  show ?case
  proof
    fix it assume "it \<in> set (tree_items (prune b (TNode mm l n ts)))"
    then obtain i where i: "i \<in> set (kept_children (Some b) n)" "it \<in> set (tree_items (map (prune b) ts ! i))" by auto
    then have "i < length ts" using TNode.prems by (simp add: kept_children_def)
    with i have "ts ! i \<in> set ts" "it \<in> set (tree_items (prune b (ts ! i)))" by simp_all
    then show "it \<in> set (tree_items (TNode mm l n ts))"
      using TNode.IH TNode.prems by (auto simp: list_all_iff)
  qed
qed simp_all

text \<open>A predicate every callback keeps is kept by the whole traversal.\<close>

lemma visit_keeps:
  assumes "\<And>lf l s s' res. I s \<Longrightarrow> on_leaf v lf l s = Ret (s', res) \<Longrightarrow> I s'"
    and "\<And>l s. I s \<Longrightarrow> I (on_metadata_error v l s)" "\<And>l s. I s \<Longrightarrow> I (on_stale v l s)"
    and "\<And>l s. I s \<Longrightarrow> I (on_mirror_mismatch v l s)" "\<And>l s. I s \<Longrightarrow> I (on_read_error v l s)"
  shows "I s \<Longrightarrow> visit v t s = Ret (s', res) \<Longrightarrow> I s'"
proof (induction t arbitrary: s s' res)
  case (TNode mm l n ts)
  have "I s \<Longrightarrow> visit_all v ts s = Ret (s', res) \<Longrightarrow> I s'" for s
    using TNode.IH
  proof (induction ts arbitrary: s)
    case (Cons t ts)
    have t: "I s1" if "visit v t s = Ret (s1, x)" for s1 x
      using Cons.prems(3) [of t s s1 x] Cons.prems(1) that by simp
    have ts: "I s'" if "I s1" "visit_all v ts s1 = Ret (s', res)" for s1
      using that by (rule Cons.IH) (rule Cons.prems(3), simp_all)
    from Cons.prems(2) show ?case by (auto split: run.splits sum.splits prod.splits intro: t ts)
  qed simp
  from this [of "note_mirror v mm l s"] show ?case
    using TNode.prems assms(4) by (simp add: note_mirror_def split: if_splits)
next
  case (TLeaf mm l lf)
  have "I (note_mirror v mm l s)" using TLeaf assms(4) by (simp add: note_mirror_def)
  from assms(1) [OF this] show ?case using TLeaf by simp
qed (use assms in \<open>auto simp: note_mirror_def lose_def split: if_splits loss.splits\<close>)

lemma stored_leaf_size:
  assumes "reader_ok r st" "stored E r cm b nr t" "lf \<in> set (tree_leaves t)"
  shows "length (leaf_buf lf) = node_size r"
  using assms(2,3)
proof (induction rule: stored.induct)
  case (st_leaf nr res lf')
  obtain buf where "node_parse buf = Ret (LeafNode lf')" "length buf = node_size r"
    using read_ref_node [OF assms(1) st_leaf.hyps(1-3)] st_leaf.hyps(4) by (metis option.inject)
  then show ?case
    using st_leaf.prems by (auto simp: node_parse_def run_bind_eq_Ret split: if_splits)
next
  case (st_node nr res n ts)
  then obtain t where "t \<in> set ts" "lf \<in> set (tree_leaves t)" by auto
  then show ?case using st_node.IH by (auto simp: list_all2_conv_all_nth in_set_conv_nth [of t ts])
qed simp_all

end
