(* ===== verification/Btrfs_Csum.thy ===== *)
theory Btrfs_Csum
  imports Btrfs_Tree Fs_Status "HOL-Library.Multiset"
begin

text \<open>
  The two streams a scrub walks: the device's extents out of the device tree
  (\<open>src/scrub-rs/src/btrfs/dev_extent.rs\<close>) and the stored checksums of a logical range out of the
  checksum tree (\<open>src/scrub-rs/src/btrfs/csum.rs\<close>). The consumer's callback runs after the walk, over
  the sorted entries, so a range call returns them as a list. The source sorts unstably; the sort of
  the model is stable, which differs only among entries for one sector.
\<close>

subsection \<open>Device extents\<close>

record dev_extent =
  dx_devid :: nat
  phys_start :: nat
  dx_length :: nat
  chunk_offset :: nat

record meta_errors =
  me_header :: nat
  me_mirror :: nat
  me_read :: nat

text \<open>The walk callback's loop over the slots of a leaf, from slot \<open>i\<close> on.\<close>

fun extents_of_slots ::
  "nat \<Rightarrow> leaf \<Rightarrow> nat list \<Rightarrow> dev_extent list \<Rightarrow> (dev_extent list \<times> (io_kind + unit)) run" where
  "extents_of_slots devid lf [] out = Ret (out, Inr ())"
| "extents_of_slots devid lf (i # js) out =
     (let k = slot_key (slots lf ! i) in
      if key_ty k \<noteq> DEV_EXTENT_KEY then extents_of_slots devid lf js out
      else if objectid k \<noteq> devid then extents_of_slots devid lf js out
      else run_bind (item_data lf i) (\<lambda>dat.
        if length dat < 32 then Ret (out, Inl InvalidData)
        else run_bind (le_u64 dat 16) (\<lambda>co. run_bind (le_u64 dat 24) (\<lambda>len.
          extents_of_slots devid lf js
            (out @ [\<lparr>dx_devid = devid, phys_start = key_offset k, dx_length = len, chunk_offset = co\<rparr>])))))"

definition extent_visitor :: "nat \<Rightarrow> (dev_extent list \<times> meta_errors) visitor" where
  "extent_visitor devid =
     \<lparr>on_leaf = (\<lambda>lf _ (out, me). run_bind (extents_of_slots devid lf [0..<length (slots lf)] out)
                   (\<lambda>(out', res). Ret ((out', me), res))),
      on_metadata_error = (\<lambda>_ (out, me). (out, me\<lparr>me_header := me_header me + 1\<rparr>)),
      on_stale = (\<lambda>_ s. s),
      on_mirror_mismatch = (\<lambda>_ (out, me). (out, me\<lparr>me_mirror := me_mirror me + 1\<rparr>)),
      on_read_error = (\<lambda>_ (out, me). (out, me\<lparr>me_read := me_read me + 1\<rparr>))\<rparr>"

definition build_dev_extents ::
  "env \<Rightarrow> fs_reader \<Rightarrow> chunk_map \<Rightarrow> nat \<Rightarrow> nat \<Rightarrow> meta_errors \<Rightarrow> (meta_errors \<times> (io_kind + dev_extent list)) run option" where
  "build_dev_extents E r cm dev_tree_root devid me =
     map_option (\<lambda>m. run_bind m (\<lambda>((out, me'), res).
         Ret (me', case res of Inl e \<Rightarrow> Inl e | Inr u \<Rightarrow> Inr out)))
       (walk_leaves E r cm dev_tree_root (extent_visitor devid) ([], me))"

subsection \<open>The checksum provider\<close>

record csum_provider =
  pv_reader :: fs_reader
  pv_chunk_map :: chunk_map
  pv_strategy :: csum_strategy
  pv_csum_root :: nat
  pv_metadata_errors :: nat
  pv_mirror_mismatches :: nat
  pv_read_errors :: nat
  pv_stale_branches :: nat
  reported_stale :: "nat set"
  reported_header :: "nat set"
  reported_mirror :: "nat set"
  reported_read :: "nat set"

definition new_provider ::
  "disk \<Rightarrow> nat \<Rightarrow> nat \<Rightarrow> csum_strategy \<Rightarrow> nat \<Rightarrow> bytes \<Rightarrow> chunk_map \<Rightarrow> nat \<Rightarrow> csum_provider" where
  "new_provider file nsize base st devid fsid cm root =
     \<lparr>pv_reader = with_fsid fsid (with_devid devid (new_reader file nsize base (Some st))),
      pv_chunk_map = cm, pv_strategy = st, pv_csum_root = root, pv_metadata_errors = 0,
      pv_mirror_mismatches = 0, pv_read_errors = 0, pv_stale_branches = 0, reported_stale = {},
      reported_header = {}, reported_mirror = {}, reported_read = {}\<rparr>"

text \<open>The walk's state: the provider, the live counters and the entries collected so far.\<close>

type_synonym range_state = "csum_provider \<times> status_counters option \<times> (nat \<times> bytes) list"

definition report_header :: "nat \<Rightarrow> range_state \<Rightarrow> range_state" where
  "report_header logical s =
     (case s of (p, c, es) \<Rightarrow>
        if logical \<in> reported_header p then s
        else (p\<lparr>reported_header := insert logical (reported_header p), pv_metadata_errors := pv_metadata_errors p + 1\<rparr>,
              map_option (\<lambda>c. c\<lparr>c_metadata_header_errors := c_metadata_header_errors c + 1\<rparr>) c, es))"

definition report_stale :: "nat \<Rightarrow> range_state \<Rightarrow> range_state" where
  "report_stale logical s =
     (case s of (p, c, es) \<Rightarrow>
        if logical \<in> reported_stale p then s
        else (p\<lparr>reported_stale := insert logical (reported_stale p), pv_stale_branches := pv_stale_branches p + 1\<rparr>,
              map_option (\<lambda>c. c\<lparr>c_stale_csum_branches := c_stale_csum_branches c + 1\<rparr>) c, es))"

definition report_mirror :: "nat \<Rightarrow> range_state \<Rightarrow> range_state" where
  "report_mirror logical s =
     (case s of (p, c, es) \<Rightarrow>
        if logical \<in> reported_mirror p then s
        else (p\<lparr>reported_mirror := insert logical (reported_mirror p), pv_mirror_mismatches := pv_mirror_mismatches p + 1\<rparr>,
              map_option (\<lambda>c. c\<lparr>c_metadata_mirror_mismatches := c_metadata_mirror_mismatches c + 1\<rparr>) c, es))"

definition report_read :: "nat \<Rightarrow> range_state \<Rightarrow> range_state" where
  "report_read logical s =
     (case s of (p, c, es) \<Rightarrow>
        if logical \<in> reported_read p then s
        else (p\<lparr>reported_read := insert logical (reported_read p), pv_read_errors := pv_read_errors p + 1\<rparr>,
              map_option (\<lambda>c. c\<lparr>c_metadata_read_errors := c_metadata_read_errors c + 1\<rparr>) c, es))"

text \<open>The entries of one item that lie in the range, and of the slots of a leaf.\<close>

definition item_csums :: "nat \<Rightarrow> nat \<Rightarrow> nat \<Rightarrow> nat \<Rightarrow> nat \<Rightarrow> bytes \<Rightarrow> (nat \<times> bytes) list" where
  "item_csums hlen ssize lo hi item_lo dat =
     (let n = length dat div hlen; item_hi = add64 item_lo (mul64 n ssize) in
      if item_hi \<le> lo \<or> item_lo \<ge> hi then []
      else concat (map (\<lambda>s. let logical = add64 item_lo (mul64 s ssize) in
             if logical < lo \<or> logical \<ge> hi then [] else [(logical, take hlen (drop (s * hlen) dat))]) [0..<n]))"

fun csums_of_slots ::
  "nat \<Rightarrow> nat \<Rightarrow> nat \<Rightarrow> nat \<Rightarrow> leaf \<Rightarrow> nat list \<Rightarrow> (nat \<times> bytes) list \<Rightarrow> (nat \<times> bytes) list run" where
  "csums_of_slots hlen ssize lo hi lf [] es = Ret es"
| "csums_of_slots hlen ssize lo hi lf (i # js) es =
     (let k = slot_key (slots lf ! i) in
      if key_ty k \<noteq> EXTENT_CSUM then csums_of_slots hlen ssize lo hi lf js es
      else run_bind (item_data lf i) (\<lambda>dat.
        csums_of_slots hlen ssize lo hi lf js (es @ item_csums hlen ssize lo hi (key_offset k) dat)))"

definition csum_visitor :: "nat \<Rightarrow> nat \<Rightarrow> nat \<Rightarrow> nat \<Rightarrow> range_state visitor" where
  "csum_visitor hlen ssize lo hi =
     \<lparr>on_leaf = (\<lambda>lf _ (p, c, es). run_bind (csums_of_slots hlen ssize lo hi lf [0..<length (slots lf)] es)
                   (\<lambda>es'. Ret ((p, c, es'), Inr ()))),
      on_metadata_error = report_header, on_stale = report_stale,
      on_mirror_mismatch = report_mirror, on_read_error = report_read\<rparr>"

definition range_bounds :: "csum_provider \<Rightarrow> nat \<Rightarrow> nat \<Rightarrow> key \<times> key" where
  "range_bounds p lo hi =
     (let span = mul64 (node_size (pv_reader p) div hash_len (pv_strategy p)) (st_sector_size (pv_strategy p))
      in (Key EXTENT_CSUM_OBJECTID EXTENT_CSUM (lo - span), Key EXTENT_CSUM_OBJECTID EXTENT_CSUM hi))"

text \<open>
  The error of the walk is dropped: the reports have counted it. Entries at the same address keep the
  order of the walk, one of the orders the source's unstable sort may leave them in.
\<close>

definition csum_range ::
  "env \<Rightarrow> csum_provider \<Rightarrow> nat \<Rightarrow> nat \<Rightarrow> status_counters option \<Rightarrow> range_state run option" where
  "csum_range E p lo hi counters =
     (if hash_len (pv_strategy p) = 0 then Some Panic
      else map_option (\<lambda>m. run_bind m (\<lambda>((p', c', es), _). Ret (p', c', sort_key fst es)))
        (walk_leaves_range E (pv_reader p) (pv_chunk_map p) (pv_csum_root p) (fst (range_bounds p lo hi))
           (snd (range_bounds p lo hi))
           (csum_visitor (hash_len (pv_strategy p)) (st_sector_size (pv_strategy p)) lo hi) (p, counters, [])))"

subsection \<open>What a range call streams\<close>

text \<open>All checksums of an item and of a tree, without range, pruning or wrap-around.\<close>

definition all_csums :: "nat \<Rightarrow> nat \<Rightarrow> nat \<Rightarrow> bytes \<Rightarrow> (nat \<times> bytes) list" where
  "all_csums hlen ssize item_lo dat =
     map (\<lambda>s. (item_lo + s * ssize, take hlen (drop (s * hlen) dat))) [0..<length dat div hlen]"

definition item_bytes :: "leaf \<times> nat \<Rightarrow> bytes" where
  "item_bytes it = (case item_data (fst it) (snd it) of Ret b \<Rightarrow> b | Panic \<Rightarrow> [])"

definition tree_csums :: "nat \<Rightarrow> nat \<Rightarrow> btree \<Rightarrow> (nat \<times> bytes) list" where
  "tree_csums hlen ssize t =
     concat (map (\<lambda>it. all_csums hlen ssize (key_offset (item_key it)) (item_bytes it))
       (filter (\<lambda>it. key_ty (item_key it) = EXTENT_CSUM) (tree_items t)))"

text \<open>
  A checksum tree the kernel writes: ordered, every node parses, item data inside the node, every checksum
  item under the checksum object id and its span below \<open>2 ^ 64\<close>. Subtrees may be lost.
\<close>

fun no_panic :: "btree \<Rightarrow> bool" where
  "no_panic (TNode mm l n ts) = list_all no_panic ts"
| "no_panic TPanic = False"
| "no_panic t = True"

definition csum_item_ok :: "nat \<Rightarrow> nat \<Rightarrow> leaf \<times> nat \<Rightarrow> bool" where
  "csum_item_ok hlen ssize it \<longleftrightarrow>
     (key_ty (item_key it) = EXTENT_CSUM \<longrightarrow>
        item_data (fst it) (snd it) \<noteq> Panic \<and> objectid (item_key it) = EXTENT_CSUM_OBJECTID \<and>
        key_offset (item_key it) + (length (item_bytes it) div hlen) * ssize < 2 ^ 64)"

definition csum_tree_ok :: "nat \<Rightarrow> nat \<Rightarrow> btree \<Rightarrow> bool" where
  "csum_tree_ok hlen ssize t \<longleftrightarrow>
     ordered t \<and> no_panic t \<and> (\<forall>it \<in> set (tree_items t). csum_item_ok hlen ssize it)"

text \<open>What one item adds to a range call.\<close>

definition contrib :: "nat \<Rightarrow> nat \<Rightarrow> nat \<Rightarrow> nat \<Rightarrow> leaf \<times> nat \<Rightarrow> (nat \<times> bytes) list" where
  "contrib hlen ssize lo hi it =
     (if key_ty (item_key it) = EXTENT_CSUM
      then item_csums hlen ssize lo hi (key_offset (item_key it)) (item_bytes it) else [])"

definition in_span :: "nat \<Rightarrow> nat \<Rightarrow> nat \<times> bytes \<Rightarrow> bool" where
  "in_span lo hi e \<longleftrightarrow> lo \<le> fst e \<and> fst e < hi"

lemma concat_singletons: "concat (map (\<lambda>x. if P x then [] else [f x]) xs) = map f (filter (\<lambda>x. \<not> P x) xs)"
  by (induction xs) auto

lemma item_csums_filter:
  assumes "item_lo + (length dat div hlen) * ssize < 2 ^ 64" "0 < ssize"
  shows "item_csums hlen ssize lo hi item_lo dat = filter (in_span lo hi) (all_csums hlen ssize item_lo dat)"
proof -
  let ?n = "length dat div hlen"
  have le: "s * ssize \<le> ?n * ssize" if "s \<le> ?n" for s using that by (rule mult_le_mono1)
  have id: "add64 item_lo (mul64 s ssize) = item_lo + s * ssize" if "s \<le> ?n" for s
  proof -
    have "s * ssize < 2 ^ 64" "item_lo + s * ssize < 2 ^ 64" using le [OF that] assms(1) by linarith+
    then show ?thesis by simp
  qed
  have "concat (map (\<lambda>s. let logical = add64 item_lo (mul64 s ssize) in
             if logical < lo \<or> logical \<ge> hi then [] else [(logical, take hlen (drop (s * hlen) dat))]) [0..<?n]) =
        concat (map (\<lambda>s. if item_lo + s * ssize < lo \<or> item_lo + s * ssize \<ge> hi then []
             else [(item_lo + s * ssize, take hlen (drop (s * hlen) dat))]) [0..<?n])"
    by (intro arg_cong [of _ _ concat] map_cong refl) (simp add: id)
  also have "\<dots> = filter (in_span lo hi) (all_csums hlen ssize item_lo dat)"
    by (simp add: concat_singletons all_csums_def filter_map comp_def in_span_def not_less not_le conj_commute)
  finally have body: "concat (map (\<lambda>s. let logical = add64 item_lo (mul64 s ssize) in
             if logical < lo \<or> logical \<ge> hi then [] else [(logical, take hlen (drop (s * hlen) dat))]) [0..<?n]) =
      filter (in_span lo hi) (all_csums hlen ssize item_lo dat)" .
  have out: "filter (in_span lo hi) (all_csums hlen ssize item_lo dat) = []"
    if "item_lo + ?n * ssize \<le> lo \<or> hi \<le> item_lo"
  proof -
    have "item_lo + s * ssize < lo \<or> hi \<le> item_lo + s * ssize" if s: "s < ?n" for s
    proof -
      have "s * ssize < ?n * ssize" using s assms(2) by simp
      with \<open>item_lo + ?n * ssize \<le> lo \<or> hi \<le> item_lo\<close> show ?thesis by linarith
    qed
    then show ?thesis by (fastforce simp: all_csums_def filter_empty_conv in_span_def)
  qed
  show ?thesis unfolding item_csums_def Let_def id [OF le_refl] using body out by (auto simp: Let_def)
qed

lemma csums_of_slots_eq:
  assumes "\<forall>i \<in> set js. csum_item_ok hlen ssize (lf, i)"
  shows "csums_of_slots hlen ssize lo hi lf js es = Ret (es @ concat (map (\<lambda>i. contrib hlen ssize lo hi (lf, i)) js))"
  using assms
proof (induction js arbitrary: es)
  case (Cons i js)
  show ?case
  proof (cases "key_ty (slot_key (slots lf ! i)) = EXTENT_CSUM")
    case True
    then obtain b where b: "item_data lf i = Ret b" using Cons.prems
      by (cases "item_data lf i") (auto simp: csum_item_ok_def item_key_def)
    with True Cons show ?thesis by (simp add: Let_def contrib_def item_key_def item_bytes_def)
  qed (use Cons in \<open>simp add: Let_def contrib_def item_key_def\<close>)
qed simp

lemma report_entries [simp]:
  "snd (snd (report_header l s)) = snd (snd s)" "snd (snd (report_stale l s)) = snd (snd s)"
  "snd (snd (report_mirror l s)) = snd (snd s)" "snd (snd (report_read l s)) = snd (snd s)"
  by (auto simp: report_header_def report_stale_def report_mirror_def report_read_def split: prod.splits)

lemma note_mirror_entries: "snd (snd (note_mirror (csum_visitor h z lo hi) mm l s)) = snd (snd s)"
  by (simp add: note_mirror_def csum_visitor_def)

lemma visit_csums:
  assumes "no_panic t" "\<forall>it \<in> set (tree_items t). csum_item_ok hlen ssize it"
  shows "\<exists>p' c'. visit (csum_visitor hlen ssize lo hi) t s =
    Ret ((p', c', snd (snd s) @ concat (map (contrib hlen ssize lo hi) (tree_items t))), Inr ())"
  using assms
proof (induction t arbitrary: s)
  case (TLeaf mm l lf)
  obtain p c es where s1: "note_mirror (csum_visitor hlen ssize lo hi) mm l s = (p, c, es)"
    by (metis prod_cases3)
  then have es: "es = snd (snd s)" using note_mirror_entries [of hlen ssize lo hi mm l s] by simp
  have "\<forall>i \<in> set [0..<length (slots lf)]. csum_item_ok hlen ssize (lf, i)"
    using TLeaf.prems by (simp add: tree_items_def leaf_items_def)
  then show ?case
    by (simp add: s1) (simp add: csum_visitor_def csums_of_slots_eq es tree_items_def leaf_items_def comp_def)
next
  case (TNode mm l n ts)
  have "\<exists>p' c'. visit_all (csum_visitor hlen ssize lo hi) ts s =
    Ret ((p', c', snd (snd s) @ concat (map (contrib hlen ssize lo hi) (concat (map tree_items ts)))), Inr ())" for s
    using TNode
  proof (induction ts arbitrary: s)
    case Nil
    then show ?case by (cases s) simp
  next
    case (Cons t ts)
    obtain p' c' where "visit (csum_visitor hlen ssize lo hi) t s =
        Ret ((p', c', snd (snd s) @ concat (map (contrib hlen ssize lo hi) (tree_items t))), Inr ())"
      using Cons.prems(1) [of t s] Cons.prems(2,3) by auto
    moreover obtain p'' c'' where "visit_all (csum_visitor hlen ssize lo hi) ts
         (p', c', snd (snd s) @ concat (map (contrib hlen ssize lo hi) (tree_items t))) =
        Ret ((p'', c'', (snd (snd s) @ concat (map (contrib hlen ssize lo hi) (tree_items t))) @
          concat (map (contrib hlen ssize lo hi) (concat (map tree_items ts)))), Inr ())"
      using Cons.IH [of "(p', c', snd (snd s) @ concat (map (contrib hlen ssize lo hi) (tree_items t)))"] Cons.prems
      by auto
    ultimately show ?case by simp
  qed
  from this [of "note_mirror (csum_visitor hlen ssize lo hi) mm l s"] show ?case
    by (simp add: note_mirror_entries)
next
  case (TLost k l)
  have "snd (snd (lose (csum_visitor hlen ssize lo hi) k l s)) = snd (snd s)"
    by (cases k) (simp_all add: lose_def csum_visitor_def)
  then show ?case by (auto simp: tree_items_def) (metis prod.collapse)
qed simp

lemma contrib_out_of_bounds:
  assumes "csum_item_ok hlen ssize it" "length (item_bytes it) \<le> node_size (pv_reader p)"
    and "hash_len (pv_strategy p) = hlen" "st_sector_size (pv_strategy p) = ssize" "0 < ssize"
    and "node_size (pv_reader p) < 2 ^ 32" "ssize < 2 ^ 32"
    and "\<not> in_bounds (range_bounds p lo hi) it"
  shows "contrib hlen ssize lo hi it = []"
proof (cases "key_ty (item_key it) = EXTENT_CSUM")
  case True
  let ?off = "key_offset (item_key it)" and ?n = "length (item_bytes it) div hlen" and ?N = "node_size (pv_reader p) div hlen"
  have ok: "objectid (item_key it) = EXTENT_CSUM_OBJECTID" "?off + ?n * ssize < 2 ^ 64"
    using assms(1) True by (simp_all add: csum_item_ok_def)
  have "?N * ssize \<le> 2 ^ 32 * ssize" using assms(6) by (intro mult_le_mono1) (meson div_le_dividend le_trans less_imp_le)
  also have "\<dots> < 2 ^ 64" using assms(7) by simp
  finally have span: "mul64 ?N ssize = ?N * ssize" by simp
  have "?n * ssize \<le> ?N * ssize" using assms(2) by (intro mult_le_mono1 div_le_mono)
  moreover have "?off < lo - ?N * ssize \<or> hi \<le> ?off"
    using assms(8) ok True span assms(3,4)
    by (cases "item_key it") (auto simp: in_bounds_def range_bounds_def Let_def less_eq_key_def less_key_def)
  ultimately have "?off + ?n * ssize \<le> lo \<or> hi \<le> ?off" by linarith
  moreover have "add64 ?off (mul64 ?n ssize) = ?off + ?n * ssize" using ok(2) by simp
  ultimately show ?thesis by (auto simp: contrib_def item_csums_def Let_def)
qed (simp add: contrib_def)

subsection \<open>Each damaged node is counted once\<close>

definition provider_inv :: "csum_provider \<Rightarrow> bool" where
  "provider_inv p \<longleftrightarrow>
     finite (reported_header p) \<and> pv_metadata_errors p = card (reported_header p) \<and>
     finite (reported_stale p) \<and> pv_stale_branches p = card (reported_stale p) \<and>
     finite (reported_mirror p) \<and> pv_mirror_mismatches p = card (reported_mirror p) \<and>
     finite (reported_read p) \<and> pv_read_errors p = card (reported_read p)"

definition same_source :: "csum_provider \<Rightarrow> csum_provider \<Rightarrow> bool" where
  "same_source p q \<longleftrightarrow> pv_reader q = pv_reader p \<and> pv_chunk_map q = pv_chunk_map p \<and>
     pv_strategy q = pv_strategy p \<and> pv_csum_root q = pv_csum_root p"

lemma new_provider_inv: "provider_inv (new_provider f n b st d fsid cm root)"
  by (simp add: provider_inv_def new_provider_def)

lemma visit_csum_inv:
  assumes "visit (csum_visitor h z lo hi) t s = Ret (s', res)" "provider_inv (fst s)"
  shows "provider_inv (fst s') \<and> same_source (fst s) (fst s')"
proof (rule visit_keeps [of "\<lambda>x. provider_inv (fst x) \<and> same_source (fst s) (fst x)", OF _ _ _ _ _ _ assms(1)])
  show "provider_inv (fst s) \<and> same_source (fst s) (fst s)" using assms(2) by (simp add: same_source_def)
qed (auto simp: csum_visitor_def report_header_def report_stale_def report_mirror_def report_read_def
    provider_inv_def same_source_def run_bind_eq_Ret split: prod.splits if_splits)

lemma no_panic_prune: "ordered t \<Longrightarrow> no_panic t \<Longrightarrow> no_panic (prune b t)"
proof (induction t)
  case (TNode mm l n ts)
  have "no_panic (map (prune b) ts ! i)" if "i \<in> set (kept_children (Some b) n)" for i
  proof -
    have "i < length ts" using that TNode.prems by (simp add: kept_children_def)
    then show ?thesis using TNode by (simp add: list_all_length)
  qed
  then show ?case by (simp add: list_all_iff)
qed simp_all

lemma concat_map_filter:
  assumes "\<And>x. x \<in> set xs \<Longrightarrow> \<not> P x \<Longrightarrow> f x = []"
  shows "concat (map f xs) = concat (map f (filter P xs))"
  using assms by (induction xs) auto

lemma tree_contribs:
  assumes "\<forall>it \<in> set (tree_items t). csum_item_ok hlen ssize it" "0 < ssize"
  shows "concat (map (contrib hlen ssize lo hi) (tree_items t)) = filter (in_span lo hi) (tree_csums hlen ssize t)"
proof -
  have "concat (map (contrib hlen ssize lo hi) xs) = filter (in_span lo hi)
     (concat (map (\<lambda>it. all_csums hlen ssize (key_offset (item_key it)) (item_bytes it))
       (filter (\<lambda>it. key_ty (item_key it) = EXTENT_CSUM) xs)))" if "\<forall>it \<in> set xs. csum_item_ok hlen ssize it" for xs
    using that
  proof (induction xs)
    case (Cons x xs)
    then show ?case
      using item_csums_filter [OF _ assms(2), of "key_offset (item_key x)" "item_bytes x" hlen]
      by (simp add: contrib_def csum_item_ok_def)
  qed simp
  from this [OF assms(1)] show ?thesis by (simp add: tree_csums_def)
qed

lemma item_bytes_size:
  assumes "reader_ok r st" "stored E r cm b nr t" "it \<in> set (tree_items t)"
  shows "length (item_bytes it) \<le> node_size r"
proof -
  obtain lf where "lf \<in> set (tree_leaves t)" "fst it = lf"
    using assms(3) by (auto simp: tree_items_def leaf_items_def)
  with stored_leaf_size [OF assms(1,2)] show ?thesis
    by (auto simp: item_bytes_def item_data_def slice_def split: run.splits if_splits)
qed

definition csum_source_ok :: "env \<Rightarrow> csum_provider \<Rightarrow> btree \<Rightarrow> bool" where
  "csum_source_ok E p t \<longleftrightarrow>
     (\<exists>st. reader_ok (pv_reader p) st) \<and> node_size (pv_reader p) < 2 ^ 32 \<and>
     0 < hash_len (pv_strategy p) \<and> 0 < st_sector_size (pv_strategy p) \<and> st_sector_size (pv_strategy p) < 2 ^ 32 \<and>
     stored E (pv_reader p) (pv_chunk_map p) None (root_ref (pv_csum_root p)) t \<and>
     csum_tree_ok (hash_len (pv_strategy p)) (st_sector_size (pv_strategy p)) t"

text \<open>The walk of a range call, with the traversal of the pruned tree computed.\<close>

lemma csum_range_stream:
  assumes "csum_source_ok E p t" "provider_inv p"
  shows "\<exists>p' c'. csum_range E p lo hi c = Some (Ret (p', c', sort_key fst (filter (in_span lo hi)
        (tree_csums (hash_len (pv_strategy p)) (st_sector_size (pv_strategy p)) t)))) \<and>
    provider_inv p' \<and> same_source p p'"
proof -
  let ?h = "hash_len (pv_strategy p)" and ?z = "st_sector_size (pv_strategy p)" and ?b = "range_bounds p lo hi"
  let ?v = "csum_visitor ?h ?z lo hi" and ?t = "prune ?b t"
  obtain st where ok: "reader_ok (pv_reader p) st" and sizes: "node_size (pv_reader p) < 2 ^ 32" "0 < ?h" "0 < ?z" "?z < 2 ^ 32"
    and sto: "stored E (pv_reader p) (pv_chunk_map p) None (root_ref (pv_csum_root p)) t"
    and tree: "ordered t" "no_panic t" "\<forall>it \<in> set (tree_items t). csum_item_ok ?h ?z it"
    using assms(1) by (auto simp: csum_source_ok_def csum_tree_ok_def)
  have items: "\<forall>it \<in> set (tree_items ?t). csum_item_ok ?h ?z it"
    using prune_items_subset [OF tree(1)] tree(3) by blast
  have nil: "contrib ?h ?z lo hi it = []" if "it \<in> set (tree_items t)" "\<not> in_bounds ?b it" for it
    using contrib_out_of_bounds [OF _ item_bytes_size [OF ok sto that(1)] refl refl sizes(3,1,4) that(2)] tree(3) that(1) by blast
  have "concat (map (contrib ?h ?z lo hi) (tree_items ?t)) =
      concat (map (contrib ?h ?z lo hi) (filter (in_bounds ?b) (tree_items ?t)))"
    using nil prune_items_subset [OF tree(1)] by (intro concat_map_filter) blast
  also have "\<dots> = concat (map (contrib ?h ?z lo hi) (filter (in_bounds ?b) (tree_items t)))"
    by (simp add: prune_items [OF tree(1)])
  also have "\<dots> = filter (in_span lo hi) (tree_csums ?h ?z t)"
    using nil by (subst concat_map_filter [symmetric]) (auto simp: tree_contribs [OF tree(3) sizes(3)])
  finally have con: "concat (map (contrib ?h ?z lo hi) (tree_items ?t)) = filter (in_span lo hi) (tree_csums ?h ?z t)" .
  obtain p' c' where vis: "visit ?v ?t (p, c, []) = Ret ((p', c', filter (in_span lo hi) (tree_csums ?h ?z t)), Inr ())"
    using visit_csums [OF no_panic_prune [OF tree(1,2)] items, of lo hi "(p, c, [])"] con by auto
  have "and_then m (walk_loop E (pv_reader p) (pv_chunk_map p) (Some ?b) ?v []) = Some m" for m
    by (auto simp: and_then_def split: run.splits prod.splits sum.splits)
  then have walk: "walk_leaves_range E (pv_reader p) (pv_chunk_map p) (pv_csum_root p) (fst ?b) (snd ?b) ?v (p, c, []) =
      Some (visit ?v ?t (p, c, []))"
    unfolding walk_leaves_range_def walk_leaves_impl_def by (simp add: walk_loop_stored [OF stored_prune [OF sto]])
  show ?thesis
    using visit_csum_inv [OF vis] assms(2) sizes(2) walk vis by (simp add: csum_range_def)
qed


text \<open>
  A device that holds a checksum tree of one leaf with one item, the checksums of the sectors at 8192 and
  12288, and then two sectors of data.
\<close>

definition demo_slot :: leaf_item_slot where
  "demo_slot = \<lparr>slot_key = Key EXTENT_CSUM_OBJECTID EXTENT_CSUM 8192, data_offset = 25, data_size = 8\<rparr>"

definition demo_csum_buf :: bytes where
  "demo_csum_buf = enc_header (1 # zeros 31) (demo_header 0 (Suc 0)) @ concat (map enc_slot [demo_slot]) @ [1, 2, 3, 4, 5, 6, 7, 8]"

definition demo_csum_leaf :: leaf where
  "demo_csum_leaf = \<lparr>leaf_header = demo_header 0 (Suc 0), slots = [demo_slot], leaf_buf = demo_csum_buf\<rparr>"

definition demo_csum_map :: chunk_map where
  "demo_csum_map = [\<lparr>m_begin = 0x4000, m_end = 0x5000, m_ty = 4, m_stripes = [\<lparr>s_devid = 1, s_offset = 0\<rparr>]\<rparr>]"

definition demo_provider :: csum_provider where
  "demo_provider = new_provider (plain_disk (demo_csum_buf @ zeros 8192)) 134 0 demo_strategy 1 (zeros 16) demo_csum_map 0x4000"

lemma enc_slot_length: "length (enc_slot x) = 25"
  by (simp add: enc_slot_def enc_key_def)

lemma demo_header1_ok: "header_ok (demo_header 0 (Suc 0))"
  by (simp add: header_ok_def demo_header_def)

lemma demo_csum_buf_props:
  "length demo_csum_buf = 134" "take 4 demo_csum_buf = le_bytes 4 (Suc 0)"
  "header_parse demo_csum_buf = Ret (demo_header 0 (Suc 0))" "node_parse demo_csum_buf = Ret (LeafNode demo_csum_leaf)"
  "item_data demo_csum_leaf 0 = Ret [1, 2, 3, 4, 5, 6, 7, 8]"
proof -
  have hl: "length (enc_header (1 # zeros 31) (demo_header 0 (Suc 0))) = 101"
    using length_enc_header [OF demo_header1_ok, of "1 # zeros 31"] by (simp add: HEADER_SIZE_def)
  have sl: "length (enc_slot demo_slot) = 25" by (rule enc_slot_length)
  show "length demo_csum_buf = 134" by (simp add: demo_csum_buf_def hl sl)
  have "take 3 (zeros 31) = zeros 3" by (simp add: zeros_def)
  then show "take 4 demo_csum_buf = le_bytes 4 (Suc 0)"
    by (simp add: demo_csum_buf_def enc_header_def le_bytes_4_1 take_Cons' del: le_bytes.simps)
  show "header_parse demo_csum_buf = Ret (demo_header 0 (Suc 0))"
    unfolding demo_csum_buf_def by (rule header_parse_enc [OF demo_header1_ok]) simp
  have sok: "slot_ok demo_slot"
    by (simp add: slot_ok_def demo_slot_def key_ok_def EXTENT_CSUM_OBJECTID_def EXTENT_CSUM_def)
  have "parse_array slot_parse 25 demo_csum_buf 101 (Suc 0) = Ret [demo_slot]"
    unfolding demo_csum_buf_def
    by (rule parse_array_enc [of slot_ok slot_parse enc_slot 25 "[demo_slot]" "Suc 0" 101])
      (simp_all add: slot_parse_enc sok hl enc_slot_length)
  then show "node_parse demo_csum_buf = Ret (LeafNode demo_csum_leaf)"
    using \<open>header_parse demo_csum_buf = Ret (demo_header 0 (Suc 0))\<close>
    by (simp add: node_parse_def demo_csum_leaf_def HEADER_SIZE_def LEAF_ITEM_SIZE_def demo_header_def)
  show "item_data demo_csum_leaf 0 = Ret [1, 2, 3, 4, 5, 6, 7, 8]"
    by (simp add: item_data_def demo_csum_leaf_def slice_def HEADER_SIZE_def)
      (simp add: demo_slot_def demo_csum_buf_def hl sl [unfolded demo_slot_def])
qed

text \<open>The leaf reads back under every checksum that gives 1 for its header.\<close>

definition demo_header_hash :: "env \<Rightarrow> bool" where
  "demo_header_hash E \<longleftrightarrow> env_fault E = None \<and> (\<forall>b. length b < 4096 \<longrightarrow> crc32c (env_hashes E) b = 1)"

lemma demo_csum_leaf_read:
  assumes "demo_header_hash E"
  shows "read_ref E (pv_reader demo_provider) demo_csum_map (root_ref 0x4000) =
     Ret (Inr \<lparr>rn_node = Some (LeafNode demo_csum_leaf), all_mirrors_failed = False, generation_mismatch = False,
       mirror_mismatch = False\<rparr>)"
  and "reader_ok (pv_reader demo_provider) demo_strategy"
proof -
  let ?r = "pv_reader demo_provider"
  have rd: "fp ?r = plain_disk (demo_csum_buf @ zeros 8192)" "node_size ?r = 134" "base_offset ?r = 0" "rd_fsid ?r = Some (zeros 16)"
    by (simp_all add: demo_provider_def new_provider_def new_reader_def with_fsid_def with_devid_def)
  show ok: "reader_ok ?r demo_strategy"
    by (simp add: reader_ok_def rd HEADER_SIZE_def)
      (simp add: demo_provider_def new_provider_def new_reader_def with_fsid_def with_devid_def)
  have st: "node_stripes demo_csum_map 0x4000 = [(1, 0)]"
    by (simp add: node_stripes_def lookup_stripes_def chunk_find_def binary_search_by_def bs_loop.simps demo_csum_map_def
        range_cmp_def add64_def covers_def)
  have env: "env_fault E = None" "\<And>k. crc32c (env_hashes E) (drop k demo_csum_buf) = 1"
    using assms by (simp_all add: demo_header_hash_def demo_csum_buf_props)
  have ver: "verify_node_header (env_hashes E) demo_strategy demo_csum_buf = Ret True"
    by (simp add: verify_node_header_def verify_header_def csum_params_def hash_bytes_def demo_strategy_def env
        demo_csum_buf_props)
  have c: "copy_at E ?r demo_strategy 0x4000 (GEN_DONT_CHECK, None, None) 0 = GoodCopy demo_csum_buf"
    by (simp add: copy_at_def rd env pread_at_def read_exact_at_def plain_disk_def ver add64_def demo_csum_buf_props
        validate_header_def) (simp add: demo_header_def)
  show "read_ref E ?r demo_csum_map (root_ref 0x4000) =
     Ret (Inr \<lparr>rn_node = Some (LeafNode demo_csum_leaf), all_mirrors_failed = False, generation_mismatch = False,
       mirror_mismatch = False\<rparr>)"
    by (simp add: read_ref_def root_ref_def read_node_outcome [OF ok] st c node_outcome_def demo_csum_buf_props)
qed

lemma demo_env_header_hash: "demo_header_hash demo_env"
  by (simp add: demo_header_hash_def demo_env_def)

lemmas demo_csum_read = demo_csum_leaf_read [OF demo_env_header_hash]

lemma demo_tree_items: "tree_items (TLeaf mm l demo_csum_leaf) = [(demo_csum_leaf, 0)]"
  by (simp add: tree_items_def leaf_items_def demo_csum_leaf_def)

lemma demo_item: "item_key (demo_csum_leaf, 0) = Key EXTENT_CSUM_OBJECTID EXTENT_CSUM 8192"
  "item_bytes (demo_csum_leaf, 0) = [1, 2, 3, 4, 5, 6, 7, 8]"
  by (simp_all add: item_key_def item_bytes_def demo_csum_buf_props) (simp add: demo_csum_leaf_def demo_slot_def)

lemma demo_leaf_source:
  assumes "demo_header_hash E"
  shows "csum_source_ok E demo_provider (TLeaf False 0x4000 demo_csum_leaf)"
proof -
  have "stored E (pv_reader demo_provider) demo_csum_map None (root_ref 0x4000) (TLeaf False 0x4000 demo_csum_leaf)"
    using st_leaf [OF demo_csum_leaf_read(1) [OF assms]] by simp
  moreover have "pv_chunk_map demo_provider = demo_csum_map" "pv_csum_root demo_provider = 0x4000"
      "pv_strategy demo_provider = demo_strategy" "node_size (pv_reader demo_provider) = 134"
    by (simp_all add: demo_provider_def new_provider_def with_fsid_def with_devid_def new_reader_def)
  moreover have "csum_tree_ok 4 4096 (TLeaf False 0x4000 demo_csum_leaf)"
    by (simp add: csum_tree_ok_def csum_item_ok_def demo_tree_items demo_item demo_csum_buf_props)
  ultimately show ?thesis
    using demo_csum_read(2) by (auto simp: csum_source_ok_def demo_strategy_def)
qed

lemmas demo_source_ok = demo_leaf_source [OF demo_env_header_hash]


end
