(* ===== verification/Btrfs_Open.thy ===== *)
theory Btrfs_Open
  imports Btrfs_Csum
begin

text \<open>
  Opening a filesystem and reading its live roots (\<open>src/scrub-rs/src/btrfs/open.rs\<close>), and the
  write-time lookups that re-classify a mismatch (\<open>src/scrub-rs/src/btrfs/extent.rs\<close>). One call sees
  one state of the device. The descents are bounded by the sixteen iterations of the source.
\<close>

subsection \<open>File extents\<close>

definition TYPE_INLINE :: nat where "TYPE_INLINE = 0"

record file_extent =
  fe_inode :: nat
  fe_file_offset :: nat
  fe_extent_type :: nat
  fe_disk_bytenr :: nat
  fe_disk_num_bytes :: nat
  fe_offset :: nat
  fe_num_bytes :: nat

definition file_extent_parse :: "bytes \<Rightarrow> nat \<Rightarrow> nat \<Rightarrow> file_extent option run" where
  "file_extent_parse buf inode file_offset =
     (if length buf < 21 then Ret None
      else run_bind (byte_at buf 20) (\<lambda>ty.
        if ty = TYPE_INLINE then Ret None
        else if length buf < 21 + 32 then Ret None
        else run_bind (le_u64 buf 21) (\<lambda>bn. run_bind (le_u64 buf 29) (\<lambda>dn. run_bind (le_u64 buf 37) (\<lambda>off.
          run_bind (le_u64 buf 45) (\<lambda>nb.
            Ret (Some \<lparr>fe_inode = inode, fe_file_offset = file_offset, fe_extent_type = ty, fe_disk_bytenr = bn,
                       fe_disk_num_bytes = dn, fe_offset = off, fe_num_bytes = nb\<rparr>)))))))"

definition disk_start :: "file_extent \<Rightarrow> nat" where
  "disk_start fe = add64 (fe_disk_bytenr fe) (fe_offset fe)"

definition NODATASUM :: nat where "NODATASUM = 8"

subsection \<open>Live lookups\<close>

datatype extent_live = Live | Hole | NoDataSum | UnreadableExtent
datatype csum_live = LiveCsum bytes | NoCsum | UnreadableCsum

text \<open>\<open>slice::partition_point\<close>: the binary search for the first element that fails the predicate.\<close>

definition partition_point :: "('a \<Rightarrow> bool) \<Rightarrow> 'a list \<Rightarrow> nat" where
  "partition_point P xs =
     (if xs = [] then 0
      else let i = bs_loop (\<lambda>x. if P x then Less else Greater) xs 0 (length xs)
           in i + (if P (xs ! i) then 1 else 0))"

definition key_leq :: "key \<Rightarrow> key \<Rightarrow> bool" where
  "key_leq a b \<longleftrightarrow> objectid a < objectid b \<or> objectid a = objectid b \<and>
     (key_ty a < key_ty b \<or> key_ty a = key_ty b \<and> key_offset a \<le> key_offset b)"

definition extent_is_nodatasum :: "leaf \<Rightarrow> nat \<Rightarrow> bool run" where
  "extent_is_nodatasum lf idx =
     run_bind (item_data lf idx) (\<lambda>dat.
       if length dat < 24 then Ret False
       else run_bind (slice dat 16 8) (\<lambda>b. Ret (le_nat b AND NODATASUM \<noteq> 0)))"

text \<open>The node a descent reads next, without expectations: \<open>None\<close> when no verified copy could be read.\<close>

definition descend_node :: "env \<Rightarrow> fs_reader \<Rightarrow> chunk_map \<Rightarrow> nat \<Rightarrow> node option run" where
  "descend_node E r cm logical =
     run_bind (read_node E r cm logical GEN_DONT_CHECK None None) (\<lambda>res.
       case res of
         Inl e \<Rightarrow> Ret None
       | Inr rn \<Rightarrow> if all_mirrors_failed rn then Ret None
                  else (case rn_node rn of None \<Rightarrow> Panic | Some n \<Rightarrow> Ret (Some n)))"

definition extent_in_leaf :: "leaf \<Rightarrow> nat \<Rightarrow> key \<Rightarrow> extent_live run" where
  "extent_in_leaf lf logical target =
     (let count = partition_point (\<lambda>s. key_leq (slot_key s) target) (slots lf)
      in case find (\<lambda>i. key_ty (slot_key (slots lf ! i)) = EXTENT_ITEM) (rev [0..<count]) of
           None \<Rightarrow> Ret Hole
         | Some i \<Rightarrow>
             let k = slot_key (slots lf ! i) in
             if add64 (objectid k) (key_offset k) > logical
             then run_bind (extent_is_nodatasum lf i) (\<lambda>nd. Ret (if nd then NoDataSum else Live))
             else Ret Hole)"

fun extent_descend :: "env \<Rightarrow> fs_reader \<Rightarrow> chunk_map \<Rightarrow> nat \<Rightarrow> key \<Rightarrow> nat \<Rightarrow> nat \<Rightarrow> extent_live run" where
  "extent_descend E r cm logical target 0 node_logical = Ret UnreadableExtent"
| "extent_descend E r cm logical target (Suc depth) node_logical =
     run_bind (descend_node E r cm node_logical) (\<lambda>n.
       case n of
         None \<Rightarrow> Ret UnreadableExtent
       | Some (InternalNode i) \<Rightarrow>
           (let count = partition_point (\<lambda>p. key_leq (kp_key p) target) (ptrs i)
            in if count = 0 then Ret Hole
               else extent_descend E r cm logical target depth (blockptr (ptrs i ! (count - 1))))
       | Some (LeafNode lf) \<Rightarrow> extent_in_leaf lf logical target)"

definition extent_covers :: "env \<Rightarrow> fs_reader \<Rightarrow> chunk_map \<Rightarrow> nat \<Rightarrow> nat \<Rightarrow> extent_live run" where
  "extent_covers E r cm extent_root logical =
     extent_descend E r cm logical (Key logical EXTENT_ITEM (2 ^ 64 - 1)) 16 extent_root"

definition csum_in_leaf :: "leaf \<Rightarrow> nat \<Rightarrow> key \<Rightarrow> nat \<Rightarrow> nat \<Rightarrow> csum_live run" where
  "csum_in_leaf lf sector target hlen ssize =
     (let count = partition_point (\<lambda>s. key_leq (slot_key s) target) (slots lf)
      in if count = 0 then Ret NoCsum
         else let k = slot_key (slots lf ! (count - 1)) in
           if key_ty k \<noteq> EXTENT_CSUM then Ret NoCsum
           else run_bind (item_data lf (count - 1)) (\<lambda>dat.
             run_assert (hlen \<noteq> 0)
             (if length dat mod hlen \<noteq> 0 then Ret NoCsum
              else let run_start = key_offset k;
                       run_end = add64 run_start (mul64 (length dat div hlen) ssize)
                   in if run_start \<le> sector \<and> sector < run_end
                      then run_bind (slice dat ((sector - run_start) div ssize * hlen) hlen) (\<lambda>c. Ret (LiveCsum c))
                      else Ret NoCsum)))"

fun csum_descend :: "env \<Rightarrow> fs_reader \<Rightarrow> chunk_map \<Rightarrow> nat \<Rightarrow> key \<Rightarrow> nat \<Rightarrow> nat \<Rightarrow> nat \<Rightarrow> nat \<Rightarrow> csum_live run" where
  "csum_descend E r cm sector target hlen ssize 0 node_logical = Ret UnreadableCsum"
| "csum_descend E r cm sector target hlen ssize (Suc depth) node_logical =
     run_bind (descend_node E r cm node_logical) (\<lambda>n.
       case n of
         None \<Rightarrow> Ret UnreadableCsum
       | Some (InternalNode i) \<Rightarrow>
           (let count = partition_point (\<lambda>p. key_leq (kp_key p) target) (ptrs i)
            in if count = 0 then Ret NoCsum
               else csum_descend E r cm sector target hlen ssize depth (blockptr (ptrs i ! (count - 1))))
       | Some (LeafNode lf) \<Rightarrow> csum_in_leaf lf sector target hlen ssize)"

definition csum_at :: "env \<Rightarrow> fs_reader \<Rightarrow> chunk_map \<Rightarrow> nat \<Rightarrow> nat \<Rightarrow> nat \<Rightarrow> nat \<Rightarrow> csum_live run" where
  "csum_at E r cm csum_root logical hlen ssize =
     run_assert (ssize \<noteq> 0)
       (let sector = (logical div ssize) * ssize
        in csum_descend E r cm sector (Key EXTENT_CSUM_OBJECTID EXTENT_CSUM sector) hlen ssize 16 csum_root)"

definition reconfirm_mismatch ::
  "env \<Rightarrow> fs_reader \<Rightarrow> chunk_map \<Rightarrow> nat \<Rightarrow> nat \<Rightarrow> nat \<Rightarrow> bytes \<Rightarrow> nat \<Rightarrow> nat \<Rightarrow> reconfirm run" where
  "reconfirm_mismatch E r cm extent_root csum_root logical old_csum hlen ssize =
     run_bind (extent_covers E r cm extent_root logical) (\<lambda>x.
       case x of
         Hole \<Rightarrow> Ret Stale
       | NoDataSum \<Rightarrow> Ret Stale
       | UnreadableExtent \<Rightarrow> Ret Unverifiable
       | Live \<Rightarrow>
           run_bind (csum_at E r cm csum_root logical hlen ssize) (\<lambda>c.
             case c of
               NoCsum \<Rightarrow> Ret Stale
             | UnreadableCsum \<Rightarrow> Ret Unverifiable
             | LiveCsum live \<Rightarrow> Ret (if live = old_csum then Corruption else Stale)))"

subsection \<open>Opening a filesystem\<close>

record tree_roots =
  fs_root :: nat
  csum_root :: nat
  dev_tree_root :: "nat option"
  extent_tree_root :: "nat option"

record btrfs_context =
  ctx_reader :: fs_reader
  ctx_chunk_map :: chunk_map
  ctx_superblock :: superblock
  ctx_roots :: tree_roots
  ctx_strategy :: csum_strategy
  ctx_errors :: meta_errors

text \<open>The leaf callbacks of the two walks: chunk records, and the roots found so far.\<close>

fun chunks_of_slots :: "leaf \<Rightarrow> nat list \<Rightarrow> chunk_record list \<Rightarrow> chunk_record list run" where
  "chunks_of_slots lf [] out = Ret out"
| "chunks_of_slots lf (i # js) out =
     (let k = slot_key (slots lf ! i) in
      if key_ty k = CHUNK_ITEM then
        run_bind (item_data lf i) (\<lambda>dat. run_bind (chunk_parse dat) (\<lambda>ch.
          chunks_of_slots lf js (out @ [\<lparr>cr_logical = key_offset k, cr_chunk = ch\<rparr>])))
      else chunks_of_slots lf js out)"

record found_roots =
  found_fs :: "nat option"
  found_csum :: "nat option"
  found_dev :: "nat option"
  found_extent :: "nat option"

definition note_root :: "nat \<Rightarrow> nat \<Rightarrow> found_roots \<Rightarrow> found_roots" where
  "note_root oid bytenr fr =
     (if oid = FS_TREE then fr\<lparr>found_fs := Some bytenr\<rparr>
      else if oid = CSUM_TREE then fr\<lparr>found_csum := Some bytenr\<rparr>
      else if oid = DEV_TREE then fr\<lparr>found_dev := Some bytenr\<rparr>
      else if oid = EXTENT_TREE then fr\<lparr>found_extent := Some bytenr\<rparr>
      else fr)"

fun roots_of_slots :: "leaf \<Rightarrow> nat list \<Rightarrow> found_roots \<Rightarrow> found_roots run" where
  "roots_of_slots lf [] fr = Ret fr"
| "roots_of_slots lf (i # js) fr =
     (let k = slot_key (slots lf ! i) in
      if key_ty k = ROOT_ITEM then
        run_bind (item_data lf i) (\<lambda>dat. run_bind (root_item_parse dat) (\<lambda>ri.
          roots_of_slots lf js (note_root (objectid k) (ri_bytenr ri) fr)))
      else roots_of_slots lf js fr)"

text \<open>A visitor that collects from leaves and counts metadata errors; stale nodes are ignored.\<close>

definition collecting :: "(leaf \<Rightarrow> nat list \<Rightarrow> 'a \<Rightarrow> 'a run) \<Rightarrow> ('a \<times> meta_errors) visitor" where
  "collecting f =
     \<lparr>on_leaf = (\<lambda>lf _ (x, me). run_bind (f lf [0..<length (slots lf)] x) (\<lambda>x'. Ret ((x', me), Inr ()))),
      on_metadata_error = (\<lambda>_ (x, me). (x, me\<lparr>me_header := me_header me + 1\<rparr>)),
      on_stale = (\<lambda>_ s. s),
      on_mirror_mismatch = (\<lambda>_ (x, me). (x, me\<lparr>me_mirror := me_mirror me + 1\<rparr>)),
      on_read_error = (\<lambda>_ (x, me). (x, me\<lparr>me_read := me_read me + 1\<rparr>))\<rparr>"

definition no_roots :: found_roots where
  "no_roots = \<lparr>found_fs = None, found_csum = None, found_dev = None, found_extent = None\<rparr>"

definition finish_open ::
  "fs_reader \<Rightarrow> chunk_map \<Rightarrow> superblock \<Rightarrow> csum_strategy \<Rightarrow> found_roots \<Rightarrow> meta_errors \<Rightarrow> io_kind + btrfs_context" where
  "finish_open r cm sb st fr me =
     (case found_fs fr of
        None \<Rightarrow> Inl NotFound
      | Some f \<Rightarrow>
          (case found_csum fr of
             None \<Rightarrow> Inl NotFound
           | Some c \<Rightarrow>
               Inr \<lparr>ctx_reader = r, ctx_chunk_map = cm, ctx_superblock = sb,
                    ctx_roots = \<lparr>fs_root = f, csum_root = c, dev_tree_root = found_dev fr, extent_tree_root = found_extent fr\<rparr>,
                    ctx_strategy = st, ctx_errors = me\<rparr>))"

text \<open>The two walks after the superblock checks: the chunk tree over the system chunks, then the root tree.\<close>

definition load_trees ::
  "env \<Rightarrow> disk \<Rightarrow> nat \<Rightarrow> superblock \<Rightarrow> csum_strategy \<Rightarrow> meta_errors \<Rightarrow> chunk_record list \<Rightarrow> (io_kind + btrfs_context) run option" where
  "load_trees E f base sb st me sys =
     (let cm0 = fold (\<lambda>rec m. chunk_insert m rec) sys [];
          r = with_fsid (sb_fsid sb) (with_devid (sb_devid sb) (new_reader f (sb_node_size sb) base (Some st)))
      in walk_bind (walk_leaves E r cm0 (sb_chunk_root sb) (collecting chunks_of_slots) ([], me)) (\<lambda>((recs, me1), res1).
           case res1 of
             Inl e \<Rightarrow> Some (Ret (Inl e))
           | Inr u \<Rightarrow>
               (let cm = fold (\<lambda>rec m. chunk_insert m rec) recs cm0
                in case validate_data_profiles cm of
                     Inl bad \<Rightarrow> Some (Ret (Inl InvalidData))
                   | Inr u' \<Rightarrow>
                       walk_bind (walk_leaves E r cm (sb_root sb) (collecting roots_of_slots) (no_roots, me1))
                         (\<lambda>((fr, me2), res2).
                            case res2 of
                              Inl e \<Rightarrow> Some (Ret (Inl e))
                            | Inr u'' \<Rightarrow> Some (Ret (finish_open r cm sb st fr me2))))))"

definition open_fs :: "env \<Rightarrow> disks \<Rightarrow> path \<Rightarrow> nat \<Rightarrow> (io_kind + btrfs_context) run option" where
  "open_fs E w dev base =
     (case file_open w dev of
        Inl e \<Rightarrow> Some (Ret (Inl e))
      | Inr f \<Rightarrow>
          walk_bind (Some (superblock_read (env_hashes E) f base)) (\<lambda>s.
            case s of
              Inl e \<Rightarrow> Some (Ret (Inl InvalidData))
            | Inr sb \<Rightarrow>
                if sb_num_devices sb \<noteq> 1 then Some (Ret (Inl InvalidData))
                else walk_bind (Some (read_primary (env_hashes E) f base)) (\<lambda>prim.
                  let mirror = (case prim of Inr _ \<Rightarrow> 0 | Inl _ \<Rightarrow> 1);
                      dev_size = (case device_size f of Inr n \<Rightarrow> n | Inl _ \<Rightarrow> 0)
                  in if dev_size > 0 \<and> dev_size < add64 base (sb_total_bytes sb) then Some (Ret (Inl InvalidData))
                     else case from_superblock sb of
                            Inl e \<Rightarrow> Some (Ret (Inl e))
                          | Inr st \<Rightarrow>
                              walk_bind (Some (parse_sys_chunks (sb_sys_chunks sb)))
                                (load_trees E f base sb st \<lparr>me_header = 0, me_mirror = mirror, me_read = 0\<rparr>))))"

subsection \<open>The live roots\<close>

definition bump_header :: "status_counters option \<Rightarrow> status_counters option" where
  "bump_header = map_option (\<lambda>c. c\<lparr>c_metadata_header_errors := c_metadata_header_errors c + 1\<rparr>)"

definition bump_mirror :: "status_counters option \<Rightarrow> status_counters option" where
  "bump_mirror = map_option (\<lambda>c. c\<lparr>c_metadata_mirror_mismatches := c_metadata_mirror_mismatches c + 1\<rparr>)"

definition bump_read :: "status_counters option \<Rightarrow> status_counters option" where
  "bump_read = map_option (\<lambda>c. c\<lparr>c_metadata_read_errors := c_metadata_read_errors c + 1\<rparr>)"

definition read_live_superblock ::
  "env \<Rightarrow> fs_reader \<Rightarrow> nat \<Rightarrow> status_counters option \<Rightarrow> (status_counters option \<times> superblock option) run" where
  "read_live_superblock E r base counters =
     (case reopen E r of
        Inl e \<Rightarrow> Ret (bump_read counters, None)
      | Inr f \<Rightarrow>
          run_bind (superblock_read (env_hashes E) f base) (\<lambda>s.
            Ret (case s of Inr sb \<Rightarrow> (counters, Some sb) | Inl e \<Rightarrow> (bump_read counters, None))))"

text \<open>The leaf loop stops the walk with an error once both roots are known.\<close>

fun live_roots_of_slots :: "leaf \<Rightarrow> nat list \<Rightarrow> nat option \<times> nat option \<Rightarrow> ((nat option \<times> nat option) \<times> (io_kind + unit)) run" where
  "live_roots_of_slots lf [] acc = Ret (acc, Inr ())"
| "live_roots_of_slots lf (i # js) acc =
     (let k = slot_key (slots lf ! i) in
      if key_ty k \<noteq> ROOT_ITEM then live_roots_of_slots lf js acc
      else run_bind (item_data lf i) (\<lambda>dat. run_bind (root_item_parse dat) (\<lambda>ri.
        let acc' = (if objectid k = EXTENT_TREE then (Some (ri_bytenr ri), snd acc)
                    else if objectid k = CSUM_TREE then (fst acc, Some (ri_bytenr ri)) else acc)
        in if fst acc' \<noteq> None \<and> snd acc' \<noteq> None then Ret (acc', Inl OtherError)
           else live_roots_of_slots lf js acc')))"

definition live_visitor :: "((nat option \<times> nat option) \<times> status_counters option) visitor" where
  "live_visitor =
     \<lparr>on_leaf = (\<lambda>lf _ (acc, c). run_bind (live_roots_of_slots lf [0..<length (slots lf)] acc)
                   (\<lambda>(acc', res). Ret ((acc', c), res))),
      on_metadata_error = (\<lambda>_ (acc, c). (acc, bump_header c)),
      on_stale = (\<lambda>_ s. s),
      on_mirror_mismatch = (\<lambda>_ (acc, c). (acc, bump_mirror c)),
      on_read_error = (\<lambda>_ (acc, c). (acc, bump_read c))\<rparr>"

definition resolve_live_tree_roots ::
  "env \<Rightarrow> fs_reader \<Rightarrow> chunk_map \<Rightarrow> status_counters option \<Rightarrow> superblock \<Rightarrow>
   (status_counters option \<times> (nat \<times> nat) option) run option" where
  "resolve_live_tree_roots E r cm counters sb =
     walk_bind (walk_leaves E r cm (sb_root sb) live_visitor ((None, None), counters)) (\<lambda>((acc, c), res).
       Some (Ret (case acc of
                    (Some ext, Some csum) \<Rightarrow> (c, Some (ext, csum))
                  | _ \<Rightarrow> ((case res of Inl e \<Rightarrow> bump_read c | Inr u \<Rightarrow> bump_header c), None))))"

definition live_data_tree_roots ::
  "env \<Rightarrow> fs_reader \<Rightarrow> chunk_map \<Rightarrow> nat \<Rightarrow> status_counters option \<Rightarrow>
   (status_counters option \<times> (nat \<times> nat) option) run option" where
  "live_data_tree_roots E r cm base counters =
     walk_bind (Some (read_live_superblock E r base counters)) (\<lambda>(c, s).
       case s of
         None \<Rightarrow> Some (Ret (c, None))
       | Some sb \<Rightarrow> resolve_live_tree_roots E r cm c sb)"

end
