(* ===== verification/Scrub_Isolate.thy ===== *)
theory Scrub_Isolate
  imports Btrfs_Format "HOL-Library.Multiset"
begin

text \<open>
  Isolating unreadable sectors (\<open>isolate_run\<close> of \<open>src/scrub-rs/src/btrfs/scrub.rs\<close>): read the whole
  run, split a failing range into at most eight sector-aligned pieces, and stop probing when the
  budget of failing reads is spent. The reader is a function over a state of its own, so reads may
  fail at any time. Sector sizes are positive: \<open>from_superblock\<close> rejects zero.
\<close>

subsection \<open>The budget\<close>

definition EIO_SPLIT_FACTOR :: nat where "EIO_SPLIT_FACTOR = 8"
definition MAX_ISOLATION_FAILING_READS :: nat where "MAX_ISOLATION_FAILING_READS = 64"

definition isolation_budget_limit :: "string option \<Rightarrow> nat" where
  "isolation_budget_limit var =
     (case var of
        None \<Rightarrow> MAX_ISOLATION_FAILING_READS
      | Some v \<Rightarrow> (case parse_u64 (trim v) of
                     Some n \<Rightarrow> if n > 0 then n else MAX_ISOLATION_FAILING_READS
                   | None \<Rightarrow> MAX_ISOLATION_FAILING_READS))"

text \<open>The budget and the two result vectors, with the reader's state.\<close>

record 's isolation =
  iso_reader :: 's
  iso_remaining :: nat
  iso_exhausted :: bool
  iso_good :: "(nat \<times> bytes) list"
  iso_bad :: "nat list"

definition new_isolation :: "'s \<Rightarrow> nat \<Rightarrow> 's isolation" where
  "new_isolation s limit =
     \<lparr>iso_reader = s, iso_remaining = limit, iso_exhausted = False, iso_good = [], iso_bad = []\<rparr>"

type_synonym 's read_fn = "'s \<Rightarrow> nat \<Rightarrow> nat \<Rightarrow> 's \<times> (io_kind + bytes)"

subsection \<open>Divide and conquer\<close>

definition mark_bad :: "nat \<Rightarrow> nat \<Rightarrow> nat \<Rightarrow> 's isolation \<Rightarrow> 's isolation" where
  "mark_bad start len sz st = st\<lparr>iso_bad := iso_bad st @ map (\<lambda>i. start + i * sz) [0..<len div sz]\<rparr>"

text \<open>A failing read consumes budget.\<close>

definition spend :: "'s isolation \<Rightarrow> 's isolation" where
  "spend st = st\<lparr>iso_remaining := iso_remaining st - 1, iso_exhausted := (iso_exhausted st \<or> iso_remaining st - 1 = 0)\<rparr>"

text \<open>The sector counts of the pieces, and the pieces as offsets and lengths.\<close>

definition piece_sectors :: "nat \<Rightarrow> nat list" where
  "piece_sectors nsec =
     (let k = min EIO_SPLIT_FACTOR nsec
      in map (\<lambda>i. nsec div k + (if i < nsec mod k then 1 else 0)) [0..<k])"

fun piece_ranges :: "nat \<Rightarrow> nat \<Rightarrow> nat list \<Rightarrow> (nat \<times> nat) list" where
  "piece_ranges sz off [] = []"
| "piece_ranges sz off (n # ns) = (off, n * sz) # piece_ranges sz (off + n * sz) ns"

lemma quotient_less:
  "k * q + m = (n' :: nat) \<Longrightarrow> 2 * q \<le> k * q \<Longrightarrow> 1 \<le> q \<Longrightarrow> x \<le> q + (if 0 < m then 1 else 0) \<Longrightarrow> x < n'"
proof -
  assume a: "k * q + m = n'" "2 * q \<le> k * q" "1 \<le> q" and x: "x \<le> q + (if 0 < m then 1 else 0)"
  from x have "x \<le> q + 1" "m = 0 \<Longrightarrow> x \<le> q" by (auto split: if_splits)
  then show ?thesis using a by (cases "m = 0") linarith+
qed

lemma piece_sectors_less:
  assumes "n \<in> set (piece_sectors nsec)" "2 \<le> nsec"
  shows "n < nsec"
proof -
  let ?k = "min EIO_SPLIT_FACTOR nsec"
  have k: "2 \<le> ?k" "?k \<le> nsec" using assms(2) by (simp_all add: EIO_SPLIT_FACTOR_def)
  have n: "n \<le> nsec div ?k + (if 0 < nsec mod ?k then 1 else 0)"
    using assms(1) by (auto simp: piece_sectors_def Let_def)
  have "?k * (nsec div ?k) + nsec mod ?k = nsec" by simp
  moreover have "2 * (nsec div ?k) \<le> ?k * (nsec div ?k)" using k(1) by (rule mult_le_mono1)
  moreover have "1 \<le> nsec div ?k" using k by (simp add: div_greater_zero_iff Suc_le_eq)
  ultimately show ?thesis using n by (rule quotient_less)
qed

lemma piece_ranges_lengths: "(off', len) \<in> set (piece_ranges sz off ns) \<Longrightarrow> \<exists>n \<in> set ns. len = n * sz"
  by (induction ns arbitrary: off) auto

lemma piece_len_less:
  assumes "(off', plen) \<in> set (piece_ranges sz 0 (piece_sectors (len div sz)))" "sz < len"
  shows "plen < len"
proof -
  obtain n where n: "n \<in> set (piece_sectors (len div sz))" "plen = n * sz"
    using piece_ranges_lengths [OF assms(1)] by blast
  show ?thesis
  proof (cases "sz = 0 \<or> len div sz < 2")
    case True
    show ?thesis
    proof (cases "sz = 0")
      case False
      with True assms(2) have "len div sz = 1"
        by (metis One_nat_def div_greater_zero_iff less_2_cases_iff less_imp_le_nat less_numeral_extra(3) neq0_conv)
      then have "n = 1" using n(1) by (simp add: piece_sectors_def EIO_SPLIT_FACTOR_def)
      with n assms(2) show ?thesis by simp
    qed (use n assms in simp)
  next
    case False
    then have "n < len div sz" using piece_sectors_less [OF n(1)] by simp
    then have "n * sz < (len div sz) * sz" using False by simp
    also have "\<dots> \<le> len" by simp
    finally show ?thesis using n by simp
  qed
qed

text \<open>
  One read of a range and what it settles: the new state, and whether the range has to be split.
\<close>

definition probe ::
  "'s read_fn \<Rightarrow> nat \<Rightarrow> nat \<Rightarrow> nat \<Rightarrow> nat \<Rightarrow> 's isolation \<Rightarrow> 's isolation \<times> bool" where
  "probe read phys start len sz st =
     (case read (iso_reader st) phys len of
        (s', res) \<Rightarrow>
          (let st' = st\<lparr>iso_reader := s'\<rparr>
           in if len \<le> sz then
                (case res of
                   Inr buf \<Rightarrow> (st'\<lparr>iso_good := iso_good st' @ [(start, buf)]\<rparr>, False)
                 | Inl e \<Rightarrow> ((spend st')\<lparr>iso_bad := iso_bad st' @ [start]\<rparr>, False))
              else
                (case res of
                   Inr buf \<Rightarrow>
                     if start mod sz = 0 \<and> len mod sz = 0
                     then (st'\<lparr>iso_good := iso_good st' @ [(start, buf)]\<rparr>, False)
                     else (st', True)
                 | Inl e \<Rightarrow>
                     if iso_remaining (spend st') = 0 then (mark_bad start len sz (spend st'), False)
                     else (spend st', True))))"

lemma probe_split: "snd (probe read phys start len sz st) \<Longrightarrow> sz < len"
  by (auto simp: probe_def Let_def split: prod.splits if_splits sum.splits)

function isolate_run ::
  "'s read_fn \<Rightarrow> nat \<Rightarrow> nat \<Rightarrow> nat \<Rightarrow> nat \<Rightarrow> 's isolation \<Rightarrow> 's isolation" where
  "isolate_run read phys start len sz st =
     (if len = 0 then st
      else if iso_exhausted st then mark_bad start len sz st
      else if snd (probe read phys start len sz st) then
        fold (\<lambda>p. isolate_run read (add64 phys (fst p)) (start + fst p) (snd p) sz)
          (piece_ranges sz 0 (piece_sectors (len div sz))) (fst (probe read phys start len sz st))
      else fst (probe read phys start len sz st))"
  by pat_completeness auto

termination
proof (relation "measure (\<lambda>(_, _, _, len, _, _). len)", goal_cases)
  case (2 read phys start len sz st p x)
  then show ?case using piece_len_less [of "fst p" "snd p" sz len] probe_split [of read phys start len sz st] by simp
qed simp

declare isolate_run.simps [simp del]

subsection \<open>One induction for the properties\<close>

lemma sum_div_mod: "sum_list (map (\<lambda>i. q + (if i < m then 1 else 0)) [0..<k]) = k * q + min m k"
  by (induction k) auto

lemma piece_sectors_sum: "sum_list (piece_sectors nsec) = nsec"
proof (cases "nsec = 0")
  case False
  let ?k = "min EIO_SPLIT_FACTOR nsec"
  have k: "0 < ?k" using False by (simp add: EIO_SPLIT_FACTOR_def)
  then have "nsec mod ?k < ?k" by (rule mod_less_divisor)
  then have "sum_list (piece_sectors nsec) = ?k * (nsec div ?k) + nsec mod ?k"
    unfolding piece_sectors_def Let_def sum_div_mod by simp
  then show ?thesis by simp
qed (simp add: piece_sectors_def)

text \<open>
  A relation between the states before and after a range of sectors holds of \<open>isolate_run\<close> when it
  composes over adjacent ranges and holds of the steps that settle a range.
\<close>

lemma isolate_run_rel:
  fixes T :: "nat \<Rightarrow> nat \<Rightarrow> 's isolation \<Rightarrow> 's isolation \<Rightarrow> bool"
  assumes sz: "0 < sz"
    and refl: "\<And>a st. T a 0 st st"
    and seq: "\<And>a m n st st' st''. T a m st st' \<Longrightarrow> T (a + m * sz) n st' st'' \<Longrightarrow> T a (m + n) st st''"
    and exh: "\<And>a n st. iso_exhausted st \<Longrightarrow> T a n st (mark_bad a (n * sz) sz st)"
    and settled: "\<And>a n st. \<not> iso_exhausted st \<Longrightarrow> 0 < n \<Longrightarrow> a mod sz = 0 \<Longrightarrow>
      \<not> snd (probe read (base + a) a (n * sz) sz st) \<Longrightarrow> T a n st (fst (probe read (base + a) a (n * sz) sz st))"
    and splits: "\<And>a n st st'. \<not> iso_exhausted st \<Longrightarrow> 0 < n \<Longrightarrow> a mod sz = 0 \<Longrightarrow> snd (probe read (base + a) a (n * sz) sz st) \<Longrightarrow>
      T a n (fst (probe read (base + a) a (n * sz) sz st)) st' \<Longrightarrow> T a n st st'"
  shows "start mod sz = 0 \<Longrightarrow> base + start + nsec * sz < 2 ^ 64 \<Longrightarrow>
    T start nsec st (isolate_run read (base + start) start (nsec * sz) sz st)"
proof (induction nsec arbitrary: start st rule: less_induct)
  case (less nsec)
  let ?pr = "probe read (base + start) start (nsec * sz) sz st"
  have pieces: "T (start + off) (sum_list ns) x
      (fold (\<lambda>p. isolate_run read (add64 (base + start) (fst p)) (start + fst p) (snd p) sz) (piece_ranges sz off ns) x)"
    if "\<forall>n \<in> set ns. n < nsec" "off mod sz = 0" "off + sum_list ns * sz \<le> nsec * sz" for ns off x
    using that
  proof (induction ns arbitrary: off x)
    case (Cons n ns)
    have le: "off + n * sz \<le> nsec * sz" using Cons.prems(3) by (simp add: add_mult_distrib)
    have "T (start + off) n x (isolate_run read (base + (start + off)) (start + off) (n * sz) sz x)"
      using Cons.prems(1,2) less.prems le by (intro less.IH) (auto simp: mod_add_eq [symmetric])
    moreover have "add64 (base + start) off = base + (start + off)" using less.prems le by simp
    moreover have "T (start + (off + n * sz)) (sum_list ns) y (fold (\<lambda>p. isolate_run read (add64 (base + start) (fst p)) (start + fst p) (snd p) sz)
        (piece_ranges sz (off + n * sz) ns) y)" for y
      using Cons.prems by (intro Cons.IH) (auto simp: add_mult_distrib)
    ultimately show ?case using seq by (simp add: add.assoc)
  qed (simp add: refl)
  consider (zero) "nsec = 0" | (exh) "nsec \<noteq> 0" "iso_exhausted st" | (settled) "nsec \<noteq> 0" "\<not> iso_exhausted st" "\<not> snd ?pr"
    | (split) "nsec \<noteq> 0" "\<not> iso_exhausted st" "snd ?pr" by blast
  then show ?case
  proof cases
    case zero
    then show ?thesis by (subst isolate_run.simps) (simp add: refl)
  next
    case exh
    then show ?thesis using assms(4) sz by (subst isolate_run.simps) simp
  next
    case settled
    then show ?thesis using assms(5) less.prems sz by (subst isolate_run.simps) simp
  next
    case split
    have "sz < nsec * sz" using probe_split [OF split(3)] .
    then have "2 \<le> nsec" using sz by (cases nsec) (auto simp: Suc_le_eq)
    then have small: "\<forall>n \<in> set (piece_sectors nsec). n < nsec" using piece_sectors_less by blast
    have "T start nsec (fst ?pr) (isolate_run read (base + start) start (nsec * sz) sz st)"
      using pieces [OF small, of 0 "fst ?pr"] split sz by (subst isolate_run.simps) (simp add: piece_sectors_sum)
    from splits [OF split(2) _ less.prems(1) split(3) this] split(1) show ?thesis by simp
  qed
qed

subsection \<open>Every sector is settled once\<close>

definition sector_offsets :: "nat \<Rightarrow> nat \<Rightarrow> nat \<Rightarrow> nat list" where
  "sector_offsets sz start n = map (\<lambda>i. start + i * sz) [0..<n]"

definition region_sectors :: "nat \<Rightarrow> nat \<times> bytes \<Rightarrow> nat list" where
  "region_sectors sz g = sector_offsets sz (fst g) (length (snd g) div sz)"

definition settled :: "nat \<Rightarrow> 's isolation \<Rightarrow> nat multiset" where
  "settled sz st = mset (concat (map (region_sectors sz) (iso_good st))) + mset (iso_bad st)"

text \<open>A positional read returns as many bytes as were asked for.\<close>

definition full_reads :: "'s read_fn \<Rightarrow> bool" where
  "full_reads read \<longleftrightarrow> (\<forall>s p n s' b. read s p n = (s', Inr b) \<longrightarrow> length b = n)"

lemma sector_offsets_add: "sector_offsets sz a (m + n) = sector_offsets sz a m @ sector_offsets sz (a + m * sz) n"
proof (induction n)
  case (Suc n)
  then show ?case by (simp add: sector_offsets_def add_mult_distrib)
qed (simp add: sector_offsets_def)

lemma sector_offsets_simps [simp]: "sector_offsets sz a 0 = []" "sector_offsets sz a (Suc 0) = [a]"
  by (simp_all add: sector_offsets_def)

lemma spend_fields [simp]:
  "iso_good (spend st) = iso_good st" "iso_bad (spend st) = iso_bad st" "iso_reader (spend st) = iso_reader st"
  "iso_remaining (spend st) = iso_remaining st - 1"
  "iso_exhausted (spend st) = (iso_exhausted st \<or> iso_remaining st - 1 = 0)"
  by (simp_all add: spend_def)

lemma mark_bad_fields [simp]:
  "0 < sz \<Longrightarrow> iso_bad (mark_bad a (n * sz) sz st) = iso_bad st @ sector_offsets sz a n"
  "iso_good (mark_bad a l sz st) = iso_good st" "iso_reader (mark_bad a l sz st) = iso_reader st"
  "iso_remaining (mark_bad a l sz st) = iso_remaining st" "iso_exhausted (mark_bad a l sz st) = iso_exhausted st"
  by (simp_all add: mark_bad_def sector_offsets_def)

lemma le_sector: "0 < (n::nat) \<Longrightarrow> 0 < sz \<Longrightarrow> n * sz \<le> sz \<longleftrightarrow> n = 1"
  by (cases n) auto

text \<open>How a probe of whole sectors ends.\<close>

lemma probe_cases:
  assumes "0 < n" "0 < sz" "a mod sz = 0"
  obtains (good) s' buf where "read (iso_reader st) phys (n * sz) = (s', Inr buf)"
      "probe read phys a (n * sz) sz st = (st\<lparr>iso_reader := s', iso_good := iso_good st @ [(a, buf)]\<rparr>, False)"
  | (single) s' e where "n = 1" "read (iso_reader st) phys sz = (s', Inl e)"
      "probe read phys a (n * sz) sz st = ((spend (st\<lparr>iso_reader := s'\<rparr>))\<lparr>iso_bad := iso_bad st @ [a]\<rparr>, False)"
  | (spent) s' e where "n \<noteq> 1" "read (iso_reader st) phys (n * sz) = (s', Inl e)" "iso_remaining st - 1 = 0"
      "probe read phys a (n * sz) sz st = (mark_bad a (n * sz) sz (spend (st\<lparr>iso_reader := s'\<rparr>)), False)"
  | (split) s' e where "n \<noteq> 1" "read (iso_reader st) phys (n * sz) = (s', Inl e)" "iso_remaining st - 1 \<noteq> 0"
      "probe read phys a (n * sz) sz st = (spend (st\<lparr>iso_reader := s'\<rparr>), True)"
proof -
  obtain s' res where rd: "read (iso_reader st) phys (n * sz) = (s', res)" by (cases "read (iso_reader st) phys (n * sz)")
  note le = le_sector [OF assms(1,2)]
  show thesis
  proof (cases res)
    case (Inr buf)
    then show thesis using rd assms by (intro good [of s' buf]) (simp_all add: probe_def Let_def)
  next
    case (Inl e)
    show thesis
    proof (cases "n = 1")
      case True
      then show thesis using rd Inl by (intro single [of s' e]) (simp_all add: probe_def Let_def)
    next
      case False
      then show thesis
        using rd Inl le spent [of s' e] split [of s' e]
        by (cases "iso_remaining st - 1 = 0") (simp_all add: probe_def Let_def)
    qed
  qed
qed

lemma isolate_partition:
  assumes "full_reads read" "0 < sz" "start mod sz = 0" "base + start + n * sz < 2 ^ 64"
  shows "settled sz (isolate_run read (base + start) start (n * sz) sz st) = settled sz st + mset (sector_offsets sz start n)"
proof (rule isolate_run_rel [where T = "\<lambda>a n st st'. settled sz st' = settled sz st + mset (sector_offsets sz a n)"])
  show "settled sz (mark_bad a (n * sz) sz st) = settled sz st + mset (sector_offsets sz a n)" for a n st
    using assms(2) by (simp add: settled_def)
  fix a n :: nat and st :: "'a isolation"
  assume a: "0 < n" "a mod sz = 0"
  note pc = probe_cases [OF a(1) assms(2) a(2), where read = read and st = st and phys = "base + a"]
  show "settled sz (fst (probe read (base + a) a (n * sz) sz st)) = settled sz st + mset (sector_offsets sz a n)"
    if "\<not> snd (probe read (base + a) a (n * sz) sz st)"
    by (rule pc) (use that assms(1,2) in \<open>auto simp: settled_def region_sectors_def full_reads_def\<close>)
  show "settled sz st' = settled sz st + mset (sector_offsets sz a n)"
    if "snd (probe read (base + a) a (n * sz) sz st)"
      "settled sz st' = settled sz (fst (probe read (base + a) a (n * sz) sz st)) + mset (sector_offsets sz a n)" for st'
    by (rule pc) (use that in \<open>auto simp: settled_def\<close>)
qed (use assms in \<open>auto simp: sector_offsets_add\<close>)

subsection \<open>What good and bad mean\<close>

text \<open>
  A good region was read from the device in one piece; an address is reported bad either because the read of
  that very sector failed, or because the budget was spent.
\<close>

definition read_from :: "'s read_fn \<Rightarrow> nat \<Rightarrow> nat \<times> bytes \<Rightarrow> bool" where
  "read_from read base g \<longleftrightarrow> (\<exists>s s'. read s (base + fst g) (length (snd g)) = (s', Inr (snd g)))"

definition sector_fails :: "'s read_fn \<Rightarrow> nat \<Rightarrow> nat \<Rightarrow> nat \<Rightarrow> bool" where
  "sector_fails read base sz a \<longleftrightarrow> (\<exists>s s' e. read s (base + a) sz = (s', Inl e))"

definition verdicts_ok :: "'s read_fn \<Rightarrow> nat \<Rightarrow> nat \<Rightarrow> 's isolation \<Rightarrow> bool" where
  "verdicts_ok read base sz st \<longleftrightarrow>
     (\<forall>g \<in> set (iso_good st). read_from read base g \<and> fst g mod sz = 0 \<and> length (snd g) mod sz = 0 \<and> snd g \<noteq> []) \<and>
     (iso_exhausted st \<or> (\<forall>a \<in> set (iso_bad st). sector_fails read base sz a))"

lemma isolate_verdicts:
  assumes "full_reads read" "0 < sz" "start mod sz = 0" "base + start + n * sz < 2 ^ 64" "verdicts_ok read base sz st"
  shows "verdicts_ok read base sz (isolate_run read (base + start) start (n * sz) sz st)"
proof -
  have "verdicts_ok read base sz st \<longrightarrow> verdicts_ok read base sz (isolate_run read (base + start) start (n * sz) sz st)"
  proof (rule isolate_run_rel [where T = "\<lambda>a n st st'. verdicts_ok read base sz st \<longrightarrow> verdicts_ok read base sz st'"])
    show "verdicts_ok read base sz st \<longrightarrow> verdicts_ok read base sz (mark_bad a (n * sz) sz st)"
      if "iso_exhausted st" for a n and st :: "'a isolation"
      using that by (simp add: verdicts_ok_def)
    fix a n :: nat and st :: "'a isolation"
    assume a: "\<not> iso_exhausted st" "0 < n" "a mod sz = 0"
    note pc = probe_cases [OF a(2) assms(2) a(3), where read = read and st = st and phys = "base + a"]
    show probe: "verdicts_ok read base sz st \<longrightarrow> verdicts_ok read base sz (fst (probe read (base + a) a (n * sz) sz st))"
    proof (rule pc)
      fix s' buf
      assume rd: "read (iso_reader st) (base + a) (n * sz) = (s', Inr buf)"
        and pr: "probe read (base + a) a (n * sz) sz st = (st\<lparr>iso_reader := s', iso_good := iso_good st @ [(a, buf)]\<rparr>, False)"
      have len: "length buf = n * sz" using rd assms(1) by (auto simp: full_reads_def)
      then have "read_from read base (a, buf)" using rd by (auto simp: read_from_def)
      moreover have "buf \<noteq> []" using len a(2) assms(2) by auto
      ultimately show ?thesis using pr len a(1,3) by (auto simp: verdicts_ok_def)
    qed (use a(1) in \<open>auto simp: verdicts_ok_def sector_fails_def\<close>)
    show "verdicts_ok read base sz st \<longrightarrow> verdicts_ok read base sz st'"
      if "snd (probe read (base + a) a (n * sz) sz st)"
        "verdicts_ok read base sz (fst (probe read (base + a) a (n * sz) sz st)) \<longrightarrow> verdicts_ok read base sz st'" for st'
      using probe that(2) by blast
  qed (use assms in auto)
  with assms(5) show ?thesis by blast
qed

subsection \<open>The budget bounds the failing reads\<close>

text \<open>A reader that also counts its failures.\<close>

definition counting :: "'s read_fn \<Rightarrow> ('s \<times> nat) read_fn" where
  "counting read sc p n =
     (case read (fst sc) p n of (s', res) \<Rightarrow> ((s', snd sc + (case res of Inl e \<Rightarrow> 1 | Inr b \<Rightarrow> 0)), res))"

definition budget_ok :: "('s \<times> nat) isolation \<Rightarrow> ('s \<times> nat) isolation \<Rightarrow> bool" where
  "budget_ok st st' \<longleftrightarrow>
     snd (iso_reader st') + iso_remaining st' = snd (iso_reader st) + iso_remaining st \<and>
     (iso_exhausted st' \<longleftrightarrow> iso_remaining st' = 0)"

lemma isolate_budget:
  assumes "0 < sz" "start mod sz = 0" "base + start + n * sz < 2 ^ 64" "0 < iso_remaining st" "\<not> iso_exhausted st"
  shows "budget_ok st (isolate_run (counting read) (base + start) start (n * sz) sz st)"
proof -
  let ?I = "\<lambda>st. iso_exhausted st \<longleftrightarrow> iso_remaining st = 0"
  have "?I st \<longrightarrow> budget_ok st (isolate_run (counting read) (base + start) start (n * sz) sz st)"
  proof (rule isolate_run_rel [where T = "\<lambda>a n st st'. ?I st \<longrightarrow> budget_ok st st'"])
    fix a n :: nat and st :: "('a \<times> nat) isolation"
    assume a: "\<not> iso_exhausted st" "0 < n" "a mod sz = 0"
    note pc = probe_cases [OF a(2) assms(1) a(3), where read = "counting read" and st = st and phys = "base + a"]
    show probe: "?I st \<longrightarrow> budget_ok st (fst (probe (counting read) (base + a) a (n * sz) sz st))"
      by (rule pc) (use a(1) in \<open>auto simp: budget_ok_def counting_def split: prod.splits\<close>)
    show "?I st \<longrightarrow> budget_ok st st'"
      if "snd (probe (counting read) (base + a) a (n * sz) sz st)"
        "?I (fst (probe (counting read) (base + a) a (n * sz) sz st)) \<longrightarrow>
          budget_ok (fst (probe (counting read) (base + a) a (n * sz) sz st)) st'" for st'
      using probe that(2) by (auto simp: budget_ok_def)
  qed (use assms in \<open>auto simp: budget_ok_def\<close>)
  then show ?thesis using assms(4,5) by simp
qed

subsection \<open>Properties\<close>

text \<open>C35: Isolation settles every sector of a run exactly once: the sectors of the good regions and the bad ones
  together are the sectors of the run, a good region is sector-aligned and holds what one successful
  read of its range returned, and unless the budget ran out every bad sector is one whose own read failed.\<close>

theorem isolate_settles_every_sector:
  fixes read :: "'s read_fn" and s :: 's and limit base :: nat
  assumes "full_reads read" "0 < sz" "base + n * sz < 2 ^ 64"
  defines "st \<equiv> isolate_run read base 0 (n * sz) sz (new_isolation s limit)"
  shows "mset (concat (map (region_sectors sz) (iso_good st))) + mset (iso_bad st) = mset (sector_offsets sz 0 n) \<and>
    (\<forall>g \<in> set (iso_good st). read_from read base g \<and> fst g mod sz = 0 \<and> length (snd g) mod sz = 0) \<and>
    (iso_exhausted st \<or> (\<forall>a \<in> set (iso_bad st). sector_fails read base sz a))"
proof -
  have "settled sz st = mset (sector_offsets sz 0 n)"
    using isolate_partition [OF assms(1,2), of 0 base n "new_isolation s limit"] assms(3)
    by (simp add: st_def settled_def new_isolation_def)
  moreover have "verdicts_ok read base sz st"
    using isolate_verdicts [OF assms(1,2), of 0 base n "new_isolation s limit"] assms(3)
    by (simp add: st_def verdicts_ok_def new_isolation_def)
  ultimately show ?thesis by (simp add: settled_def verdicts_ok_def)
qed

text \<open>A device of three one-byte sectors whose second cannot be read.\<close>

definition demo_read :: "unit read_fn" where
  "demo_read s p n = (s, if p \<le> 1 \<and> 1 < p + n then Inl (OsError 5) else Inr (zeros n))"

lemma demo_single:
  "\<not> iso_exhausted st \<Longrightarrow> isolate_run demo_read p a (Suc 0) (Suc 0) st =
     (if p = 1 then (spend st)\<lparr>iso_bad := iso_bad st @ [a]\<rparr> else st\<lparr>iso_good := iso_good st @ [(a, zeros 1)]\<rparr>)"
  by (subst isolate_run.simps) (auto simp: probe_def demo_read_def)

theorem isolate_settles_every_sector_witness:
  "iso_bad (isolate_run demo_read 0 0 3 1 (new_isolation () 64)) = [1] \<and>
   mset (concat (map (region_sectors 1) (iso_good (isolate_run demo_read 0 0 3 1 (new_isolation () 64))))) + {#1#} =
     mset (sector_offsets 1 0 3)"
proof -
  have f: "full_reads demo_read" by (auto simp: full_reads_def demo_read_def split: if_splits)
  have pieces: "piece_ranges 1 0 (piece_sectors 3) = [(0, 1), (1, 1), (2, 1)]"
    by (simp add: piece_sectors_def EIO_SPLIT_FACTOR_def upt_rec)
  have b: "iso_bad (isolate_run demo_read 0 0 3 1 (new_isolation () 64)) = [1]"
    by (subst isolate_run.simps)
      (simp add: probe_def demo_read_def new_isolation_def pieces [simplified] demo_single add64_def spend_def)
  show ?thesis
    using isolate_settles_every_sector [OF f, of 1 0 3 "()" 64] b by simp
qed

text \<open>C36: The isolation budget bounds the work on a dying device: however reads fail, a run ends after at most
  the budgeted number of failing reads, and it is reported truncated exactly when the whole budget was
  spent.\<close>

theorem isolation_budget_bounds:
  fixes read :: "'s read_fn" and s :: 's and limit base :: nat
  assumes "0 < sz" "base + n * sz < 2 ^ 64" "0 < limit"
  defines "st \<equiv> isolate_run (counting read) base 0 (n * sz) sz (new_isolation (s, 0) limit)"
  shows "snd (iso_reader st) \<le> limit \<and> (iso_exhausted st \<longleftrightarrow> snd (iso_reader st) = limit)"
proof -
  have "budget_ok (new_isolation (s, 0) limit) st"
    using isolate_budget [OF assms(1), of 0 base n "new_isolation (s, 0) limit"] assms(2,3)
    by (simp add: st_def new_isolation_def)
  then show ?thesis by (auto simp: budget_ok_def new_isolation_def)
qed

theorem isolation_budget_bounds_witness:
  "snd (iso_reader (isolate_run (counting (\<lambda>s p n. (s, Inl (OsError 5)))) 0 0 400 4 (new_isolation ((), 0) 3))) \<le> 3"
  using isolation_budget_bounds [of 4 0 100 3 "\<lambda>s p n. (s, Inl (OsError 5))" "()"] by simp

end
