(* ===== verification/Btrfs_Scrub.thy ===== *)
theory Btrfs_Scrub
  imports Btrfs_Open Scrub_Isolate
begin

text \<open>
  The physical-order data scrub of \<open>src/scrub-rs/src/btrfs/scrub.rs\<close>: the checksums of each data
  extent are cut into contiguous runs, every run is read and isolated (on a reader thread, or inline
  when the descriptor cannot be duplicated), and each sector is verified. The reader thread answers
  commands in order; it may die at any command. Checksums computed in parallel are computed here in
  order. Read-ahead hints have no result. The environment carries the isolation budget.
\<close>

definition MAX_RUN_SECTORS :: nat where "MAX_RUN_SECTORS = 16384"
definition PREFETCH_DEPTH_FAST :: nat where "PREFETCH_DEPTH_FAST = 2"
definition PREFETCH_DEPTH_SLOW :: nat where "PREFETCH_DEPTH_SLOW = 4"

definition prefetch_depth_for :: "csum_strategy \<Rightarrow> nat" where
  "prefetch_depth_for st =
     (if st_name st = ''sha256'' \<or> st_name st = ''blake2'' then PREFETCH_DEPTH_SLOW else PREFETCH_DEPTH_FAST)"

type_synonym entry = "nat \<times> bytes"

record read_cmd =
  cmd_phys :: nat
  cmd_len :: nat
  cmd_dext :: dev_extent
  cmd_entries :: "entry list"
  cmd_sector_size :: nat

record read_rsp =
  rsp_dext :: dev_extent
  rsp_entries :: "entry list"
  rsp_good :: "(nat \<times> bytes) list"
  rsp_bad :: "nat list"
  rsp_truncated :: bool

record sector_result =
  sr_logical :: nat
  sr_devid :: nat
  sr_array_phys :: nat
  sr_inode :: nat
  sr_file_offset :: nat
  sr_stored :: "bytes option"
  sr_actual :: bytes
  sr_unreadable :: bool
  sr_ok :: bool

record run_stats =
  rs_checked :: nat
  rs_ok :: nat
  rs_mismatch :: nat
  rs_no_csum :: nat
  rs_read_error :: nat
  rs_stale :: nat
  rs_stale_branches :: nat
  rs_truncated :: nat
  rs_bytes :: nat
  rs_header_errors :: nat

definition zero_stats :: run_stats where
  "zero_stats = \<lparr>rs_checked = 0, rs_ok = 0, rs_mismatch = 0, rs_no_csum = 0, rs_read_error = 0, rs_stale = 0,
     rs_stale_branches = 0, rs_truncated = 0, rs_bytes = 0, rs_header_errors = 0\<rparr>"

text \<open>Statistics, live counters and the sector results handed to the driver so far.\<close>

record scrub_acc =
  sc_stats :: run_stats
  sc_counters :: "status_counters option"
  sc_events :: "sector_result list"

text \<open>What a scrub of one device reads through: the reader, the chunk map and the checksum strategy.\<close>

record scrub_ctx =
  cx_env :: env
  cx_budget :: nat
  cx_reader :: fs_reader
  cx_chunk_map :: chunk_map
  cx_strategy :: csum_strategy
  cx_batch :: bool

subsection \<open>Reading a run\<close>

definition isolate_run_read :: "scrub_ctx \<Rightarrow> disk \<Rightarrow> nat \<Rightarrow> read_cmd \<Rightarrow> read_rsp" where
  "isolate_run_read cx f off cmd =
     (let st = isolate_run (\<lambda>u p n. (u, pread_at (env_fault (cx_env cx)) f p n)) off 0 (cmd_len cmd) (cmd_sector_size cmd)
                 (new_isolation () (cx_budget cx))
      in \<lparr>rsp_dext = cmd_dext cmd, rsp_entries = cmd_entries cmd, rsp_good = iso_good st, rsp_bad = iso_bad st,
          rsp_truncated = iso_exhausted st\<rparr>)"

definition sector_phys :: "dev_extent \<Rightarrow> nat \<Rightarrow> nat" where
  "sector_phys dext logical = add64 (phys_start dext) (sub64 logical (chunk_offset dext))"

definition run_cmd :: "nat \<Rightarrow> dev_extent \<Rightarrow> entry list \<Rightarrow> read_cmd" where
  "run_cmd sz dext run =
     \<lparr>cmd_phys = sector_phys dext (fst (hd run)), cmd_len = length run * sz, cmd_dext = dext, cmd_entries = run,
      cmd_sector_size = sz\<rparr>"

text \<open>
  The callback of the checksum stream: a run ends at a gap in logical order or when it is full.
\<close>

fun split_runs :: "nat \<Rightarrow> entry list \<Rightarrow> entry list \<Rightarrow> nat option \<Rightarrow> entry list list" where
  "split_runs ssize [] run prev = (if run = [] then [] else [run])"
| "split_runs ssize (e # es) run prev =
     (let contiguous = (case prev of Some p \<Rightarrow> fst e = add64 p ssize | None \<Rightarrow> True)
      in if (\<not> contiguous \<or> MAX_RUN_SECTORS \<le> length run) \<and> run \<noteq> []
         then run # split_runs ssize es [e] (Some (fst e))
         else split_runs ssize es (run @ [e]) (Some (fst e)))"

subsection \<open>Verifying sectors\<close>

fun run_map :: "('a \<Rightarrow> 'b run) \<Rightarrow> 'a list \<Rightarrow> 'b list run" where
  "run_map f [] = Ret []"
| "run_map f (x # xs) = run_bind (f x) (\<lambda>y. run_bind (run_map f xs) (\<lambda>ys. Ret (y # ys)))"

definition count_checked :: "csum_strategy \<Rightarrow> scrub_acc \<Rightarrow> scrub_acc" where
  "count_checked st a =
     a\<lparr>sc_stats := (sc_stats a)\<lparr>rs_checked := rs_checked (sc_stats a) + 1, rs_bytes := rs_bytes (sc_stats a) + st_sector_size st\<rparr>,
       sc_counters := map_option (\<lambda>c. c\<lparr>c_sectors_checked := c_sectors_checked c + 1,
         c_bytes_checked := c_bytes_checked c + st_sector_size st\<rparr>) (sc_counters a)\<rparr>"

definition count_ok :: "scrub_acc \<Rightarrow> scrub_acc" where
  "count_ok a = a\<lparr>sc_stats := (sc_stats a)\<lparr>rs_ok := rs_ok (sc_stats a) + 1\<rparr>,
     sc_counters := map_option (\<lambda>c. c\<lparr>c_sectors_ok := c_sectors_ok c + 1\<rparr>) (sc_counters a)\<rparr>"

definition count_read_error :: "scrub_acc \<Rightarrow> scrub_acc" where
  "count_read_error a = a\<lparr>sc_stats := (sc_stats a)\<lparr>rs_read_error := rs_read_error (sc_stats a) + 1\<rparr>,
     sc_counters := map_option (\<lambda>c. c\<lparr>c_sectors_read_error := c_sectors_read_error c + 1\<rparr>) (sc_counters a)\<rparr>"

definition count_bad_sector :: "scrub_acc \<Rightarrow> scrub_acc" where
  "count_bad_sector a = a\<lparr>sc_stats := (sc_stats a)\<lparr>rs_mismatch := rs_mismatch (sc_stats a) + 1\<rparr>,
     sc_counters := map_option (\<lambda>c. c\<lparr>c_mismatch := c_mismatch c + 1\<rparr>) (sc_counters a)\<rparr>"

definition count_stale_sector :: "scrub_acc \<Rightarrow> scrub_acc" where
  "count_stale_sector a = a\<lparr>sc_stats := (sc_stats a)\<lparr>rs_stale := rs_stale (sc_stats a) + 1\<rparr>,
     sc_counters := map_option (\<lambda>c. c\<lparr>c_stale := c_stale c + 1\<rparr>) (sc_counters a)\<rparr>"

definition count_truncated :: "scrub_acc \<Rightarrow> scrub_acc" where
  "count_truncated a = a\<lparr>sc_stats := (sc_stats a)\<lparr>rs_truncated := rs_truncated (sc_stats a) + 1\<rparr>,
     sc_counters := map_option (\<lambda>c. c\<lparr>c_isolation_truncated := c_isolation_truncated c + 1\<rparr>) (sc_counters a)\<rparr>"

definition emit :: "dev_extent \<Rightarrow> entry \<Rightarrow> bytes \<Rightarrow> bool \<Rightarrow> scrub_acc \<Rightarrow> scrub_acc" where
  "emit dext e actual unreadable a =
     a\<lparr>sc_events := sc_events a @
        [\<lparr>sr_logical = fst e, sr_devid = dx_devid dext, sr_array_phys = sector_phys dext (fst e), sr_inode = 0,
          sr_file_offset = 0, sr_stored = Some (snd e), sr_actual = actual, sr_unreadable = unreadable, sr_ok = False\<rparr>]\<rparr>"

text \<open>Outside batch mode a mismatch is checked against the live trees and a fresh read before it is reported.\<close>

definition recheck_sector :: "scrub_ctx \<Rightarrow> dev_extent \<Rightarrow> entry \<Rightarrow> bytes \<Rightarrow> scrub_acc \<Rightarrow> scrub_acc run option" where
  "recheck_sector cx dext e actual a =
     (let E = cx_env cx; r = cx_reader cx; st = cx_strategy cx in
      walk_bind (live_data_tree_roots E r (cx_chunk_map cx) (base_offset r) (sc_counters a)) (\<lambda>(c, roots).
        let a1 = a\<lparr>sc_counters := c\<rparr> in
        case roots of
          None \<Rightarrow> Some (Ret (count_read_error a1))
        | Some (ext_root, csum_rt) \<Rightarrow>
            walk_bind (Some (reconfirm_mismatch E r (cx_chunk_map cx) ext_root csum_rt (fst e) (snd e) (hash_len st) (st_sector_size st)))
              (\<lambda>verdict.
                 let fresh = read_physical E r (dx_devid dext) (sector_phys dext (fst e)) (st_sector_size st) in
                 walk_bind (Some (if verdict \<noteq> Corruption then Ret False
                                  else (case fresh of
                                          Inr buf \<Rightarrow> run_bind (csum_compute (env_hashes E) st buf) (\<lambda>h. Ret (h \<noteq> snd e))
                                        | Inl err \<Rightarrow> Ret True)))
                   (\<lambda>is_corruption.
                      Some (Ret (if is_corruption then emit dext e actual False (count_bad_sector a1)
                                 else count_stale_sector a1))))))"

definition check_sector :: "scrub_ctx \<Rightarrow> dev_extent \<Rightarrow> entry \<Rightarrow> bytes \<Rightarrow> scrub_acc \<Rightarrow> scrub_acc run option" where
  "check_sector cx dext e actual a =
     (let a1 = count_checked (cx_strategy cx) a in
      if actual = snd e then Some (Ret (count_ok a1))
      else if cx_batch cx then Some (Ret (emit dext e actual False a1))
      else recheck_sector cx dext e actual a1)"

fun check_sectors :: "scrub_ctx \<Rightarrow> dev_extent \<Rightarrow> (entry \<times> bytes) list \<Rightarrow> scrub_acc \<Rightarrow> scrub_acc run option" where
  "check_sectors cx dext [] a = Some (Ret a)"
| "check_sectors cx dext ((e, actual) # rest) a =
     walk_bind (check_sector cx dext e actual a) (check_sectors cx dext rest)"

definition process_buf :: "scrub_ctx \<Rightarrow> dev_extent \<Rightarrow> bytes \<Rightarrow> entry list \<Rightarrow> scrub_acc \<Rightarrow> scrub_acc run option" where
  "process_buf cx dext buf run a =
     (let st = cx_strategy cx; sz = st_sector_size st in
      walk_bind (Some (run_map (\<lambda>i. run_bind (slice buf (i * sz) sz) (csum_compute (env_hashes (cx_env cx)) st)) [0..<length run]))
        (\<lambda>actuals. check_sectors cx dext (zip run actuals) a))"

fun process_good :: "scrub_ctx \<Rightarrow> dev_extent \<Rightarrow> entry list \<Rightarrow> (nat \<times> bytes) list \<Rightarrow> scrub_acc \<Rightarrow> scrub_acc run option" where
  "process_good cx dext entries [] a = Some (Ret a)"
| "process_good cx dext entries ((start, buf) # rest) a =
     (let sz = st_sector_size (cx_strategy cx);
          first = start div sz;
          last = min ((start + length buf) div sz) (length entries)
      in if last < first then Some Panic
         else let region = take (last - first) (drop first entries)
              in if region = [] then process_good cx dext entries rest a
                 else walk_bind (process_buf cx dext buf region a) (process_good cx dext entries rest))"

fun process_bad :: "scrub_ctx \<Rightarrow> dev_extent \<Rightarrow> entry list \<Rightarrow> nat list \<Rightarrow> scrub_acc \<Rightarrow> scrub_acc" where
  "process_bad cx dext entries [] a = a"
| "process_bad cx dext entries (start # rest) a =
     (let st = cx_strategy cx; idx = start div st_sector_size st in
      if length entries \<le> idx then process_bad cx dext entries rest a
      else let e = entries ! idx;
               a1 = count_read_error (count_checked st a)
           in process_bad cx dext entries rest
                (if cx_batch cx \<and> length (snd e) = hash_len st then emit dext e [] True a1 else a1))"

definition process_isolated ::
  "scrub_ctx \<Rightarrow> (nat \<times> bytes) list \<Rightarrow> nat list \<Rightarrow> bool \<Rightarrow> dev_extent \<Rightarrow> entry list \<Rightarrow> scrub_acc \<Rightarrow> scrub_acc run option" where
  "process_isolated cx good bad truncated dext entries a =
     (let a1 = (if truncated then count_truncated a else a)
      in walk_bind (process_good cx dext entries good a1) (\<lambda>a2. Some (Ret (process_bad cx dext entries bad a2))))"

definition process_rsp :: "scrub_ctx \<Rightarrow> read_rsp \<Rightarrow> scrub_acc \<Rightarrow> scrub_acc run option" where
  "process_rsp cx rsp = process_isolated cx (rsp_good rsp) (rsp_bad rsp) (rsp_truncated rsp) (rsp_dext rsp) (rsp_entries rsp)"

subsection \<open>The pipelined scrub\<close>

text \<open>
  The main thread's side of the pipeline: results so far, the responses in flight (\<open>None\<close> for a
  command the dead reader thread never answers), the number of commands sent and the failure flag.
\<close>

record pipe =
  pp_acc :: scrub_acc
  pp_inflight :: "read_rsp option list"
  pp_sent :: nat
  pp_failed :: bool

text \<open>
  What becomes of the reader thread: its handle may fail to be duplicated, it may die at a command, which it and its
  successors are never answered, and the main thread may notice at a later send, which then fails.
\<close>

record reader_fate =
  handle_fault :: "io_kind option"
  dies_at :: "nat option"
  send_fails_at :: "nat option"

definition before :: "nat option \<Rightarrow> nat \<Rightarrow> bool" where
  "before limit k = (case limit of None \<Rightarrow> True | Some n \<Rightarrow> k < n)"

definition healthy :: reader_fate where
  "healthy = \<lparr>handle_fault = None, dies_at = None, send_fails_at = None\<rparr>"

definition dup_handle :: "scrub_ctx \<Rightarrow> reader_fate \<Rightarrow> io_kind + disk" where
  "dup_handle cx fate = (case handle_fault fate of Some e \<Rightarrow> Inl e | None \<Rightarrow> reopen (cx_env cx) (cx_reader cx))"

definition recv_one :: "scrub_ctx \<Rightarrow> pipe \<Rightarrow> pipe run option" where
  "recv_one cx pp =
     (case pp_inflight pp of
        [] \<Rightarrow> Some (Ret pp)
      | None # q \<Rightarrow> Some (Ret (pp\<lparr>pp_failed := True\<rparr>))
      | Some rsp # q \<Rightarrow>
          walk_bind (process_rsp cx rsp (pp_acc pp)) (\<lambda>a. Some (Ret (pp\<lparr>pp_acc := a, pp_inflight := q\<rparr>))))"

definition flush_run :: "scrub_ctx \<Rightarrow> reader_fate \<Rightarrow> disk \<Rightarrow> dev_extent \<Rightarrow> entry list \<Rightarrow> pipe \<Rightarrow> pipe run option" where
  "flush_run cx fate f dext run pp =
     (if run = [] \<or> pp_failed pp then Some (Ret pp)
      else if \<not> before (send_fails_at fate) (pp_sent pp) then Some (Ret (pp\<lparr>pp_failed := True\<rparr>))
      else let cmd = run_cmd (st_sector_size (cx_strategy cx)) dext run;
               rsp = isolate_run_read cx f (sat64 (base_offset (cx_reader cx)) (cmd_phys cmd)) cmd;
               pp1 = pp\<lparr>pp_inflight := pp_inflight pp @ [if before (dies_at fate) (pp_sent pp) then Some rsp else None],
                        pp_sent := pp_sent pp + 1\<rparr>
           in if prefetch_depth_for (cx_strategy cx) \<le> length (pp_inflight pp1) then recv_one cx pp1 else Some (Ret pp1))"

fun flush_runs :: "scrub_ctx \<Rightarrow> reader_fate \<Rightarrow> disk \<Rightarrow> dev_extent \<Rightarrow> entry list list \<Rightarrow> pipe \<Rightarrow> pipe run option" where
  "flush_runs cx fate f dext [] pp = Some (Ret pp)"
| "flush_runs cx fate f dext (run # rs) pp =
     walk_bind (flush_run cx fate f dext run pp) (flush_runs cx fate f dext rs)"

definition bump_progress :: "nat \<Rightarrow> scrub_acc \<Rightarrow> scrub_acc" where
  "bump_progress n a = a\<lparr>sc_counters := map_option (\<lambda>c. c\<lparr>c_progress_done := c_progress_done c + n\<rparr>) (sc_counters a)\<rparr>"

text \<open>Whether an extent is scrubbed: it has a chunk, and the chunk holds data.\<close>

definition is_data_extent :: "chunk_map \<Rightarrow> dev_extent \<Rightarrow> bool" where
  "is_data_extent cm dext =
     (case chunk_info_at cm (chunk_offset dext) of None \<Rightarrow> False | Some ci \<Rightarrow> ci_flags ci AND BG_DATA \<noteq> 0)"

definition extent_csums ::
  "scrub_ctx \<Rightarrow> dev_extent \<Rightarrow> csum_provider \<Rightarrow> scrub_acc \<Rightarrow> (csum_provider \<times> scrub_acc \<times> entry list) run option" where
  "extent_csums cx dext p a =
     walk_bind (csum_range (cx_env cx) p (chunk_offset dext) (add64 (chunk_offset dext) (dx_length dext)) (sc_counters a))
       (\<lambda>(p', c', es). Some (Ret (p', a\<lparr>sc_counters := c'\<rparr>, es)))"

fun scrub_extents ::
  "scrub_ctx \<Rightarrow> reader_fate \<Rightarrow> disk \<Rightarrow> dev_extent list \<Rightarrow> csum_provider \<Rightarrow> pipe \<Rightarrow> (csum_provider \<times> pipe) run option" where
  "scrub_extents cx fate f [] p pp = Some (Ret (p, pp))"
| "scrub_extents cx fate f (dext # rest) p pp =
     (if \<not> is_data_extent (cx_chunk_map cx) dext then scrub_extents cx fate f rest p pp
      else walk_bind (extent_csums cx dext p (pp_acc pp)) (\<lambda>(p', a', es).
        walk_bind (flush_runs cx fate f dext (split_runs (st_sector_size (cx_strategy cx)) es [] None) (pp\<lparr>pp_acc := a'\<rparr>)) (\<lambda>pp'.
          if pp_failed pp' then Some (Ret (p', pp'))
          else scrub_extents cx fate f rest p' (pp'\<lparr>pp_acc := bump_progress (dx_length dext) (pp_acc pp')\<rparr>))))"

fun drain_inflight :: "scrub_ctx \<Rightarrow> read_rsp option list \<Rightarrow> pipe \<Rightarrow> pipe run option" where
  "drain_inflight cx [] pp = Some (Ret (pp\<lparr>pp_inflight := []\<rparr>))"
| "drain_inflight cx (None # q) pp = Some (Ret (pp\<lparr>pp_failed := True\<rparr>))"
| "drain_inflight cx (Some rsp # q) pp =
     walk_bind (process_rsp cx rsp (pp_acc pp)) (\<lambda>a. drain_inflight cx q (pp\<lparr>pp_acc := a\<rparr>))"

subsection \<open>The inline scrub\<close>

text \<open>
  The runs the inline scrub flushes. Its \<open>flush\<close> hands the run on but does not empty it, as the pipelined one does with
  \<open>mem::take\<close>: every run still holds the entries of the runs before it.
\<close>

fun grow_runs :: "nat \<Rightarrow> entry list \<Rightarrow> entry list \<Rightarrow> nat option \<Rightarrow> entry list list" where
  "grow_runs ssize [] run prev = (if run = [] then [] else [run])"
| "grow_runs ssize (e # es) run prev =
     (let contiguous = (case prev of Some p \<Rightarrow> fst e = add64 p ssize | None \<Rightarrow> True)
      in if (\<not> contiguous \<or> MAX_RUN_SECTORS \<le> length run) \<and> run \<noteq> []
         then run # grow_runs ssize es (run @ [e]) (Some (fst e))
         else grow_runs ssize es (run @ [e]) (Some (fst e)))"

definition inline_run :: "scrub_ctx \<Rightarrow> dev_extent \<Rightarrow> entry list \<Rightarrow> scrub_acc \<Rightarrow> scrub_acc run option" where
  "inline_run cx dext run a =
     (if run = [] then Some (Ret a)
      else let sz = st_sector_size (cx_strategy cx);
               st = isolate_run (\<lambda>u p n. (u, read_physical (cx_env cx) (cx_reader cx) (dx_devid dext) p n))
                      (sector_phys dext (fst (hd run))) 0 (length run * sz) sz (new_isolation () (cx_budget cx))
           in process_isolated cx (iso_good st) (iso_bad st) (iso_exhausted st) dext run a)"

fun inline_runs :: "scrub_ctx \<Rightarrow> dev_extent \<Rightarrow> entry list list \<Rightarrow> scrub_acc \<Rightarrow> scrub_acc run option" where
  "inline_runs cx dext [] a = Some (Ret a)"
| "inline_runs cx dext (run # rs) a = walk_bind (inline_run cx dext run a) (inline_runs cx dext rs)"

fun inline_extents ::
  "scrub_ctx \<Rightarrow> dev_extent list \<Rightarrow> csum_provider \<Rightarrow> scrub_acc \<Rightarrow> (csum_provider \<times> scrub_acc) run option" where
  "inline_extents cx [] p a = Some (Ret (p, a))"
| "inline_extents cx (dext # rest) p a =
     (if \<not> is_data_extent (cx_chunk_map cx) dext then inline_extents cx rest p a
      else walk_bind (extent_csums cx dext p a) (\<lambda>(p', a', es).
        walk_bind (inline_runs cx dext (grow_runs (st_sector_size (cx_strategy cx)) es [] None) a') (\<lambda>a''.
          inline_extents cx rest p' (bump_progress (dx_length dext) a''))))"

definition set_stale_branches :: "csum_provider \<Rightarrow> scrub_acc \<Rightarrow> scrub_acc" where
  "set_stale_branches p a = a\<lparr>sc_stats := (sc_stats a)\<lparr>rs_stale_branches := pv_stale_branches p\<rparr>\<rparr>"

definition scrub_dev_tree_inline ::
  "scrub_ctx \<Rightarrow> csum_provider \<Rightarrow> dev_extent list \<Rightarrow> status_counters option \<Rightarrow> (csum_provider \<times> scrub_acc) run option" where
  "scrub_dev_tree_inline cx p dexts counters =
     walk_bind (inline_extents cx dexts p \<lparr>sc_stats = zero_stats, sc_counters = counters, sc_events = []\<rparr>)
       (\<lambda>(p', a). Some (Ret (p', set_stale_branches p' a)))"

text \<open>The result carries the events and counters of a failed scrub too: they were delivered before the failure.\<close>

definition scrub_dev_tree ::
  "scrub_ctx \<Rightarrow> reader_fate \<Rightarrow> csum_provider \<Rightarrow> dev_extent list \<Rightarrow> status_counters option \<Rightarrow>
   (csum_provider \<times> scrub_acc \<times> (io_kind + run_stats)) run option" where
  "scrub_dev_tree cx fate p dexts counters =
     (case dup_handle cx fate of
        Inl e \<Rightarrow>
          walk_bind (scrub_dev_tree_inline cx p dexts counters) (\<lambda>(p', a). Some (Ret (p', a, Inr (sc_stats a))))
      | Inr f \<Rightarrow>
          walk_bind (scrub_extents cx fate f dexts p
              \<lparr>pp_acc = \<lparr>sc_stats = zero_stats, sc_counters = counters, sc_events = []\<rparr>, pp_inflight = [], pp_sent = 0, pp_failed = False\<rparr>)
            (\<lambda>(p', pp). walk_bind (drain_inflight cx (pp_inflight pp) pp) (\<lambda>pp'.
               if pp_failed pp' then Some (Ret (p', pp_acc pp', Inl OtherError))
               else let a = set_stale_branches p' (pp_acc pp') in Some (Ret (p', a, Inr (sc_stats a))))))"

end
