(* ===== verification/Scrub_Props.thy ===== *)
theory Scrub_Props
  imports Btrfs_Scrub
begin

text \<open>
  What the scrub guarantees: the runs cover the checksum stream, a run in batch mode reports exactly
  the sectors that do not verify, and the statistics balance.
\<close>

subsection \<open>Runs\<close>

text \<open>Sector \<open>i\<close> of a run lies \<open>i\<close> sectors after the first.\<close>

definition contiguous :: "nat \<Rightarrow> entry list \<Rightarrow> bool" where
  "contiguous sz run \<longleftrightarrow> (\<forall>i. Suc i < length run \<longrightarrow> fst (run ! Suc i) = add64 (fst (run ! i)) sz)"

definition run_ok :: "nat \<Rightarrow> entry list \<Rightarrow> bool" where
  "run_ok sz run \<longleftrightarrow> run \<noteq> [] \<and> length run \<le> MAX_RUN_SECTORS \<and> contiguous sz run"

lemma contiguous_snoc:
  "contiguous sz run \<Longrightarrow> run \<noteq> [] \<Longrightarrow> fst e = add64 (fst (last run)) sz \<Longrightarrow> contiguous sz (run @ [e])"
proof -
  assume a: "contiguous sz run" "run \<noteq> []" "fst e = add64 (fst (last run)) sz"
  have "fst ((run @ [e]) ! Suc i) = add64 (fst ((run @ [e]) ! i)) sz" if i: "Suc i < length (run @ [e])" for i
  proof (cases "Suc i < length run")
    case False
    with i have si: "Suc i = length run" by simp
    then have "last run = run ! i" using a(2) by (simp add: last_conv_nth flip: si)
    with a(3) si show ?thesis by (simp add: nth_append)
  qed (use a(1) in \<open>simp add: contiguous_def nth_append\<close>)
  then show ?thesis by (simp add: contiguous_def)
qed

lemma split_runs_ok:
  assumes "run = [] \<and> prev = None \<or> run_ok sz run \<and> prev = Some (fst (last run))"
  shows "(\<forall>r \<in> set (split_runs sz es run prev). run_ok sz r) \<and> concat (split_runs sz es run prev) = run @ es"
  using assms
proof (induction es arbitrary: run prev)
  case (Cons e es)
  have one: "run_ok sz [e]" by (simp add: run_ok_def contiguous_def MAX_RUN_SECTORS_def)
  show ?case
  proof (cases "((case prev of Some p \<Rightarrow> fst e \<noteq> add64 p sz | None \<Rightarrow> False) \<or> MAX_RUN_SECTORS \<le> length run) \<and> run \<noteq> []")
    case True
    then show ?thesis using Cons.IH [of "[e]" "Some (fst e)"] Cons.prems one by (auto simp: Let_def split: option.splits)
  next
    case False
    have "run_ok sz (run @ [e])"
    proof (cases "run = []")
      case nonempty: False
      with False Cons.prems show ?thesis
        by (auto simp: run_ok_def intro!: contiguous_snoc split: option.splits)
    qed (use one in simp)
    moreover have "split_runs sz (e # es) run prev = split_runs sz es (run @ [e]) (Some (fst e))"
      using False by (auto simp: Let_def split: option.splits)
    ultimately show ?thesis using Cons.IH [of "run @ [e]" "Some (fst e)"] by simp
  qed
qed auto

text \<open>The checksum stream of an extent is cut into read commands without loss: the runs are the stream in
  order, and each is non-empty, at most 16384 sectors long and without gaps between its sectors.\<close>

lemma runs_cover_stream:
  "concat (split_runs sz es [] None) = es \<and>
   (\<forall>r \<in> set (split_runs sz es [] None). run_ok sz r)"
  using split_runs_ok [of "[]" None sz es] by simp

lemma runs_cover_stream_witness:
  "split_runs 4096 [(0, [1]), (4096, [2]), (12288, [3])] [] None = [[(0, [1]), (4096, [2])], [(12288, [3])]] \<and>
   (\<forall>r \<in> set (split_runs 4096 [(0, [1]), (4096, [2]), (12288, [3])] [] None). run_ok 4096 r)"
  using runs_cover_stream [of 4096 "[(0, [1]), (4096, [2]), (12288, [3])]"] by (simp add: add64_def MAX_RUN_SECTORS_def)

subsection \<open>The statistics balance\<close>

text \<open>
  Every checked sector is in exactly one bucket; in batch mode a readable mismatch is an event of its own.
\<close>

definition readable_events :: "scrub_acc \<Rightarrow> nat" where
  "readable_events a = length (filter (\<lambda>ev. \<not> sr_unreadable ev) (sc_events a))"

definition books :: "scrub_ctx \<Rightarrow> scrub_acc \<Rightarrow> bool" where
  "books cx a \<longleftrightarrow>
     (let s = sc_stats a in
      rs_checked s = rs_ok s + rs_mismatch s + rs_stale s + rs_read_error s + (if cx_batch cx then readable_events a else 0) \<and>
      (cx_batch cx \<longrightarrow> rs_mismatch s = 0 \<and> rs_stale s = 0) \<and>
      (\<not> cx_batch cx \<longrightarrow> length (sc_events a) = rs_mismatch s \<and> readable_events a = rs_mismatch s) \<and>
      rs_bytes s = rs_checked s * st_sector_size (cx_strategy cx) \<and> rs_no_csum s = 0)"

lemmas acc_defs = count_checked_def count_ok_def count_read_error_def count_bad_sector_def count_stale_sector_def
  count_truncated_def emit_def bump_progress_def set_stale_branches_def

lemma walk_bind_Some: "walk_bind m f = Some (Ret y) \<longleftrightarrow> (\<exists>x. m = Some (Ret x) \<and> f x = Some (Ret y))"
  by (auto simp: walk_bind_def split: option.splits run.splits)

lemma run_bind_Some: "Some (run_bind m f) = Some (Ret y) \<longleftrightarrow> (\<exists>x. m = Ret x \<and> f x = Ret y)"
  by (simp add: run_bind_eq_Ret)

lemma books_counters [simp]: "books cx (a\<lparr>sc_counters := c\<rparr>) = books cx a"
  by (simp add: books_def readable_events_def)

lemma check_sector_books:
  assumes "check_sector cx dext e actual a = Some (Ret a')" "books cx a"
  shows "books cx a'"
proof -
  consider (ok) "actual = snd e" | (batch) "actual \<noteq> snd e" "cx_batch cx" | (live) "actual \<noteq> snd e" "\<not> cx_batch cx" by blast
  then show ?thesis
  proof cases
    case live
    then obtain c x where "a' = count_read_error ((count_checked (cx_strategy cx) a)\<lparr>sc_counters := c\<rparr>) \<or>
        a' = emit dext e actual False (count_bad_sector ((count_checked (cx_strategy cx) a)\<lparr>sc_counters := c\<rparr>)) \<or>
        a' = count_stale_sector ((count_checked (cx_strategy cx) a)\<lparr>sc_counters := c\<rparr>)"
      using assms(1)
      by (auto simp: check_sector_def recheck_sector_def Let_def walk_bind_Some split: option.splits prod.splits if_splits)
    then show ?thesis using assms(2) live
      by (auto simp: books_def readable_events_def acc_defs Let_def)
  qed (use assms in \<open>auto simp: check_sector_def books_def readable_events_def acc_defs Let_def\<close>)
qed

lemma check_sectors_books: "check_sectors cx dext xs a = Some (Ret a') \<Longrightarrow> books cx a \<Longrightarrow> books cx a'"
proof (induction cx dext xs a rule: check_sectors.induct)
  case (2 cx dext e actual rest a)
  then show ?case by (auto simp: walk_bind_Some dest: check_sector_books)
qed simp

lemma process_good_books: "process_good cx dext es gs a = Some (Ret a') \<Longrightarrow> books cx a \<Longrightarrow> books cx a'"
proof (induction cx dext es gs a rule: process_good.induct)
  case (2 cx dext entries start buf rest a)
  then show ?case
    by (auto simp: walk_bind_Some process_buf_def Let_def dest: check_sectors_books split: if_splits)
qed simp

lemma books_unreadable:
  "books cx a \<Longrightarrow> books cx (count_read_error (count_checked (cx_strategy cx) a))"
  "books cx a \<Longrightarrow> cx_batch cx \<Longrightarrow> books cx (emit dext e x True a)"
  by (simp_all add: books_def readable_events_def acc_defs Let_def)

lemma process_bad_books: "books cx a \<Longrightarrow> books cx (process_bad cx dext es bs a)"
proof (induction cx dext es bs a rule: process_bad.induct)
  case (2 cx dext entries start rest a)
  show ?case
    using 2 books_unreadable by (simp add: Let_def)
qed simp

lemma process_isolated_books:
  "process_isolated cx good bad tr dext es a = Some (Ret a') \<Longrightarrow> books cx a \<Longrightarrow> books cx a'"
proof -
  have "books cx (if tr then count_truncated a else a) \<longleftrightarrow> books cx a"
    by (simp add: books_def readable_events_def acc_defs Let_def)
  then show "process_isolated cx good bad tr dext es a = Some (Ret a') \<Longrightarrow> books cx a \<Longrightarrow> books cx a'"
    by (auto simp: process_isolated_def walk_bind_Some Let_def intro!: process_bad_books dest: process_good_books)
qed

lemma process_rsp_books: "process_rsp cx rsp a = Some (Ret a') \<Longrightarrow> books cx a \<Longrightarrow> books cx a'"
  unfolding process_rsp_def by (rule process_isolated_books)

lemma flush_run_books:
  "flush_run cx dies f dext run pp = Some (Ret pp') \<Longrightarrow> books cx (pp_acc pp) \<Longrightarrow> books cx (pp_acc pp')"
  by (auto simp: flush_run_def recv_one_def Let_def walk_bind_Some
      split: if_splits list.splits option.splits dest: process_rsp_books)

lemma flush_runs_books:
  "flush_runs cx dies f dext rs pp = Some (Ret pp') \<Longrightarrow> books cx (pp_acc pp) \<Longrightarrow> books cx (pp_acc pp')"
proof (induction cx dies f dext rs pp rule: flush_runs.induct)
  case (2 cx dies f dext run rs pp)
  then show ?case by (auto simp: walk_bind_Some dest: flush_run_books)
qed simp

lemma bump_progress_books [simp]: "books cx (bump_progress n a) = books cx a"
  by (simp add: bump_progress_def)

lemma extent_csums_books:
  "extent_csums cx dext p a = Some (Ret (p', a', es)) \<Longrightarrow> books cx a' = books cx a"
  by (auto simp: extent_csums_def walk_bind_Some)

lemma scrub_extents_books:
  "scrub_extents cx dies f dexts p pp = Some (Ret (p', pp')) \<Longrightarrow> books cx (pp_acc pp) \<Longrightarrow> books cx (pp_acc pp')"
proof (induction dexts arbitrary: p pp)
  case (Cons dext rest)
  show ?case
  proof (cases "is_data_extent (cx_chunk_map cx) dext")
    case True
    then obtain p1 a1 es pp1 where 1: "extent_csums cx dext p (pp_acc pp) = Some (Ret (p1, a1, es))"
        "flush_runs cx dies f dext (split_runs (st_sector_size (cx_strategy cx)) es [] None) (pp\<lparr>pp_acc := a1\<rparr>) = Some (Ret pp1)"
        "(if pp_failed pp1 then Some (Ret (p1, pp1))
          else scrub_extents cx dies f rest p1 (pp1\<lparr>pp_acc := bump_progress (dx_length dext) (pp_acc pp1)\<rparr>)) = Some (Ret (p', pp'))"
      using Cons.prems(1) by (auto simp: walk_bind_Some)
    have b: "books cx (pp_acc pp1)"
      using flush_runs_books [OF 1(2)] extent_csums_books [OF 1(1)] Cons.prems(2) by simp
    show ?thesis
    proof (cases "pp_failed pp1")
      case False
      then show ?thesis using 1(3) b by (auto intro: Cons.IH)
    qed (use 1(3) b in simp)
  qed (use Cons in simp)
qed simp

lemma drain_inflight_books:
  "drain_inflight cx q pp = Some (Ret pp') \<Longrightarrow> books cx (pp_acc pp) \<Longrightarrow> books cx (pp_acc pp')"
proof (induction cx q pp rule: drain_inflight.induct)
  case (3 cx rsp q pp)
  then show ?case by (auto simp: walk_bind_Some dest: process_rsp_books)
qed auto

lemma inline_run_books: "inline_run cx dext run a = Some (Ret a') \<Longrightarrow> books cx a \<Longrightarrow> books cx a'"
  by (auto simp: inline_run_def Let_def dest: process_isolated_books split: if_splits)

lemma inline_runs_books: "inline_runs cx dext rs a = Some (Ret a') \<Longrightarrow> books cx a \<Longrightarrow> books cx a'"
proof (induction cx dext rs a rule: inline_runs.induct)
  case (2 cx dext run rs a)
  then show ?case by (auto simp: walk_bind_Some dest: inline_run_books)
qed simp

lemma inline_extents_books:
  "inline_extents cx dexts p a = Some (Ret (p', a')) \<Longrightarrow> books cx a \<Longrightarrow> books cx a'"
proof (induction dexts arbitrary: p a)
  case (Cons dext rest)
  show ?case
  proof (cases "is_data_extent (cx_chunk_map cx) dext")
    case True
    then obtain p1 a1 es a2 where 1: "extent_csums cx dext p a = Some (Ret (p1, a1, es))"
        "inline_runs cx dext (grow_runs (st_sector_size (cx_strategy cx)) es [] None) a1 = Some (Ret a2)"
        "inline_extents cx rest p1 (bump_progress (dx_length dext) a2) = Some (Ret (p', a'))"
      using Cons.prems(1) by (auto simp: walk_bind_Some)
    have "books cx a2" using inline_runs_books [OF 1(2)] extent_csums_books [OF 1(1)] Cons.prems(2) by simp
    then show ?thesis using Cons.IH [OF 1(3)] by simp
  qed (use Cons in simp)
qed simp

lemma scrub_dev_tree_books:
  assumes "scrub_dev_tree cx dies p dexts c = Some (Ret (p', a, res))"
  shows "books cx a \<and> (\<forall>s. res = Inr s \<longrightarrow> s = sc_stats a)"
proof -
  have z: "books cx \<lparr>sc_stats = zero_stats, sc_counters = c, sc_events = []\<rparr>"
    by (simp add: books_def zero_stats_def readable_events_def)
  have ssb: "books cx (set_stale_branches q x) = books cx x" for q x
    by (simp add: books_def readable_events_def acc_defs Let_def)
  show ?thesis
  proof (cases "dup_handle cx dies")
    case (Inl e)
    then show ?thesis using assms z ssb
      by (auto simp: scrub_dev_tree_def scrub_dev_tree_inline_def walk_bind_Some dest: inline_extents_books)
  next
    case (Inr f)
    then show ?thesis using assms z ssb
      by (auto simp: scrub_dev_tree_def walk_bind_Some Let_def dest!: scrub_extents_books drain_inflight_books split: if_splits)
  qed
qed

end
