(* ===== verification/Scrub_Verdicts.thy ===== *)
theory Scrub_Verdicts
  imports Scrub_Props
begin

text \<open>
  What one run of a batch-mode scrub reports, sector by sector, in terms of the bytes on the device.
\<close>

subsection \<open>Steps of the sector loop\<close>

definition sector_hash :: "scrub_ctx \<Rightarrow> bytes \<Rightarrow> bytes" where
  "sector_hash cx bs = (case csum_compute (env_hashes (cx_env cx)) (cx_strategy cx) bs of Ret h \<Rightarrow> h | Panic \<Rightarrow> [])"

text \<open>The strategies \<open>from_superblock\<close> builds, in batch mode.\<close>

definition batch_ctx :: "scrub_ctx \<Rightarrow> bool" where
  "batch_ctx cx \<longleftrightarrow> cx_batch cx \<and> st_csum_type (cx_strategy cx) < 4 \<and> 0 < st_sector_size (cx_strategy cx)"

definition verify_step :: "scrub_ctx \<Rightarrow> dev_extent \<Rightarrow> entry list \<Rightarrow> (nat \<Rightarrow> bytes) \<Rightarrow> nat \<Rightarrow> scrub_acc \<Rightarrow> scrub_acc" where
  "verify_step cx dext es sec i a =
     (let a1 = count_checked (cx_strategy cx) a; h = sector_hash cx (sec i)
      in if h = snd (es ! i) then count_ok a1 else emit dext (es ! i) h False a1)"

definition unreadable_step :: "scrub_ctx \<Rightarrow> dev_extent \<Rightarrow> entry list \<Rightarrow> nat \<Rightarrow> scrub_acc \<Rightarrow> scrub_acc" where
  "unreadable_step cx dext es i a =
     (let a1 = count_read_error (count_checked (cx_strategy cx) a)
      in if length (snd (es ! i)) = hash_len (cx_strategy cx) then emit dext (es ! i) [] True a1 else a1)"

lemma csum_compute_total: "st_csum_type (cx_strategy cx) < 4 \<Longrightarrow>
  csum_compute (env_hashes (cx_env cx)) (cx_strategy cx) bs = Ret (sector_hash cx bs)"
  by (auto simp: sector_hash_def csum_compute_def hash_bytes_def CRC32C_def XXHASH_def SHA256_def BLAKE2_def)

lemma run_map_Ret: "\<forall>x \<in> set xs. f x = Ret (g x) \<Longrightarrow> run_map f xs = Ret (map g xs)"
  by (induction xs) simp_all

lemma check_sectors_batch:
  assumes "batch_ctx cx"
  shows "check_sectors cx dext xs a = Some (Ret (fold (\<lambda>(e, h) a.
     let a1 = count_checked (cx_strategy cx) a in if h = snd e then count_ok a1 else emit dext e h False a1) xs a))"
  using assms by (induction xs arbitrary: a) (auto simp: check_sector_def batch_ctx_def Let_def)

lemma process_buf_batch:
  assumes "batch_ctx cx" "length buf = n * st_sector_size (cx_strategy cx)" "first + n \<le> length es"
    and "\<forall>j < n. take (st_sector_size (cx_strategy cx)) (drop (j * st_sector_size (cx_strategy cx)) buf) = sec (first + j)"
  shows "process_buf cx dext buf (take n (drop first es)) a =
    Some (Ret (fold (verify_step cx dext es sec) [first..<first + n] a))"
proof -
  let ?sz = "st_sector_size (cx_strategy cx)" and ?run = "take n (drop first es)"
  have len: "length ?run = n" using assms(3) by simp
  have "run_bind (slice buf (i * ?sz) ?sz) (csum_compute (env_hashes (cx_env cx)) (cx_strategy cx)) =
      Ret (sector_hash cx (sec (first + i)))" if "i < n" for i
  proof -
    have "Suc i * ?sz \<le> n * ?sz" using that by (intro mult_le_mono1) simp
    then show ?thesis using assms that by (simp add: slice_def csum_compute_total batch_ctx_def)
  qed
  then have "run_map (\<lambda>i. run_bind (slice buf (i * ?sz) ?sz) (csum_compute (env_hashes (cx_env cx)) (cx_strategy cx))) [0..<length ?run] =
      Ret (map (\<lambda>i. sector_hash cx (sec (first + i))) [0..<n])"
    unfolding len by (intro run_map_Ret) simp
  then have "process_buf cx dext buf ?run a = check_sectors cx dext (zip ?run (map (\<lambda>i. sector_hash cx (sec (first + i))) [0..<n])) a"
    by (simp add: process_buf_def Let_def)
  also have "zip ?run (map (\<lambda>i. sector_hash cx (sec (first + i))) [0..<n]) =
      map (\<lambda>i. (es ! i, sector_hash cx (sec i))) [first..<first + n]"
    using assms(3) by (auto intro!: nth_equalityI)
  finally show ?thesis
    by (simp add: check_sectors_batch [OF assms(1)] fold_map comp_def verify_step_def [abs_def] Let_def)
qed

text \<open>A good region of whole sectors inside the run, holding the sectors \<open>sec\<close>.\<close>

definition region_ok :: "nat \<Rightarrow> nat \<Rightarrow> (nat \<Rightarrow> bytes) \<Rightarrow> nat \<times> bytes \<Rightarrow> bool" where
  "region_ok sz n sec g \<longleftrightarrow>
     fst g mod sz = 0 \<and> length (snd g) mod sz = 0 \<and> fst g div sz + length (snd g) div sz \<le> n \<and>
     (\<forall>j < length (snd g) div sz. take sz (drop (j * sz) (snd g)) = sec (fst g div sz + j))"

definition region_idxs :: "nat \<Rightarrow> nat \<times> bytes \<Rightarrow> nat list" where
  "region_idxs sz g = [fst g div sz..<fst g div sz + length (snd g) div sz]"

lemma process_good_batch:
  assumes "batch_ctx cx" "\<forall>g \<in> set gs. region_ok (st_sector_size (cx_strategy cx)) (length es) sec g"
  shows "process_good cx dext es gs a =
    Some (Ret (fold (verify_step cx dext es sec) (concat (map (region_idxs (st_sector_size (cx_strategy cx))) gs)) a))"
  using assms(2)
proof (induction gs arbitrary: a)
  case (Cons g gs)
  let ?sz = "st_sector_size (cx_strategy cx)"
  obtain start buf where g: "g = (start, buf)" by (cases g)
  have ok: "start mod ?sz = 0" "length buf mod ?sz = 0" "start div ?sz + length buf div ?sz \<le> length es"
    "\<forall>j < length buf div ?sz. take ?sz (drop (j * ?sz) buf) = sec (start div ?sz + j)"
    using Cons.prems by (simp_all add: g region_ok_def)
  have len: "length buf = length buf div ?sz * ?sz" using ok(2) by auto
  have last: "min ((start + length buf) div ?sz) (length es) = start div ?sz + length buf div ?sz"
    using ok(1,3) by (simp add: div_add1_eq [of start "length buf"] ok(2))
  note pb = process_buf_batch [OF assms(1) len ok(3,4), of dext a]
  show ?case
  proof (cases "length buf div ?sz = 0")
    case True
    then show ?thesis using Cons last by (simp add: g Let_def region_idxs_def)
  next
    case False
    then show ?thesis using Cons last pb ok(3) by (simp add: g Let_def region_idxs_def)
  qed
qed simp

lemma process_bad_batch:
  assumes "batch_ctx cx" "\<forall>i \<in> set js. i < length es"
  shows "process_bad cx dext es (map (\<lambda>i. i * st_sector_size (cx_strategy cx)) js) a = fold (unreadable_step cx dext es) js a"
  using assms(2)
proof (induction js arbitrary: a)
  case (Cons i js)
  then show ?case using assms(1) by (simp add: Let_def batch_ctx_def unreadable_step_def)
qed simp

subsection \<open>What the steps add up to\<close>

definition report :: "dev_extent \<Rightarrow> entry \<Rightarrow> bytes \<Rightarrow> bool \<Rightarrow> sector_result" where
  "report dext e actual unreadable =
     \<lparr>sr_logical = fst e, sr_devid = dx_devid dext, sr_array_phys = sector_phys dext (fst e), sr_inode = 0,
      sr_file_offset = 0, sr_stored = Some (snd e), sr_actual = actual, sr_unreadable = unreadable, sr_ok = False\<rparr>"

lemma fold_verify:
  "let a' = fold (verify_step cx dext es sec) js a;
       fit = (\<lambda>i. sector_hash cx (sec i) = snd (es ! i)) in
   rs_checked (sc_stats a') = rs_checked (sc_stats a) + length js \<and>
   rs_ok (sc_stats a') = rs_ok (sc_stats a) + length (filter fit js) \<and>
   rs_read_error (sc_stats a') = rs_read_error (sc_stats a) \<and>
   sc_events a' = sc_events a @ map (\<lambda>i. report dext (es ! i) (sector_hash cx (sec i)) False) (filter (\<lambda>i. \<not> fit i) js)"
proof (induction js arbitrary: a)
  case (Cons i js)
  from Cons [of "verify_step cx dext es sec i a"] show ?case
    by (auto simp: Let_def verify_step_def acc_defs report_def)
qed simp

lemma fold_unreadable:
  "let a' = fold (unreadable_step cx dext es) js a in
   rs_checked (sc_stats a') = rs_checked (sc_stats a) + length js \<and> rs_ok (sc_stats a') = rs_ok (sc_stats a) \<and>
   rs_read_error (sc_stats a') = rs_read_error (sc_stats a) + length js \<and>
   sc_events a' = sc_events a @ map (\<lambda>i. report dext (es ! i) [] True)
     (filter (\<lambda>i. length (snd (es ! i)) = hash_len (cx_strategy cx)) js)"
proof (induction js arbitrary: a)
  case (Cons i js)
  from Cons [of "unreadable_step cx dext es i a"] show ?case
    by (auto simp: Let_def unreadable_step_def acc_defs report_def)
qed simp

subsection \<open>From isolation to verdicts\<close>

definition on_disk :: "disk \<Rightarrow> nat \<Rightarrow> nat \<Rightarrow> nat \<Rightarrow> bytes" where
  "on_disk f off sz i = take sz (drop (off + i * sz) (content f))"

lemma pread_at_content: "pread_at flt f off n = Inr b \<Longrightarrow> b = take n (drop off (content f))"
  by (auto simp: pread_at_def read_exact_at_def split: option.splits if_splits prod.splits)

lemma read_from_region:
  assumes "read_from (\<lambda>u p n. (u, pread_at flt f p n)) off g" "fst g mod sz = 0" "j < length (snd g) div sz"
  shows "take sz (drop (j * sz) (snd g)) = on_disk f off sz (fst g div sz + j)"
proof -
  have b: "snd g = take (length (snd g)) (drop (off + fst g) (content f))"
    using assms(1) pread_at_content by (fastforce simp: read_from_def)
  have "Suc j * sz \<le> length (snd g) div sz * sz" using assms(3) by (intro mult_le_mono1) simp
  also have "\<dots> \<le> length (snd g)" by simp
  finally have le: "sz \<le> length (snd g) - j * sz" by simp
  have a: "(fst g div sz + j) * sz = fst g + j * sz" using assms(2) by (auto simp: add_mult_distrib)
  have "take sz (drop (j * sz) (snd g)) = take sz (drop (j * sz) (take (length (snd g)) (drop (off + fst g) (content f))))"
    using b by simp
  also have "\<dots> = take sz (drop (off + fst g + j * sz) (content f))"
    using le by (simp add: drop_take add.commute add.left_commute)
  finally show ?thesis by (simp add: on_disk_def a add.assoc)
qed

lemma region_idxs_sectors: "0 < sz \<Longrightarrow> fst g mod sz = 0 \<Longrightarrow> map (\<lambda>x. x div sz) (region_sectors sz g) = region_idxs sz g"
  by (auto simp: region_sectors_def sector_offsets_def region_idxs_def intro!: nth_equalityI)

text \<open>The isolation of a run, as two lists of sector numbers that partition the run.\<close>

lemma isolate_indices:
  fixes flt :: "(nat \<times> nat) option" and f :: disk and limit off :: nat
  assumes "0 < sz" "off + n * sz < 2 ^ 64"
  defines "st \<equiv> isolate_run (\<lambda>u p n. (u, pread_at flt f p n)) off 0 (n * sz) sz (new_isolation () limit)"
  obtains bl where "iso_bad st = map (\<lambda>i. i * sz) bl"
    "mset (concat (map (region_idxs sz) (iso_good st))) + mset bl = mset [0..<n]"
    "\<forall>g \<in> set (iso_good st). region_ok sz n (on_disk f off sz) g"
    "iso_exhausted st \<or> (\<forall>i \<in> set bl. \<exists>e. pread_at flt f (off + i * sz) sz = Inl e)"
proof -
  let ?rd = "\<lambda>(u::unit) p n. (u, pread_at flt f p n)"
  have full: "full_reads ?rd" by (auto simp: full_reads_def dest: pread_at_length)
  have part: "settled sz st = mset (sector_offsets sz 0 n)"
    using isolate_partition [OF full assms(1), of 0 off n "new_isolation () limit"] assms(2)
    by (simp add: st_def settled_def new_isolation_def)
  have ver: "verdicts_ok ?rd off sz st"
    using isolate_verdicts [OF full assms(1), of 0 off n "new_isolation () limit"] assms(2)
    by (simp add: st_def verdicts_ok_def new_isolation_def)
  define bl where "bl = map (\<lambda>x. x div sz) (iso_bad st)"
  have "set (iso_bad st) \<subseteq> set (sector_offsets sz 0 n)"
    using part by (metis mset_subset_eqD mset_subset_eq_add_right set_mset_mset settled_def subsetI)
  then have bad: "iso_bad st = map (\<lambda>i. i * sz) bl"
    by (auto simp: bl_def sector_offsets_def intro!: map_idI [symmetric])
  have gi: "map (\<lambda>x. x div sz) (concat (map (region_sectors sz) (iso_good st))) = concat (map (region_idxs sz) (iso_good st))"
  proof -
    have "map (\<lambda>x. x div sz) (region_sectors sz g) = region_idxs sz g" if "g \<in> set (iso_good st)" for g
      using ver that by (intro region_idxs_sectors [OF assms(1)]) (simp add: verdicts_ok_def)
    then show ?thesis by (simp add: map_concat comp_def cong: map_cong)
  qed
  have "image_mset (\<lambda>x. x div sz) (settled sz st) = mset (map (\<lambda>x. x div sz) (sector_offsets sz 0 n))"
    by (simp add: part)
  also have "map (\<lambda>x. x div sz) (sector_offsets sz 0 n) = [0..<n]"
    using assms(1) by (auto simp: sector_offsets_def intro!: nth_equalityI)
  finally have mm: "mset (concat (map (region_idxs sz) (iso_good st))) + mset bl = mset [0..<n]"
    by (simp add: settled_def bl_def flip: gi mset_map)
  have "region_ok sz n (on_disk f off sz) g" if g: "g \<in> set (iso_good st)" for g
  proof -
    have v: "read_from ?rd off g" "fst g mod sz = 0" "length (snd g) mod sz = 0" using ver g by (auto simp: verdicts_ok_def)
    have "set (region_idxs sz g) \<subseteq> {0..<n}"
    proof -
      have "set (region_idxs sz g) \<subseteq> set_mset (mset (concat (map (region_idxs sz) (iso_good st))) + mset bl)"
        using g by auto
      also have "\<dots> = {0..<n}" unfolding mm by simp
      finally show ?thesis .
    qed
    moreover have pos: "0 < length (snd g) div sz"
      using ver g v(3) assms(1) by (auto simp: verdicts_ok_def div_greater_zero_iff dest!: dvd_imp_le)
    then have "fst g div sz + length (snd g) div sz - 1 \<in> set (region_idxs sz g)" by (auto simp: region_idxs_def)
    ultimately have "fst g div sz + length (snd g) div sz - 1 < n" by auto
    then have "fst g div sz + length (snd g) div sz \<le> n" using pos by linarith
    then show ?thesis using v read_from_region [OF v(1,2)] by (simp add: region_ok_def)
  qed
  moreover have "iso_exhausted st \<or> (\<forall>i \<in> set bl. \<exists>e. pread_at flt f (off + i * sz) sz = Inl e)"
    using ver by (auto simp: verdicts_ok_def sector_fails_def bad)
  ultimately show thesis using that [OF bad mm] by blast
qed

lemma mset_filter_split:
  assumes "mset gl + mset bl = mset [0..<n]"
  shows "mset (filter P gl) = mset_set {i. i < n \<and> i \<notin> set bl \<and> P i}" "mset (filter P bl) = mset_set {i \<in> set bl. P i}"
    "length bl = card (set bl)" "set bl \<subseteq> {..<n}" "length gl + length bl = n"
proof -
  have d: "distinct (gl @ bl)" and st: "set (gl @ bl) = {0..<n}"
    using assms by (metis mset_append distinct_upt mset_eq_imp_distinct_iff, metis mset_append mset_eq_setD set_upt)
  from d show "length bl = card (set bl)" by (simp add: distinct_card)
  from st show "set bl \<subseteq> {..<n}" by auto
  show "length gl + length bl = n" using arg_cong [OF assms, of size] by simp
  have gl: "set gl = {i. i < n \<and> i \<notin> set bl}" using d st by auto
  have "mset (filter P gl) = mset_set (set (filter P gl))"
    using d by (metis distinct_append distinct_filter mset_set_set)
  also have "set (filter P gl) = {i. i < n \<and> i \<notin> set bl \<and> P i}" using gl by auto
  finally show "mset (filter P gl) = mset_set {i. i < n \<and> i \<notin> set bl \<and> P i}" .
  have "mset (filter P bl) = mset_set (set (filter P bl))"
    using d by (metis distinct_append distinct_filter mset_set_set)
  then show "mset (filter P bl) = mset_set {i \<in> set bl. P i}" by (simp only: set_filter)
qed

text \<open>C32: In batch mode a run is judged by the bytes on the device: there is a set of sectors that could not be read
  (each of them one whose own read fails, unless the isolation budget ran out), every other sector is
  counted good when its bytes hash to the stored checksum and reported with its actual hash otherwise,
  every unreadable sector is counted and reported when it has a full checksum to recover against,
  and nothing is reported twice or left out.\<close>

theorem scrub_run_reports:
  fixes dext :: dev_extent and f :: disk and a :: scrub_acc
  assumes "batch_ctx cx" "run \<noteq> []"
  defines "sz \<equiv> st_sector_size (cx_strategy cx)" and "n \<equiv> length run" and "flt \<equiv> env_fault (cx_env cx)"
  defines "cmd \<equiv> run_cmd sz dext run"
  defines "off \<equiv> sat64 (base_offset (cx_reader cx)) (cmd_phys cmd)"
  defines "rsp \<equiv> isolate_run_read cx f off cmd"
  defines "actual \<equiv> \<lambda>i. sector_hash cx (on_disk f off sz i)"
  assumes "off + n * sz < 2 ^ 64"
  shows "\<exists>a' B. process_rsp cx rsp a = Some (Ret a') \<and> B \<subseteq> {..<n} \<and>
    (rsp_truncated rsp \<or> (\<forall>i \<in> B. \<exists>e. pread_at flt f (off + i * sz) sz = Inl e)) \<and>
    rs_checked (sc_stats a') = rs_checked (sc_stats a) + n \<and>
    rs_read_error (sc_stats a') = rs_read_error (sc_stats a) + card B \<and>
    rs_ok (sc_stats a') = rs_ok (sc_stats a) + card {i. i < n \<and> i \<notin> B \<and> actual i = snd (run ! i)} \<and>
    mset (sc_events a') = mset (sc_events a) +
      image_mset (\<lambda>i. report dext (run ! i) (actual i) False) (mset_set {i. i < n \<and> i \<notin> B \<and> actual i \<noteq> snd (run ! i)}) +
      image_mset (\<lambda>i. report dext (run ! i) [] True) (mset_set {i \<in> B. length (snd (run ! i)) = hash_len (cx_strategy cx)})"
proof -
  have sz: "0 < sz" using assms(1) by (simp add: batch_ctx_def sz_def)
  let ?st = "isolate_run (\<lambda>u p n. (u, pread_at flt f p n)) off 0 (n * sz) sz (new_isolation () (cx_budget cx))"
  obtain bl where bl: "iso_bad ?st = map (\<lambda>i. i * sz) bl"
      "mset (concat (map (region_idxs sz) (iso_good ?st))) + mset bl = mset [0..<n]"
      "\<forall>g \<in> set (iso_good ?st). region_ok sz n (on_disk f off sz) g"
      "iso_exhausted ?st \<or> (\<forall>i \<in> set bl. \<exists>e. pread_at flt f (off + i * sz) sz = Inl e)"
    using isolate_indices [OF sz assms(10)] by blast
  let ?gl = "concat (map (region_idxs sz) (iso_good ?st))"
  note ms = mset_filter_split [OF bl(2)]
  define a0 where "a0 = (if iso_exhausted ?st then count_truncated a else a)"
  define a1 where "a1 = fold (verify_step cx dext run (on_disk f off sz)) ?gl a0"
  define a2 where "a2 = fold (unreadable_step cx dext run) bl a1"
  have rsp: "rsp = \<lparr>rsp_dext = dext, rsp_entries = run, rsp_good = iso_good ?st, rsp_bad = iso_bad ?st,
      rsp_truncated = iso_exhausted ?st\<rparr>"
    by (simp add: rsp_def isolate_run_read_def cmd_def run_cmd_def Let_def flt_def n_def)
  have "process_good cx dext run (iso_good ?st) a0 = Some (Ret a1)"
    using process_good_batch [OF assms(1)] bl(3) by (simp add: a1_def sz_def n_def)
  moreover have "process_bad cx dext run (iso_bad ?st) a1 = a2"
  proof -
    have "\<forall>i \<in> set bl. i < length run" using ms(4) by (auto simp: n_def)
    then show ?thesis unfolding bl(1) a2_def by (rule process_bad_batch [OF assms(1), folded sz_def])
  qed
  ultimately have proc: "process_rsp cx rsp a = Some (Ret a2)"
    by (simp add: process_rsp_def process_isolated_def rsp Let_def a0_def)
  have a0: "sc_events a0 = sc_events a" "rs_checked (sc_stats a0) = rs_checked (sc_stats a)"
      "rs_ok (sc_stats a0) = rs_ok (sc_stats a)" "rs_read_error (sc_stats a0) = rs_read_error (sc_stats a)"
    by (simp_all add: a0_def count_truncated_def)
  have act: "sector_hash cx (on_disk f off sz i) = actual i" for i by (simp add: actual_def)
  note v = fold_verify [of cx dext run "on_disk f off sz" ?gl a0, folded a1_def, unfolded Let_def act]
  note u = fold_unreadable [of cx dext run bl a1, folded a2_def, unfolded Let_def]
  have ok: "length (filter (\<lambda>i. actual i = snd (run ! i)) ?gl) = card {i. i < n \<and> i \<notin> set bl \<and> actual i = snd (run ! i)}"
    using arg_cong [OF ms(1) [of "\<lambda>i. actual i = snd (run ! i)"], of size]
    by (metis size_mset size_mset_set)
  have "mset (sc_events a2) = mset (sc_events a) +
      image_mset (\<lambda>i. report dext (run ! i) (actual i) False) (mset (filter (\<lambda>i. actual i \<noteq> snd (run ! i)) ?gl)) +
      image_mset (\<lambda>i. report dext (run ! i) [] True) (mset (filter (\<lambda>i. length (snd (run ! i)) = hash_len (cx_strategy cx)) bl))"
    using u v a0 by simp
  then have ev: "mset (sc_events a2) = mset (sc_events a) +
      image_mset (\<lambda>i. report dext (run ! i) (actual i) False) (mset_set {i. i < n \<and> i \<notin> set bl \<and> actual i \<noteq> snd (run ! i)}) +
      image_mset (\<lambda>i. report dext (run ! i) [] True) (mset_set {i \<in> set bl. length (snd (run ! i)) = hash_len (cx_strategy cx)})"
    unfolding ms(1,2) .
  show ?thesis
    using proc ms(3-5) bl(4) u v a0 ok ev by (intro exI [of _ a2] exI [of _ "set bl"]) (auto simp: rsp)
qed

text \<open>Two sectors of two bytes, the second with another checksum than the stored one.\<close>

definition demo_dext :: dev_extent where
  "demo_dext = \<lparr>dx_devid = 1, phys_start = 0, dx_length = 4, chunk_offset = 0\<rparr>"

definition demo_cx :: scrub_ctx where
  "demo_cx = \<lparr>cx_env = demo_env, cx_budget = 64, cx_reader = demo_reader, cx_chunk_map = demo_map,
     cx_strategy = demo_strategy\<lparr>st_sector_size := 2\<rparr>, cx_batch = True\<rparr>"

definition demo_run :: "entry list" where
  "demo_run = [(0, 1 # zeros 3), (2, 9 # zeros 3)]"

definition empty_acc :: scrub_acc where
  "empty_acc = \<lparr>sc_stats = zero_stats, sc_counters = None, sc_events = []\<rparr>"

theorem scrub_run_reports_witness:
  "\<exists>a'. process_rsp demo_cx (isolate_run_read demo_cx (plain_disk [1, 2, 3, 4]) 0 (run_cmd 2 demo_dext demo_run)) empty_acc = Some (Ret a') \<and>
    rs_checked (sc_stats a') = 2"
proof -
  have b: "batch_ctx demo_cx" by (simp add: batch_ctx_def demo_cx_def demo_strategy_def CRC32C_def)
  have sz: "st_sector_size (cx_strategy demo_cx) = 2" by (simp add: demo_cx_def)
  have len: "length demo_run = 2" "demo_run \<noteq> []" by (simp_all add: demo_run_def)
  have off: "sat64 (base_offset (cx_reader demo_cx)) (cmd_phys (run_cmd 2 demo_dext demo_run)) = 0"
    by (simp add: demo_cx_def demo_reader_def new_reader_def sat64_def run_cmd_def demo_dext_def demo_run_def sector_phys_def
        add64_def sub64_def)
  show ?thesis
    using scrub_run_reports [OF b len(2), of demo_dext "plain_disk [1, 2, 3, 4]" empty_acc]
    unfolding sz len(1) off by (auto simp: empty_acc_def zero_stats_def)
qed

end
