(* ===== verification/Scrub_Pipeline.thy ===== *)
theory Scrub_Pipeline
  imports Scrub_Verdicts
begin

text \<open>
  The pipelined scrub delivers what reading one run after the other does: the responses in flight are processed in the
  order their commands were sent, so finishing the queue gives the sequential state. The live counters,
  which other threads read, are bumped in another order and are left out of the comparison.
\<close>

subsection \<open>The reference: one contiguous run after the other\<close>

fun reference_extents ::
  "scrub_ctx \<Rightarrow> dev_extent list \<Rightarrow> csum_provider \<Rightarrow> scrub_acc \<Rightarrow> (csum_provider \<times> scrub_acc) run option" where
  "reference_extents cx [] p a = Some (Ret (p, a))"
| "reference_extents cx (dext # rest) p a =
     (if \<not> is_data_extent (cx_chunk_map cx) dext then reference_extents cx rest p a
      else walk_bind (extent_csums cx dext p a) (\<lambda>(p', a', es).
        walk_bind (inline_runs cx dext (split_runs (st_sector_size (cx_strategy cx)) es [] None) a') (\<lambda>a''.
          reference_extents cx rest p' (bump_progress (dx_length dext) a''))))"

definition reference_scrub ::
  "scrub_ctx \<Rightarrow> csum_provider \<Rightarrow> dev_extent list \<Rightarrow> status_counters option \<Rightarrow> (csum_provider \<times> scrub_acc) run option" where
  "reference_scrub cx p dexts counters =
     walk_bind (reference_extents cx dexts p \<lparr>sc_stats = zero_stats, sc_counters = counters, sc_events = []\<rparr>)
       (\<lambda>(p', a). Some (Ret (p', set_stale_branches p' a)))"

subsection \<open>Forgetting the live counters\<close>

definition omap :: "('a \<Rightarrow> 'b) \<Rightarrow> 'a run option \<Rightarrow> 'b run option" where
  "omap h m = map_option (\<lambda>r. run_bind r (\<lambda>x. Ret (h x))) m"

lemma omap_simps [simp]:
  "omap h None = None" "omap h (Some Panic) = Some Panic" "omap h (Some (Ret x)) = Some (Ret (h x))"
  by (simp_all add: omap_def)

lemma omap_cases:
  obtains "m = None" | "m = Some Panic" | x where "m = Some (Ret x)"
  by (metis not_None_eq run.exhaust)

lemma omap_walk_bind: "omap h (walk_bind m f) = walk_bind m (\<lambda>x. omap h (f x))"
  by (rule omap_cases [of m]) simp_all

lemma walk_bind_omap: "walk_bind (omap h m) f = walk_bind m (\<lambda>x. f (h x))"
  by (rule omap_cases [of m]) simp_all

lemma walk_bind_assoc: "walk_bind (walk_bind m f) g = walk_bind m (\<lambda>x. walk_bind (f x) g)"
  by (rule omap_cases [of m]) simp_all

lemma walk_bind_cong: "m = m' \<Longrightarrow> (\<And>x. m' = Some (Ret x) \<Longrightarrow> f x = g x) \<Longrightarrow> walk_bind m f = walk_bind m' g"
  by (rule omap_cases [of m']) simp_all

lemma walk_bind_Ret [simp]: "walk_bind m (\<lambda>x. Some (Ret x)) = m"
  by (rule omap_cases [of m]) simp_all

definition erase :: "scrub_acc \<Rightarrow> scrub_acc" where
  "erase a = a\<lparr>sc_counters := None\<rparr>"

lemma erase_steps [simp]:
  "erase (count_checked st a) = count_checked st (erase a)" "erase (count_ok a) = count_ok (erase a)"
  "erase (count_read_error a) = count_read_error (erase a)" "erase (count_bad_sector a) = count_bad_sector (erase a)"
  "erase (count_stale_sector a) = count_stale_sector (erase a)" "erase (count_truncated a) = count_truncated (erase a)"
  "erase (emit dext e x u a) = emit dext e x u (erase a)" "erase (bump_progress n a) = erase a"
  "erase (a\<lparr>sc_counters := c\<rparr>) = erase a" "erase (set_stale_branches p a) = set_stale_branches p (erase a)"
  "sc_counters (erase a) = None" "(erase a)\<lparr>sc_counters := None\<rparr> = erase a" "erase (erase a) = erase a" "bump_progress n (erase a) = erase a"
  by (simp_all add: erase_def acc_defs)

text \<open>A map of states that commutes with every callback commutes with the traversal.\<close>

lemma visit_hom:
  assumes "\<And>lf l s. on_leaf v lf l (h s) = run_bind (on_leaf v lf l s) (\<lambda>(s', res). Ret (h s', res))"
    and "\<And>l s. on_metadata_error v l (h s) = h (on_metadata_error v l s)" "\<And>l s. on_stale v l (h s) = h (on_stale v l s)"
    and "\<And>l s. on_mirror_mismatch v l (h s) = h (on_mirror_mismatch v l s)" "\<And>l s. on_read_error v l (h s) = h (on_read_error v l s)"
  shows "visit v t (h s) = run_bind (visit v t s) (\<lambda>(s', res). Ret (h s', res))"
proof (induction t arbitrary: s)
  case (TLeaf mm l lf)
  then show ?case by (simp add: note_mirror_def assms)
next
  case (TNode mm l n ts)
  have "visit_all v ts (h s) = run_bind (visit_all v ts s) (\<lambda>(s', res). Ret (h s', res))" for s
    using TNode
  proof (induction ts arbitrary: s)
    case (Cons t ts)
    have t: "visit v t (h s) = run_bind (visit v t s) (\<lambda>(s', res). Ret (h s', res))" using Cons.prems by simp
    have ts: "visit_all v ts (h s) = run_bind (visit_all v ts s) (\<lambda>(s', res). Ret (h s', res))" for s
      using Cons.prems by (intro Cons.IH) simp
    show ?case
      by (cases "visit v t s") (auto simp: t ts split: sum.splits prod.splits)
  qed simp
  from this [of "note_mirror v mm l s"] show ?case by (cases mm) (simp_all add: note_mirror_def assms)
qed (auto simp: lose_def assms split: loss.splits)

lemma walk_hom:
  assumes "reader_ok r st"
    and "\<And>lf l s. on_leaf v lf l (h s) = run_bind (on_leaf v lf l s) (\<lambda>(s', res). Ret (h s', res))"
    and "\<And>l s. on_metadata_error v l (h s) = h (on_metadata_error v l s)" "\<And>l s. on_stale v l (h s) = h (on_stale v l s)"
    and "\<And>l s. on_mirror_mismatch v l (h s) = h (on_mirror_mismatch v l s)" "\<And>l s. on_read_error v l (h s) = h (on_read_error v l s)"
  shows "walk_leaves_impl E r cm root b v (h s) = omap (\<lambda>(s', res). (h s', res)) (walk_leaves_impl E r cm root b v s)"
proof -
  obtain t where t: "stored E r cm b (root_ref root) t" using stored_exists [OF assms(1)] by blast
  have fin: "and_then m (walk_loop E r cm b v []) = Some m" for m
    by (auto simp: and_then_def split: run.splits prod.splits sum.splits)
  have walk: "walk_leaves_impl E r cm root b v s = Some (visit v t s)" for s
    unfolding walk_leaves_impl_def by (simp add: walk_loop_stored [OF t] fin)
  show ?thesis
    using visit_hom [of v h, OF assms(2-6), of t s] by (simp add: walk omap_def case_prod_unfold)
qed

lemma csum_range_counters:
  assumes "reader_ok (pv_reader p) st"
  shows "csum_range E p lo hi None = omap (\<lambda>(p', c', es). (p', None, es)) (csum_range E p lo hi c)"
proof -
  let ?v = "csum_visitor (hash_len (pv_strategy p)) (st_sector_size (pv_strategy p)) lo hi"
  let ?h = "\<lambda>(p, c :: status_counters option, es). (p, None, es) :: range_state"
  have "walk_leaves_impl E (pv_reader p) (pv_chunk_map p) (pv_csum_root p) b ?v (?h (p, c, [])) =
      omap (\<lambda>(s', res). (?h s', res)) (walk_leaves_impl E (pv_reader p) (pv_chunk_map p) (pv_csum_root p) b ?v (p, c, []))" for b
    by (rule walk_hom [OF assms])
      (auto simp: csum_visitor_def report_header_def report_stale_def report_mirror_def report_read_def run_bind_def
        split: prod.splits run.splits)
  then show ?thesis
    by (cases "hash_len (pv_strategy p) = 0")
      (auto simp: csum_range_def walk_leaves_range_def omap_def option.map_comp comp_def run_bind_def case_prod_unfold
        intro!: option.map_cong split: run.splits)
qed

lemma bump_None [simp]: "bump_read None = None" "bump_header None = None" "bump_mirror None = None"
  by (simp_all add: bump_read_def bump_header_def bump_mirror_def)

lemma resolve_counters:
  assumes "reader_ok r st"
  shows "resolve_live_tree_roots E r cm None sb = omap (\<lambda>(c', roots). (None, roots)) (resolve_live_tree_roots E r cm c sb)"
proof -
  let ?h = "\<lambda>(acc, c :: status_counters option). (acc, None) :: (nat option \<times> nat option) \<times> status_counters option"
  have w: "walk_leaves_impl E r cm root b live_visitor ((None, None), None) =
      omap (\<lambda>(s', res). (?h s', res)) (walk_leaves_impl E r cm root b live_visitor ((None, None), c))" for root b
    using walk_hom [OF assms, of live_visitor ?h E cm root b "((None, None), c)"]
    by (auto simp: live_visitor_def run_bind_def split: prod.splits run.splits)
  show ?thesis
    unfolding resolve_live_tree_roots_def walk_leaves_def w walk_bind_omap omap_walk_bind
    by (rule walk_bind_cong) (auto split: prod.splits option.splits sum.splits)
qed

lemma live_roots_counters:
  assumes "reader_ok r st"
  shows "live_data_tree_roots E r cm base None = omap (\<lambda>(c', roots). (None, roots)) (live_data_tree_roots E r cm base c)"
proof -
  have "omap (\<lambda>(c', roots). (None, roots)) (resolve_live_tree_roots E r cm c sb) = resolve_live_tree_roots E r cm None sb" for sb c
    using resolve_counters [OF assms] by simp
  then show ?thesis
    by (auto simp: live_data_tree_roots_def read_live_superblock_def run_bind_def walk_bind_def
        split: sum.splits run.splits option.splits prod.splits)
qed

subsection \<open>Every step returns\<close>

definition returns :: "'a option \<Rightarrow> bool" where
  "returns m \<longleftrightarrow> m \<noteq> None"

lemma returns_Some [simp]: "returns (Some x)"
  by (simp add: returns_def)

lemma walk_returns: "reader_ok r st \<Longrightarrow> returns (walk_leaves_impl E r cm root b v s)"
  using stored_exists [of r st E cm b "root_ref root"] walk_loop_stored [of E r cm b "root_ref root"]
  by (force simp: returns_def walk_leaves_impl_def and_then_def split: run.splits prod.splits sum.splits)

lemma walk_bind_returns: "returns m \<Longrightarrow> (\<And>x. m = Some (Ret x) \<Longrightarrow> returns (f x)) \<Longrightarrow> returns (walk_bind m f)"
  by (rule omap_cases [of m]) (simp_all add: returns_def)

lemma walk_bind_swap:
  assumes "returns m" "returns n"
  shows "walk_bind m (\<lambda>x. walk_bind n (f x)) = walk_bind n (\<lambda>y. walk_bind m (\<lambda>x. f x y))"
  using assms by (cases rule: omap_cases [of m]; cases rule: omap_cases [of n]) (simp_all add: returns_def)

lemma resolve_returns: "reader_ok r st \<Longrightarrow> returns (resolve_live_tree_roots E r cm c sb)"
  unfolding resolve_live_tree_roots_def walk_leaves_def
  by (intro walk_bind_returns walk_returns) (auto split: prod.splits)

lemma live_roots_returns: "reader_ok r st \<Longrightarrow> returns (live_data_tree_roots E r cm base c)"
  unfolding live_data_tree_roots_def
  by (intro walk_bind_returns) (auto split: prod.splits option.splits intro: resolve_returns)

lemma csum_range_returns: "reader_ok (pv_reader p) st \<Longrightarrow> returns (csum_range E p lo hi c)"
  unfolding csum_range_def walk_leaves_range_def returns_def
  by (simp add: walk_returns [unfolded returns_def] del: not_None_eq)

lemma recheck_sector_returns: "reader_ok (cx_reader cx) st \<Longrightarrow> returns (recheck_sector cx dext e actual a)"
  unfolding recheck_sector_def Let_def
  by (intro walk_bind_returns live_roots_returns) (auto split: prod.splits option.splits intro!: walk_bind_returns)

lemma check_sectors_returns: "reader_ok (cx_reader cx) st \<Longrightarrow> returns (check_sectors cx dext xs a)"
  by (induction cx dext xs a rule: check_sectors.induct)
    (auto simp: check_sector_def Let_def intro!: walk_bind_returns recheck_sector_returns)

lemma process_good_returns: "reader_ok (cx_reader cx) st \<Longrightarrow> returns (process_good cx dext es gs a)"
  by (induction cx dext es gs a rule: process_good.induct)
    (auto simp: Let_def process_buf_def intro!: walk_bind_returns check_sectors_returns)

lemma process_rsp_returns: "reader_ok (cx_reader cx) st \<Longrightarrow> returns (process_rsp cx rsp a)"
  unfolding process_rsp_def process_isolated_def Let_def by (intro walk_bind_returns process_good_returns) simp_all

subsection \<open>Every step forgets the counters\<close>

lemma recheck_sector_erase:
  assumes "reader_ok (cx_reader cx) st"
  shows "recheck_sector cx dext e actual (erase a) = omap erase (recheck_sector cx dext e actual a)"
  unfolding recheck_sector_def Let_def omap_walk_bind erase_steps
    live_roots_counters [OF assms, of _ _ _ "sc_counters a"] walk_bind_omap
  by (rule walk_bind_cong) (auto simp: omap_walk_bind split: option.splits intro!: walk_bind_cong)

lemma check_sector_erase:
  "reader_ok (cx_reader cx) st \<Longrightarrow> check_sector cx dext e actual (erase a) = omap erase (check_sector cx dext e actual a)"
  using recheck_sector_erase [of cx st dext e actual "count_checked (cx_strategy cx) a"]
  by (simp add: check_sector_def Let_def)

lemma check_sectors_erase:
  "reader_ok (cx_reader cx) st \<Longrightarrow> check_sectors cx dext xs (erase a) = omap erase (check_sectors cx dext xs a)"
  by (induction cx dext xs a rule: check_sectors.induct)
    (simp_all add: check_sector_erase walk_bind_omap omap_walk_bind cong: walk_bind_cong)

lemma process_good_erase:
  "reader_ok (cx_reader cx) st \<Longrightarrow> process_good cx dext es gs (erase a) = omap erase (process_good cx dext es gs a)"
  by (induction cx dext es gs a rule: process_good.induct)
    (simp_all add: Let_def process_buf_def check_sectors_erase walk_bind_assoc omap_walk_bind walk_bind_omap cong: walk_bind_cong)

lemma process_bad_erase: "process_bad cx dext es bs (erase a) = erase (process_bad cx dext es bs a)"
proof (induction bs arbitrary: a)
  case (Cons b bs)
  have "process_bad cx dext es bs (if P then emit dext e x u (count_read_error (count_checked st (erase a))) else count_read_error (count_checked st (erase a))) =
      erase (process_bad cx dext es bs (if P then emit dext e x u (count_read_error (count_checked st a)) else count_read_error (count_checked st a)))" for P e x u st
    using Cons.IH [of "if P then emit dext e x u (count_read_error (count_checked st a)) else count_read_error (count_checked st a)"] by (simp split: if_splits)
  then show ?case by (simp add: Let_def Cons.IH)
qed simp

lemma process_isolated_erase:
  assumes "reader_ok (cx_reader cx) st"
  shows "process_isolated cx good bad tr dext es (erase a) = omap erase (process_isolated cx good bad tr dext es a)"
  using process_good_erase [OF assms, of dext es good "if tr then count_truncated a else a"]
  by (simp add: process_isolated_def Let_def omap_walk_bind walk_bind_omap process_bad_erase split: if_splits)

subsection \<open>The reader thread reads what the main thread would\<close>

lemma add64_add: "add64 (add64 x i) j = add64 x (i + j)"
  by (simp add: add64_def mod_add_left_eq add.assoc)

lemma isolate_run_shift:
  assumes "\<And>u i n. rd u (add64 P i) n = rd' u (add64 P' i) n"
  shows "isolate_run rd (add64 P i) start len sz st = isolate_run rd' (add64 P' i) start len sz st"
proof (induction len arbitrary: i start st rule: less_induct)
  case (less len)
  have probe: "probe rd (add64 P i) start len sz st = probe rd' (add64 P' i) start len sz st"
    by (simp add: probe_def assms)
  have "fold (\<lambda>p. isolate_run rd (add64 (add64 P i) (fst p)) (start + fst p) (snd p) sz)
      (piece_ranges sz 0 (piece_sectors (len div sz))) x =
    fold (\<lambda>p. isolate_run rd' (add64 (add64 P' i) (fst p)) (start + fst p) (snd p) sz)
      (piece_ranges sz 0 (piece_sectors (len div sz))) x" if "sz < len" for x
    using less.IH piece_len_less [OF _ that] by (intro fold_cong refl ext) (metis add64_add prod.collapse)
  with probe_split [of rd' "add64 P' i" start len sz st] show ?case
    by (subst (1 2) isolate_run.simps) (simp add: probe)
qed

text \<open>An extent as the dev tree lists it: of this device, and inside the 64-bit address spaces.\<close>

definition extent_fits :: "scrub_ctx \<Rightarrow> dev_extent \<Rightarrow> bool" where
  "extent_fits cx dext \<longleftrightarrow>
     base_offset (cx_reader cx) + phys_start dext + dx_length dext < 2 ^ 64 \<and>
     chunk_offset dext + dx_length dext < 2 ^ 64 \<and> rd_devid (cx_reader cx) \<in> {None, Some (dx_devid dext)}"

definition run_in_extent :: "dev_extent \<Rightarrow> entry list \<Rightarrow> bool" where
  "run_in_extent dext run \<longleftrightarrow> (\<forall>e \<in> set run. chunk_offset dext \<le> fst e \<and> fst e < chunk_offset dext + dx_length dext)"

lemma inline_run_response:
  assumes "extent_fits cx dext" "run_in_extent dext run" "run \<noteq> []"
  defines "cmd \<equiv> run_cmd (st_sector_size (cx_strategy cx)) dext run"
  shows "inline_run cx dext run =
    process_rsp cx (isolate_run_read cx (fp (cx_reader cx)) (sat64 (base_offset (cx_reader cx)) (cmd_phys cmd)) cmd)"
proof -
  let ?r = "cx_reader cx" and ?P = "sector_phys dext (fst (hd run))" and ?l = "fst (hd run)"
  have l: "chunk_offset dext \<le> ?l" "?l < chunk_offset dext + dx_length dext"
    using assms(2,3) by (simp_all add: run_in_extent_def)
  have fits: "base_offset ?r + phys_start dext + dx_length dext < 2 ^ 64"
    using assms(1) by (simp add: extent_fits_def)
  have "sub64 ?l (chunk_offset dext) = ?l - chunk_offset dext"
    using l assms(1) by (intro sub64_id) (simp_all add: extent_fits_def)
  moreover have "add64 (phys_start dext) (?l - chunk_offset dext) = phys_start dext + (?l - chunk_offset dext)"
    using l fits by (intro add64_id) linarith
  ultimately have P: "base_offset ?r + ?P < 2 ^ 64"
    unfolding sector_phys_def using l fits by (simp del: add64_id)
  have sat: "sat64 (base_offset ?r) ?P = base_offset ?r + ?P" using P by (simp add: sat64_def)
  have rd: "(u, pread_at (env_fault (cx_env cx)) (fp ?r) (add64 (base_offset ?r + ?P) i) n) =
      (u, read_physical (cx_env cx) ?r (dx_devid dext) (add64 ?P i) n)" for u :: unit and i n
    using assms(1) by (auto simp: read_physical_def extent_fits_def add64_def mod_add_right_eq add.assoc split: option.splits)
  have base: "add64 (base_offset ?r + ?P) 0 = base_offset ?r + ?P" "add64 ?P 0 = ?P"
    using P by (simp_all add: add64_def)
  have "isolate_run (\<lambda>u p n. (u, pread_at (env_fault (cx_env cx)) (fp ?r) p n)) (base_offset ?r + ?P) 0 len sz st =
      isolate_run (\<lambda>u p n. (u, read_physical (cx_env cx) ?r (dx_devid dext) p n)) ?P 0 len sz st" for len sz and st :: "unit isolation"
    using isolate_run_shift [of "\<lambda>u p n. (u, pread_at (env_fault (cx_env cx)) (fp ?r) p n)" "base_offset ?r + ?P"
        "\<lambda>u p n. (u, read_physical (cx_env cx) ?r (dx_devid dext) p n)" ?P 0, OF rd] by (simp add: base)
  then show ?thesis
    using assms(3) by (simp add: inline_run_def process_rsp_def isolate_run_read_def cmd_def run_cmd_def Let_def sat fun_eq_iff)
qed

subsection \<open>Finishing the queue gives the sequential state\<close>

fun process_all :: "scrub_ctx \<Rightarrow> read_rsp option list \<Rightarrow> scrub_acc \<Rightarrow> scrub_acc run option" where
  "process_all cx [] a = Some (Ret a)"
| "process_all cx (r # q) a = walk_bind (process_rsp cx (the r) a) (process_all cx q)"

definition drained :: "scrub_ctx \<Rightarrow> pipe \<Rightarrow> scrub_acc run option" where
  "drained cx pp = process_all cx (pp_inflight pp) (erase (pp_acc pp))"

definition running :: "pipe \<Rightarrow> bool" where
  "running pp \<longleftrightarrow> \<not> pp_failed pp \<and> None \<notin> set (pp_inflight pp)"

lemma process_all_append: "process_all cx (q @ q') a = walk_bind (process_all cx q a) (process_all cx q')"
  by (induction q arbitrary: a) (simp_all add: walk_bind_assoc cong: walk_bind_cong)

lemma process_all_returns: "reader_ok (cx_reader cx) st \<Longrightarrow> returns (process_all cx q a)"
  by (induction q arbitrary: a) (auto intro!: walk_bind_returns process_rsp_returns)

lemma process_rsp_erase:
  "reader_ok (cx_reader cx) st \<Longrightarrow> process_rsp cx rsp (erase a) = omap erase (process_rsp cx rsp a)"
  unfolding process_rsp_def by (rule process_isolated_erase)

lemma process_all_erase:
  "reader_ok (cx_reader cx) st \<Longrightarrow> process_all cx q (erase a) = omap erase (process_all cx q a)"
  by (induction q arbitrary: a)
    (simp_all add: process_rsp_erase walk_bind_omap omap_walk_bind cong: walk_bind_cong)

lemma recv_one_drained:
  assumes "reader_ok (cx_reader cx) st" "running pp"
  shows "walk_bind (recv_one cx pp) (drained cx) = drained cx pp"
  using assms(2)
  by (cases "pp_inflight pp")
    (auto simp: recv_one_def drained_def running_def process_rsp_erase [OF assms(1)] walk_bind_omap walk_bind_assoc split: option.splits)

lemma recv_one_running: "recv_one cx pp = Some (Ret pp') \<Longrightarrow> running pp \<Longrightarrow> running pp'"
  by (auto simp: recv_one_def running_def walk_bind_Some split: list.splits option.splits)

lemma flush_run_drained:
  assumes "reader_ok (cx_reader cx) st" "running pp" "extent_fits cx dext" "run_in_extent dext run"
  shows "walk_bind (flush_run cx healthy (fp (cx_reader cx)) dext run pp) (drained cx) =
      walk_bind (drained cx pp) (inline_run cx dext run)"
    and "flush_run cx healthy (fp (cx_reader cx)) dext run pp = Some (Ret pp') \<Longrightarrow> running pp'"
proof -
  let ?cmd = "run_cmd (st_sector_size (cx_strategy cx)) dext run"
  let ?rsp = "isolate_run_read cx (fp (cx_reader cx)) (sat64 (base_offset (cx_reader cx)) (cmd_phys ?cmd)) ?cmd"
  let ?pp = "pp\<lparr>pp_inflight := pp_inflight pp @ [Some ?rsp], pp_sent := pp_sent pp + 1\<rparr>"
  have flush: "flush_run cx healthy (fp (cx_reader cx)) dext run pp =
      (if prefetch_depth_for (cx_strategy cx) \<le> length (pp_inflight ?pp) then recv_one cx ?pp else Some (Ret ?pp))" if "run \<noteq> []"
    using assms(2) that by (simp add: flush_run_def running_def healthy_def before_def Let_def)
  have empty: "flush_run cx healthy (fp (cx_reader cx)) dext [] pp = Some (Ret pp)" by (simp add: flush_run_def)
  have run: "running ?pp" using assms(2) by (simp add: running_def)
  have set: "drained cx ?pp = walk_bind (drained cx pp) (inline_run cx dext run)" if "run \<noteq> []"
    by (simp add: drained_def process_all_append inline_run_response [OF assms(3,4) that] cong: walk_bind_cong)
  show "walk_bind (flush_run cx healthy (fp (cx_reader cx)) dext run pp) (drained cx) =
      walk_bind (drained cx pp) (inline_run cx dext run)"
    using empty flush set recv_one_drained [OF assms(1) run]
    by (cases "run = []") (simp_all add: inline_run_def [abs_def])
  show "flush_run cx healthy (fp (cx_reader cx)) dext run pp = Some (Ret pp') \<Longrightarrow> running pp'"
    using empty flush run assms(2) recv_one_running [OF _ run, of cx pp'] by (cases "run = []") (auto split: if_splits)
qed

lemma flush_runs_running:
  assumes "reader_ok (cx_reader cx) st" "extent_fits cx dext"
  shows "flush_runs cx healthy (fp (cx_reader cx)) dext rs pp = Some (Ret pp') \<Longrightarrow> running pp \<Longrightarrow>
    \<forall>run \<in> set rs. run_in_extent dext run \<Longrightarrow> running pp'"
proof (induction rs arbitrary: pp)
  case (Cons run rs)
  then obtain q where "flush_run cx healthy (fp (cx_reader cx)) dext run pp = Some (Ret q)"
      "flush_runs cx healthy (fp (cx_reader cx)) dext rs q = Some (Ret pp')"
    by (auto simp: walk_bind_Some)
  then show ?case
    using Cons.IH Cons.prems(3) flush_run_drained(2) [OF assms(1) Cons.prems(2) assms(2)] by auto
qed simp

lemma flush_runs_drained:
  assumes "reader_ok (cx_reader cx) st" "extent_fits cx dext"
  shows "running pp \<Longrightarrow> \<forall>run \<in> set rs. run_in_extent dext run \<Longrightarrow>
    walk_bind (flush_runs cx healthy (fp (cx_reader cx)) dext rs pp) (drained cx) =
      walk_bind (drained cx pp) (inline_runs cx dext rs)"
proof (induction rs arbitrary: pp)
  case (Cons run rs)
  let ?fl = "flush_run cx healthy (fp (cx_reader cx)) dext run pp"
  have run: "walk_bind ?fl (drained cx) = walk_bind (drained cx pp) (inline_run cx dext run)"
      "?fl = Some (Ret q) \<Longrightarrow> running q" for q
    using flush_run_drained [OF assms(1) Cons.prems(1) assms(2)] Cons.prems(2) by auto
  have "walk_bind (flush_runs cx healthy (fp (cx_reader cx)) dext (run # rs) pp) (drained cx) =
      walk_bind ?fl (\<lambda>q. walk_bind (flush_runs cx healthy (fp (cx_reader cx)) dext rs q) (drained cx))"
    by (simp add: walk_bind_assoc)
  also have "\<dots> = walk_bind ?fl (\<lambda>q. walk_bind (drained cx q) (inline_runs cx dext rs))"
    using Cons.prems(2) run(2) by (intro walk_bind_cong refl Cons.IH) simp_all
  also have "\<dots> = walk_bind (drained cx pp) (inline_runs cx dext (run # rs))"
    unfolding walk_bind_assoc [symmetric] run(1) by (simp add: walk_bind_assoc) (rule walk_bind_cong; simp)
  finally show ?case .
next
  case Nil
  have "inline_runs cx dext [] = (\<lambda>a. Some (Ret a))" by (rule ext) simp
  then show ?case by simp
qed

subsection \<open>The whole device\<close>

lemma csums_of_slots_span:
  "csums_of_slots h z lo hi lf js es = Ret es' \<Longrightarrow> list_all (in_span lo hi) es \<Longrightarrow> list_all (in_span lo hi) es'"
proof (induction js arbitrary: es)
  case (Cons j js)
  have "list_all (in_span lo hi) (item_csums h z lo hi k dat)" for k dat
    by (auto simp: item_csums_def in_span_def Let_def list_all_iff split: if_splits)
  then have "list_all (in_span lo hi) (es @ item_csums h z lo hi k dat)" for k dat using Cons.prems(2) by simp
  then show ?case using Cons.IH Cons.prems by (fastforce simp: Let_def run_bind_eq_Ret split: if_splits)
qed simp

lemma csum_range_keeps:
  assumes "reader_ok (pv_reader p) st" "csum_range E p lo hi c = Some (Ret (p', c', es))"
  shows "same_source p p'" "list_all (in_span lo hi) es"
proof -
  let ?v = "csum_visitor (hash_len (pv_strategy p)) (st_sector_size (pv_strategy p)) lo hi"
  let ?I = "\<lambda>s. same_source p (fst s) \<and> list_all (in_span lo hi) (snd (snd s))"
  obtain t where t: "stored E (pv_reader p) (pv_chunk_map p) (Some (range_bounds p lo hi)) (root_ref (pv_csum_root p)) t"
    using stored_exists [OF assms(1)] by blast
  have "and_then m (walk_loop E (pv_reader p) (pv_chunk_map p) b ?v []) = Some m" for m b
    by (auto simp: and_then_def split: run.splits prod.splits sum.splits)
  then have "walk_leaves_impl E (pv_reader p) (pv_chunk_map p) (pv_csum_root p) (Some (range_bounds p lo hi)) ?v (p, c, []) =
      Some (visit ?v t (p, c, []))"
    unfolding walk_leaves_impl_def by (simp add: walk_loop_stored [OF t])
  then obtain es' res where vis: "visit ?v t (p, c, []) = Ret ((p', c', es'), res)" "es = sort_key fst es'"
    using assms(2) by (auto simp: csum_range_def walk_leaves_range_def run_bind_eq_Ret split: if_splits)
  have "?I (p', c', es')"
  proof (rule visit_keeps [of ?I, OF _ _ _ _ _ _ vis(1)])
    show "?I (p, c, [])" by (simp add: same_source_def)
  qed (auto simp: csum_visitor_def report_header_def report_stale_def report_mirror_def report_read_def
      same_source_def run_bind_eq_Ret dest: csums_of_slots_span split: prod.splits if_splits)
  then show "same_source p p'" "list_all (in_span lo hi) es" using vis(2) by (simp_all add: list_all_iff)
qed

lemma inline_run_erase:
  "reader_ok (cx_reader cx) st \<Longrightarrow> inline_run cx dext run (erase a) = omap erase (inline_run cx dext run a)"
  by (simp add: inline_run_def Let_def process_isolated_erase)

lemma inline_runs_erase:
  "reader_ok (cx_reader cx) st \<Longrightarrow> inline_runs cx dext rs (erase a) = omap erase (inline_runs cx dext rs a)"
  by (induction rs arbitrary: a) (simp_all add: inline_run_erase walk_bind_omap omap_walk_bind cong: walk_bind_cong)

lemma split_runs_entries:
  "run \<in> set (split_runs z es r prev) \<Longrightarrow> set run \<subseteq> set r \<union> set es"
  by (induction z es r prev rule: split_runs.induct) (fastforce simp: Let_def split: if_splits)+

text \<open>A state without counters, and the results that are such states.\<close>

lemma erased_result: "omap erase m = Some (Ret a) \<Longrightarrow> erase a = a"
  by (rule omap_cases [of m]) auto

lemma drained_erased: "reader_ok (cx_reader cx) st \<Longrightarrow> drained cx pp = Some (Ret a) \<Longrightarrow> erase a = a"
  unfolding drained_def using process_all_erase erased_result by metis

lemma inline_runs_erased:
  "reader_ok (cx_reader cx) st \<Longrightarrow> inline_runs cx dext rs a = Some (Ret a') \<Longrightarrow> erase a = a \<Longrightarrow> erase a' = a'"
  using inline_runs_erase erased_result by metis

lemma extent_csums_erased:
  assumes "reader_ok (pv_reader p) st" "erase a = a"
  shows "walk_bind (extent_csums cx dext p a) (\<lambda>(p', a', es). f p' a' es) =
    walk_bind (csum_range (cx_env cx) p (chunk_offset dext) (add64 (chunk_offset dext) (dx_length dext)) c) (\<lambda>(p', c', es). f p' a es)"
proof -
  have a: "sc_counters a = None" "a\<lparr>sc_counters := None\<rparr> = a" using assms(2) erase_steps(11,12) by metis+
  show ?thesis
    unfolding extent_csums_def a(1) csum_range_counters [OF assms(1), of _ _ _ c] walk_bind_omap walk_bind_assoc
    by (rule walk_bind_cong) (simp_all add: a(2) split: prod.splits)
qed

lemma reference_extents_data:
  assumes "reader_ok (cx_reader cx) st" "reader_ok (pv_reader p) st'" "erase a = a" "is_data_extent (cx_chunk_map cx) dext"
  shows "reference_extents cx (dext # rest) p a =
    walk_bind (csum_range (cx_env cx) p (chunk_offset dext) (add64 (chunk_offset dext) (dx_length dext)) c) (\<lambda>(p', c', es).
      walk_bind (inline_runs cx dext (split_runs (st_sector_size (cx_strategy cx)) es [] None) a) (reference_extents cx rest p'))"
proof -
  have "walk_bind (inline_runs cx dext rs a) (\<lambda>a'. reference_extents cx rest p' (bump_progress n a')) =
      walk_bind (inline_runs cx dext rs a) (reference_extents cx rest p')" for rs p' n
    by (rule walk_bind_cong) (use inline_runs_erased [OF assms(1) _ assms(3)] erase_steps in \<open>metis\<close>)+
  then show ?thesis
    using assms(4) by (simp add: extent_csums_erased [OF assms(2,3), of cx dext _ c])
qed

lemma flush_extent_drained:
  assumes "reader_ok (cx_reader cx) st" "reader_ok (pv_reader p) st'" "running pp" "extent_fits cx dext"
    and "extent_csums cx dext p (pp_acc pp) = Some (Ret (p', a', es))"
  defines "m \<equiv> flush_runs cx healthy (fp (cx_reader cx)) dext (split_runs (st_sector_size (cx_strategy cx)) es [] None) (pp\<lparr>pp_acc := a'\<rparr>)"
  shows "walk_bind m (drained cx) = walk_bind (drained cx pp)
      (inline_runs cx dext (split_runs (st_sector_size (cx_strategy cx)) es [] None))"
    and "m = Some (Ret q) \<Longrightarrow> running q" and "same_source p p'"
proof -
  obtain c' where c': "csum_range (cx_env cx) p (chunk_offset dext) (add64 (chunk_offset dext) (dx_length dext)) (sc_counters (pp_acc pp)) =
      Some (Ret (p', c', es))" "a' = (pp_acc pp)\<lparr>sc_counters := c'\<rparr>"
    using assms(5) by (auto simp: extent_csums_def walk_bind_Some)
  note keeps = csum_range_keeps [OF assms(2) c'(1)]
  have runs: "\<forall>run \<in> set (split_runs (st_sector_size (cx_strategy cx)) es [] None). run_in_extent dext run"
    using split_runs_entries keeps(2) assms(4)
    by (fastforce simp: run_in_extent_def extent_fits_def list_all_iff in_span_def)
  have run: "running (pp\<lparr>pp_acc := a'\<rparr>)" using assms(3) by (simp add: running_def)
  have "drained cx (pp\<lparr>pp_acc := a'\<rparr>) = drained cx pp" by (simp add: drained_def c'(2))
  then show "walk_bind m (drained cx) = walk_bind (drained cx pp)
      (inline_runs cx dext (split_runs (st_sector_size (cx_strategy cx)) es [] None))"
    using flush_runs_drained [OF assms(1,4) run runs] by (simp add: m_def)
  show "m = Some (Ret q) \<Longrightarrow> running q"
    using flush_runs_running [OF assms(1,4) _ run runs] by (simp add: m_def)
  show "same_source p p'" by (rule keeps(1))
qed

lemma extent_step_drained:
  fixes cx :: scrub_ctx and rest :: "dev_extent list"
  defines "z \<equiv> st_sector_size (cx_strategy cx)" and "f \<equiv> fp (cx_reader cx)"
  defines "fin \<equiv> \<lambda>(p', q). omap (Pair p') (drained cx q)"
  assumes "reader_ok (cx_reader cx) st" "reader_ok (pv_reader p) st'" "running pp" "extent_fits cx dext"
    and "extent_csums cx dext p (pp_acc pp) = Some (Ret (p', a', es))"
    and IH: "\<And>p q. reader_ok (pv_reader p) st' \<Longrightarrow> running q \<Longrightarrow>
      walk_bind (scrub_extents cx healthy f rest p q) fin = walk_bind (drained cx q) (reference_extents cx rest p)"
  shows "walk_bind (flush_runs cx healthy f dext (split_runs z es [] None) (pp\<lparr>pp_acc := a'\<rparr>)) (\<lambda>q. walk_bind
      (if pp_failed q then Some (Ret (p', q)) else scrub_extents cx healthy f rest p' (q\<lparr>pp_acc := bump_progress n (pp_acc q)\<rparr>)) fin) =
    walk_bind (drained cx pp) (\<lambda>a. walk_bind (inline_runs cx dext (split_runs z es [] None) a) (reference_extents cx rest p'))"
proof -
  note fl = flush_extent_drained [OF assms(4-8), folded z_def f_def]
  let ?m = "flush_runs cx healthy f dext (split_runs z es [] None) (pp\<lparr>pp_acc := a'\<rparr>)"
  have rd: "reader_ok (pv_reader p') st'" using fl(3) assms(5) by (simp add: same_source_def)
  have "walk_bind (if pp_failed q then Some (Ret (p', q)) else scrub_extents cx healthy f rest p' (q\<lparr>pp_acc := bump_progress n (pp_acc q)\<rparr>)) fin =
      walk_bind (drained cx q) (reference_extents cx rest p')" if m: "?m = Some (Ret q)" for q
  proof -
    have q: "running q" by (rule fl(2) [OF m])
    then have "running (q\<lparr>pp_acc := bump_progress n (pp_acc q)\<rparr>)" by (simp add: running_def)
    from IH [OF rd this] q show ?thesis by (simp add: running_def drained_def)
  qed
  then have "walk_bind ?m (\<lambda>q. walk_bind (if pp_failed q then Some (Ret (p', q))
        else scrub_extents cx healthy f rest p' (q\<lparr>pp_acc := bump_progress n (pp_acc q)\<rparr>)) fin) =
      walk_bind ?m (\<lambda>q. walk_bind (drained cx q) (reference_extents cx rest p'))"
    by (intro walk_bind_cong refl)
  also have "\<dots> = walk_bind (walk_bind (drained cx pp) (inline_runs cx dext (split_runs z es [] None))) (reference_extents cx rest p')"
    using fl(1) by (simp flip: walk_bind_assoc)
  finally show ?thesis by (simp add: walk_bind_assoc)
qed

lemma scrub_extents_drained:
  assumes "reader_ok (cx_reader cx) st"
  shows "reader_ok (pv_reader p) st' \<Longrightarrow> running pp \<Longrightarrow> \<forall>dext \<in> set dexts. extent_fits cx dext \<Longrightarrow>
    walk_bind (scrub_extents cx healthy (fp (cx_reader cx)) dexts p pp) (\<lambda>(p', q). omap (Pair p') (drained cx q)) =
      walk_bind (drained cx pp) (reference_extents cx dexts p)"
proof (induction dexts arbitrary: p pp)
  case (Cons dext rest)
  let ?z = "st_sector_size (cx_strategy cx)"
  let ?R = "csum_range (cx_env cx) p (chunk_offset dext) (add64 (chunk_offset dext) (dx_length dext)) (sc_counters (pp_acc pp))"
  let ?rest = "\<lambda>p' es a. walk_bind (inline_runs cx dext (split_runs ?z es [] None) a) (reference_extents cx rest p')"
  show ?case
  proof (cases "is_data_extent (cx_chunk_map cx) dext")
    case True
    have fits: "extent_fits cx dext" "\<forall>d \<in> set rest. extent_fits cx d" using Cons.prems(3) by simp_all
    have "walk_bind (scrub_extents cx healthy (fp (cx_reader cx)) (dext # rest) p pp) (\<lambda>(p', q). omap (Pair p') (drained cx q)) =
        walk_bind (extent_csums cx dext p (pp_acc pp)) (\<lambda>(p', a', es). walk_bind (drained cx pp) (?rest p' es))"
      using True extent_step_drained [OF assms Cons.prems(1,2) fits(1) _ Cons.IH [OF _ _ fits(2)]]
      by (simp add: walk_bind_assoc) (rule walk_bind_cong; auto simp: walk_bind_assoc)
    also have "\<dots> = walk_bind ?R (\<lambda>(p', c', es). walk_bind (drained cx pp) (?rest p' es))"
      by (simp add: extent_csums_def walk_bind_assoc case_prod_unfold)
    also have "\<dots> = walk_bind (drained cx pp) (\<lambda>a. walk_bind ?R (\<lambda>(p', c', es). ?rest p' es a))"
      using walk_bind_swap [OF csum_range_returns [OF Cons.prems(1)] process_all_returns [OF assms]]
      by (simp add: drained_def case_prod_unfold)
    also have "\<dots> = walk_bind (drained cx pp) (reference_extents cx (dext # rest) p)"
    proof (rule walk_bind_cong [OF refl])
      fix a assume "drained cx pp = Some (Ret a)"
      from reference_extents_data [OF assms Cons.prems(1) drained_erased [OF assms this] True]
      show "walk_bind ?R (\<lambda>(p', c', es). ?rest p' es a) = reference_extents cx (dext # rest) p a" by (rule sym)
    qed
    finally show ?thesis .
  next
    case False
    then show ?thesis using Cons by simp
  qed
next
  case Nil
  show ?case by (rule omap_cases [of "drained cx pp"]) simp_all
qed

lemma scrub_extents_running:
  assumes "reader_ok (cx_reader cx) st"
  shows "scrub_extents cx healthy (fp (cx_reader cx)) dexts p pp = Some (Ret (p', pp')) \<Longrightarrow> reader_ok (pv_reader p) st' \<Longrightarrow>
    running pp \<Longrightarrow> \<forall>dext \<in> set dexts. extent_fits cx dext \<Longrightarrow> running pp'"
proof (induction dexts arbitrary: p pp)
  case (Cons dext rest)
  show ?case
  proof (cases "is_data_extent (cx_chunk_map cx) dext")
    case True
    then obtain p1 a1 es q where 1: "extent_csums cx dext p (pp_acc pp) = Some (Ret (p1, a1, es))"
        "flush_runs cx healthy (fp (cx_reader cx)) dext (split_runs (st_sector_size (cx_strategy cx)) es [] None) (pp\<lparr>pp_acc := a1\<rparr>) = Some (Ret q)"
        "(if pp_failed q then Some (Ret (p1, q))
          else scrub_extents cx healthy (fp (cx_reader cx)) rest p1 (q\<lparr>pp_acc := bump_progress (dx_length dext) (pp_acc q)\<rparr>)) = Some (Ret (p', pp'))"
      using Cons.prems(1) by (auto simp: walk_bind_Some)
    note fl = flush_extent_drained(2,3) [OF assms Cons.prems(2,3) _ 1(1)]
    have "running q" "reader_ok (pv_reader p1) st'"
      using fl 1(2) Cons.prems by (simp_all add: same_source_def)
    then show ?thesis using 1(3) Cons.prems(4) Cons.IH by (simp add: running_def)
  qed (use Cons in simp)
qed simp

lemma drain_inflight_all:
  "None \<notin> set q \<Longrightarrow> drain_inflight cx q pp =
    walk_bind (process_all cx q (pp_acc pp)) (\<lambda>a. Some (Ret (pp\<lparr>pp_acc := a, pp_inflight := []\<rparr>)))"
proof (induction cx q pp rule: drain_inflight.induct)
  case (3 cx rsp q pp)
  then show ?case by (simp add: walk_bind_assoc)
qed simp_all

lemma reference_extents_erase:
  assumes "reader_ok (cx_reader cx) st"
  shows "reader_ok (pv_reader p) st' \<Longrightarrow>
    reference_extents cx dexts p (erase a) = omap (\<lambda>(p', a'). (p', erase a')) (reference_extents cx dexts p a)"
proof (induction dexts arbitrary: p a)
  case (Cons dext rest)
  let ?z = "st_sector_size (cx_strategy cx)"
  let ?R = "csum_range (cx_env cx) p (chunk_offset dext) (add64 (chunk_offset dext) (dx_length dext)) (sc_counters a)"
  show ?case
  proof (cases "is_data_extent (cx_chunk_map cx) dext")
    case True
    have step: "walk_bind (inline_runs cx dext rs (erase a)) (reference_extents cx rest p') =
        omap (\<lambda>(p', a'). (p', erase a')) (walk_bind (inline_runs cx dext rs (a\<lparr>sc_counters := c'\<rparr>))
          (\<lambda>a''. reference_extents cx rest p' (bump_progress (dx_length dext) a'')))"
      if "?R = Some (Ret (p', c', es))" for p' c' es rs
    proof -
      have "reader_ok (pv_reader p') st'"
        using csum_range_keeps(1) [OF Cons.prems that] Cons.prems by (simp add: same_source_def)
      from Cons.IH [OF this] have IH: "reference_extents cx rest p' (erase x) =
          omap (\<lambda>(p', a'). (p', erase a')) (reference_extents cx rest p' (bump_progress (dx_length dext) x))" for x
        by (metis erase_steps(8))
      have "inline_runs cx dext rs (erase a) = omap erase (inline_runs cx dext rs (a\<lparr>sc_counters := c'\<rparr>))"
        using inline_runs_erase [OF assms, of dext rs "a\<lparr>sc_counters := c'\<rparr>"] by simp
      then show ?thesis by (simp add: walk_bind_omap omap_walk_bind IH)
    qed
    have "reference_extents cx (dext # rest) p (erase a) = walk_bind ?R (\<lambda>(p', c', es).
        walk_bind (inline_runs cx dext (split_runs ?z es [] None) (erase a)) (reference_extents cx rest p'))"
      by (rule reference_extents_data [OF assms Cons.prems _ True]) simp
    also have "\<dots> = omap (\<lambda>(p', a'). (p', erase a')) (reference_extents cx (dext # rest) p a)"
      using True step by (simp add: extent_csums_def walk_bind_assoc omap_walk_bind) (rule walk_bind_cong; auto simp: omap_walk_bind)
    finally show ?thesis .
  qed (use Cons in simp)
qed simp

lemma pipeline_reference:
  assumes "reader_ok (cx_reader cx) st" "reader_ok (pv_reader p) st'" "\<forall>dext \<in> set dexts. extent_fits cx dext"
    and "env_dup_fault (cx_env cx) = None"
  shows "omap (\<lambda>(p', a, res). (p', erase a, res)) (scrub_dev_tree cx healthy p dexts c) =
    omap (\<lambda>(p', a). (p', erase a, Inr (sc_stats a))) (reference_scrub cx p dexts c)"
proof -
  let ?f = "fp (cx_reader cx)"
  have f: "dup_handle cx healthy = Inr ?f" using assms(4) by (simp add: dup_handle_def healthy_def reopen_def)
  let ?a = "\<lparr>sc_stats = zero_stats, sc_counters = c, sc_events = []\<rparr>"
  let ?pp = "\<lparr>pp_acc = ?a, pp_inflight = [], pp_sent = 0, pp_failed = False\<rparr>"
  let ?X = "scrub_extents cx healthy ?f dexts p ?pp"
  let ?G = "\<lambda>(p', a). Some (Ret (p', set_stale_branches p' a, Inr (sc_stats (set_stale_branches p' a))))"
  have run: "running ?pp" by (simp add: running_def)
  have stats: "sc_stats (set_stale_branches p' (erase a)) = sc_stats (set_stale_branches p' a)" for p' a
    by (simp add: set_stale_branches_def erase_def)
  have fin: "walk_bind (drain_inflight cx (pp_inflight pp) pp) (\<lambda>x. omap (\<lambda>(p', a, res). (p', erase a, res))
         (if pp_failed x then Some (Ret (p', pp_acc x, Inl OtherError))
          else let a = set_stale_branches p' (pp_acc x) in Some (Ret (p', a, Inr (sc_stats a))))) =
       walk_bind (omap (Pair p') (drained cx pp)) ?G" if "?X = Some (Ret (p', pp))" for p' pp
  proof -
    have r: "running pp" using scrub_extents_running [OF assms(1) _ assms(2) run assms(3)] that by simp
    then have "drain_inflight cx (pp_inflight pp) pp =
        walk_bind (process_all cx (pp_inflight pp) (pp_acc pp)) (\<lambda>a. Some (Ret (pp\<lparr>pp_acc := a, pp_inflight := []\<rparr>)))"
      by (simp add: running_def drain_inflight_all)
    with r show ?thesis
      by (simp add: drained_def process_all_erase [OF assms(1)] walk_bind_assoc walk_bind_omap running_def Let_def stats)
  qed
  have "omap (\<lambda>(p', a, res). (p', erase a, res)) (scrub_dev_tree cx healthy p dexts c) =
      walk_bind ?X (\<lambda>(p', pp). walk_bind (omap (Pair p') (drained cx pp)) ?G)"
    unfolding scrub_dev_tree_def f sum.case omap_walk_bind
    by (rule walk_bind_cong [OF refl]) (auto simp only: omap_walk_bind prod.case fin split: prod.splits)
  also have "\<dots> = walk_bind (walk_bind ?X (\<lambda>(p', pp). omap (Pair p') (drained cx pp))) ?G"
    by (simp add: walk_bind_assoc case_prod_unfold)
  also have "\<dots> = walk_bind (reference_extents cx dexts p (erase ?a)) ?G"
    unfolding scrub_extents_drained [OF assms(1,2) run assms(3)] by (simp add: drained_def)
  also have "\<dots> = omap (\<lambda>(p', a). (p', erase a, Inr (sc_stats a))) (reference_scrub cx p dexts c)"
    unfolding reference_extents_erase [OF assms(1,2)] reference_scrub_def walk_bind_omap omap_walk_bind
    by (rule walk_bind_cong) (simp_all add: stats split: prod.splits)
  finally show ?thesis .
qed

subsection \<open>The scrub returns, whatever becomes of the reader thread\<close>

lemma flush_runs_returns: "reader_ok (cx_reader cx) st \<Longrightarrow> returns (flush_runs cx fate f dext rs pp)"
proof (induction rs arbitrary: pp)
  case (Cons run rs)
  have "returns (recv_one cx q)" for q
    using Cons.prems by (auto simp: recv_one_def intro!: walk_bind_returns process_rsp_returns split: list.splits option.splits)
  then have "returns (flush_run cx fate f dext run pp)" by (simp add: flush_run_def Let_def)
  then show ?case using Cons by (auto intro: walk_bind_returns)
qed simp

lemma drain_inflight_returns: "reader_ok (cx_reader cx) st \<Longrightarrow> returns (drain_inflight cx q pp)"
  by (induction cx q pp rule: drain_inflight.induct) (auto intro!: walk_bind_returns process_rsp_returns)

lemma extent_csums_returns: "reader_ok (pv_reader p) st \<Longrightarrow> returns (extent_csums cx dext p a)"
  unfolding extent_csums_def by (intro walk_bind_returns csum_range_returns) (auto split: prod.splits)

lemma extent_csums_source:
  "reader_ok (pv_reader p) st \<Longrightarrow> extent_csums cx dext p a = Some (Ret (p', a', es)) \<Longrightarrow> reader_ok (pv_reader p') st"
  using csum_range_keeps(1) [of p st] by (fastforce simp: extent_csums_def walk_bind_Some same_source_def)

lemma scrub_extents_returns:
  "reader_ok (cx_reader cx) st \<Longrightarrow> reader_ok (pv_reader p) st' \<Longrightarrow> returns (scrub_extents cx fate f dexts p pp)"
  by (induction dexts arbitrary: p pp)
    (auto intro!: walk_bind_returns extent_csums_returns flush_runs_returns dest: extent_csums_source split: prod.splits)

lemma inline_runs_returns: "reader_ok (cx_reader cx) st \<Longrightarrow> returns (inline_runs cx dext rs a)"
  by (induction rs arbitrary: a)
    (auto simp: inline_run_def process_isolated_def Let_def intro!: walk_bind_returns process_good_returns)

lemma inline_extents_returns:
  "reader_ok (cx_reader cx) st \<Longrightarrow> reader_ok (pv_reader p) st' \<Longrightarrow> returns (inline_extents cx dexts p a)"
  by (induction dexts arbitrary: p a)
    (auto intro!: walk_bind_returns extent_csums_returns inline_runs_returns dest: extent_csums_source split: prod.splits)

lemma scrub_returns:
  assumes "reader_ok (cx_reader cx) st" "reader_ok (pv_reader p) st'"
  shows "returns (scrub_dev_tree cx fate p dexts c)"
  unfolding scrub_dev_tree_def scrub_dev_tree_inline_def
  by (auto simp: Let_def intro!: walk_bind_returns inline_extents_returns [OF assms] scrub_extents_returns [OF assms]
      drain_inflight_returns [OF assms(1)] split: sum.splits prod.splits)

text \<open>C6: The pipelined scrub is the sequential one: with a reader thread that survives, on extents of this device that
  lie inside the address space, it gives the same checksum provider, statistics and sector reports in the same order as
  reading one contiguous run after the other, or panics where that does, although the pipeline reads ahead and verifies
  late. And the scrub of a device returns whatever the tree nodes hold, whenever the reader thread dies and when it
  cannot be given a handle.\<close>

theorem pipeline_equals_reference:
  assumes "reader_ok (cx_reader cx) st" "reader_ok (pv_reader p) st'" "\<forall>dext \<in> set dexts. extent_fits cx dext"
    and "env_dup_fault (cx_env cx) = None"
  shows "omap (\<lambda>(p', a, res). (p', erase a, res)) (scrub_dev_tree cx healthy p dexts c) =
      omap (\<lambda>(p', a). (p', erase a, Inr (sc_stats a))) (reference_scrub cx p dexts c) \<and>
    (\<forall>fate. \<exists>m. scrub_dev_tree cx fate p dexts c = Some m)"
  using pipeline_reference [OF assms] scrub_returns [OF assms(1,2)] by (simp add: returns_def)

text \<open>The checksum tree of one leaf, and a data extent that backs its two sectors.\<close>

definition demo_data_dext :: dev_extent where
  "demo_data_dext = \<lparr>dx_devid = 1, phys_start = 134, dx_length = 8192, chunk_offset = 8192\<rparr>"

definition demo_data_map :: chunk_map where
  "demo_data_map = [\<lparr>m_begin = 8192, m_end = 16384, m_ty = 1, m_stripes = [\<lparr>s_devid = 1, s_offset = 134\<rparr>]\<rparr>]"

definition demo_scrub :: scrub_ctx where
  "demo_scrub = \<lparr>cx_env = demo_env, cx_budget = 64, cx_reader = pv_reader demo_provider, cx_chunk_map = demo_data_map,
     cx_strategy = demo_strategy, cx_batch = True\<rparr>"

lemma demo_scrub_ok:
  "reader_ok (cx_reader demo_scrub) demo_strategy" "extent_fits demo_scrub demo_data_dext"
  "is_data_extent (cx_chunk_map demo_scrub) demo_data_dext"
  using demo_csum_read(2)
  by (simp_all add: demo_scrub_def extent_fits_def demo_data_dext_def is_data_extent_def demo_data_map_def chunk_info_at_def
      chunk_find_def binary_search_by_def bs_loop.simps range_cmp_def BG_DATA_def)
    (simp_all add: demo_provider_def new_provider_def new_reader_def with_fsid_def with_devid_def)

theorem pipeline_equals_reference_witness:
  "omap (\<lambda>(p', a, res). (p', erase a, res)) (scrub_dev_tree demo_scrub healthy demo_provider [demo_data_dext] None) =
      omap (\<lambda>(p', a). (p', erase a, Inr (sc_stats a))) (reference_scrub demo_scrub demo_provider [demo_data_dext] None) \<and>
    is_data_extent (cx_chunk_map demo_scrub) demo_data_dext"
  using pipeline_equals_reference [OF demo_scrub_ok(1) demo_csum_read(2), of "[demo_data_dext]" None] demo_scrub_ok(2,3)
  by (simp add: demo_scrub_def demo_env_def)

end
