(* ===== verification/Scrub_Complete.thy ===== *)
theory Scrub_Complete
  imports Scrub_Pipeline
begin

text \<open>
  The scrub of a device from end to end: on readable data extents it checks every stored checksum once
  and reports exactly the sectors whose bytes do not hash to it.
\<close>

subsection \<open>A readable run\<close>

definition sector_bytes :: "scrub_ctx \<Rightarrow> dev_extent \<Rightarrow> entry \<Rightarrow> bytes" where
  "sector_bytes cx dext e =
     take (st_sector_size (cx_strategy cx)) (drop (base_offset (cx_reader cx) + sector_phys dext (fst e)) (content (fp (cx_reader cx))))"

definition verify_entry :: "scrub_ctx \<Rightarrow> dev_extent \<Rightarrow> entry \<Rightarrow> scrub_acc \<Rightarrow> scrub_acc" where
  "verify_entry cx dext e a =
     (let a1 = count_checked (cx_strategy cx) a; h = sector_hash cx (sector_bytes cx dext e)
      in if h = snd e then count_ok a1 else emit dext e h False a1)"

text \<open>Every read inside the extent succeeds; every sector of the list lies inside it.\<close>

definition extent_readable :: "scrub_ctx \<Rightarrow> dev_extent \<Rightarrow> bool" where
  "extent_readable cx dext \<longleftrightarrow>
     (let lo = base_offset (cx_reader cx) + phys_start dext in
      \<forall>off n. lo \<le> off \<and> off + n \<le> lo + dx_length dext \<longrightarrow>
        (\<exists>b. pread_at (env_fault (cx_env cx)) (fp (cx_reader cx)) off n = Inr b))"

definition whole_sectors :: "scrub_ctx \<Rightarrow> dev_extent \<Rightarrow> entry list \<Rightarrow> bool" where
  "whole_sectors cx dext es \<longleftrightarrow>
     (\<forall>e \<in> set es. chunk_offset dext \<le> fst e \<and> fst e + st_sector_size (cx_strategy cx) \<le> chunk_offset dext + dx_length dext)"

lemma contiguous_address:
  assumes "contiguous sz run" "\<forall>e \<in> set run. fst e + sz < 2 ^ 64" "i < length run"
  shows "fst (run ! i) = fst (hd run) + i * sz"
  using assms(3)
proof (induction i)
  case (Suc i)
  then have "fst (run ! Suc i) = add64 (fst (run ! i)) sz" using assms(1) by (simp add: contiguous_def)
  also have "\<dots> = fst (run ! i) + sz" using Suc.prems assms(2) by (intro add64_id) simp
  finally show ?case using Suc by simp
qed (use assms in \<open>simp add: hd_conv_nth\<close>)

lemma sector_phys_inside:
  assumes "extent_fits cx dext" "chunk_offset dext \<le> l" "l \<le> chunk_offset dext + dx_length dext"
  shows "sector_phys dext l = phys_start dext + (l - chunk_offset dext)"
proof -
  have "sub64 l (chunk_offset dext) = l - chunk_offset dext"
    using assms by (intro sub64_id) (simp_all add: extent_fits_def)
  moreover have "add64 (phys_start dext) (l - chunk_offset dext) = phys_start dext + (l - chunk_offset dext)"
    using assms by (intro add64_id) (auto simp: extent_fits_def)
  ultimately show ?thesis by (simp add: sector_phys_def)
qed

lemma isolate_readable:
  assumes "rd () P (n * sz) = ((), Inr buf)" "0 < n" "0 < sz"
  shows "isolate_run rd P 0 (n * sz) sz (new_isolation () k) = (new_isolation () k)\<lparr>iso_good := [(0, buf)]\<rparr>"
proof -
  have "probe rd P 0 (n * sz) sz (new_isolation () k) = ((new_isolation () k)\<lparr>iso_good := [(0, buf)]\<rparr>, False)"
    by (rule probe_cases [OF assms(2,3), where a = 0 and read = rd and st = "new_isolation () k" and phys = P])
      (use assms in \<open>auto simp: new_isolation_def\<close>)
  then show ?thesis using assms by (subst isolate_run.simps) (simp add: new_isolation_def)
qed

lemma fold_nth: "fold (\<lambda>i. f (xs ! i)) [0..<length xs] = fold f xs"
  using fold_map [of f "(!) xs" "[0..<length xs]"] by (simp add: map_nth comp_def)

text \<open>The sectors of a run lie one after another inside the extent, in both address spaces.\<close>

lemma run_window:
  fixes cx :: scrub_ctx and dext :: dev_extent and run :: "entry list"
  defines "z \<equiv> st_sector_size (cx_strategy cx)" and "lo \<equiv> base_offset (cx_reader cx) + phys_start dext"
  assumes "extent_fits cx dext" "whole_sectors cx dext run" "run_ok z run"
  defines "P \<equiv> sector_phys dext (fst (hd run))"
  shows "i < length run \<Longrightarrow> sector_phys dext (fst (run ! i)) = P + i * z"
    and "lo \<le> base_offset (cx_reader cx) + P"
    and "base_offset (cx_reader cx) + P + length run * z \<le> lo + dx_length dext"
proof -
  let ?n = "length run" and ?l = "fst (hd run)"
  have ne: "run \<noteq> []" and co: "contiguous z run" using assms(5) by (simp_all add: run_ok_def)
  have inside: "chunk_offset dext \<le> fst e" "fst e + z \<le> chunk_offset dext + dx_length dext" if "e \<in> set run" for e
    using assms(4) that by (simp_all add: whole_sectors_def z_def)
  have addr: "fst (run ! i) = ?l + i * z" if "i < ?n" for i
    using inside(2) assms(3) that by (intro contiguous_address [OF co]) (auto simp: extent_fits_def intro: le_less_trans)
  have l: "chunk_offset dext \<le> ?l" "?l + ?n * z \<le> chunk_offset dext + dx_length dext"
    using inside(1) [of "hd run"] inside(2) [of "run ! (?n - 1)"] addr [of "?n - 1"] ne by (cases ?n; simp)+
  have phys: "sector_phys dext (?l + i * z) = phys_start dext + (?l + i * z - chunk_offset dext)" if "i \<le> ?n" for i
  proof (rule sector_phys_inside [OF assms(3)])
    have "i * z \<le> ?n * z" using that by (rule mult_le_mono1)
    then show "chunk_offset dext \<le> ?l + i * z" "?l + i * z \<le> chunk_offset dext + dx_length dext" using l by linarith+
  qed
  have P: "P = phys_start dext + (?l - chunk_offset dext)" using phys [of 0] by (simp add: P_def)
  show "i < ?n \<Longrightarrow> sector_phys dext (fst (run ! i)) = P + i * z" using phys [of i] addr [of i] P l(1) by simp
  show "lo \<le> base_offset (cx_reader cx) + P" "base_offset (cx_reader cx) + P + ?n * z \<le> lo + dx_length dext"
    using P l by (simp_all add: lo_def)
qed

text \<open>Block \<open>i\<close> of the one read a run is fetched with.\<close>

definition run_block :: "scrub_ctx \<Rightarrow> dev_extent \<Rightarrow> entry list \<Rightarrow> nat \<Rightarrow> bytes" where
  "run_block cx dext run i =
     take (st_sector_size (cx_strategy cx)) (drop (base_offset (cx_reader cx) + sector_phys dext (fst (hd run)) +
       i * st_sector_size (cx_strategy cx)) (content (fp (cx_reader cx))))"

definition window_inside :: "scrub_ctx \<Rightarrow> dev_extent \<Rightarrow> entry list \<Rightarrow> bool" where
  "window_inside cx dext run \<longleftrightarrow>
     (let at = base_offset (cx_reader cx) + sector_phys dext (fst (hd run)); lo = base_offset (cx_reader cx) + phys_start dext
      in lo \<le> at \<and> at + length run * st_sector_size (cx_strategy cx) \<le> lo + dx_length dext)"

lemma inline_run_reads:
  assumes "batch_ctx cx" "extent_fits cx dext" "extent_readable cx dext" "run \<noteq> []" "window_inside cx dext run"
  shows "inline_run cx dext run a = Some (Ret (fold (verify_step cx dext run (run_block cx dext run)) [0..<length run] a))"
proof -
  let ?z = "st_sector_size (cx_strategy cx)" and ?r = "cx_reader cx" and ?n = "length run"
  let ?P = "sector_phys dext (fst (hd run))"
  have window: "base_offset ?r + phys_start dext \<le> base_offset ?r + ?P"
      "base_offset ?r + ?P + ?n * ?z \<le> base_offset ?r + phys_start dext + dx_length dext"
    using assms(5) by (simp_all add: window_inside_def Let_def)
  have z: "0 < ?z" using assms(1) by (simp add: batch_ctx_def)
  obtain buf where pr: "pread_at (env_fault (cx_env cx)) (fp ?r) (base_offset ?r + ?P) (?n * ?z) = Inr buf"
    using assms(3) window unfolding extent_readable_def Let_def by blast
  have buf: "buf = take (?n * ?z) (drop (base_offset ?r + ?P) (content (fp ?r)))" "length buf = ?n * ?z"
    using pread_at_content [OF pr] pread_at_length [OF pr] by simp_all
  have "base_offset ?r + phys_start dext + dx_length dext < 2 ^ 64" using assms(2) by (simp add: extent_fits_def)
  then have "add64 (base_offset ?r) ?P = base_offset ?r + ?P" using window(2) by (intro add64_id) linarith
  then have "read_physical (cx_env cx) ?r (dx_devid dext) ?P (?n * ?z) = Inr buf"
    using pr assms(2) by (auto simp: read_physical_def extent_fits_def split: option.splits)
  then have iso: "isolate_run (\<lambda>u p n. (u, read_physical (cx_env cx) ?r (dx_devid dext) p n)) ?P 0 (?n * ?z) ?z (new_isolation () (cx_budget cx)) =
      (new_isolation () (cx_budget cx))\<lparr>iso_good := [(0, buf)]\<rparr>"
    using assms(4) z by (intro isolate_readable) simp_all
  have sec: "take ?z (drop (i * ?z) buf) = run_block cx dext run i" if "i < ?n" for i
  proof -
    have "Suc i * ?z \<le> ?n * ?z" using that by (intro mult_le_mono1) simp
    then have "?z \<le> ?n * ?z - i * ?z" by simp
    then show ?thesis by (simp add: buf(1) run_block_def drop_take min_absorb1 ac_simps)
  qed
  have "region_ok ?z ?n (run_block cx dext run) (0, buf)"
    using z sec by (simp add: region_ok_def buf(2))
  then have "process_good cx dext run [(0, buf)] a =
      Some (Ret (fold (verify_step cx dext run (run_block cx dext run)) [0..<?n] a))"
    using process_good_batch [OF assms(1), of "[(0, buf)]" run] z by (simp add: region_idxs_def buf(2))
  moreover have "iso_bad (new_isolation () k) = []" "\<not> iso_exhausted (new_isolation () k)" for k
    by (simp_all add: new_isolation_def)
  ultimately show ?thesis
    using assms(4) unfolding inline_run_def Let_def iso process_isolated_def by simp
qed

lemma inline_run_readable:
  assumes "batch_ctx cx" "extent_fits cx dext" "extent_readable cx dext" "whole_sectors cx dext run"
    and "run_ok (st_sector_size (cx_strategy cx)) run"
  shows "inline_run cx dext run a = Some (Ret (fold (verify_entry cx dext) run a))"
proof -
  note window = run_window [OF assms(2,4,5)]
  have "run \<noteq> []" using assms(5) by (simp add: run_ok_def)
  moreover have "window_inside cx dext run" using window(2,3) by (simp add: window_inside_def Let_def)
  ultimately have "inline_run cx dext run a = Some (Ret (fold (verify_step cx dext run (run_block cx dext run)) [0..<length run] a))"
    by (rule inline_run_reads [OF assms(1-3)])
  also have "fold (verify_step cx dext run (run_block cx dext run)) [0..<length run] a = fold (\<lambda>i. verify_entry cx dext (run ! i)) [0..<length run] a"
    using window(1) by (intro fold_cong) (simp_all add: fun_eq_iff verify_step_def verify_entry_def run_block_def sector_bytes_def add.assoc)
  finally show ?thesis by (simp only: fold_nth)
qed

subsection \<open>A readable device\<close>

lemma inline_runs_readable:
  assumes "batch_ctx cx" "extent_fits cx dext" "extent_readable cx dext"
  shows "\<forall>run \<in> set rs. whole_sectors cx dext run \<and> run_ok (st_sector_size (cx_strategy cx)) run \<Longrightarrow>
    inline_runs cx dext rs a = Some (Ret (fold (verify_entry cx dext) (concat rs) a))"
  by (induction rs arbitrary: a) (simp_all add: inline_run_readable [OF assms])

text \<open>The stored checksums of an extent in ascending order.\<close>

definition extent_entries :: "csum_provider \<Rightarrow> btree \<Rightarrow> dev_extent \<Rightarrow> entry list" where
  "extent_entries p t dext =
     sort_key fst (filter (in_span (chunk_offset dext) (chunk_offset dext + dx_length dext))
       (tree_csums (hash_len (pv_strategy p)) (st_sector_size (pv_strategy p)) t))"

definition scrubbable :: "scrub_ctx \<Rightarrow> csum_provider \<Rightarrow> btree \<Rightarrow> dev_extent \<Rightarrow> bool" where
  "scrubbable cx p t dext \<longleftrightarrow>
     extent_fits cx dext \<and> extent_readable cx dext \<and> whole_sectors cx dext (extent_entries p t dext)"

definition scrub_extent :: "scrub_ctx \<Rightarrow> csum_provider \<Rightarrow> btree \<Rightarrow> dev_extent \<Rightarrow> scrub_acc \<Rightarrow> scrub_acc" where
  "scrub_extent cx p t dext = fold (verify_entry cx dext) (extent_entries p t dext)"

lemma verify_entry_erase: "erase (verify_entry cx dext e a) = verify_entry cx dext e (erase a)"
  by (simp add: verify_entry_def Let_def)

lemma fold_verify_erase: "erase (fold (verify_entry cx dext) es a) = fold (verify_entry cx dext) es (erase a)"
  by (induction es arbitrary: a) (simp_all add: verify_entry_erase)

lemma csum_source_same: "same_source p p' \<Longrightarrow> csum_source_ok E p' t = csum_source_ok E p t"
  "same_source p p' \<Longrightarrow> extent_entries p' t = extent_entries p t"
  by (simp_all add: same_source_def csum_source_ok_def extent_entries_def [abs_def])

lemma reference_extents_readable:
  assumes "batch_ctx cx" "reader_ok (cx_reader cx) st"
  shows "csum_source_ok (cx_env cx) p t \<Longrightarrow> provider_inv p \<Longrightarrow>
    \<forall>dext \<in> set dexts. is_data_extent (cx_chunk_map cx) dext \<longrightarrow> scrubbable cx p t dext \<Longrightarrow> erase a = a \<Longrightarrow>
    \<exists>p'. reference_extents cx dexts p a =
      Some (Ret (p', fold (scrub_extent cx p t) (filter (is_data_extent (cx_chunk_map cx)) dexts) a))"
proof (induction dexts arbitrary: p a)
  case (Cons dext rest)
  show ?case
  proof (cases "is_data_extent (cx_chunk_map cx) dext")
    case True
    let ?z = "st_sector_size (cx_strategy cx)" and ?es = "extent_entries p t dext"
    have sc: "scrubbable cx p t dext" using Cons.prems(3) True by simp
    then have hi: "add64 (chunk_offset dext) (dx_length dext) = chunk_offset dext + dx_length dext"
      by (intro add64_id) (simp add: scrubbable_def extent_fits_def)
    obtain p' c' where r: "csum_range (cx_env cx) p (chunk_offset dext) (chunk_offset dext + dx_length dext) None = Some (Ret (p', c', ?es))"
        "provider_inv p'" "same_source p p'"
      using csum_range_stream [OF Cons.prems(1,2)] unfolding extent_entries_def by meson
    obtain st' where rd: "reader_ok (pv_reader p) st'" using Cons.prems(1) by (auto simp: csum_source_ok_def)
    have runs: "\<forall>run \<in> set (split_runs ?z ?es [] None). whole_sectors cx dext run \<and> run_ok ?z run"
      using sc split_runs_ok [of "[]" None ?z ?es] split_runs_entries [of _ ?z ?es "[]" None]
      by (fastforce simp: scrubbable_def whole_sectors_def)
    have "inline_runs cx dext (split_runs ?z ?es [] None) a = Some (Ret (scrub_extent cx p t dext a))"
      using sc inline_runs_readable [OF assms(1) _ _ runs] split_runs_ok [of "[]" None ?z ?es]
      by (simp add: scrubbable_def scrub_extent_def)
    then have step: "reference_extents cx (dext # rest) p a = reference_extents cx rest p' (scrub_extent cx p t dext a)"
      using reference_extents_data [OF assms(2) rd Cons.prems(4) True, of rest None] r(1) by (simp add: hi)
    have "erase (scrub_extent cx p t dext a) = scrub_extent cx p t dext a"
      using Cons.prems(4) by (simp add: scrub_extent_def fold_verify_erase)
    moreover have "\<forall>d \<in> set rest. is_data_extent (cx_chunk_map cx) d \<longrightarrow> scrubbable cx p' t d"
      using Cons.prems(3) r(3) by (simp add: scrubbable_def csum_source_same)
    ultimately have "\<exists>q. reference_extents cx rest p' (scrub_extent cx p t dext a) =
        Some (Ret (q, fold (scrub_extent cx p' t) (filter (is_data_extent (cx_chunk_map cx)) rest) (scrub_extent cx p t dext a)))"
      using Cons.prems(1) r(2,3) by (intro Cons.IH) (simp_all add: csum_source_same)
    moreover have "scrub_extent cx p' t = scrub_extent cx p t"
      by (simp add: scrub_extent_def [abs_def] csum_source_same(2) [OF r(3)])
    ultimately show ?thesis using True step by simp
  qed (use Cons in simp)
qed simp

lemma scrub_extent_adds:
  "let a' = fold (scrub_extent cx p t) ds a;
       bad = (\<lambda>dext e. sector_hash cx (sector_bytes cx dext e) \<noteq> snd e);
       rep = (\<lambda>dext e. report dext e (sector_hash cx (sector_bytes cx dext e)) False) in
   sc_events a' = sc_events a @ concat (map (\<lambda>dext. map (rep dext) (filter (bad dext) (extent_entries p t dext))) ds) \<and>
   rs_checked (sc_stats a') = rs_checked (sc_stats a) + length (concat (map (extent_entries p t) ds)) \<and>
   rs_read_error (sc_stats a') = rs_read_error (sc_stats a)"
proof (induction ds arbitrary: a)
  case (Cons d ds)
  have "let a' = fold (verify_entry cx d) es a in
      sc_events a' = sc_events a @ map (\<lambda>e. report d e (sector_hash cx (sector_bytes cx d e)) False)
        (filter (\<lambda>e. sector_hash cx (sector_bytes cx d e) \<noteq> snd e) es) \<and>
      rs_checked (sc_stats a') = rs_checked (sc_stats a) + length es \<and> rs_read_error (sc_stats a') = rs_read_error (sc_stats a)" for es a
  proof (induction es arbitrary: a)
    case (Cons e es)
    from Cons [of "verify_entry cx d e a"] show ?case by (auto simp: Let_def verify_entry_def acc_defs report_def)
  qed simp
  from this [of "extent_entries p t d" a] Cons.IH [of "scrub_extent cx p t d a"] show ?case
    by (simp add: scrub_extent_def Let_def)
qed simp

lemma scrub_batch_complete:
  fixes cx :: scrub_ctx and p :: csum_provider and t :: btree and dexts :: "dev_extent list"
  assumes "batch_ctx cx" "reader_ok (cx_reader cx) st" "csum_source_ok (cx_env cx) p t" "provider_inv p"
    and "\<forall>dext \<in> set dexts. is_data_extent (cx_chunk_map cx) dext \<longrightarrow> scrubbable cx p t dext"
    and "\<forall>dext \<in> set dexts. extent_fits cx dext" "env_dup_fault (cx_env cx) = None"
  defines "ds \<equiv> filter (is_data_extent (cx_chunk_map cx)) dexts"
  defines "actual \<equiv> \<lambda>dext e. sector_hash cx (sector_bytes cx dext e)"
  shows "\<exists>p' a. scrub_dev_tree cx healthy p dexts c = Some (Ret (p', a, Inr (sc_stats a))) \<and>
    sc_events a = concat (map (\<lambda>dext. map (\<lambda>e. report dext e (actual dext e) False)
      (filter (\<lambda>e. actual dext e \<noteq> snd e) (extent_entries p t dext))) ds) \<and>
    rs_checked (sc_stats a) = length (concat (map (extent_entries p t) ds)) \<and> rs_read_error (sc_stats a) = 0"
proof -
  let ?a = "\<lparr>sc_stats = zero_stats, sc_counters = c, sc_events = []\<rparr>"
  obtain st' where rd: "reader_ok (pv_reader p) st'" using assms(3) by (auto simp: csum_source_ok_def)
  obtain p' where "reference_extents cx dexts p (erase ?a) = Some (Ret (p', fold (scrub_extent cx p t) ds (erase ?a)))"
    using reference_extents_readable [OF assms(1-5), of "erase ?a"] by (auto simp: ds_def)
  then obtain a1 where a1: "reference_extents cx dexts p ?a = Some (Ret (p', a1))" "erase a1 = fold (scrub_extent cx p t) ds (erase ?a)"
    unfolding reference_extents_erase [OF assms(2) rd] by (auto simp: omap_def run_bind_eq_Ret split: option.splits)
  then have "omap (\<lambda>(p', a, res). (p', erase a, res)) (scrub_dev_tree cx healthy p dexts c) =
      Some (Ret (p', erase (set_stale_branches p' a1), Inr (sc_stats (set_stale_branches p' a1))))"
    unfolding pipeline_reference [OF assms(2) rd assms(6,7)] by (simp add: reference_scrub_def)
  then obtain a where a: "scrub_dev_tree cx healthy p dexts c = Some (Ret (p', a, Inr (sc_stats (set_stale_branches p' a1))))"
      "erase a = erase (set_stale_branches p' a1)"
    by (auto simp: omap_def run_bind_eq_Ret split: option.splits)
  have same: "sc_stats a = sc_stats (set_stale_branches p' a1)" "sc_events a = sc_events a1"
    using a(2) by (auto simp: erase_def set_stale_branches_def intro: scrub_acc.equality dest: arg_cong [of _ _ sc_stats] arg_cong [of _ _ sc_events])
  have fields: "sc_events (erase x) = sc_events x" "sc_stats (erase x) = sc_stats x" for x by (simp_all add: erase_def)
  have "sc_events a1 = sc_events (fold (scrub_extent cx p t) ds (erase ?a))" "sc_stats a1 = sc_stats (fold (scrub_extent cx p t) ds (erase ?a))"
    unfolding a1(2) [symmetric] fields by simp_all
  then show ?thesis
    using scrub_extent_adds [of cx p t ds "erase ?a"] a(1) same
    by (simp add: Let_def actual_def set_stale_branches_def fields zero_stats_def)
qed


text \<open>
  The demonstration device: both sectors are reported, since the constant hash of the example differs from
  the two stored checksums.
\<close>

lemma demo_hash: "sector_hash demo_scrub bs = [1, 0, 0, 0]"
  by (simp add: sector_hash_def csum_compute_def hash_bytes_def demo_scrub_def demo_strategy_def demo_env_def CRC32C_def le_bytes_4_1 zeros_def numeral_3_eq_3 del: le_bytes.simps)

lemma demo_entries:
  "extent_entries demo_provider (TLeaf False 0x4000 demo_csum_leaf) demo_data_dext = [(8192, [1, 2, 3, 4]), (12288, [5, 6, 7, 8])]"
proof -
  have st: "hash_len (pv_strategy demo_provider) = 4" "st_sector_size (pv_strategy demo_provider) = 4096"
    by (simp_all add: demo_provider_def new_provider_def demo_strategy_def)
  have "tree_csums 4 4096 (TLeaf False 0x4000 demo_csum_leaf) = [(8192, [1, 2, 3, 4]), (12288, [5, 6, 7, 8])]"
    by (simp add: tree_csums_def demo_tree_items demo_item all_csums_def upt_rec numeral_2_eq_2)
  then show ?thesis by (simp add: extent_entries_def st in_span_def demo_data_dext_def)
qed

lemma demo_scrubbable: "scrubbable demo_scrub demo_provider (TLeaf False 0x4000 demo_csum_leaf) demo_data_dext"
  unfolding scrubbable_def
proof (intro conjI)
  show "whole_sectors demo_scrub demo_data_dext (extent_entries demo_provider (TLeaf False 0x4000 demo_csum_leaf) demo_data_dext)"
    unfolding demo_entries by (simp add: whole_sectors_def demo_scrub_def demo_strategy_def demo_data_dext_def)
  have rd: "fp (cx_reader demo_scrub) = plain_disk (demo_csum_buf @ zeros 8192)" "base_offset (cx_reader demo_scrub) = 0"
      "env_fault (cx_env demo_scrub) = None"
    by (simp_all add: demo_scrub_def demo_provider_def new_provider_def new_reader_def with_fsid_def with_devid_def demo_env_def)
  show "extent_readable demo_scrub demo_data_dext"
    by (simp add: extent_readable_def Let_def rd pread_at_def read_exact_at_def plain_disk_def demo_csum_buf_props demo_data_dext_def)
qed (rule demo_scrub_ok(2))


subsection \<open>The statistics of every scrub\<close>

text \<open>C34: The scrub's statistics always balance, in both modes, with the pipeline or inline, and even when the
  reader thread dies: every check of a sector is counted in exactly one bucket (in batch mode a readable
  mismatch is one event instead, and outside it every event is a counted mismatch), and the bytes are those of the checks.\<close>

theorem scrub_statistics_balance:
  assumes "scrub_dev_tree cx fate p dexts counters = Some (Ret (p', a, res))"
  defines "s \<equiv> sc_stats a" and "readable \<equiv> length (filter (\<lambda>ev. \<not> sr_unreadable ev) (sc_events a))"
  shows "rs_bytes s = rs_checked s * st_sector_size (cx_strategy cx) \<and>
    (if cx_batch cx
     then rs_checked s = rs_ok s + rs_read_error s + readable \<and> rs_mismatch s = 0 \<and> rs_stale s = 0
     else rs_checked s = rs_ok s + rs_mismatch s + rs_stale s + rs_read_error s \<and> length (sc_events a) = rs_mismatch s) \<and>
    (\<forall>r. res = Inr r \<longrightarrow> r = s)"
  using scrub_dev_tree_books [OF assms(1)]
  by (auto simp: books_def Let_def readable_events_def s_def readable_def)

text \<open>A reader thread that dies at its first command.\<close>

definition dead_reader :: reader_fate where
  "dead_reader = \<lparr>handle_fault = None, dies_at = Some 0, send_fails_at = None\<rparr>"

lemma demo_dead_reader:
  "\<exists>p' a. scrub_dev_tree demo_scrub dead_reader demo_provider [demo_data_dext] None = Some (Ret (p', a, Inl OtherError)) \<and>
    rs_checked (sc_stats a) = 0"
proof -
  let ?es = "[(8192, [1, 2, 3, 4]), (12288, [5, 6, 7, 8])]"
  have inv: "provider_inv demo_provider" by (simp add: demo_provider_def new_provider_inv)
  obtain p' c' where r: "csum_range demo_env demo_provider 8192 16384 None = Some (Ret (p', c', ?es))"
    using csum_range_stream [OF demo_source_ok inv, of 8192 16384 None] demo_entries
    by (auto simp: extent_entries_def demo_data_dext_def)
  have cx: "cx_env demo_scrub = demo_env" "cx_strategy demo_scrub = demo_strategy" "env_dup_fault demo_env = None"
    by (simp_all add: demo_scrub_def demo_env_def)
  have dx: "chunk_offset demo_data_dext = 8192" "dx_length demo_data_dext = 8192" by (simp_all add: demo_data_dext_def)
  have runs: "split_runs 4096 ?es [] None = [?es]" by (simp add: MAX_RUN_SECTORS_def add64_def)
  have depth: "prefetch_depth_for demo_strategy = 2"
    by (simp add: prefetch_depth_for_def demo_strategy_def PREFETCH_DEPTH_FAST_def)
  have sz: "st_sector_size demo_strategy = 4096" by (simp add: demo_strategy_def)
  show ?thesis
    using r by (simp add: scrub_dev_tree_def dup_handle_def reopen_def cx demo_scrub_ok(3) extent_csums_def dx add64_def runs sz flush_run_def Let_def
        depth dead_reader_def before_def zero_stats_def bump_progress_def del: split_runs.simps)
qed

theorem scrub_statistics_balance_witness:
  "\<exists>p' a. scrub_dev_tree demo_scrub dead_reader demo_provider [demo_data_dext] None = Some (Ret (p', a, Inl OtherError)) \<and>
    rs_checked (sc_stats a) = rs_ok (sc_stats a) + rs_read_error (sc_stats a) + length (filter (\<lambda>ev. \<not> sr_unreadable ev) (sc_events a))"
proof -
  obtain p' a where r: "scrub_dev_tree demo_scrub dead_reader demo_provider [demo_data_dext] None = Some (Ret (p', a, Inl OtherError))"
    using demo_dead_reader by blast
  have "cx_batch demo_scrub" by (simp add: demo_scrub_def)
  with scrub_statistics_balance [OF r] r show ?thesis by auto
qed

end
