(* ===== verification/Scrub_Driver.thy ===== *)
theory Scrub_Driver
  imports Scrub_Complete
begin

text \<open>
  The btrfs implementation of the filesystem contract (\<open>src/scrub-rs/src/btrfs/scrub_driver.rs\<close>):
  opening a device for a scrub, seeding the status counters, turning sector results into scrub events,
  and the write-time reconfirmer with its cached tree roots. Log lines and the textual summary are
  printing only. Descriptors follow the device: a reconfirmation reads the state the disks have then.
\<close>

record btrfs_scrub =
  bs_reader :: fs_reader
  bs_chunk_map :: chunk_map
  bs_csum_provider :: csum_provider
  bs_dev_extents :: "dev_extent list"
  bs_strategy :: csum_strategy
  bs_superblock :: superblock
  bs_errors :: meta_errors
  bs_dev :: path
  bs_status :: "status_counters option"

subsection \<open>Opening\<close>

text \<open>A dev tree that could not be resolved leaves no extents to scrub and counts as a header error.\<close>

definition btrfs_open :: "env \<Rightarrow> disks \<Rightarrow> path \<Rightarrow> nat \<Rightarrow> (io_kind + btrfs_scrub) run option" where
  "btrfs_open E w dev base =
     walk_bind (open_fs E w dev base) (\<lambda>res.
       case res of
         Inl e \<Rightarrow> Some (Ret (Inl e))
       | Inr ctx \<Rightarrow>
           (let r = ctx_reader ctx; cm = ctx_chunk_map ctx; sb = ctx_superblock ctx; st = ctx_strategy ctx; me = ctx_errors ctx
            in case reopen E r of
                 Inl e \<Rightarrow> Some (Ret (Inl e))
               | Inr f \<Rightarrow>
                   (let p = new_provider f (sb_node_size sb) (base_offset r) st (sb_devid sb) (sb_fsid sb) cm (csum_root (ctx_roots ctx));
                        scrub = (\<lambda>dexts me'. \<lparr>bs_reader = r, bs_chunk_map = cm, bs_csum_provider = p, bs_dev_extents = dexts,
                          bs_strategy = st, bs_superblock = sb, bs_errors = me', bs_dev = dev, bs_status = None\<rparr>)
                    in case dev_tree_root (ctx_roots ctx) of
                         None \<Rightarrow> Some (Ret (Inr (scrub [] (me\<lparr>me_header := me_header me + 1\<rparr>))))
                       | Some root \<Rightarrow>
                           walk_bind (build_dev_extents E r cm root (sb_devid sb) me) (\<lambda>(me', dx).
                             Some (Ret (case dx of Inl e \<Rightarrow> Inl e | Inr dexts \<Rightarrow> Inr (scrub dexts me')))))))"

definition set_status :: "status_counters \<Rightarrow> btrfs_scrub \<Rightarrow> btrfs_scrub" where
  "set_status counters s =
     (let p = bs_csum_provider s; me = bs_errors s;
          total = fold (\<lambda>d n. add64 n (dx_length d)) (filter (is_data_extent (bs_chunk_map s)) (bs_dev_extents s)) 0
      in s\<lparr>bs_status := Some (counters\<lparr>c_progress_total := total,
             c_metadata_header_errors := me_header me + pv_metadata_errors p,
             c_metadata_mirror_mismatches := me_mirror me,
             c_metadata_read_errors := me_read me + pv_read_errors p\<rparr>)\<rparr>)"

subsection \<open>The scrub run\<close>

text \<open>
  The event of a sector result: the verifier recomputes the hash (which cannot panic for the strategies
  \<open>from_superblock\<close> builds), and the request re-checks the sector by its logical address.
\<close>

definition event_of :: "env \<Rightarrow> csum_strategy \<Rightarrow> sector_result \<Rightarrow> scrub_event" where
  "event_of E st r =
     \<lparr>ev_array_phys = sr_array_phys r, ev_block_size = st_sector_size st,
      ev_verify = map_option (\<lambda>old_csum b. csum_compute (env_hashes E) st b = Ret old_csum) (sr_stored r),
      ev_reconfirm = map_option (\<lambda>old_csum. \<lparr>token = sr_logical r, stored_csum = old_csum\<rparr>) (sr_stored r),
      ev_unreadable = sr_unreadable r\<rparr>"

definition total_stats :: "run_stats \<Rightarrow> meta_errors \<Rightarrow> csum_provider \<Rightarrow> scrub_stats" where
  "total_stats s me p =
     \<lparr>sectors_checked = rs_checked s, sectors_ok = rs_ok s, sectors_mismatch = rs_mismatch s, sectors_no_csum = rs_no_csum s,
      sectors_read_error = rs_read_error s, sectors_stale = rs_stale s, stale_csum_branches = rs_stale_branches s,
      isolation_truncated = rs_truncated s, bytes_checked = rs_bytes s,
      metadata_header_errors = me_header me + pv_metadata_errors p,
      metadata_mirror_mismatches = me_mirror me + pv_mirror_mismatches p,
      metadata_read_errors = me_read me + pv_read_errors p\<rparr>"

definition scrub_context :: "env \<Rightarrow> nat \<Rightarrow> bool \<Rightarrow> btrfs_scrub \<Rightarrow> scrub_ctx" where
  "scrub_context E budget raw s =
     \<lparr>cx_env = E, cx_budget = budget, cx_reader = bs_reader s, cx_chunk_map = bs_chunk_map s, cx_strategy = bs_strategy s,
      cx_batch = raw\<rparr>"

definition btrfs_run ::
  "env \<Rightarrow> nat \<Rightarrow> reader_fate \<Rightarrow> bool \<Rightarrow> btrfs_scrub \<Rightarrow> (btrfs_scrub \<times> scrub_event list \<times> (io_kind + scrub_stats)) run option" where
  "btrfs_run E budget fate raw s =
     walk_bind (scrub_dev_tree (scrub_context E budget raw s) fate (bs_csum_provider s) (bs_dev_extents s) (bs_status s))
       (\<lambda>(p, a, res).
          let s' = s\<lparr>bs_csum_provider := p, bs_status := sc_counters a\<rparr>
          in Some (Ret (s', map (event_of E (bs_strategy s)) (sc_events a),
               case res of Inl e \<Rightarrow> Inl e | Inr local \<Rightarrow> Inr (total_stats local (bs_errors s) p))))"

definition superblock_offset :: nat where
  "superblock_offset = SUPERBLOCK_OFFSET"

definition block_has_magic :: "bytes \<Rightarrow> bool" where
  "block_has_magic block = has_magic_at block OFF_MAGIC"

subsection \<open>The reconfirmer\<close>

record btrfs_reconfirmer =
  rc_reader :: fs_reader
  rc_dev :: path
  rc_chunk_map :: chunk_map
  rc_strategy :: csum_strategy
  rc_counters :: "status_counters option"
  cached_roots :: "(nat \<times> nat \<times> nat) option"

definition new_reconfirmer :: "env \<Rightarrow> btrfs_scrub \<Rightarrow> io_kind + btrfs_reconfirmer" where
  "new_reconfirmer E s =
     (case reopen E (bs_reader s) of
        Inl e \<Rightarrow> Inl e
      | Inr f \<Rightarrow>
          (let r = with_fsid (sb_fsid (bs_superblock s)) (with_devid (sb_devid (bs_superblock s))
                     (new_reader f (node_size (bs_reader s)) (base_offset (bs_reader s)) (Some (bs_strategy s))))
           in Inr \<lparr>rc_reader = r, rc_dev = bs_dev s, rc_chunk_map = bs_chunk_map s, rc_strategy = bs_strategy s,
                   rc_counters = bs_status s, cached_roots = None\<rparr>))"

definition cached_roots_at :: "(nat \<times> nat \<times> nat) option \<Rightarrow> nat \<Rightarrow> (nat \<times> nat) option" where
  "cached_roots_at cached generation =
     (case cached of
        Some (cached_gen, ext, csum) \<Rightarrow> if cached_gen = generation then Some (ext, csum) else None
      | None \<Rightarrow> None)"

text \<open>What the reconfirmer's descriptor reads when the disks are \<open>w\<close>.\<close>

definition reader_now :: "disks \<Rightarrow> btrfs_reconfirmer \<Rightarrow> fs_reader" where
  "reader_now w s = (case w (rc_dev s) of Some d \<Rightarrow> (rc_reader s)\<lparr>fp := d\<rparr> | None \<Rightarrow> rc_reader s)"

definition lookup_roots ::
  "env \<Rightarrow> disks \<Rightarrow> superblock \<Rightarrow> btrfs_reconfirmer \<Rightarrow> (btrfs_reconfirmer \<times> (nat \<times> nat) option) run option" where
  "lookup_roots E w sb s =
     (case cached_roots_at (cached_roots s) (sb_generation sb) of
        Some roots \<Rightarrow> Some (Ret (s, Some roots))
      | None \<Rightarrow>
          walk_bind (resolve_live_tree_roots E (reader_now w s) (rc_chunk_map s) (rc_counters s) sb) (\<lambda>(c, roots).
            let s1 = s\<lparr>rc_counters := c\<rparr>
            in Some (Ret (case roots of
                            Some (ext, csum) \<Rightarrow> (s1\<lparr>cached_roots := Some (sb_generation sb, ext, csum)\<rparr>, roots)
                          | None \<Rightarrow> (s1, None)))))"

definition reconfirm_sector ::
  "env \<Rightarrow> disks \<Rightarrow> btrfs_reconfirmer \<Rightarrow> reconfirm_request \<Rightarrow> (btrfs_reconfirmer \<times> reconfirm) run option" where
  "reconfirm_sector E w s req =
     walk_bind (Some (read_live_superblock E (reader_now w s) (base_offset (rc_reader s)) (rc_counters s))) (\<lambda>(c, live).
       let s1 = s\<lparr>rc_counters := c\<rparr>
       in case live of
            None \<Rightarrow> Some (Ret (s1, Unverifiable))
          | Some sb \<Rightarrow>
              walk_bind (lookup_roots E w sb s1) (\<lambda>(s2, roots).
                case roots of
                  None \<Rightarrow> Some (Ret (s2, Unverifiable))
                | Some (ext, csum) \<Rightarrow>
                    walk_bind (Some (reconfirm_mismatch E (reader_now w s2) (rc_chunk_map s2) ext csum (token req) (stored_csum req)
                        (hash_len (rc_strategy s2)) (st_sector_size (rc_strategy s2))))
                      (\<lambda>verdict. Some (Ret (s2, verdict)))))"

subsection \<open>The root cache is transparent\<close>

text \<open>A sequence of requests, each with the disks as they are at that time; with and without the cache.\<close>

fun reconfirm_all :: "env \<Rightarrow> btrfs_reconfirmer \<Rightarrow> (disks \<times> reconfirm_request) list \<Rightarrow> reconfirm list run option" where
  "reconfirm_all E s [] = Some (Ret [])"
| "reconfirm_all E s ((w, req) # reqs) =
     walk_bind (reconfirm_sector E w s req) (\<lambda>(s', v). omap ((#) v) (reconfirm_all E s' reqs))"

fun uncached_all :: "env \<Rightarrow> btrfs_reconfirmer \<Rightarrow> (disks \<times> reconfirm_request) list \<Rightarrow> reconfirm list run option" where
  "uncached_all E s [] = Some (Ret [])"
| "uncached_all E s ((w, req) # reqs) =
     walk_bind (reconfirm_sector E w (s\<lparr>cached_roots := None\<rparr>) req) (\<lambda>(s', v). omap ((#) v) (uncached_all E s' reqs))"

text \<open>
  The kernel raises the generation with every commit, so the roots on the device are a function of the
  generation of its superblock.
\<close>

definition live_superblock :: "env \<Rightarrow> fs_reader \<Rightarrow> superblock option run" where
  "live_superblock E r = run_bind (read_live_superblock E r (base_offset r) None) (\<lambda>(c, live). Ret live)"

definition roots_follow :: "env \<Rightarrow> btrfs_reconfirmer \<Rightarrow> (nat \<Rightarrow> (nat \<times> nat) option) \<Rightarrow> disks \<Rightarrow> bool" where
  "roots_follow E s roots w \<longleftrightarrow>
     (\<forall>sb. live_superblock E (reader_now w s) = Ret (Some sb) \<longrightarrow>
        resolve_live_tree_roots E (reader_now w s) (rc_chunk_map s) None sb = Some (Ret (None, roots (sb_generation sb))))"

definition cache_ok :: "(nat \<Rightarrow> (nat \<times> nat) option) \<Rightarrow> btrfs_reconfirmer \<Rightarrow> bool" where
  "cache_ok roots s \<longleftrightarrow> (\<forall>g ext csum. cached_roots s = Some (g, ext, csum) \<longrightarrow> roots g = Some (ext, csum))"

definition same_device :: "btrfs_reconfirmer \<Rightarrow> btrfs_reconfirmer \<Rightarrow> bool" where
  "same_device s s' \<longleftrightarrow> rc_reader s' = rc_reader s \<and> rc_dev s' = rc_dev s \<and> rc_chunk_map s' = rc_chunk_map s \<and>
     rc_strategy s' = rc_strategy s"

text \<open>The answer to one request as a function of the device and the roots of its generation.\<close>

definition verdict_at :: "env \<Rightarrow> (nat \<Rightarrow> (nat \<times> nat) option) \<Rightarrow> btrfs_reconfirmer \<Rightarrow> disks \<Rightarrow> reconfirm_request \<Rightarrow> reconfirm run" where
  "verdict_at E roots s w req =
     run_bind (live_superblock E (reader_now w s)) (\<lambda>live.
       case live of
         None \<Rightarrow> Ret Unverifiable
       | Some sb \<Rightarrow>
           (case roots (sb_generation sb) of
              None \<Rightarrow> Ret Unverifiable
            | Some (ext, csum) \<Rightarrow>
                reconfirm_mismatch E (reader_now w s) (rc_chunk_map s) ext csum (token req) (stored_csum req)
                  (hash_len (rc_strategy s)) (st_sector_size (rc_strategy s))))"

lemma reader_now_simps [simp]:
  "reader_now w (s\<lparr>rc_counters := c\<rparr>) = reader_now w s" "reader_now w (s\<lparr>cached_roots := x\<rparr>) = reader_now w s"
  "base_offset (reader_now w s) = base_offset (rc_reader s)" "reader_ok (reader_now w s) st = reader_ok (rc_reader s) st"
  by (simp_all add: reader_now_def reader_ok_def split: option.splits)

lemma same_device_reader: "same_device s s' \<Longrightarrow> reader_now w s' = reader_now w s"
  by (simp add: same_device_def reader_now_def split: option.splits)

lemma live_superblock_counters:
  "\<exists>c'. read_live_superblock E r (base_offset r) c = run_bind (live_superblock E r) (\<lambda>live. Ret (c', live))"
  by (cases "reopen E r")
    (auto simp: live_superblock_def read_live_superblock_def run_bind_def split: run.splits sum.splits)

lemma lookup_roots_follow:
  assumes "reader_ok (rc_reader s) st" "roots_follow E s roots w" "cache_ok roots s"
    and "live_superblock E (reader_now w s) = Ret (Some sb)"
  shows "\<exists>s'. lookup_roots E w sb s = Some (Ret (s', roots (sb_generation sb))) \<and> same_device s s' \<and> cache_ok roots s'"
proof (cases "cached_roots_at (cached_roots s) (sb_generation sb)")
  case None
  have "resolve_live_tree_roots E (reader_now w s) (rc_chunk_map s) None sb = Some (Ret (None, roots (sb_generation sb)))"
    using assms(2,4) by (simp add: roots_follow_def)
  then have "omap (\<lambda>(c', x). (None, x)) (resolve_live_tree_roots E (reader_now w s) (rc_chunk_map s) (rc_counters s) sb) =
      Some (Ret (None :: status_counters option, roots (sb_generation sb)))"
    using resolve_counters [of "reader_now w s" st E "rc_chunk_map s" sb "rc_counters s"] assms(1) by simp
  then obtain c' where "resolve_live_tree_roots E (reader_now w s) (rc_chunk_map s) (rc_counters s) sb = Some (Ret (c', roots (sb_generation sb)))"
    by (rule_tac omap_cases [of "resolve_live_tree_roots E (reader_now w s) (rc_chunk_map s) (rc_counters s) sb"]) auto
  then show ?thesis
    using None assms(3)
    by (cases "roots (sb_generation sb)") (auto simp: lookup_roots_def Let_def same_device_def cache_ok_def)
next
  case (Some x)
  then have "roots (sb_generation sb) = Some x"
    using assms(3) by (auto simp: cached_roots_at_def cache_ok_def split: option.splits if_splits)
  then show ?thesis using Some assms(3) by (simp add: lookup_roots_def same_device_def)
qed

lemma reconfirm_verdict:
  assumes "reader_ok (rc_reader s) st" "roots_follow E s roots w" "cache_ok roots s"
  shows "omap snd (reconfirm_sector E w s req) = Some (verdict_at E roots s w req)"
    and "reconfirm_sector E w s req = Some (Ret (s', v)) \<Longrightarrow> same_device s s' \<and> cache_ok roots s'"
proof -
  obtain c where c: "read_live_superblock E (reader_now w s) (base_offset (rc_reader s)) (rc_counters s) =
      run_bind (live_superblock E (reader_now w s)) (\<lambda>live. Ret (c, live))"
    using live_superblock_counters [of E "reader_now w s" "rc_counters s"] by auto
  let ?s = "s\<lparr>rc_counters := c\<rparr>"
  have s: "reader_ok (rc_reader ?s) st" "roots_follow E ?s roots w" "cache_ok roots ?s" "same_device s ?s"
    using assms by (simp_all add: roots_follow_def cache_ok_def same_device_def)
  have "omap snd (reconfirm_sector E w s req) = Some (verdict_at E roots s w req) \<and>
    (\<forall>s' v. reconfirm_sector E w s req = Some (Ret (s', v)) \<longrightarrow> same_device s s' \<and> cache_ok roots s')"
  proof (cases "live_superblock E (reader_now w s)")
    case Panic
    then show ?thesis by (simp add: reconfirm_sector_def c verdict_at_def)
  next
    case (Ret live)
    show ?thesis
    proof (cases live)
      case None
      then show ?thesis using Ret s by (simp add: reconfirm_sector_def c verdict_at_def Let_def)
    next
      case (Some sb)
      then obtain s2 where s2: "lookup_roots E w sb ?s = Some (Ret (s2, roots (sb_generation sb)))" "same_device ?s s2" "cache_ok roots s2"
        using lookup_roots_follow [OF s(1-3), of sb] Ret by auto
      have dev: "same_device s s2" using s(4) s2(2) by (simp add: same_device_def)
      have eqs: "reader_now w s2 = reader_now w s" "rc_chunk_map s2 = rc_chunk_map s" "rc_strategy s2 = rc_strategy s"
        using same_device_reader [OF dev] dev unfolding same_device_def by blast+
      define m where "m = (case roots (sb_generation sb) of None \<Rightarrow> Ret Unverifiable
        | Some (ext, csum) \<Rightarrow> reconfirm_mismatch E (reader_now w s) (rc_chunk_map s) ext csum (token req) (stored_csum req)
            (hash_len (rc_strategy s)) (st_sector_size (rc_strategy s)))"
      have "verdict_at E roots s w req = m" by (simp add: verdict_at_def Ret Some m_def)
      moreover have "reconfirm_sector E w s req = Some (run_bind m (\<lambda>v. Ret (s2, v)))"
        unfolding m_def reconfirm_sector_def c Ret Some
        by (cases "roots (sb_generation sb)") (simp_all add: Let_def s2(1) eqs walk_bind_def run_bind_def split: prod.splits run.splits)
      ultimately show ?thesis using dev s2(3) by (cases m) simp_all
    qed
  qed
  then show "omap snd (reconfirm_sector E w s req) = Some (verdict_at E roots s w req)"
    "reconfirm_sector E w s req = Some (Ret (s', v)) \<Longrightarrow> same_device s s' \<and> cache_ok roots s'" by blast+
qed

lemma verdict_at_same:
  assumes "same_device s s'"
  shows "verdict_at E roots s' w req = verdict_at E roots s w req"
proof -
  have eqs: "reader_now w s' = reader_now w s" "rc_chunk_map s' = rc_chunk_map s" "rc_strategy s' = rc_strategy s"
    using same_device_reader [OF assms] assms unfolding same_device_def by blast+
  show ?thesis unfolding verdict_at_def eqs by (rule refl)
qed


text \<open>A device with a superblock whose root tree is one empty leaf, under a constant checksum.\<close>

definition demo_live_env :: env where
  "demo_live_env = \<lparr>env_hashes = demo_hashes, env_fault = None, env_dup_fault = None\<rparr>"

definition demo_live_disk :: disk where
  "demo_live_disk = plain_disk (zeros 0x10000 @ demo_sb_block)"

definition demo_reconfirmer :: btrfs_reconfirmer where
  "demo_reconfirmer = \<lparr>rc_reader = new_reader demo_live_disk 101 0 (Some demo_strategy), rc_dev = ''d'', rc_chunk_map = [],
     rc_strategy = demo_strategy, rc_counters = None, cached_roots = None\<rparr>"

lemma zeros_parts: "pos + n \<le> k \<Longrightarrow> slice (zeros k) pos n = Ret (zeros n)" "le_nat (zeros k) = 0"
proof -
  show "pos + n \<le> k \<Longrightarrow> slice (zeros k) pos n = Ret (zeros n)" by (simp add: slice_def zeros_def)
  show "le_nat (zeros k) = 0" by (induction k) (simp_all add: zeros_def)
qed

definition empty_header :: header where
  "empty_header = \<lparr>h_fsid = zeros 16, h_bytenr = 0, h_flags = 0, h_chunk_tree_uuid = zeros 16, h_generation = 0, h_owner = 0,
     h_nritems = 0, h_level = 0\<rparr>"

lemma header_parse_zeros: "header_parse (zeros 101) = Ret empty_header"
proof -
  have "byte_at (zeros 101) 100 = Ret 0" by (simp add: byte_at_def zeros_def)
  then show ?thesis by (simp add: header_parse_def le_u64_def le_u32_def zeros_parts empty_header_def)
qed

lemma demo_live_root:
  fixes r :: fs_reader
  defines "r \<equiv> new_reader demo_live_disk 101 0 (Some demo_strategy)"
  shows "read_ref demo_live_env r [] (root_ref 0) = Ret (Inr \<lparr>rn_node = Some (LeafNode \<lparr>leaf_header = empty_header, slots = [],
      leaf_buf = zeros 101\<rparr>), all_mirrors_failed = False, generation_mismatch = False, mirror_mismatch = False\<rparr>)"
    and "reader_ok r demo_strategy"
proof -
  have rd: "fp r = demo_live_disk" "node_size r = 101" "base_offset r = 0" "rd_fsid r = None" "rd_strategy r = Some demo_strategy"
    by (simp_all add: r_def new_reader_def)
  show ok: "reader_ok r demo_strategy" by (simp add: reader_ok_def rd HEADER_SIZE_def)
  have pr: "pread_at (env_fault demo_live_env) (fp r) 0 101 = Inr (zeros 101)"
    by (simp add: pread_at_def demo_live_env_def rd demo_live_disk_def plain_disk_def read_exact_at_def zeros_def)
  have "le_bytes k 0 = zeros k" for k by (induction k) (simp_all add: zeros_def)
  then have ver: "verify_node_header (env_hashes demo_live_env) demo_strategy (zeros 101) = Ret True"
    by (simp add: verify_node_header_def verify_header_def csum_params_def hash_bytes_def demo_strategy_def demo_live_env_def
        demo_hashes_def CRC32C_def) (simp add: zeros_def)
  have c: "copy_at demo_live_env r demo_strategy 0 (GEN_DONT_CHECK, None, None) 0 = GoodCopy (zeros 101)"
    using pr ver by (simp add: copy_at_def rd add64_def header_parse_zeros validate_header_def) (simp add: empty_header_def)
  have st: "node_stripes [] 0 = [(0, 0)]"
    by (simp add: node_stripes_def lookup_stripes_def chunk_find_def binary_search_by_def)
  have "node_parse (zeros 101) = Ret (LeafNode \<lparr>leaf_header = empty_header, slots = [], leaf_buf = zeros 101\<rparr>)"
    by (simp add: node_parse_def header_parse_zeros) (simp add: empty_header_def)
  then show "read_ref demo_live_env r [] (root_ref 0) = Ret (Inr \<lparr>rn_node = Some (LeafNode \<lparr>leaf_header = empty_header, slots = [],
      leaf_buf = zeros 101\<rparr>), all_mirrors_failed = False, generation_mismatch = False, mirror_mismatch = False\<rparr>)"
    by (simp add: read_ref_def root_ref_def read_node_outcome [OF ok] st c node_outcome_def)
qed

lemma demo_roots_follow: "roots_follow demo_live_env demo_reconfirmer (\<lambda>_. None) [''d'' \<mapsto> demo_live_disk]"
proof -
  let ?r = "new_reader demo_live_disk 101 0 (Some demo_strategy)"
  have now: "reader_now [''d'' \<mapsto> demo_live_disk] demo_reconfirmer = ?r" "rc_chunk_map demo_reconfirmer = []"
    by (simp_all add: reader_now_def demo_reconfirmer_def new_reader_def)
  have "add64 0 0x10000 = 0x10000" by (simp add: add64_def)
  then have "read_one demo_hashes demo_live_disk (add64 0 (hd SUPERBLOCK_BACKUP_OFFSETS)) = Ret (Inr (superblock_fields demo_sb_block))"
    using demo_sb_good unfolding read_one_good by (auto simp: SUPERBLOCK_BACKUP_OFFSETS_def demo_live_disk_def)
  then have sb: "superblock_read demo_hashes demo_live_disk 0 = Ret (Inr (superblock_fields demo_sb_block))"
    by (simp add: superblock_read_def SUPERBLOCK_BACKUP_OFFSETS_def)
  have live: "live_superblock demo_live_env ?r = Ret (Some (superblock_fields demo_sb_block))"
    using sb by (simp add: live_superblock_def read_live_superblock_def reopen_def demo_live_env_def new_reader_def)
  have root: "sb_root (superblock_fields demo_sb_block) = 0"
    by (simp add: superblock_fields_def demo_sb_block_def field_after field_zeros length_magic)
  have t: "stored demo_live_env ?r [] None (root_ref 0) (TLeaf False 0 \<lparr>leaf_header = empty_header, slots = [], leaf_buf = zeros 101\<rparr>)"
    using st_leaf [OF demo_live_root(1)] by simp
  have "resolve_live_tree_roots demo_live_env ?r [] None (superblock_fields demo_sb_block) = Some (Ret (None, None))"
    by (simp add: resolve_live_tree_roots_def walk_leaves_def walk_leaves_impl_def root walk_loop_stored [OF t] live_visitor_def note_mirror_def)
  then show ?thesis by (simp add: roots_follow_def now live)
qed


end
