(* ===== verification/Scrub_Open.thy ===== *)
theory Scrub_Open
  imports Scrub_Driver
begin

text \<open>
  What opening a device establishes: the preconditions of the scrub's theorems, and that damage met on
  the way is never forgotten.
\<close>

subsection \<open>The opened filesystem\<close>

definition opened_reader :: "disk \<Rightarrow> nat \<Rightarrow> superblock \<Rightarrow> csum_strategy \<Rightarrow> fs_reader" where
  "opened_reader f base sb st =
     with_fsid (sb_fsid sb) (with_devid (sb_devid sb) (new_reader f (sb_node_size sb) base (Some st)))"

lemma opened_reader_simps [simp]:
  "fp (opened_reader f base sb st) = f" "node_size (opened_reader f base sb st) = sb_node_size sb"
  "base_offset (opened_reader f base sb st) = base" "rd_devid (opened_reader f base sb st) = Some (sb_devid sb)"
  "rd_strategy (opened_reader f base sb st) = Some st" "rd_fsid (opened_reader f base sb st) = Some (sb_fsid sb)"
  by (simp_all add: opened_reader_def with_fsid_def with_devid_def new_reader_def)

definition opened_ctx :: "nat \<Rightarrow> btrfs_context \<Rightarrow> bool" where
  "opened_ctx base ctx \<longleftrightarrow>
     (\<exists>f. ctx_reader ctx = opened_reader f base (ctx_superblock ctx) (ctx_strategy ctx)) \<and>
     from_superblock (ctx_superblock ctx) = Inr (ctx_strategy ctx) \<and> sb_num_devices (ctx_superblock ctx) = 1 \<and>
     validate_data_profiles (ctx_chunk_map ctx) = Inr ()"

lemma finish_open_ctx:
  "finish_open r cm sb st fr me = Inr ctx \<Longrightarrow>
     ctx_reader ctx = r \<and> ctx_chunk_map ctx = cm \<and> ctx_superblock ctx = sb \<and> ctx_strategy ctx = st \<and> ctx_errors ctx = me"
  by (auto simp: finish_open_def split: option.splits)

lemma walk_bind_Inr:
  "walk_bind m (\<lambda>((x, y), res). case res of Inl e \<Rightarrow> Some (Ret (Inl e)) | Inr u \<Rightarrow> g x y) = Some (Ret (Inr z)) \<longleftrightarrow>
     (\<exists>x y. m = Some (Ret ((x, y), Inr ())) \<and> g x y = Some (Ret (Inr z)))"
proof (rule omap_cases [of m])
  fix a assume m: "m = Some (Ret a)"
  obtain x y r where "a = ((x, y), r)" by (metis surj_pair)
  with m show ?thesis by (cases r) auto
qed auto

lemma load_trees_ctx:
  assumes "load_trees E f base sb st me sys = Some (Ret (Inr ctx))"
  shows "ctx_reader ctx = opened_reader f base sb st \<and> ctx_superblock ctx = sb \<and> ctx_strategy ctx = st \<and>
    validate_data_profiles (ctx_chunk_map ctx) = Inr ()"
proof -
  from assms obtain cm x where "(case validate_data_profiles cm of Inl bad \<Rightarrow> Some (Ret (Inl InvalidData)) | Inr u \<Rightarrow> x) = Some (Ret (Inr ctx))"
      "x = Some (Ret (Inr ctx)) \<Longrightarrow> \<exists>fr me2. finish_open (opened_reader f base sb st) cm sb st fr me2 = Inr ctx"
    unfolding load_trees_def Let_def walk_bind_Inr by (fastforce simp: opened_reader_def walk_bind_Inr)
  then show ?thesis by (cases "validate_data_profiles cm") (auto dest!: finish_open_ctx)
qed

lemma open_fs_ctx:
  assumes "open_fs E w dev base = Some (Ret (Inr ctx))"
  shows "opened_ctx base ctx"
proof -
  obtain f where f: "file_open w dev = Inr f" using assms by (cases "file_open w dev") (simp_all add: open_fs_def)
  obtain s where "superblock_read (env_hashes E) f base = Ret s"
    using assms by (cases "superblock_read (env_hashes E) f base") (simp_all add: open_fs_def f)
  then obtain sb where sb: "superblock_read (env_hashes E) f base = Ret (Inr sb)"
    using assms by (cases s) (simp_all add: open_fs_def f)
  have num: "sb_num_devices sb = 1" using assms by (rule_tac ccontr) (simp add: open_fs_def f sb)
  obtain prim where prim: "read_primary (env_hashes E) f base = Ret prim"
    using assms num by (cases "read_primary (env_hashes E) f base") (simp_all add: open_fs_def f sb)
  obtain st where st: "from_superblock sb = Inr st"
    using assms num by (cases "from_superblock sb") (simp_all add: open_fs_def f sb prim Let_def split: if_splits)
  obtain me sys where "load_trees E f base sb st me sys = Some (Ret (Inr ctx))"
    using assms num by (auto simp: open_fs_def f sb prim st Let_def walk_bind_Some split: if_splits)
  from load_trees_ctx [OF this] show ?thesis using st num by (auto simp: opened_ctx_def)
qed

lemma from_superblock_ok:
  "from_superblock sb = Inr st \<Longrightarrow> st_csum_type st < 4 \<and> 0 < st_sector_size st \<and> 0 < hash_len st"
  by (auto simp: from_superblock_def csum_params_def CRC32C_def XXHASH_def SHA256_def BLAKE2_def split: option.splits if_splits)

subsection \<open>Walking the dev tree\<close>

lemma extents_of_slots_devid:
  "extents_of_slots devid lf js out = Ret (out', res) \<Longrightarrow> \<forall>d \<in> set out. dx_devid d = devid \<Longrightarrow> d \<in> set out' \<Longrightarrow> dx_devid d = devid"
  by (induction devid lf js out rule: extents_of_slots.induct) (auto simp: Let_def run_bind_eq_Ret split: if_splits)

lemma walk_keeps:
  assumes "reader_ok r st" "walk_leaves E r cm root v s = Some (Ret (s', res))" "I s"
    and "\<And>lf l s s' res. I s \<Longrightarrow> on_leaf v lf l s = Ret (s', res) \<Longrightarrow> I s'"
    and "\<And>l s. I s \<Longrightarrow> I (on_metadata_error v l s)" "\<And>l s. I s \<Longrightarrow> I (on_stale v l s)"
    and "\<And>l s. I s \<Longrightarrow> I (on_mirror_mismatch v l s)" "\<And>l s. I s \<Longrightarrow> I (on_read_error v l s)"
  shows "I s'"
proof -
  obtain t where t: "stored E r cm None (root_ref root) t" using stored_exists [OF assms(1)] by blast
  have "and_then m (walk_loop E r cm None v []) = Some m" for m
    by (auto simp: and_then_def split: run.splits prod.splits sum.splits)
  then have "visit v t s = Ret (s', res)"
    using assms(2) by (simp add: walk_leaves_def walk_leaves_impl_def walk_loop_stored [OF t])
  from visit_keeps [of I v, OF assms(4-8) assms(3) this] show ?thesis .
qed

lemma build_dev_extents_keeps:
  assumes "reader_ok r st" "build_dev_extents E r cm root devid me = Some (Ret (me', dx))"
  shows "me_header me \<le> me_header me'" and "dx = Inr dexts \<Longrightarrow> \<forall>d \<in> set dexts. dx_devid d = devid"
proof -
  obtain out res where w: "walk_leaves E r cm root (extent_visitor devid) ([], me) = Some (Ret ((out, me'), res))"
      "dx = (case res of Inl e \<Rightarrow> Inl e | Inr u \<Rightarrow> Inr out)"
    using assms(2) by (auto simp: build_dev_extents_def run_bind_eq_Ret)
  let ?I = "\<lambda>(out, m). me_header me \<le> me_header m \<and> (\<forall>d \<in> set out. dx_devid d = devid)"
  have "?I (out, me')"
    by (rule walk_keeps [OF assms(1) w(1)]; (simp; fail)?)
      (auto simp: extent_visitor_def run_bind_eq_Ret dest: extents_of_slots_devid)
  then show "me_header me \<le> me_header me'" "dx = Inr dexts \<Longrightarrow> \<forall>d \<in> set dexts. dx_devid d = devid"
    using w(2) by (auto split: sum.splits)
qed

subsection \<open>The scrub an opened device gives\<close>

lemma btrfs_open_cases:
  assumes "btrfs_open E w dev base = Some (Ret (Inr s))"
  obtains ctx f where "open_fs E w dev base = Some (Ret (Inr ctx))" "reopen E (ctx_reader ctx) = Inr f"
    and "bs_reader s = ctx_reader ctx" "bs_chunk_map s = ctx_chunk_map ctx" "bs_strategy s = ctx_strategy ctx"
    and "bs_superblock s = ctx_superblock ctx"
    and "bs_csum_provider s = new_provider f (sb_node_size (ctx_superblock ctx)) (base_offset (ctx_reader ctx)) (ctx_strategy ctx)
      (sb_devid (ctx_superblock ctx)) (sb_fsid (ctx_superblock ctx)) (ctx_chunk_map ctx) (csum_root (ctx_roots ctx))"
    and "dev_tree_root (ctx_roots ctx) = None \<Longrightarrow> bs_dev_extents s = [] \<and> me_header (bs_errors s) = me_header (ctx_errors ctx) + 1"
    and "\<And>root. dev_tree_root (ctx_roots ctx) = Some root \<Longrightarrow>
      build_dev_extents E (ctx_reader ctx) (ctx_chunk_map ctx) root (sb_devid (ctx_superblock ctx)) (ctx_errors ctx) =
        Some (Ret (bs_errors s, Inr (bs_dev_extents s)))"
proof -
  obtain res where "open_fs E w dev base = Some (Ret res)"
    using assms by (auto simp: btrfs_open_def walk_bind_Some)
  then obtain ctx where ctx: "open_fs E w dev base = Some (Ret (Inr ctx))"
    using assms by (cases res) (simp_all add: btrfs_open_def)
  obtain f where f: "reopen E (ctx_reader ctx) = Inr f"
    using assms by (cases "reopen E (ctx_reader ctx)") (simp_all add: btrfs_open_def ctx Let_def)
  show thesis
  proof (cases "dev_tree_root (ctx_roots ctx)")
    case None
    then show thesis using assms by (intro that [OF ctx f]) (auto simp: btrfs_open_def ctx f Let_def)
  next
    case (Some root)
    then obtain me dx where b: "build_dev_extents E (ctx_reader ctx) (ctx_chunk_map ctx) root (sb_devid (ctx_superblock ctx)) (ctx_errors ctx) =
        Some (Ret (me, dx))"
      using assms by (auto simp: btrfs_open_def ctx f Let_def walk_bind_Some)
    then obtain dexts where "dx = Inr dexts"
      using assms Some by (cases dx) (simp_all add: btrfs_open_def ctx f Let_def)
    then show thesis using assms Some b by (intro that [OF ctx f]) (auto simp: btrfs_open_def ctx f Let_def)
  qed
qed

subsection \<open>Damage is remembered\<close>

lemma open_damage_counted:
  assumes "btrfs_open E w dev base = Some (Ret (Inr s))" "open_fs E w dev base = Some (Ret (Inr ctx))"
    and "HEADER_SIZE \<le> sb_node_size (ctx_superblock ctx)" "dev_tree_root (ctx_roots ctx) = None \<or> 0 < me_header (ctx_errors ctx)"
  shows "0 < me_header (bs_errors s)"
proof (rule btrfs_open_cases [OF assms(1)])
  fix c f
  assume c: "open_fs E w dev base = Some (Ret (Inr c))"
    and none: "dev_tree_root (ctx_roots c) = None \<Longrightarrow> bs_dev_extents s = [] \<and> me_header (bs_errors s) = me_header (ctx_errors c) + 1"
    and some: "\<And>root. dev_tree_root (ctx_roots c) = Some root \<Longrightarrow>
      build_dev_extents E (ctx_reader c) (ctx_chunk_map c) root (sb_devid (ctx_superblock c)) (ctx_errors c) =
        Some (Ret (bs_errors s, Inr (bs_dev_extents s)))"
  have [simp]: "c = ctx" using c assms(2) by simp
  obtain g where "ctx_reader ctx = opened_reader g base (ctx_superblock ctx) (ctx_strategy ctx)"
    using open_fs_ctx [OF assms(2)] by (auto simp: opened_ctx_def)
  then have rd: "reader_ok (ctx_reader ctx) (ctx_strategy ctx)" using assms(3) by (simp add: reader_ok_def)
  show ?thesis
  proof (cases "dev_tree_root (ctx_roots ctx)")
    case (Some root)
    then show ?thesis using build_dev_extents_keeps(1) [OF rd some [unfolded \<open>c = ctx\<close>]] assms(4) by fastforce
  qed (use none in simp)
qed

lemma csum_range_inv:
  assumes "reader_ok (pv_reader p) st" "csum_range E p lo hi c = Some (Ret (p', c', es))" "provider_inv p"
  shows "provider_inv p' \<and> reader_ok (pv_reader p') st"
proof -
  let ?v = "csum_visitor (hash_len (pv_strategy p)) (st_sector_size (pv_strategy p)) lo hi"
  obtain t where t: "stored E (pv_reader p) (pv_chunk_map p) (Some (range_bounds p lo hi)) (root_ref (pv_csum_root p)) t"
    using stored_exists [OF assms(1)] by blast
  have "and_then m (walk_loop E (pv_reader p) (pv_chunk_map p) b ?v []) = Some m" for m b
    by (auto simp: and_then_def split: run.splits prod.splits sum.splits)
  then obtain es' res where "visit ?v t (p, c, []) = Ret ((p', c', es'), res)"
    using assms(2)
    by (auto simp: csum_range_def walk_leaves_range_def walk_leaves_impl_def walk_loop_stored [OF t] run_bind_eq_Ret split: if_splits)
  from visit_csum_inv [OF this] assms(1,3) show ?thesis by (simp add: same_source_def)
qed

lemma extent_csums_inv:
  "extent_csums cx dext p a = Some (Ret (p', a', es)) \<Longrightarrow> reader_ok (pv_reader p) st \<Longrightarrow> provider_inv p \<Longrightarrow>
    provider_inv p' \<and> reader_ok (pv_reader p') st"
  by (auto simp: extent_csums_def walk_bind_Some dest: csum_range_inv)

lemma scrub_extents_inv:
  "scrub_extents cx fate f dexts p pp = Some (Ret (p', pp')) \<Longrightarrow> reader_ok (pv_reader p) st \<Longrightarrow> provider_inv p \<Longrightarrow> provider_inv p'"
proof (induction dexts arbitrary: p pp)
  case (Cons dext rest)
  then show ?case by (auto simp: walk_bind_Some split: if_splits dest: extent_csums_inv)
qed simp

lemma inline_extents_inv:
  "inline_extents cx dexts p a = Some (Ret (p', a')) \<Longrightarrow> reader_ok (pv_reader p) st \<Longrightarrow> provider_inv p \<Longrightarrow> provider_inv p'"
proof (induction dexts arbitrary: p a)
  case (Cons dext rest)
  then show ?case by (auto simp: walk_bind_Some split: if_splits dest: extent_csums_inv)
qed simp

lemma scrub_dev_tree_inv:
  assumes "scrub_dev_tree cx fate p dexts c = Some (Ret (p', a, res))" "reader_ok (pv_reader p) st" "provider_inv p"
  shows "provider_inv p'"
proof (cases "dup_handle cx fate")
  case (Inl e)
  then show ?thesis using assms
    by (auto simp: scrub_dev_tree_def scrub_dev_tree_inline_def walk_bind_Some intro: inline_extents_inv)
next
  case (Inr f)
  then show ?thesis using assms
    by (auto simp: scrub_dev_tree_def walk_bind_Some Let_def split: if_splits intro: scrub_extents_inv)
qed

lemma run_header_errors:
  assumes "btrfs_run E budget fate raw s = Some (Ret (s', evs, Inr stats))" "reader_ok (pv_reader (bs_csum_provider s)) st"
    and "provider_inv (bs_csum_provider s)"
  shows "metadata_header_errors stats = me_header (bs_errors s) + card (reported_header (bs_csum_provider s'))"
    and "finite (reported_header (bs_csum_provider s'))"
proof -
  obtain p a res where r: "scrub_dev_tree (scrub_context E budget raw s) fate (bs_csum_provider s) (bs_dev_extents s) (bs_status s) =
      Some (Ret (p, a, res))"
    using assms(1) by (auto simp: btrfs_run_def walk_bind_Some)
  have inv: "provider_inv p" by (rule scrub_dev_tree_inv [OF r assms(2,3)])
  have "bs_csum_provider s' = p" using assms(1) by (auto simp: btrfs_run_def r Let_def)
  moreover obtain local where "stats = total_stats local (bs_errors s) p"
    using assms(1) by (cases res) (auto simp: btrfs_run_def r Let_def)
  ultimately show "metadata_header_errors stats = me_header (bs_errors s) + card (reported_header (bs_csum_provider s'))"
      "finite (reported_header (bs_csum_provider s'))"
    using inv by (simp_all add: total_stats_def provider_inv_def)
qed

subsection \<open>Properties\<close>

lemma opened_scrub_props:
  assumes "btrfs_open E w dev base = Some (Ret (Inr s))" "HEADER_SIZE \<le> sb_node_size (bs_superblock s)"
  shows "reader_ok (bs_reader s) (bs_strategy s)" "reader_ok (pv_reader (bs_csum_provider s)) (bs_strategy s)"
    "provider_inv (bs_csum_provider s)"
proof -
  obtain ctx f where ctx: "open_fs E w dev base = Some (Ret (Inr ctx))"
    and eqs: "bs_reader s = ctx_reader ctx" "bs_strategy s = ctx_strategy ctx" "bs_superblock s = ctx_superblock ctx"
      "bs_csum_provider s = new_provider f (sb_node_size (ctx_superblock ctx)) (base_offset (ctx_reader ctx)) (ctx_strategy ctx)
        (sb_devid (ctx_superblock ctx)) (sb_fsid (ctx_superblock ctx)) (ctx_chunk_map ctx) (csum_root (ctx_roots ctx))"
    by (rule btrfs_open_cases [OF assms(1)]) blast
  obtain g where g: "ctx_reader ctx = opened_reader g base (ctx_superblock ctx) (ctx_strategy ctx)"
    using open_fs_ctx [OF ctx] by (auto simp: opened_ctx_def)
  show "reader_ok (bs_reader s) (bs_strategy s)" "reader_ok (pv_reader (bs_csum_provider s)) (bs_strategy s)"
      "provider_inv (bs_csum_provider s)"
    using assms(2) by (simp_all add: eqs g reader_ok_def new_provider_inv)
      (simp add: new_provider_def with_fsid_def with_devid_def new_reader_def)
qed

text \<open>C31: Opening a device yields a scrub that meets the preconditions of the scrub engine: one device, chunks whose data
  profiles can be mapped linearly, a known checksum type with a positive sector size, readers that carry
  the strategy and the device id of the superblock, a fresh checksum provider with empty error books, and only
  extents of this device.\<close>

theorem opened_scrub_well_formed:
  fixes s :: btrfs_scrub
  assumes "btrfs_open E w dev base = Some (Ret (Inr s))" "HEADER_SIZE \<le> sb_node_size (bs_superblock s)"
  defines "devid \<equiv> sb_devid (bs_superblock s)" and "p \<equiv> bs_csum_provider s"
  shows "batch_ctx (scrub_context E budget True s) \<and> 0 < hash_len (bs_strategy s) \<and>
    reader_ok (bs_reader s) (bs_strategy s) \<and> reader_ok (pv_reader p) (bs_strategy s) \<and>
    rd_devid (bs_reader s) = Some devid \<and> rd_devid (pv_reader p) = Some devid \<and>
    base_offset (bs_reader s) = base \<and> base_offset (pv_reader p) = base \<and>
    provider_inv p \<and> pv_metadata_errors p = 0 \<and> pv_strategy p = bs_strategy s \<and> pv_chunk_map p = bs_chunk_map s \<and>
    sb_num_devices (bs_superblock s) = 1 \<and> validate_data_profiles (bs_chunk_map s) = Inr () \<and>
    (\<forall>d \<in> set (bs_dev_extents s). dx_devid d = devid)"
proof (rule btrfs_open_cases [OF assms(1)])
  fix ctx f
  assume ctx: "open_fs E w dev base = Some (Ret (Inr ctx))"
    and eqs: "bs_reader s = ctx_reader ctx" "bs_chunk_map s = ctx_chunk_map ctx" "bs_strategy s = ctx_strategy ctx"
      "bs_superblock s = ctx_superblock ctx"
      "bs_csum_provider s = new_provider f (sb_node_size (ctx_superblock ctx)) (base_offset (ctx_reader ctx)) (ctx_strategy ctx)
        (sb_devid (ctx_superblock ctx)) (sb_fsid (ctx_superblock ctx)) (ctx_chunk_map ctx) (csum_root (ctx_roots ctx))"
    and none: "dev_tree_root (ctx_roots ctx) = None \<Longrightarrow> bs_dev_extents s = [] \<and> me_header (bs_errors s) = me_header (ctx_errors ctx) + 1"
    and some: "\<And>root. dev_tree_root (ctx_roots ctx) = Some root \<Longrightarrow>
      build_dev_extents E (ctx_reader ctx) (ctx_chunk_map ctx) root (sb_devid (ctx_superblock ctx)) (ctx_errors ctx) =
        Some (Ret (bs_errors s, Inr (bs_dev_extents s)))"
  obtain g where g: "ctx_reader ctx = opened_reader g base (ctx_superblock ctx) (ctx_strategy ctx)"
      "from_superblock (ctx_superblock ctx) = Inr (ctx_strategy ctx)" "sb_num_devices (ctx_superblock ctx) = 1"
      "validate_data_profiles (ctx_chunk_map ctx) = Inr ()"
    using open_fs_ctx [OF ctx] by (auto simp: opened_ctx_def)
  have rd: "reader_ok (ctx_reader ctx) (ctx_strategy ctx)"
    using assms(2) eqs(4) by (simp add: g(1) reader_ok_def)
  have "\<forall>d \<in> set (bs_dev_extents s). dx_devid d = devid"
    using none some build_dev_extents_keeps(2) [OF rd some refl] by (cases "dev_tree_root (ctx_roots ctx)") (auto simp: devid_def eqs(4))
  moreover have "pv_reader p = opened_reader f base (ctx_superblock ctx) (ctx_strategy ctx)" "pv_metadata_errors p = 0"
      "pv_strategy p = ctx_strategy ctx" "pv_chunk_map p = ctx_chunk_map ctx" "provider_inv p"
    by (simp_all add: p_def eqs(5) g(1) new_provider_inv) (simp_all add: new_provider_def opened_reader_def)
  ultimately show ?thesis
    using rd from_superblock_ok [OF g(2)] g assms(2)
    by (simp add: eqs(1-4) batch_ctx_def scrub_context_def devid_def reader_ok_def)
qed

text \<open>
  A device under a constant checksum whose chunk and root tree are the same leaf at address 0: root items for the
  filesystem and the checksum tree, and no dev tree.
\<close>

definition demo_root_slots :: "leaf_item_slot list" where
  "demo_root_slots = [\<lparr>slot_key = Key FS_TREE ROOT_ITEM 0, data_offset = 50, data_size = 239\<rparr>,
     \<lparr>slot_key = Key CSUM_TREE ROOT_ITEM 0, data_offset = 50, data_size = 239\<rparr>]"

definition demo_root_header :: header where
  "demo_root_header = empty_header\<lparr>h_nritems := 2\<rparr>"

definition demo_root_buf :: bytes where
  "demo_root_buf = enc_header (zeros 32) demo_root_header @ concat (map enc_slot demo_root_slots) @ zeros 239"

definition demo_root_leaf :: leaf where
  "demo_root_leaf = \<lparr>leaf_header = demo_root_header, slots = demo_root_slots, leaf_buf = demo_root_buf\<rparr>"

definition demo_open_sb :: bytes where
  "demo_open_sb = zeros 64 @ BTRFS_MAGIC @ zeros 64 @ le_bytes 8 1 @ le_bytes 4 4096 @ le_bytes 4 390 @ zeros 3944"

definition demo_open_disk :: disk where
  "demo_open_disk = plain_disk (demo_root_buf @ zeros 65146 @ demo_open_sb)"

lemma demo_root_buf_props:
  "length demo_root_buf = 390" "take 4 demo_root_buf = zeros 4" "header_parse demo_root_buf = Ret demo_root_header"
  "node_parse demo_root_buf = Ret (LeafNode demo_root_leaf)"
  "item_data demo_root_leaf 0 = Ret (zeros 239)" "item_data demo_root_leaf (Suc 0) = Ret (zeros 239)"
proof -
  have ok: "header_ok demo_root_header" by (simp add: header_ok_def demo_root_header_def empty_header_def)
  have hl: "length (enc_header (zeros 32) demo_root_header) = 101"
    using length_enc_header [OF ok, of "zeros 32"] by (simp add: HEADER_SIZE_def)
  have sl: "length (enc_slot x) = 25" for x by (rule enc_slot_length)
  show "length demo_root_buf = 390" by (simp add: demo_root_buf_def hl demo_root_slots_def sl)
  show "take 4 demo_root_buf = zeros 4" by (simp add: demo_root_buf_def enc_header_def zeros_def)
  show h: "header_parse demo_root_buf = Ret demo_root_header"
    unfolding demo_root_buf_def by (rule header_parse_enc [OF ok]) simp
  have sok: "\<forall>x \<in> set demo_root_slots. slot_ok x"
    by (simp add: slot_ok_def demo_root_slots_def key_ok_def FS_TREE_def CSUM_TREE_def ROOT_ITEM_def)
  have "length demo_root_slots = 2" by (simp add: demo_root_slots_def)
  then have "parse_array slot_parse 25 demo_root_buf 101 2 = Ret demo_root_slots"
    unfolding demo_root_buf_def
    by (intro parse_array_enc [of slot_ok slot_parse enc_slot 25 demo_root_slots 2 101])
      (simp_all add: slot_parse_enc sok hl enc_slot_length)
  then show "node_parse demo_root_buf = Ret (LeafNode demo_root_leaf)"
    by (simp add: node_parse_def h demo_root_leaf_def HEADER_SIZE_def LEAF_ITEM_SIZE_def) (simp add: demo_root_header_def empty_header_def)
  have "drop 151 demo_root_buf = zeros 239"
    by (simp add: demo_root_buf_def hl demo_root_slots_def sl)
  then show "item_data demo_root_leaf 0 = Ret (zeros 239)" "item_data demo_root_leaf (Suc 0) = Ret (zeros 239)"
    using \<open>length demo_root_buf = 390\<close>
    by (simp_all add: item_data_def demo_root_leaf_def slice_def HEADER_SIZE_def demo_root_slots_def zeros_def)
qed

lemma field_inside: "pos + n \<le> length xs \<Longrightarrow> field (xs @ ys) pos n = field xs pos n"
  by (simp add: field_def)

lemma field_le_bytes: "n < 256 ^ k \<Longrightarrow> field (le_bytes k n) 0 k = n"
  by (simp add: field_def le_nat_le_bytes del: le_bytes.simps)

lemma demo_open_sb_props:
  "length demo_open_sb = 4096" "take 4 demo_open_sb = zeros 4" "take 8 (drop 64 demo_open_sb) = BTRFS_MAGIC"
  "field demo_open_sb 80 8 = 0" "field demo_open_sb 88 8 = 0" "field demo_open_sb 112 8 = 0" "field demo_open_sb 136 8 = 1"
  "field demo_open_sb 144 4 = 4096" "field demo_open_sb 148 4 = 390" "field demo_open_sb 160 4 = 0"
  "field demo_open_sb 196 2 = 0" "take 16 (drop 32 demo_open_sb) = zeros 16"
proof -
  show "length demo_open_sb = 4096" "take 4 demo_open_sb = zeros 4" "take 8 (drop 64 demo_open_sb) = BTRFS_MAGIC"
      "take 16 (drop 32 demo_open_sb) = zeros 16"
    by (simp_all add: demo_open_sb_def length_magic zeros_def del: le_bytes.simps)
  show "field demo_open_sb 80 8 = 0" "field demo_open_sb 88 8 = 0" "field demo_open_sb 112 8 = 0" "field demo_open_sb 160 4 = 0"
      "field demo_open_sb 196 2 = 0"
    by (simp_all add: demo_open_sb_def field_after field_inside length_magic field_zeros del: le_bytes.simps)
  show "field demo_open_sb 136 8 = 1" "field demo_open_sb 144 4 = 4096" "field demo_open_sb 148 4 = 390"
    by (simp_all add: demo_open_sb_def field_after field_inside length_magic field_le_bytes del: le_bytes.simps)
qed

definition demo_open_superblock :: superblock where
  "demo_open_superblock = superblock_fields demo_open_sb"

lemma demo_open_superblock_fields:
  "sb_num_devices demo_open_superblock = 1" "sb_total_bytes demo_open_superblock = 0" "sb_chunk_root demo_open_superblock = 0"
  "sb_root demo_open_superblock = 0" "sb_node_size demo_open_superblock = 390" "sb_fsid demo_open_superblock = zeros 16"
  "sb_sys_chunks demo_open_superblock = []"
  "from_superblock demo_open_superblock = Inr (demo_strategy)"
  by (simp_all add: demo_open_superblock_def superblock_fields_def demo_open_sb_props from_superblock_def csum_params_def CRC32C_def
      demo_strategy_def)

lemma demo_open_primary: "read_one demo_hashes demo_open_disk 0x10000 = Ret (Inr demo_open_superblock)"
proof -
  have z: "le_bytes k 0 = zeros k" for k by (induction k) (simp_all add: zeros_def)
  have "good_copy demo_hashes demo_open_disk 0x10000 demo_open_sb"
    by (simp add: good_copy_def read_at_def read_exact_at_def demo_open_disk_def plain_disk_def demo_root_buf_props demo_open_sb_props
        has_magic_at_def OFF_MAGIC_def length_magic verify_header_def csum_params_def hash_bytes_def CRC32C_def demo_hashes_def z del: le_bytes.simps)
  then show ?thesis unfolding read_one_good demo_open_superblock_def by blast
qed

lemma demo_open_root:
  fixes r :: fs_reader
  defines "r \<equiv> opened_reader demo_open_disk 0 demo_open_superblock demo_strategy"
  shows "read_ref demo_live_env r [] (root_ref 0) = Ret (Inr \<lparr>rn_node = Some (LeafNode demo_root_leaf), all_mirrors_failed = False,
      generation_mismatch = False, mirror_mismatch = False\<rparr>)"
    and "reader_ok r demo_strategy"
proof -
  have rd: "fp r = demo_open_disk" "node_size r = 390" "base_offset r = 0" "rd_fsid r = Some (zeros 16)" "rd_strategy r = Some demo_strategy"
    by (simp_all add: r_def demo_open_superblock_fields)
  show ok: "reader_ok r demo_strategy" by (simp add: reader_ok_def rd HEADER_SIZE_def)
  have pr: "pread_at (env_fault demo_live_env) (fp r) 0 390 = Inr demo_root_buf"
    by (simp add: pread_at_def demo_live_env_def rd demo_open_disk_def plain_disk_def read_exact_at_def demo_root_buf_props)
  have "le_bytes k 0 = zeros k" for k by (induction k) (simp_all add: zeros_def)
  then have ver: "verify_node_header (env_hashes demo_live_env) demo_strategy demo_root_buf = Ret True"
    by (simp add: verify_node_header_def verify_header_def csum_params_def hash_bytes_def demo_strategy_def demo_live_env_def
        demo_hashes_def CRC32C_def demo_root_buf_props del: le_bytes.simps)
  have c: "copy_at demo_live_env r demo_strategy 0 (GEN_DONT_CHECK, None, None) 0 = GoodCopy demo_root_buf"
    using pr ver by (simp add: copy_at_def rd add64_def demo_root_buf_props validate_header_def) (simp add: demo_root_header_def empty_header_def)
  have st: "node_stripes [] 0 = [(0, 0)]"
    by (simp add: node_stripes_def lookup_stripes_def chunk_find_def binary_search_by_def)
  show "read_ref demo_live_env r [] (root_ref 0) = Ret (Inr \<lparr>rn_node = Some (LeafNode demo_root_leaf), all_mirrors_failed = False,
      generation_mismatch = False, mirror_mismatch = False\<rparr>)"
    by (simp add: read_ref_def root_ref_def read_node_outcome [OF ok] st c node_outcome_def demo_root_buf_props)
qed

lemma demo_open_walk:
  fixes me :: meta_errors
  defines "r \<equiv> opened_reader demo_open_disk 0 demo_open_superblock demo_strategy"
  shows "walk_leaves demo_live_env r [] 0 (collecting chunks_of_slots) ([], me) = Some (Ret (([], me), Inr ()))"
    and "walk_leaves demo_live_env r [] 0 (collecting roots_of_slots) (no_roots, me) =
      Some (Ret ((no_roots\<lparr>found_fs := Some 0, found_csum := Some 0\<rparr>, me), Inr ()))"
proof -
  have t: "stored demo_live_env r [] None (root_ref 0) (TLeaf False 0 demo_root_leaf)"
    using st_leaf [OF demo_open_root(1)] by (simp add: r_def)
  have idx: "[0..<length (slots demo_root_leaf)] = [0, Suc 0]" by (simp add: demo_root_leaf_def demo_root_slots_def)
  have keys: "slot_key (slots demo_root_leaf ! 0) = Key FS_TREE ROOT_ITEM 0" "slot_key (slots demo_root_leaf ! Suc 0) = Key CSUM_TREE ROOT_ITEM 0"
    by (simp_all add: demo_root_leaf_def demo_root_slots_def)
  have "byte_at (zeros 239) 238 = Ret 0" by (simp add: byte_at_def zeros_def)
  then have item: "root_item_parse (zeros 239) = Ret \<lparr>ri_bytenr = 0, ri_level = 0\<rparr>"
    by (simp add: root_item_parse_def le_u64_def zeros_parts)
  show "walk_leaves demo_live_env r [] 0 (collecting chunks_of_slots) ([], me) = Some (Ret (([], me), Inr ()))"
    by (simp add: walk_leaves_def walk_leaves_impl_def walk_loop_stored [OF t] collecting_def note_mirror_def idx keys
        ROOT_ITEM_def CHUNK_ITEM_def del: upt_Suc)
  show "walk_leaves demo_live_env r [] 0 (collecting roots_of_slots) (no_roots, me) =
      Some (Ret ((no_roots\<lparr>found_fs := Some 0, found_csum := Some 0\<rparr>, me), Inr ()))"
    by (simp add: walk_leaves_def walk_leaves_impl_def walk_loop_stored [OF t] collecting_def note_mirror_def idx keys
        demo_root_buf_props item note_root_def FS_TREE_def CSUM_TREE_def del: upt_Suc)
qed

lemma demo_open_fs:
  "\<exists>ctx. open_fs demo_live_env [''d'' \<mapsto> demo_open_disk] ''d'' 0 = Some (Ret (Inr ctx)) \<and> dev_tree_root (ctx_roots ctx) = None \<and>
    ctx_superblock ctx = demo_open_superblock"
proof -
  have E: "env_hashes demo_live_env = demo_hashes" by (simp add: demo_live_env_def)
  have f: "file_open [''d'' \<mapsto> demo_open_disk] ''d'' = Inr demo_open_disk"
    by (simp add: file_open_def demo_open_disk_def plain_disk_def)
  have prim: "read_primary demo_hashes demo_open_disk 0 = Ret (Inr demo_open_superblock)"
    using demo_open_primary by (simp add: read_primary_def SUPERBLOCK_BACKUP_OFFSETS_def add64_def)
  have sb: "superblock_read demo_hashes demo_open_disk 0 = Ret (Inr demo_open_superblock)"
    using demo_open_primary by (simp add: superblock_read_def SUPERBLOCK_BACKUP_OFFSETS_def add64_def)
  have sys: "parse_sys_chunks [] = Ret []" by (simp add: parse_sys_chunks_def parse_sys_loop.simps)
  have load: "load_trees demo_live_env demo_open_disk 0 demo_open_superblock demo_strategy me [] =
      Some (Ret (finish_open (opened_reader demo_open_disk 0 demo_open_superblock demo_strategy) [] demo_open_superblock demo_strategy
        (no_roots\<lparr>found_fs := Some 0, found_csum := Some 0\<rparr>) me))" for me
    unfolding load_trees_def Let_def opened_reader_def [symmetric] by (simp add: demo_open_superblock_fields(3,4) demo_open_walk)
  show ?thesis
    by (simp add: open_fs_def E f sb prim demo_open_superblock_fields sys add64_def Let_def load) (simp add: finish_open_def no_roots_def)
qed

lemma demo_btrfs_open:
  "\<exists>s. btrfs_open demo_live_env [''d'' \<mapsto> demo_open_disk] ''d'' 0 = Some (Ret (Inr s)) \<and> bs_superblock s = demo_open_superblock \<and>
    bs_dev_extents s = []"
  using demo_open_fs by (auto simp: btrfs_open_def Let_def reopen_def demo_live_env_def)

theorem opened_scrub_well_formed_witness:
  "\<exists>s. btrfs_open demo_live_env [''d'' \<mapsto> demo_open_disk] ''d'' 0 = Some (Ret (Inr s)) \<and>
    batch_ctx (scrub_context demo_live_env 64 True s) \<and> reader_ok (bs_reader s) (bs_strategy s)"
proof -
  obtain s where s: "btrfs_open demo_live_env [''d'' \<mapsto> demo_open_disk] ''d'' 0 = Some (Ret (Inr s))" "bs_superblock s = demo_open_superblock"
    using demo_btrfs_open by blast
  have "HEADER_SIZE \<le> sb_node_size (bs_superblock s)" by (simp add: s(2) demo_open_superblock_fields HEADER_SIZE_def)
  from opened_scrub_well_formed [OF s(1) this, of 64] s(1) show ?thesis by blast
qed

end
