(* ===== verification/Live_Lookup.thy ===== *)
theory Live_Lookup
  imports Btrfs_Open
begin

text \<open>
  The live checksum lookup of \<open>src/scrub-rs/src/btrfs/extent.rs\<close> against a reference: descending by
  binary search from the root finds the checksum that a scan of the whole tree would.
\<close>

subsection \<open>Binary search for a partition point\<close>

definition downward :: "('a \<Rightarrow> bool) \<Rightarrow> 'a list \<Rightarrow> bool" where
  "downward P xs \<longleftrightarrow> (\<forall>i j. i < j \<longrightarrow> j < length xs \<longrightarrow> P (xs ! j) \<longrightarrow> P (xs ! i))"

lemma downwardD: "downward P xs \<Longrightarrow> P (xs ! j) \<Longrightarrow> i \<le> j \<Longrightarrow> j < length xs \<Longrightarrow> P (xs ! i)"
  unfolding downward_def by (metis order_le_less)

lemma bs_loop_partition:
  fixes P :: "'a \<Rightarrow> bool"
  defines "cmp \<equiv> \<lambda>x. if P x then Less else Greater"
  assumes "downward P xs"
  shows "0 < sz \<Longrightarrow> base + sz \<le> length xs \<Longrightarrow> \<forall>k. base + sz \<le> k \<longrightarrow> k < length xs \<longrightarrow> \<not> P (xs ! k) \<Longrightarrow>
    base = 0 \<or> P (xs ! base) \<Longrightarrow>
    (\<forall>k. bs_loop cmp xs base sz < k \<longrightarrow> k < length xs \<longrightarrow> \<not> P (xs ! k)) \<and>
    (bs_loop cmp xs base sz = 0 \<or> P (xs ! bs_loop cmp xs base sz))"
proof (induction sz arbitrary: base rule: less_induct)
  case (less sz)
  show ?case
  proof (cases "1 < sz")
    case True
    define mid where "mid = base + sz div 2"
    have half: "0 < sz div 2" "sz div 2 \<le> sz - sz div 2" "sz - sz div 2 < sz" using True by auto
    have mid: "mid < length xs" using less.prems True by (simp add: mid_def)
    have bs: "bs_loop cmp xs base sz = bs_loop cmp xs (if P (xs ! mid) then mid else base) (sz - sz div 2)"
      using True by (subst bs_loop.simps) (simp add: Let_def mid_def cmp_def)
    have up: "\<not> P (xs ! k)" if "\<not> P (xs ! mid)" "mid \<le> k" "k < length xs" for k
      using downwardD [OF assms(2), of k mid] that by blast
    show ?thesis
    proof (cases "P (xs ! mid)")
      case True
      have "mid + (sz - sz div 2) = base + sz" "0 < sz - sz div 2" using half by (simp_all add: mid_def)
      then show ?thesis using less.IH [OF half(3), of mid] less.prems(2,3) True unfolding bs by simp
    next
      case False
      have "\<forall>k. base + (sz - sz div 2) \<le> k \<longrightarrow> k < length xs \<longrightarrow> \<not> P (xs ! k)"
        using up [OF False] half(2) by (auto simp: mid_def)
      moreover have "base + (sz - sz div 2) \<le> length xs" "0 < sz - sz div 2" using less.prems(2) half by simp_all
      ultimately show ?thesis using less.IH [OF half(3), of base] less.prems(4) False unfolding bs by simp
    qed
  next
    case False
    then have "bs_loop cmp xs base sz = base" by (simp add: bs_loop.simps)
    then show ?thesis using less.prems False by simp
  qed
qed

lemma partition_point_takeWhile:
  assumes "downward P xs"
  shows "partition_point P xs = length (takeWhile P xs)"
proof (cases "xs = []")
  case False
  let ?i = "bs_loop (\<lambda>x. if P x then Less else Greater) xs 0 (length xs)"
  let ?n = "?i + (if P (xs ! ?i) then 1 else 0)"
  have i: "?i < length xs" using bs_loop_range [of "length xs" 0 "\<lambda>x. if P x then Less else Greater" xs] False by simp
  have b: "\<forall>k. ?i < k \<longrightarrow> k < length xs \<longrightarrow> \<not> P (xs ! k)" "?i = 0 \<or> P (xs ! ?i)"
    using bs_loop_partition [OF assms, of "length xs" 0] False by simp_all
  have "P (xs ! k)" if "k < ?n" for k
  proof (cases "P (xs ! ?i)")
    case True
    then show ?thesis using that i downwardD [OF assms True, of k] by simp
  qed (use that b(2) in auto)
  moreover have "\<not> P (xs ! ?n)" if "?n < length xs"
    using that b(1) by (cases "P (xs ! ?i)") simp_all
  ultimately have "takeWhile P xs = take ?n xs" by (intro takeWhile_eq_take_P_nth) blast+
  then show ?thesis using i False by (simp add: partition_point_def Let_def)
qed (simp add: partition_point_def)

lemma downward_sorted: "sorted_wrt (<) (map f xs) \<Longrightarrow> downward (\<lambda>x. f x \<le> (k :: 'k :: linorder)) xs"
  unfolding downward_def by (fastforce simp: sorted_wrt_iff_nth_less)

subsection \<open>The tree the lookups see\<close>

text \<open>The nodes a descent reads, without expectations of generation, level or owner.\<close>

fun seen :: "env \<Rightarrow> fs_reader \<Rightarrow> chunk_map \<Rightarrow> nat \<Rightarrow> btree \<Rightarrow> bool" where
  "seen E r cm l (TLeaf mm l' lf) \<longleftrightarrow> descend_node E r cm l = Ret (Some (LeafNode lf))"
| "seen E r cm l (TNode mm l' n ts) \<longleftrightarrow>
     descend_node E r cm l = Ret (Some (InternalNode n)) \<and> list_all2 (\<lambda>p t. seen E r cm (blockptr p) t) (ptrs n) ts"
| "seen E r cm l t \<longleftrightarrow> False"

fun tree_height :: "btree \<Rightarrow> nat" where
  "tree_height (TNode mm l n ts) = Suc (Max (insert 0 (set (map tree_height ts))))"
| "tree_height t = 1"

text \<open>A search tree as btrfs keeps it: keys ascend, and a pointer's key is the first key below it.\<close>

fun search_tree :: "btree \<Rightarrow> bool" where
  "search_tree (TLeaf mm l lf) \<longleftrightarrow> sorted_wrt (<) (map slot_key (slots lf))"
| "search_tree (TNode mm l n ts) \<longleftrightarrow>
     list_all search_tree ts \<and> sorted_wrt (<) (map kp_key (ptrs n)) \<and>
     list_all2 (\<lambda>p t. tree_items t \<noteq> [] \<and> item_key (hd (tree_items t)) = kp_key p \<and>
       (\<forall>it \<in> set (tree_items t). kp_key p \<le> item_key it)) (ptrs n) ts"
| "search_tree t \<longleftrightarrow> False"

text \<open>The last item at or below a key, and what the lookup makes of it.\<close>

definition last_below :: "key \<Rightarrow> (leaf \<times> nat) list \<Rightarrow> (leaf \<times> nat) option" where
  "last_below k its = (let ys = filter (\<lambda>it. item_key it \<le> k) its in if ys = [] then None else Some (last ys))"

definition csum_of_item :: "nat \<Rightarrow> nat \<Rightarrow> nat \<Rightarrow> leaf \<times> nat \<Rightarrow> csum_live run" where
  "csum_of_item sector hlen ssize it =
     (let k = item_key it in
      if key_ty k \<noteq> EXTENT_CSUM then Ret NoCsum
      else run_bind (item_data (fst it) (snd it)) (\<lambda>dat.
        run_assert (hlen \<noteq> 0)
        (if length dat mod hlen \<noteq> 0 then Ret NoCsum
         else let run_start = key_offset k;
                  run_end = add64 run_start (mul64 (length dat div hlen) ssize)
              in if run_start \<le> sector \<and> sector < run_end
                 then run_bind (slice dat ((sector - run_start) div ssize * hlen) hlen) (\<lambda>c. Ret (LiveCsum c))
                 else Ret NoCsum)))"

definition csum_below :: "nat \<Rightarrow> nat \<Rightarrow> nat \<Rightarrow> key \<Rightarrow> (leaf \<times> nat) list \<Rightarrow> csum_live run" where
  "csum_below sector hlen ssize target its =
     (case last_below target its of None \<Rightarrow> Ret NoCsum | Some it \<Rightarrow> csum_of_item sector hlen ssize it)"

lemma key_leq_iff: "key_leq a b \<longleftrightarrow> a \<le> b"
  by (simp add: key_leq_def less_eq_key_def)

lemma filter_takeWhile: "downward P xs \<Longrightarrow> filter P xs = takeWhile P xs"
proof (induction xs)
  case (Cons x xs)
  have "downward P xs" using Cons.prems unfolding downward_def by (metis Suc_less_eq length_Cons nth_Cons_Suc)
  moreover have "\<not> P x \<Longrightarrow> filter P xs = []"
    using Cons.prems unfolding downward_def by (fastforce simp: filter_empty_conv in_set_conv_nth)
  ultimately show ?case using Cons.IH by simp
qed simp

lemma csum_in_leaf_below:
  assumes "sorted_wrt (<) (map slot_key (slots lf))"
  shows "csum_in_leaf lf sector target hlen ssize = csum_below sector hlen ssize target (leaf_items lf)"
proof -
  let ?P = "\<lambda>s. slot_key s \<le> target" and ?c = "length (takeWhile (\<lambda>s. slot_key s \<le> target) (slots lf))"
  have down: "downward ?P (slots lf)" using downward_sorted [OF assms] .
  have "filter (\<lambda>it. item_key it \<le> target) (leaf_items lf) = map (Pair lf) (filter (\<lambda>i. ?P (slots lf ! i)) [0..<length (slots lf)])"
    by (simp add: leaf_items_def filter_map comp_def item_key_def)
  also have "filter (\<lambda>i. ?P (slots lf ! i)) [0..<length (slots lf)] = [0..<?c]"
  proof -
    have "downward (\<lambda>i. ?P (slots lf ! i)) [0..<length (slots lf)]" using down by (auto simp: downward_def)
    then have "filter (\<lambda>i. ?P (slots lf ! i)) [0..<length (slots lf)] = takeWhile (\<lambda>i. ?P (slots lf ! i)) [0..<length (slots lf)]"
      by (rule filter_takeWhile)
    also have "\<dots> = take ?c [0..<length (slots lf)]"
      using nth_length_takeWhile [of ?P "slots lf"] takeWhile_nth [of _ ?P "slots lf"] set_takeWhileD [of _ ?P "slots lf"]
      by (intro takeWhile_eq_take_P_nth) (auto, metis nth_mem)
    finally show ?thesis using length_takeWhile_le [of ?P "slots lf"] by (simp add: take_upt)
  qed
  finally have below: "last_below target (leaf_items lf) = (if ?c = 0 then None else Some (lf, ?c - 1))"
    by (auto simp: last_below_def last_map)
  show ?thesis
    unfolding csum_in_leaf_def key_leq_iff partition_point_takeWhile [OF down] csum_below_def below
    by (simp add: Let_def csum_of_item_def item_key_def)
qed

lemma last_below_split:
  assumes "\<forall>it \<in> set zs. k < item_key it" "ys \<noteq> []" "item_key (hd ys) \<le> k"
  shows "last_below k (xs @ ys @ zs) = last_below k ys"
proof -
  have "filter (\<lambda>it. item_key it \<le> k) zs = []" using assms(1) by (auto simp: filter_empty_conv)
  moreover have "filter (\<lambda>it. item_key it \<le> k) ys \<noteq> []" using assms(2,3) by (cases ys) simp_all
  ultimately show ?thesis by (simp add: last_below_def Let_def)
qed

lemma last_below_node:
  fixes target :: key and n :: internal_node
  assumes "search_tree (TNode mm l n ts)"
  defines "c \<equiv> length (takeWhile (\<lambda>p. kp_key p \<le> target) (ptrs n))"
  shows "last_below target (tree_items (TNode mm l n ts)) = (if c = 0 then None else last_below target (tree_items (ts ! (c - 1))))"
    and "c \<le> length ts"
proof -
  have len: "length ts = length (ptrs n)" and sorted: "sorted_wrt (<) (map kp_key (ptrs n))"
    using assms(1) by (auto dest: list_all2_lengthD)
  have kid: "tree_items (ts ! i) \<noteq> []" "item_key (hd (tree_items (ts ! i))) = kp_key (ptrs n ! i)"
      "\<forall>it \<in> set (tree_items (ts ! i)). kp_key (ptrs n ! i) \<le> item_key it" if "i < length ts" for i
    using assms(1) that len by (auto simp: list_all2_conv_all_nth)
  show c: "c \<le> length ts" using length_takeWhile_le [of "\<lambda>p. kp_key p \<le> target" "ptrs n"] len by (simp add: c_def)
  have "target < kp_key (ptrs n ! i)" if "c \<le> i" "i < length ts" for i
  proof -
    have "\<not> kp_key (ptrs n ! c) \<le> target"
      using nth_length_takeWhile [of "\<lambda>p. kp_key p \<le> target" "ptrs n"] that len by (simp add: c_def)
    moreover have "kp_key (ptrs n ! c) \<le> kp_key (ptrs n ! i)"
      using sorted that len by (cases "c = i") (auto simp: sorted_wrt_iff_nth_less intro!: less_imp_le)
    ultimately show ?thesis by simp
  qed
  then have child: "target < item_key it" if "c \<le> i" "i < length ts" "it \<in> set (tree_items (ts ! i))" for i it
    using that kid(3) less_le_trans by blast
  have above: "\<forall>it \<in> set (concat (map tree_items (drop c ts))). target < item_key it"
  proof
    fix it assume "it \<in> set (concat (map tree_items (drop c ts)))"
    then obtain t where "t \<in> set (drop c ts)" "it \<in> set (tree_items t)" by auto
    then obtain j where "j < length ts - c" "it \<in> set (tree_items (ts ! (c + j)))" by (auto simp: in_set_conv_nth [of t])
    then show "target < item_key it" using child [of "c + j" it] by simp
  qed
  show "last_below target (tree_items (TNode mm l n ts)) = (if c = 0 then None else last_below target (tree_items (ts ! (c - 1))))"
  proof (cases "c = 0")
    case True
    then have "filter (\<lambda>it. item_key it \<le> target) (tree_items (TNode mm l n ts)) = []"
      using above unfolding filter_empty_conv not_le by simp
    then show ?thesis using True by (simp add: last_below_def)
  next
    case False
    have "c - 1 < length (takeWhile (\<lambda>p. kp_key p \<le> target) (ptrs n))" using False by (simp add: c_def)
    note prefix = nth_mem [OF this, THEN set_takeWhileD] takeWhile_nth [OF this]
    have le: "kp_key (ptrs n ! (c - 1)) \<le> target" using prefix(1) unfolding prefix(2) by (rule conjunct2)
    have "ts = take (c - 1) ts @ ts ! (c - 1) # drop c ts"
      using id_take_nth_drop [of "c - 1" ts] c False by simp
    then have "tree_items (TNode mm l n ts) = concat (map tree_items (take (c - 1) ts)) @ tree_items (ts ! (c - 1)) @ concat (map tree_items (drop c ts))"
      by (metis concat.simps(2) concat_append list.simps(9) map_append tree_items_Node)
    then show ?thesis
      using last_below_split [OF above, of "tree_items (ts ! (c - 1))"] kid(1,2) [of "c - 1"] le c False by simp
  qed
qed

lemma csum_descend_below:
  "seen E r cm l t \<Longrightarrow> search_tree t \<Longrightarrow> tree_height t \<le> depth \<Longrightarrow>
    csum_descend E r cm sector target hlen ssize depth l = csum_below sector hlen ssize target (tree_items t)"
proof (induction t arbitrary: l depth)
  case (TLeaf mm l' lf)
  then obtain d where "depth = Suc d" by (cases depth) simp_all
  then show ?case using TLeaf by (simp add: csum_in_leaf_below tree_items_def)
next
  case (TNode mm l' n ts)
  let ?c = "length (takeWhile (\<lambda>p. kp_key p \<le> target) (ptrs n))"
  obtain d where d: "depth = Suc d" using TNode.prems(3) by (cases depth) simp_all
  have len: "length ts = length (ptrs n)" using TNode.prems(2) by (auto dest: list_all2_lengthD)
  have "downward (\<lambda>p. kp_key p \<le> target) (ptrs n)" using TNode.prems(2) downward_sorted by auto
  note pp = partition_point_takeWhile [OF this]
  note below = last_below_node [OF TNode.prems(2), of target]
  show ?case
  proof (cases "?c = 0")
    case True
    then show ?thesis using TNode.prems(1) below(1) by (simp add: d key_leq_iff pp csum_below_def Let_def)
  next
    case False
    have i: "?c - 1 < length ts" using below(2) False by linarith
    have "csum_descend E r cm sector target hlen ssize d (blockptr (ptrs n ! (?c - 1))) =
        csum_below sector hlen ssize target (tree_items (ts ! (?c - 1)))"
    proof (rule TNode.IH)
      show "ts ! (?c - 1) \<in> set ts" using i by simp
      show "seen E r cm (blockptr (ptrs n ! (?c - 1))) (ts ! (?c - 1))"
        using TNode.prems(1) i len by (auto simp: list_all2_conv_all_nth)
      show "search_tree (ts ! (?c - 1))" using TNode.prems(2) i by (simp add: list_all_length)
      show "tree_height (ts ! (?c - 1)) \<le> d" using TNode.prems(3) i nth_mem by (simp add: d)
    qed
    then show ?thesis
      using TNode.prems(1) below(1) False by (simp add: d key_leq_iff pp csum_below_def Let_def)
  qed
qed simp_all

subsection \<open>The reference\<close>

text \<open>
  A checksum tree the kernel writes: a search tree of checksum items only, each a whole number of checksums
  for aligned sectors below \<open>2 ^ 64\<close>, no two items for the same sector.
\<close>

definition item_end :: "nat \<Rightarrow> nat \<Rightarrow> leaf \<times> nat \<Rightarrow> nat" where
  "item_end hlen ssize it = key_offset (item_key it) + length (item_bytes it) div hlen * ssize"

definition live_csum_tree :: "nat \<Rightarrow> nat \<Rightarrow> btree \<Rightarrow> bool" where
  "live_csum_tree hlen ssize t \<longleftrightarrow>
     search_tree t \<and> tree_height t \<le> 16 \<and> sorted_wrt (<) (map item_key (tree_items t)) \<and>
     (\<forall>it \<in> set (tree_items t).
        objectid (item_key it) = EXTENT_CSUM_OBJECTID \<and> key_ty (item_key it) = EXTENT_CSUM \<and>
        item_data (fst it) (snd it) \<noteq> Panic \<and> hlen dvd length (item_bytes it) \<and> ssize dvd key_offset (item_key it) \<and>
        item_end hlen ssize it < 2 ^ 64) \<and>
     (\<forall>it \<in> set (tree_items t). \<forall>it' \<in> set (tree_items t). item_key it < item_key it' \<longrightarrow>
        item_end hlen ssize it \<le> key_offset (item_key it'))"

lemma last_below_Some:
  assumes "last_below k its = Some it" "sorted_wrt (<) (map item_key its)"
  shows "it \<in> set its" "item_key it \<le> k" "\<forall>x \<in> set its. item_key x \<le> k \<longrightarrow> x = it \<or> item_key x < item_key it"
proof -
  let ?ys = "filter (\<lambda>it. item_key it \<le> k) its"
  have ys: "?ys \<noteq> []" "it = last ?ys" using assms(1) by (auto simp: last_below_def Let_def split: if_splits)
  have "it \<in> set ?ys" using ys last_in_set by metis
  then show "it \<in> set its" "item_key it \<le> k" by auto
  have "?ys = butlast ?ys @ [it]" using ys by simp
  moreover have "sorted_wrt (\<lambda>x y. item_key x < item_key y) ?ys"
    using assms(2) by (simp add: sorted_wrt_map sorted_wrt_filter)
  ultimately have "\<forall>x \<in> set (butlast ?ys). item_key x < item_key it"
    by (metis sorted_wrt_append list.set_intros(1))
  moreover have "x \<in> set (butlast ?ys) \<or> x = it" if "x \<in> set its" "item_key x \<le> k" for x
  proof -
    have "x \<in> set ?ys" using that by simp
    then have "x \<in> set (butlast ?ys @ [it])" using \<open>?ys = butlast ?ys @ [it]\<close> by metis
    then show ?thesis by auto
  qed
  ultimately show "\<forall>x \<in> set its. item_key x \<le> k \<longrightarrow> x = it \<or> item_key x < item_key it" by blast
qed

lemma entry_of_item:
  assumes "0 < hlen" "0 < ssize"
  shows "(a, c) \<in> set (all_csums hlen ssize lo dat) \<longleftrightarrow>
    (\<exists>i. i < length dat div hlen \<and> a = lo + i * ssize \<and> c = take hlen (drop (i * hlen) dat))"
  by (auto simp: all_csums_def)

lemma csum_of_item_entry:
  assumes "0 < hlen" "0 < ssize" "ssize dvd sector" "key_ty (item_key it) = EXTENT_CSUM" "item_data (fst it) (snd it) \<noteq> Panic"
    and "hlen dvd length (item_bytes it)" "ssize dvd key_offset (item_key it)" "item_end hlen ssize it < 2 ^ 64"
  defines "es \<equiv> all_csums hlen ssize (key_offset (item_key it)) (item_bytes it)"
  shows "csum_of_item sector hlen ssize it =
    Ret (case map_of es sector of Some c \<Rightarrow> LiveCsum c | None \<Rightarrow> NoCsum)"
    and "map_of es sector = Some c \<longleftrightarrow> (sector, c) \<in> set es"
    and "sector \<in> fst ` set es \<longleftrightarrow> key_offset (item_key it) \<le> sector \<and> sector < item_end hlen ssize it"
proof -
  let ?d = "item_bytes it" and ?lo = "key_offset (item_key it)" and ?n = "length (item_bytes it) div hlen"
  have dat: "item_data (fst it) (snd it) = Ret ?d" using assms(5) by (cases "item_data (fst it) (snd it)") (simp_all add: item_bytes_def)
  have dist: "distinct (map fst es)" using assms(2) by (auto simp: es_def all_csums_def comp_def distinct_map inj_on_def)
  show mo: "map_of es sector = Some c \<longleftrightarrow> (sector, c) \<in> set es" for c using dist by simp
  have wrap: "add64 ?lo (mul64 ?n ssize) = item_end hlen ssize it"
    using assms(8) by (simp add: item_end_def)
  have idx: "(sector - ?lo) div ssize < ?n" "sector = ?lo + (sector - ?lo) div ssize * ssize" if "?lo \<le> sector" "sector < item_end hlen ssize it"
  proof -
    obtain k where k: "sector - ?lo = k * ssize" using assms(3,7) by (metis dvd_diff_nat dvd_def mult.commute)
    moreover have "k * ssize < ?n * ssize" using k that unfolding item_end_def by linarith
    ultimately show "(sector - ?lo) div ssize < ?n" "sector = ?lo + (sector - ?lo) div ssize * ssize"
      using that(1) assms(2) by simp_all
  qed
  show span: "sector \<in> fst ` set es \<longleftrightarrow> ?lo \<le> sector \<and> sector < item_end hlen ssize it"
  proof
    assume "sector \<in> fst ` set es"
    then obtain c where "(sector, c) \<in> set es" by auto
    then obtain i where i: "i < ?n" "sector = ?lo + i * ssize" unfolding es_def entry_of_item [OF assms(1,2)] by blast
    then have "Suc i * ssize \<le> ?n * ssize" by (intro mult_le_mono1) simp
    then show "?lo \<le> sector \<and> sector < item_end hlen ssize it" using i assms(2) by (simp add: item_end_def)
  next
    assume "?lo \<le> sector \<and> sector < item_end hlen ssize it"
    with idx have "\<exists>c. (sector, c) \<in> set es" unfolding es_def entry_of_item [OF assms(1,2)] by blast
    then show "sector \<in> fst ` set es" by (force intro: rev_image_eqI)
  qed
  show "csum_of_item sector hlen ssize it = Ret (case map_of es sector of Some c \<Rightarrow> LiveCsum c | None \<Rightarrow> NoCsum)"
  proof (cases "?lo \<le> sector \<and> sector < item_end hlen ssize it")
    case True
    let ?i = "(sector - ?lo) div ssize"
    have "Suc ?i * hlen \<le> ?n * hlen" using idx(1) True by (intro mult_le_mono1) simp
    then have "slice ?d (?i * hlen) hlen = Ret (take hlen (drop (?i * hlen) ?d))" using assms(6) by (simp add: slice_def)
    moreover have "map_of es sector = Some (take hlen (drop (?i * hlen) ?d))"
      unfolding mo unfolding es_def entry_of_item [OF assms(1,2)] using idx True by blast
    ultimately show ?thesis
      using True assms(1,4,6) by (simp add: csum_of_item_def dat wrap Let_def dvd_eq_mod_eq_0)
  next
    case False
    then have "map_of es sector = None" using span by (simp add: map_of_eq_None_iff)
    then show ?thesis using False assms(1,4,6) by (auto simp: csum_of_item_def dat wrap Let_def dvd_eq_mod_eq_0)
  qed
qed

lemma map_of_concat_single:
  assumes "x \<in> set xs" "\<forall>y \<in> set xs. y \<noteq> x \<longrightarrow> k \<notin> fst ` set (f y)"
  shows "map_of (concat (map f xs)) k = map_of (f x) k"
proof -
  have one: "map_of (concat (map f ys)) k = (if x \<in> set ys then map_of (f x) k else None)" if "set ys \<subseteq> set xs" for ys
    using that
  proof (induction ys)
    case (Cons y ys)
    show ?case
    proof (cases "y = x")
      case False
      then have "map_of (f y) k = None" using assms(2) Cons.prems by (simp add: map_of_eq_None_iff)
      then show ?thesis using Cons False by (simp add: map_add_def)
    qed (use Cons in \<open>auto simp: map_add_def split: option.splits\<close>)
  qed simp
  show ?thesis using one [of xs] assms(1) by simp
qed

lemma csum_at_reference:
  assumes "live_csum_tree hlen ssize t" "seen E r cm root t" "0 < hlen" "0 < ssize"
  shows "csum_at E r cm root logical hlen ssize =
    Ret (case map_of (tree_csums hlen ssize t) (logical div ssize * ssize) of Some c \<Rightarrow> LiveCsum c | None \<Rightarrow> NoCsum)"
proof -
  let ?s = "logical div ssize * ssize" and ?its = "tree_items t"
  let ?k = "Key EXTENT_CSUM_OBJECTID EXTENT_CSUM ?s"
  let ?es = "\<lambda>it. all_csums hlen ssize (key_offset (item_key it)) (item_bytes it)"
  have sorted: "sorted_wrt (<) (map item_key ?its)" using assms(1) by (simp add: live_csum_tree_def)
  have item: "objectid (item_key it) = EXTENT_CSUM_OBJECTID" "key_ty (item_key it) = EXTENT_CSUM" "item_data (fst it) (snd it) \<noteq> Panic"
      "hlen dvd length (item_bytes it)" "ssize dvd key_offset (item_key it)" "item_end hlen ssize it < 2 ^ 64" if "it \<in> set ?its" for it
    using assms(1) that unfolding live_csum_tree_def by blast+
  note entry = csum_of_item_entry [OF assms(3,4) _ item(2-6)]
  have below: "item_key it \<le> ?k \<longleftrightarrow> key_offset (item_key it) \<le> ?s" if "it \<in> set ?its" for it
    using item(1,2) [OF that] by (simp add: less_eq_key_def)
  have "csum_at E r cm root logical hlen ssize = csum_below ?s hlen ssize ?k ?its"
    using assms csum_descend_below [OF assms(2), of 16] by (simp add: csum_at_def live_csum_tree_def Let_def)
  also have "\<dots> = Ret (case map_of (concat (map ?es ?its)) ?s of Some c \<Rightarrow> LiveCsum c | None \<Rightarrow> NoCsum)"
  proof (cases "last_below ?k ?its")
    case None
    then have "\<not> item_key it \<le> ?k" if "it \<in> set ?its" for it
      using that by (auto simp: last_below_def Let_def filter_empty_conv split: if_splits)
    then have "?s \<notin> fst ` set (?es it)" if "it \<in> set ?its" for it
      using below [OF that] entry(3) [OF _ that that that that that] that by simp
    then have "map_of (concat (map ?es ?its)) ?s = None" by (auto simp: map_of_eq_None_iff)
    then show ?thesis using None by (simp add: csum_below_def)
  next
    case (Some it)
    note last = last_below_Some [OF Some sorted]
    have "?s \<notin> fst ` set (?es x)" if "x \<in> set ?its" "x \<noteq> it" for x
    proof
      assume "?s \<in> fst ` set (?es x)"
      then have x: "key_offset (item_key x) \<le> ?s" "?s < item_end hlen ssize x"
        using entry(3) [OF _ that(1) that(1) that(1) that(1) that(1)] by simp_all
      then have "item_key x < item_key it" using last(3) that below [OF that(1)] by blast
      then have "item_end hlen ssize x \<le> key_offset (item_key it)"
        using assms(1) that(1) last(1) unfolding live_csum_tree_def by blast
      moreover have "key_offset (item_key it) \<le> ?s" using last(1,2) below by blast
      ultimately show False using x(2) by linarith
    qed
    then have "map_of (concat (map ?es ?its)) ?s = map_of (?es it) ?s" using last(1) by (intro map_of_concat_single) auto
    then show ?thesis
      using Some entry(1) [OF _ last(1) last(1) last(1) last(1) last(1), of ?s] by (simp add: csum_below_def)
  qed
  also have "concat (map ?es ?its) = tree_csums hlen ssize t"
    using item(2) unfolding tree_csums_def by (metis (mono_tags, lifting) filter_True)
  finally show ?thesis .
qed



end
