(* ===== verification/Extent_Lookup.thy ===== *)
theory Extent_Lookup
  imports Live_Lookup
begin

text \<open>
  The extent lookup of a re-confirmation (\<open>extent_covers\<close> of \<open>src/scrub-rs/src/btrfs/extent.rs\<close>) against a scan of the whole
  extent tree for the last EXTENT_ITEM at or before the address: the descent gives what the scan gives when the leaf it ends in
  holds such an item, and takes the address for a hole when it does not.
\<close>

subsection \<open>The reference\<close>

definition last_such :: "('a \<Rightarrow> bool) \<Rightarrow> 'a list \<Rightarrow> 'a option" where
  "last_such P xs = (let ys = filter P xs in if ys = [] then None else Some (last ys))"

lemma last_below_such: "last_below k = last_such (\<lambda>it. item_key it \<le> k)"
  by (rule ext) (simp add: last_below_def last_such_def)

lemma last_such_append: "last_such P (xs @ ys) = (case last_such P ys of None \<Rightarrow> last_such P xs | Some y \<Rightarrow> Some y)"
  by (auto simp: last_such_def Let_def)

lemma last_such_None: "last_such P xs = None \<longleftrightarrow> (\<forall>x \<in> set xs. \<not> P x)"
  by (auto simp: last_such_def Let_def filter_empty_conv)

lemma last_such_Some: "last_such P xs = Some x \<Longrightarrow> x \<in> set xs \<and> P x"
  using last_in_set [of "filter P xs"] by (auto simp: last_such_def Let_def split: if_splits)

lemma last_below_leaf: "last_below k (leaf_items lf) = Some it \<Longrightarrow> fst it = lf"
  unfolding last_below_such by (drule last_such_Some) (auto simp: leaf_items_def)

definition extent_key :: "key \<Rightarrow> leaf \<times> nat \<Rightarrow> bool" where
  "extent_key target it \<longleftrightarrow> item_key it \<le> target \<and> key_ty (item_key it) = EXTENT_ITEM"

definition extent_of_item :: "nat \<Rightarrow> leaf \<times> nat \<Rightarrow> extent_live run" where
  "extent_of_item logical it =
     (if add64 (objectid (item_key it)) (key_offset (item_key it)) > logical
      then run_bind (extent_is_nodatasum (fst it) (snd it)) (\<lambda>nd. Ret (if nd then NoDataSum else Live))
      else Ret Hole)"

definition extent_scan :: "nat \<Rightarrow> key \<Rightarrow> (leaf \<times> nat) list \<Rightarrow> extent_live run" where
  "extent_scan logical target its =
     (case last_such (extent_key target) its of None \<Rightarrow> Ret Hole | Some it \<Rightarrow> extent_of_item logical it)"

definition extent_target :: "nat \<Rightarrow> key" where
  "extent_target logical = Key logical EXTENT_ITEM (2 ^ 64 - 1)"

subsection \<open>One leaf\<close>

lemma find_last_such: "find P (rev xs) = last_such P xs"
  by (induction xs rule: rev_induct) (simp_all add: last_such_def Let_def)

lemma last_such_map: "last_such P (map f xs) = map_option f (last_such (P \<circ> f) xs)"
  by (simp add: last_such_def Let_def filter_map last_map)

lemma extent_in_leaf_scan:
  assumes "sorted_wrt (<) (map slot_key (slots lf))"
  shows "extent_in_leaf lf logical target = extent_scan logical target (leaf_items lf)"
proof -
  let ?Q = "\<lambda>s. slot_key s \<le> target" and ?c = "length (takeWhile (\<lambda>s. slot_key s \<le> target) (slots lf))"
  let ?E = "\<lambda>i. key_ty (slot_key (slots lf ! i)) = EXTENT_ITEM"
  have down: "downward ?Q (slots lf)" using downward_sorted [OF assms] .
  have c: "?c \<le> length (slots lf)" by (rule length_takeWhile_le)
  have "?Q (slots lf ! i) \<longleftrightarrow> i < ?c" if "i < length (slots lf)" for i
  proof
    assume "?Q (slots lf ! i)"
    show "i < ?c"
    proof (rule ccontr)
      assume "\<not> i < ?c"
      with that have "\<not> ?Q (slots lf ! ?c)" using nth_length_takeWhile [of ?Q "slots lf"] by linarith
      with downwardD [OF down \<open>?Q (slots lf ! i)\<close>, of ?c] that \<open>\<not> i < ?c\<close> show False by simp
    qed
  next
    assume "i < ?c"
    then show "?Q (slots lf ! i)" using takeWhile_nth [of i ?Q "slots lf"] set_takeWhileD [of _ ?Q "slots lf"] by (metis nth_mem)
  qed
  then have "filter (extent_key target \<circ> Pair lf) [0..<length (slots lf)] = filter ?E (filter (\<lambda>i. i < ?c) [0..<length (slots lf)])"
    by (auto simp: extent_key_def item_key_def intro!: filter_cong)
  also have "filter (\<lambda>i. i < ?c) [0..<length (slots lf)] = [0..<?c]"
  proof -
    have "[0..<length (slots lf)] = [0..<?c] @ [?c..<length (slots lf)]" using c by (metis upt_add_eq_append zero_le le_add_diff_inverse)
    then show ?thesis by (simp add: filter_empty_conv)
  qed
  finally have "last_such (extent_key target) (leaf_items lf) = map_option (Pair lf) (last_such ?E [0..<?c])"
    unfolding leaf_items_def last_such_map by (simp only: last_such_def)
  then show ?thesis
    unfolding extent_in_leaf_def key_leq_iff partition_point_takeWhile [OF down] find_last_such extent_scan_def
    by (auto simp: Let_def extent_of_item_def item_key_def split: option.split)
qed

subsection \<open>The descent\<close>

text \<open>The descent ends in the leaf of the last item at or below the target.\<close>

definition leaf_scan :: "nat \<Rightarrow> key \<Rightarrow> (leaf \<times> nat) list \<Rightarrow> extent_live run" where
  "leaf_scan logical target its =
     (case last_below target its of None \<Rightarrow> Ret Hole | Some it \<Rightarrow> extent_scan logical target (leaf_items (fst it)))"

lemma leaf_scan_leaf: "leaf_scan logical target (leaf_items lf) = extent_scan logical target (leaf_items lf)"
proof (cases "last_below target (leaf_items lf)")
  case None
  then have "last_such (extent_key target) (leaf_items lf) = None"
    unfolding last_below_such last_such_None by (simp add: extent_key_def)
  with None show ?thesis by (simp add: leaf_scan_def extent_scan_def)
next
  case (Some it)
  then have "fst it = lf" by (rule last_below_leaf)
  with Some show ?thesis by (simp add: leaf_scan_def)
qed

lemma extent_descend_scan:
  "seen E r cm l t \<Longrightarrow> search_tree t \<Longrightarrow> tree_height t \<le> depth \<Longrightarrow>
    extent_descend E r cm logical target depth l = leaf_scan logical target (tree_items t)"
proof (induction t arbitrary: l depth)
  case (TLeaf mm l' lf)
  then obtain d where "depth = Suc d" by (cases depth) simp_all
  then show ?case using TLeaf by (simp add: extent_in_leaf_scan leaf_scan_leaf tree_items_def)
next
  case (TNode mm l' n ts)
  let ?c = "length (takeWhile (\<lambda>p. kp_key p \<le> target) (ptrs n))"
  obtain d where d: "depth = Suc d" using TNode.prems(3) by (cases depth) simp_all
  have len: "length ts = length (ptrs n)" using TNode.prems(2) by (auto dest: list_all2_lengthD)
  have "downward (\<lambda>p. kp_key p \<le> target) (ptrs n)" using TNode.prems(2) downward_sorted by auto
  note pp = partition_point_takeWhile [OF this]
  note below = last_below_node [OF TNode.prems(2), of target]
  show ?case
  proof (cases "?c = 0")
    case True
    then show ?thesis using TNode.prems(1) below(1) by (simp add: d key_leq_iff pp leaf_scan_def Let_def)
  next
    case False
    have i: "?c - 1 < length ts" using below(2) False by linarith
    have "extent_descend E r cm logical target d (blockptr (ptrs n ! (?c - 1))) = leaf_scan logical target (tree_items (ts ! (?c - 1)))"
    proof (rule TNode.IH)
      show "ts ! (?c - 1) \<in> set ts" using i by simp
      show "seen E r cm (blockptr (ptrs n ! (?c - 1))) (ts ! (?c - 1))"
        using TNode.prems(1) i len by (auto simp: list_all2_conv_all_nth)
      show "search_tree (ts ! (?c - 1))" using TNode.prems(2) i by (simp add: list_all_length)
      show "tree_height (ts ! (?c - 1)) \<le> d" using TNode.prems(3) i nth_mem by (simp add: d)
    qed
    then show ?thesis
      using TNode.prems(1) below(1) False by (simp add: d key_leq_iff pp leaf_scan_def Let_def)
  qed
qed simp_all

subsection \<open>From the leaf to the tree\<close>

lemma last_below_leaves:
  "last_below k (concat (map leaf_items ls)) = Some it \<Longrightarrow>
   \<exists>pre post. ls = pre @ fst it # post \<and> (\<forall>x \<in> set (concat (map leaf_items post)). \<not> item_key x \<le> k)"
proof (induction ls rule: rev_induct)
  case (snoc l ls)
  show ?case
  proof (cases "last_below k (leaf_items l)")
    case None
    then have "\<forall>x \<in> set (leaf_items l). \<not> item_key x \<le> k" unfolding last_below_such last_such_None .
    moreover obtain pre post where "ls = pre @ fst it # post" "\<forall>x \<in> set (concat (map leaf_items post)). \<not> item_key x \<le> k"
      using snoc None by (auto simp: last_below_such last_such_append)
    ultimately show ?thesis by (intro exI [of _ pre] exI [of _ "post @ [l]"]) auto
  next
    case (Some y)
    then have "it = y" using snoc.prems by (simp add: last_below_such last_such_append)
    moreover have "fst y = l" by (rule last_below_leaf [OF Some])
    ultimately show ?thesis by (intro exI [of _ ls] exI [of _ "[]"]) simp
  qed
qed (simp add: last_below_def)

lemma leaf_scan_tree:
  assumes "last_below target (tree_items t) = Some it" "x \<in> set (leaf_items (fst it))" "extent_key target x"
  shows "leaf_scan logical target (tree_items t) = extent_scan logical target (tree_items t)"
proof -
  obtain pre post where ls: "tree_leaves t = pre @ fst it # post"
    "\<forall>x \<in> set (concat (map leaf_items post)). \<not> item_key x \<le> target"
    using last_below_leaves assms(1) unfolding tree_items_def by blast
  have "last_such (extent_key target) (concat (map leaf_items post)) = None"
    unfolding last_such_None using ls(2) by (simp add: extent_key_def)
  moreover obtain y where "last_such (extent_key target) (leaf_items (fst it)) = Some y"
    using assms(2,3) last_such_None [of "extent_key target" "leaf_items (fst it)"] by (cases "last_such (extent_key target) (leaf_items (fst it))") auto
  ultimately have "last_such (extent_key target) (tree_items t) = last_such (extent_key target) (leaf_items (fst it))"
    unfolding tree_items_def ls(1) by (simp add: last_such_append)
  then show ?thesis using assms(1) by (simp add: leaf_scan_def extent_scan_def)
qed

subsection \<open>A small extent tree\<close>

text \<open>Pages of 167 bytes behind one linear chunk, whose header checksum verifies.\<close>

lemma descend_page:
  assumes "fp r = plain_disk bs" "node_size r = 167" "base_offset r = 0" "rd_strategy r = Some demo_strategy"
    and off: "off + 167 \<le> length bs" "off + 167 \<le> 0x1000"
    and buf: "take 4 (take 167 (drop off bs)) = le_bytes 4 (Suc 0)" "header_parse (take 167 (drop off bs)) = Ret h"
      "node_parse (take 167 (drop off bs)) = Ret n"
  shows "descend_node demo_env r demo_csum_map (0x4000 + off) = Ret (Some n)"
proof -
  let ?buf = "take 167 (drop off bs)"
  have ok: "reader_ok r demo_strategy" using assms(2,4) by (simp add: reader_ok_def HEADER_SIZE_def)
  have st: "node_stripes demo_csum_map (0x4000 + off) = [(1, off)]"
    using off(2) by (simp add: node_stripes_def lookup_stripes_def chunk_find_def binary_search_by_def bs_loop.simps demo_csum_map_def
        range_cmp_def add64_def covers_def)
  have len: "length ?buf = 167" using off(1) by simp
  have ver: "verify_node_header (env_hashes demo_env) demo_strategy ?buf = Ret True"
    using buf(1) len by (simp add: verify_node_header_def verify_header_def csum_params_def hash_bytes_def demo_strategy_def demo_env_def)
  have rd: "pread_at (env_fault demo_env) (fp r) (add64 0 off) 167 = Inr ?buf"
    using off by (simp add: pread_at_def read_exact_at_def assms(1) plain_disk_def demo_env_def add64_def)
  have c: "copy_at demo_env r demo_strategy (0x4000 + off) (GEN_DONT_CHECK, None, None) off \<in> {GoodCopy ?buf, OutdatedCopy ?buf}"
    unfolding copy_at_def assms(2,3) rd by (simp add: ver buf(2))
  then show ?thesis
    by (auto simp: descend_node_def read_node_outcome [OF ok] st node_outcome_def buf(3))
qed

definition page_header :: "nat \<Rightarrow> nat \<Rightarrow> nat \<Rightarrow> header" where
  "page_header off lvl n = (demo_header lvl n)\<lparr>h_bytenr := 0x4000 + off\<rparr>"

definition leaf_page :: "nat \<Rightarrow> leaf_item_slot \<Rightarrow> bytes \<Rightarrow> bytes" where
  "leaf_page off sl dat = enc_header (1 # zeros 31) (page_header off 0 (Suc 0)) @ enc_slot sl @ dat"

definition node_page :: "nat \<Rightarrow> key_ptr \<Rightarrow> key_ptr \<Rightarrow> bytes" where
  "node_page off p q = enc_header (1 # zeros 31) (page_header off (Suc 0) 2) @ enc_key_ptr p @ enc_key_ptr q"

lemma page_header_ok: "off < 0x1000 \<Longrightarrow> lvl < 256 \<Longrightarrow> n < 256 \<Longrightarrow> header_ok (page_header off lvl n)"
  by (simp add: header_ok_def page_header_def demo_header_def)

lemma page_start: "take 4 (enc_header (1 # zeros 31) h @ rest) = le_bytes 4 (Suc 0)"
proof -
  have "take 3 (zeros 31) = zeros 3" by (simp add: zeros_def)
  then show ?thesis by (simp add: enc_header_def le_bytes_4_1 take_Cons' del: le_bytes.simps)
qed

lemma page_starts: "take 4 (leaf_page off sl dat) = le_bytes 4 (Suc 0)" "take 4 (node_page off p q) = le_bytes 4 (Suc 0)"
  unfolding leaf_page_def node_page_def by (rule page_start)+

lemma leaf_page_parse:
  assumes "off < 0x1000" "slot_ok sl"
  shows "header_parse (leaf_page off sl dat) = Ret (page_header off 0 (Suc 0))" "length (leaf_page off sl dat) = 126 + length dat"
    "node_parse (leaf_page off sl dat) = Ret (LeafNode \<lparr>leaf_header = page_header off 0 (Suc 0), slots = [sl], leaf_buf = leaf_page off sl dat\<rparr>)"
proof -
  have ok: "header_ok (page_header off 0 (Suc 0))" using assms(1) by (rule page_header_ok) simp_all
  have hl: "length (enc_header (1 # zeros 31) (page_header off 0 (Suc 0))) = 101"
    using length_enc_header [OF ok, of "1 # zeros 31"] by (simp add: HEADER_SIZE_def)
  show h: "header_parse (leaf_page off sl dat) = Ret (page_header off 0 (Suc 0))"
    unfolding leaf_page_def by (rule header_parse_enc [OF ok]) simp
  show "length (leaf_page off sl dat) = 126 + length dat" by (simp add: leaf_page_def hl enc_slot_length)
  have "parse_array slot_parse 25 (enc_header (1 # zeros 31) (page_header off 0 (Suc 0)) @ concat (map enc_slot [sl]) @ dat) 101 (Suc 0) = Ret [sl]"
    by (rule parse_array_enc [of slot_ok]) (simp_all add: slot_parse_enc assms(2) hl enc_slot_length)
  then show "node_parse (leaf_page off sl dat) = Ret (LeafNode \<lparr>leaf_header = page_header off 0 (Suc 0), slots = [sl], leaf_buf = leaf_page off sl dat\<rparr>)"
    using h by (simp add: node_parse_def HEADER_SIZE_def LEAF_ITEM_SIZE_def) (simp add: page_header_def demo_header_def leaf_page_def)
qed

lemma node_page_parse:
  assumes "off < 0x1000" "key_ptr_ok p" "key_ptr_ok q"
  shows "header_parse (node_page off p q) = Ret (page_header off (Suc 0) 2)" "length (node_page off p q) = 167"
    "node_parse (node_page off p q) = Ret (InternalNode \<lparr>int_header = page_header off (Suc 0) 2, ptrs = [p, q]\<rparr>)"
proof -
  have ok: "header_ok (page_header off (Suc 0) 2)" using assms(1) by (rule page_header_ok) simp_all
  have hl: "length (enc_header (1 # zeros 31) (page_header off (Suc 0) 2)) = 101"
    using length_enc_header [OF ok, of "1 # zeros 31"] by (simp add: HEADER_SIZE_def)
  have pl: "length (enc_key_ptr x) = 33" for x by (simp add: enc_key_ptr_def)
  show h: "header_parse (node_page off p q) = Ret (page_header off (Suc 0) 2)"
    unfolding node_page_def by (rule header_parse_enc [OF ok]) simp
  show "length (node_page off p q) = 167" by (simp add: node_page_def hl pl)
  have "parse_array key_ptr_parse 33 (enc_header (1 # zeros 31) (page_header off (Suc 0) 2) @ concat (map enc_key_ptr [p, q]) @ []) 101 2 = Ret [p, q]"
    by (rule parse_array_enc [of key_ptr_ok]) (simp_all add: key_ptr_parse_enc assms(2,3) hl pl)
  then show "node_parse (node_page off p q) = Ret (InternalNode \<lparr>int_header = page_header off (Suc 0) 2, ptrs = [p, q]\<rparr>)"
    using h by (simp add: node_parse_def HEADER_SIZE_def KEYPTR_SIZE_def) (simp add: page_header_def demo_header_def node_page_def)
qed

text \<open>
  One extent of two sectors at 8192: its EXTENT_ITEM is the last item of the first leaf, its back reference the first of the second.
\<close>

definition extent_slot :: leaf_item_slot where
  "extent_slot = \<lparr>slot_key = Key 8192 EXTENT_ITEM 8192, data_offset = 25, data_size = 24\<rparr>"

definition backref_slot :: leaf_item_slot where
  "backref_slot = \<lparr>slot_key = Key 8192 178 0, data_offset = 25, data_size = 28\<rparr>"

definition extent_ptr :: key_ptr where
  "extent_ptr = \<lparr>kp_key = Key 8192 EXTENT_ITEM 8192, blockptr = 16551, kp_generation = 7\<rparr>"

definition backref_ptr :: key_ptr where
  "backref_ptr = \<lparr>kp_key = Key 8192 178 0, blockptr = 16718, kp_generation = 7\<rparr>"

definition extent_page :: bytes where
  "extent_page = leaf_page 167 extent_slot (zeros 16 @ 1 # zeros 24)"

definition backref_page :: bytes where
  "backref_page = leaf_page 334 backref_slot (zeros 41)"

definition csum_page :: bytes where
  "csum_page = leaf_page 501 demo_slot ([1, 2, 3, 4, 5, 6, 7, 8] @ zeros 33)"

definition page_reader :: fs_reader where
  "page_reader = new_reader (plain_disk (node_page 0 extent_ptr backref_ptr @ extent_page @ backref_page @ csum_page)) 167 0 (Some demo_strategy)"

definition page_leaf :: "nat \<Rightarrow> leaf_item_slot \<Rightarrow> bytes \<Rightarrow> leaf" where
  "page_leaf off sl page = \<lparr>leaf_header = page_header off 0 (Suc 0), slots = [sl], leaf_buf = page\<rparr>"

definition extent_tree :: btree where
  "extent_tree = TNode False 0x4000 \<lparr>int_header = page_header 0 (Suc 0) 2, ptrs = [extent_ptr, backref_ptr]\<rparr>
     [TLeaf False 16551 (page_leaf 167 extent_slot extent_page), TLeaf False 16718 (page_leaf 334 backref_slot backref_page)]"

definition csum_leaf_tree :: btree where
  "csum_leaf_tree = TLeaf False 16885 (page_leaf 501 demo_slot csum_page)"

lemma pages_ok: "slot_ok extent_slot" "slot_ok backref_slot" "slot_ok demo_slot" "key_ptr_ok extent_ptr" "key_ptr_ok backref_ptr"
  by (simp_all add: slot_ok_def key_ptr_ok_def key_ok_def extent_slot_def backref_slot_def demo_slot_def extent_ptr_def backref_ptr_def
      EXTENT_ITEM_def EXTENT_CSUM_OBJECTID_def EXTENT_CSUM_def)

lemma page_lengths: "length (node_page 0 extent_ptr backref_ptr) = 167" "length extent_page = 167" "length backref_page = 167" "length csum_page = 167"
  by (simp_all add: node_page_parse pages_ok extent_page_def backref_page_def csum_page_def leaf_page_parse)

lemma pages_seen: "seen demo_env page_reader demo_csum_map 0x4000 extent_tree" "seen demo_env page_reader demo_csum_map 16885 csum_leaf_tree"
proof -
  let ?bs = "node_page 0 extent_ptr backref_ptr @ extent_page @ backref_page @ csum_page"
  have rd: "fp page_reader = plain_disk ?bs" "node_size page_reader = 167" "base_offset page_reader = 0" "rd_strategy page_reader = Some demo_strategy"
    by (simp_all add: page_reader_def new_reader_def)
  note d = descend_page [OF rd]
  have "descend_node demo_env page_reader demo_csum_map (0x4000 + 0) = Ret (Some (InternalNode \<lparr>int_header = page_header 0 (Suc 0) 2, ptrs = [extent_ptr, backref_ptr]\<rparr>))"
    by (rule d [where h = "page_header 0 (Suc 0) 2"]) (simp_all add: page_lengths node_page_parse pages_ok page_starts)
  moreover have "descend_node demo_env page_reader demo_csum_map (0x4000 + 167) = Ret (Some (LeafNode (page_leaf 167 extent_slot extent_page)))"
    by (rule d [where h = "page_header 167 0 (Suc 0)"])
      (simp_all add: page_lengths, simp_all add: extent_page_def leaf_page_parse pages_ok page_leaf_def page_starts)
  moreover have "descend_node demo_env page_reader demo_csum_map (0x4000 + 334) = Ret (Some (LeafNode (page_leaf 334 backref_slot backref_page)))"
    by (rule d [where h = "page_header 334 0 (Suc 0)"])
      (simp_all add: page_lengths, simp_all add: backref_page_def leaf_page_parse pages_ok page_leaf_def page_starts)
  moreover have "descend_node demo_env page_reader demo_csum_map (0x4000 + 501) = Ret (Some (LeafNode (page_leaf 501 demo_slot csum_page)))"
    by (rule d [where h = "page_header 501 0 (Suc 0)"])
      (simp_all add: page_lengths, simp_all add: csum_page_def leaf_page_parse pages_ok page_leaf_def page_starts)
  ultimately show "seen demo_env page_reader demo_csum_map 0x4000 extent_tree" "seen demo_env page_reader demo_csum_map 16885 csum_leaf_tree"
    by (simp_all add: extent_tree_def csum_leaf_tree_def extent_ptr_def backref_ptr_def)
qed

lemma extent_tree_ok: "search_tree extent_tree" "tree_height extent_tree \<le> 16"
  by (simp_all add: extent_tree_def page_leaf_def extent_slot_def backref_slot_def extent_ptr_def backref_ptr_def tree_items_def leaf_items_def
      item_key_def EXTENT_ITEM_def less_key_def less_eq_key_def)

lemma extent_tree_items:
  "tree_items extent_tree = [(page_leaf 167 extent_slot extent_page, 0), (page_leaf 334 backref_slot backref_page, 0)]"
  "item_key (page_leaf 167 extent_slot extent_page, 0) = Key 8192 EXTENT_ITEM 8192"
  "item_key (page_leaf 334 backref_slot backref_page, 0) = Key 8192 178 0"
  by (simp_all add: extent_tree_def tree_items_def leaf_items_def item_key_def page_leaf_def extent_slot_def backref_slot_def)

lemma extent_tree_scan:
  "extent_scan 12288 (extent_target 12288) (tree_items extent_tree) = Ret Live"
  "last_below (extent_target 12288) (tree_items extent_tree) = Some (page_leaf 334 backref_slot backref_page, 0)"
  "last_below (extent_target 8192) (tree_items extent_tree) = Some (page_leaf 167 extent_slot extent_page, 0)"
  "extent_scan 8192 (extent_target 8192) (tree_items extent_tree) = Ret Live"
proof -
  let ?x = "(page_leaf 167 extent_slot extent_page, 0)"
  have hl: "length (enc_header (1 # zeros 31) (page_header 167 0 (Suc 0))) = 101"
    using length_enc_header [OF page_header_ok, of 167 0 "Suc 0" "1 # zeros 31"] by (simp add: HEADER_SIZE_def)
  have "item_data (page_leaf 167 extent_slot extent_page) 0 = Ret (zeros 16 @ 1 # zeros 7)"
    by (simp add: item_data_def slice_def HEADER_SIZE_def page_lengths page_leaf_def extent_slot_def)
      (simp add: extent_page_def leaf_page_def hl enc_slot_length, simp add: zeros_def numeral_eq_Suc)
  moreover have "slice (zeros 16 @ 1 # zeros 7) 16 8 = Ret (1 # zeros 7)" by (simp add: slice_def)
  moreover have "zeros 7 = [0, 0, 0, 0, 0, 0, 0]" by (simp add: zeros_def numeral_eq_Suc)
  then have "le_nat (1 # zeros 7) = 1" by simp
  ultimately have "extent_is_nodatasum (page_leaf 167 extent_slot extent_page) 0 = Ret False"
    by (simp add: extent_is_nodatasum_def NODATASUM_def and_nat_numerals)
  then have item: "extent_of_item l ?x = Ret Live" if "l < 16384" for l
    using that by (simp add: extent_of_item_def extent_tree_items add64_def)
  show "extent_scan 12288 (extent_target 12288) (tree_items extent_tree) = Ret Live"
    by (simp add: extent_scan_def last_such_def extent_key_def extent_tree_items extent_target_def less_eq_key_def EXTENT_ITEM_def)
      (simp add: item)
  show "extent_scan 8192 (extent_target 8192) (tree_items extent_tree) = Ret Live"
    by (simp add: extent_scan_def last_such_def extent_key_def extent_tree_items extent_target_def less_eq_key_def EXTENT_ITEM_def)
      (simp add: item)
  show "last_below (extent_target 12288) (tree_items extent_tree) = Some (page_leaf 334 backref_slot backref_page, 0)"
    "last_below (extent_target 8192) (tree_items extent_tree) = Some (page_leaf 167 extent_slot extent_page, 0)"
    by (simp_all add: last_below_def extent_tree_items extent_target_def less_eq_key_def EXTENT_ITEM_def)
qed

lemma extent_page_keys:
  "\<exists>x \<in> set (leaf_items (page_leaf 167 extent_slot extent_page)). extent_key (extent_target 8192) x"
  "\<not> (\<exists>x \<in> set (leaf_items (page_leaf 334 backref_slot backref_page)). extent_key (extent_target 12288) x)"
  by (simp_all add: leaf_items_def page_leaf_def extent_key_def item_key_def extent_slot_def backref_slot_def extent_target_def
      less_eq_key_def EXTENT_ITEM_def)

subsection \<open>Properties\<close>

text \<open>C27: The extent lookup against a scan of the whole extent tree: on a search tree of at most sixteen levels the descent
  ends in the leaf of the last item at or below the address; when that leaf holds an EXTENT_ITEM at or below it, the answer is
  that of the scan (live, without checksums, or a hole), and when it does not, the address is taken for a hole whatever
  the leaves before it hold.\<close>

theorem extent_lookup_reference:
  assumes "seen E r cm root t" "search_tree t" "tree_height t \<le> 16"
  shows "extent_covers E r cm root logical =
    (case last_below (extent_target logical) (tree_items t) of
       None \<Rightarrow> Ret Hole
     | Some (lf, i) \<Rightarrow> if \<exists>x \<in> set (leaf_items lf). extent_key (extent_target logical) x
                       then extent_scan logical (extent_target logical) (tree_items t) else Ret Hole)"
proof -
  let ?k = "extent_target logical"
  have "extent_covers E r cm root logical = leaf_scan logical ?k (tree_items t)"
    using extent_descend_scan [OF assms] by (simp add: extent_covers_def extent_target_def)
  moreover have "leaf_scan logical ?k (tree_items t) = Ret Hole"
    if "last_below ?k (tree_items t) = Some (lf, i)" "\<not> (\<exists>x \<in> set (leaf_items lf). extent_key ?k x)" for lf i
    using that last_such_None [of "extent_key ?k" "leaf_items lf"] by (auto simp: leaf_scan_def extent_scan_def)
  ultimately show ?thesis
    using leaf_scan_tree [of ?k t] by (auto simp: leaf_scan_def [of _ _ "tree_items t"] split: option.split)
qed

theorem extent_lookup_reference_witness:
  "extent_covers demo_env page_reader demo_csum_map 0x4000 8192 = Ret Live \<and>
   extent_covers demo_env page_reader demo_csum_map 0x4000 12288 = Ret Hole"
  using extent_lookup_reference [OF pages_seen(1) extent_tree_ok, of 8192] extent_lookup_reference [OF pages_seen(1) extent_tree_ok, of 12288]
  by (simp add: extent_tree_scan extent_page_keys)

text \<open>C28: A corrupt sector whose repair is skipped: when the scan of the extent tree finds the sector in a live extent but the
  leaf the descent ends in starts with other items (the extent's back references, say), re-confirmation answers stale even
  though the checksum tree still stores the checksum the scrub compared with, so that the reference judgement is corruption.\<close>

theorem live_corruption_missed:
  assumes "seen E r cm ext_root t" "search_tree t" "tree_height t \<le> 16"
    and "extent_scan logical (extent_target logical) (tree_items t) = Ret Live"
    and "last_below (extent_target logical) (tree_items t) = Some (lf, i)" "\<not> (\<exists>x \<in> set (leaf_items lf). extent_key (extent_target logical) x)"
    and "live_csum_tree hlen ssize ct" "seen E r cm csum_rt ct" "0 < hlen" "0 < ssize"
    and "map_of (tree_csums hlen ssize ct) (logical div ssize * ssize) = Some old_csum"
  shows "csum_at E r cm csum_rt logical hlen ssize = Ret (LiveCsum old_csum) \<and>
    reconfirm_mismatch E r cm ext_root csum_rt logical old_csum hlen ssize = Ret Stale"
proof -
  have "extent_covers E r cm ext_root logical = leaf_scan logical (extent_target logical) (tree_items t)"
    using extent_descend_scan [OF assms(1-3)] by (simp add: extent_covers_def extent_target_def)
  moreover have "last_such (extent_key (extent_target logical)) (leaf_items lf) = None" using assms(6) unfolding last_such_None by blast
  ultimately have "extent_covers E r cm ext_root logical = Ret Hole" using assms(5) by (simp add: leaf_scan_def extent_scan_def)
  moreover note csum_at_reference [OF assms(7-10), of logical]
  ultimately show ?thesis using assms(11) by (simp add: reconfirm_mismatch_def)
qed

theorem live_corruption_missed_witness:
  "csum_at demo_env page_reader demo_csum_map 16885 12288 4 4096 = Ret (LiveCsum [5, 6, 7, 8]) \<and>
   reconfirm_mismatch demo_env page_reader demo_csum_map 0x4000 16885 12288 [5, 6, 7, 8] 4 4096 = Ret Stale"
proof -
  let ?lf = "page_leaf 501 demo_slot csum_page"
  have hl: "length (enc_header (1 # zeros 31) (page_header 501 0 (Suc 0))) = 101"
    using length_enc_header [OF page_header_ok, of 501 0 "Suc 0" "1 # zeros 31"] by (simp add: HEADER_SIZE_def)
  have dat: "item_data ?lf 0 = Ret [1, 2, 3, 4, 5, 6, 7, 8]"
    by (simp add: item_data_def slice_def HEADER_SIZE_def page_lengths page_leaf_def demo_slot_def)
      (simp add: csum_page_def leaf_page_def hl enc_slot_length [unfolded demo_slot_def])
  have items: "tree_items csum_leaf_tree = [(?lf, 0)]" "item_key (?lf, 0) = Key EXTENT_CSUM_OBJECTID EXTENT_CSUM 8192"
    "item_bytes (?lf, 0) = [1, 2, 3, 4, 5, 6, 7, 8]"
    by (simp_all add: csum_leaf_tree_def tree_items_def leaf_items_def item_bytes_def dat) (simp_all add: page_leaf_def item_key_def demo_slot_def)
  have live: "live_csum_tree 4 4096 csum_leaf_tree"
    by (simp add: live_csum_tree_def items dat item_end_def dvd_eq_mod_eq_0) (simp add: csum_leaf_tree_def page_leaf_def)
  have all: "map_of (tree_csums 4 4096 csum_leaf_tree) (12288 div 4096 * 4096) = Some [5, 6, 7, 8]"
    by (simp add: tree_csums_def items all_csums_def upt_rec numeral_2_eq_2)
  show ?thesis
    using live_corruption_missed [OF pages_seen(1) extent_tree_ok extent_tree_scan(1,2) extent_page_keys(2) live pages_seen(2) _ _ all] by simp
qed

end
