(* ===== verification/Scrub_Inline.thy ===== *)
theory Scrub_Inline
  imports Scrub_Complete
begin

text \<open>
  The inline scrub (\<open>scrub_dev_tree_inline\<close> of \<open>src/scrub-rs/src/btrfs/scrub.rs\<close>), the fallback when the reader thread cannot be
  given a handle. Its runs are never emptied, so after the first gap in an extent's checksums sectors are verified
  against other sectors' blocks; it verifies what it should on the extents whose checksums form one run.
\<close>

subsection \<open>The runs it reads\<close>

text \<open>The sectors of an extent in ascending order without overlap, as the checksum tree stores them.\<close>

definition spaced :: "nat \<Rightarrow> entry list \<Rightarrow> bool" where
  "spaced z es \<longleftrightarrow> (\<forall>i. Suc i < length es \<longrightarrow> fst (es ! i) + z \<le> fst (es ! Suc i))"

lemma spaced_address: "spaced z es \<Longrightarrow> i < length es \<Longrightarrow> fst (hd es) + i * z \<le> fst (es ! i)"
proof (induction i)
  case (Suc i)
  then have "fst (es ! i) + z \<le> fst (es ! Suc i)" by (simp add: spaced_def)
  then show ?case using Suc by simp
qed (simp add: hd_conv_nth)

lemma grow_runs_prefix:
  "run \<in> set (grow_runs z es r prev) \<Longrightarrow> run \<noteq> [] \<and> (\<exists>k. run = r @ take k es)"
proof (induction z es r prev rule: grow_runs.induct)
  case (1 z r prev)
  then show ?case by (simp split: if_splits)
next
  case (2 z e es r prev)
  have later: "run \<noteq> [] \<and> (\<exists>k. run = r @ take k (e # es))" if "run \<noteq> [] \<and> (\<exists>k. run = (r @ [e]) @ take k es)"
    using that by (metis append.assoc append_Cons append_Nil take_Suc_Cons)
  have "run = r \<and> r \<noteq> [] \<or> run \<in> set (grow_runs z es (r @ [e]) (Some (fst e)))"
    using 2(3) by (auto simp: Let_def split: if_splits)
  then show ?case
  proof
    assume "run = r \<and> r \<noteq> []"
    then have "run \<noteq> [] \<and> run = r @ take 0 (e # es)" by simp
    then show ?thesis by blast
  next
    assume "run \<in> set (grow_runs z es (r @ [e]) (Some (fst e)))"
    with 2(1,2) later show ?thesis by meson
  qed
qed

lemma grow_runs_single:
  "run_ok z (r @ es) \<Longrightarrow> prev = (if r = [] then None else Some (fst (last r))) \<Longrightarrow> grow_runs z es r prev = [r @ es]"
proof (induction es arbitrary: r prev)
  case (Cons e es)
  have ok: "contiguous z (r @ e # es)" "length (r @ e # es) \<le> MAX_RUN_SECTORS" using Cons.prems(1) by (simp_all add: run_ok_def)
  have follows: "fst e = add64 (fst (last r)) z" if "r \<noteq> []"
  proof -
    have i: "Suc (length r - 1) = length r" "length r - 1 < length r" using that by simp_all
    then have "Suc (length r - 1) < length (r @ e # es)" by simp
    with ok(1) have "fst ((r @ e # es) ! Suc (length r - 1)) = add64 (fst ((r @ e # es) ! (length r - 1))) z"
      unfolding contiguous_def by blast
    with i that show ?thesis by (simp add: nth_append last_conv_nth)
  qed
  have "grow_runs z (e # es) r prev = grow_runs z es (r @ [e]) (Some (fst e))"
    using Cons.prems(2) follows ok(2) by (auto simp: Let_def)
  also have "\<dots> = [(r @ [e]) @ es]" using Cons.prems(1) by (intro Cons.IH) simp_all
  finally show ?case by simp
qed (simp add: run_ok_def)

lemma prefix_window:
  assumes "extent_fits cx dext" "whole_sectors cx dext es" "spaced (st_sector_size (cx_strategy cx)) es" "take k es \<noteq> []"
  shows "window_inside cx dext (take k es)"
proof -
  let ?z = "st_sector_size (cx_strategy cx)" and ?n = "length (take k es)" and ?l = "fst (hd es)"
  have ne: "es \<noteq> []" and n: "0 < ?n" "?n \<le> length es" using assms(4) by auto
  have inside: "chunk_offset dext \<le> fst e" "fst e + ?z \<le> chunk_offset dext + dx_length dext" if "e \<in> set es" for e
    using assms(2) that by (simp_all add: whole_sectors_def)
  have n1: "?n - 1 < length es" using n by linarith
  have "?l + (?n - 1) * ?z \<le> fst (es ! (?n - 1))" by (rule spaced_address [OF assms(3) n1])
  moreover have "fst (es ! (?n - 1)) + ?z \<le> chunk_offset dext + dx_length dext" by (rule inside(2) [OF nth_mem [OF n1]])
  moreover have "(?n - 1) * ?z + ?z = ?n * ?z" using n(1) by (metis Suc_pred' add.commute mult_Suc)
  ultimately have top: "?l + ?n * ?z \<le> chunk_offset dext + dx_length dext" by linarith
  have low: "chunk_offset dext \<le> ?l" using inside(1) ne by simp
  have "hd (take k es) = hd es" using assms(4) by (cases es; cases k) simp_all
  then have at: "sector_phys dext (fst (hd (take k es))) = phys_start dext + (?l - chunk_offset dext)"
    using low top by (simp add: sector_phys_inside [OF assms(1)])
  show ?thesis using low top unfolding window_inside_def Let_def at by linarith
qed

subsection \<open>What it reports\<close>

definition moved_hash :: "scrub_ctx \<Rightarrow> dev_extent \<Rightarrow> entry list \<Rightarrow> nat \<Rightarrow> bytes" where
  "moved_hash cx dext run i = sector_hash cx (run_block cx dext run i)"

definition moved_reports :: "scrub_ctx \<Rightarrow> dev_extent \<Rightarrow> entry list \<Rightarrow> sector_result list" where
  "moved_reports cx dext run =
     map (\<lambda>i. report dext (run ! i) (moved_hash cx dext run i) False)
       (filter (\<lambda>i. moved_hash cx dext run i \<noteq> snd (run ! i)) [0..<length run])"

definition fallback_runs :: "scrub_ctx \<Rightarrow> csum_provider \<Rightarrow> btree \<Rightarrow> dev_extent \<Rightarrow> entry list list" where
  "fallback_runs cx p t dext = grow_runs (st_sector_size (cx_strategy cx)) (extent_entries p t dext) [] None"

definition fallback_reports :: "scrub_ctx \<Rightarrow> csum_provider \<Rightarrow> btree \<Rightarrow> dev_extent \<Rightarrow> sector_result list" where
  "fallback_reports cx p t dext = concat (map (moved_reports cx dext) (fallback_runs cx p t dext))"

lemma verify_steps_add:
  "let a' = fold (verify_step cx dext run (run_block cx dext run)) js a in
   sc_events a' = sc_events a @ map (\<lambda>i. report dext (run ! i) (moved_hash cx dext run i) False)
     (filter (\<lambda>i. moved_hash cx dext run i \<noteq> snd (run ! i)) js) \<and>
   rs_checked (sc_stats a') = rs_checked (sc_stats a) + length js \<and> rs_read_error (sc_stats a') = rs_read_error (sc_stats a)"
proof (induction js arbitrary: a)
  case (Cons j js)
  from Cons [of "verify_step cx dext run (run_block cx dext run) j a"] show ?case
    by (auto simp: Let_def verify_step_def acc_defs report_def moved_hash_def)
qed simp

definition adds :: "scrub_acc \<Rightarrow> scrub_acc \<Rightarrow> sector_result list \<Rightarrow> nat \<Rightarrow> bool" where
  "adds a a' evs n \<longleftrightarrow> sc_events a' = sc_events a @ evs \<and> rs_checked (sc_stats a') = rs_checked (sc_stats a) + n \<and>
     rs_read_error (sc_stats a') = rs_read_error (sc_stats a)"

lemma adds_trans: "adds a b evs n \<Longrightarrow> adds b c evs' m \<Longrightarrow> adds a c (evs @ evs') (n + m)"
  by (simp add: adds_def)

lemma adds_counters [simp]: "adds (a\<lparr>sc_counters := c\<rparr>) a' evs n = adds a a' evs n" "adds a (bump_progress k a') evs n = adds a a' evs n"
  by (simp_all add: adds_def bump_progress_def)

lemma inline_runs_moved:
  assumes "batch_ctx cx" "extent_fits cx dext" "extent_readable cx dext"
  shows "\<forall>run \<in> set rs. run \<noteq> [] \<and> window_inside cx dext run \<Longrightarrow>
    \<exists>a'. inline_runs cx dext rs a = Some (Ret a') \<and> adds a a' (concat (map (moved_reports cx dext) rs)) (length (concat rs))"
proof (induction rs arbitrary: a)
  case (Cons run rs)
  let ?a1 = "fold (verify_step cx dext run (run_block cx dext run)) [0..<length run] a"
  have one: "inline_run cx dext run a = Some (Ret ?a1)" "adds a ?a1 (moved_reports cx dext run) (length run)"
    using Cons.prems inline_run_reads [OF assms, of run a] verify_steps_add [of cx dext run "[0..<length run]" a]
    by (simp_all add: adds_def moved_reports_def Let_def)
  obtain a' where "inline_runs cx dext rs ?a1 = Some (Ret a')"
      "adds ?a1 a' (concat (map (moved_reports cx dext) rs)) (length (concat rs))"
    using Cons.IH [of ?a1] Cons.prems by auto
  with one adds_trans [OF one(2)] show ?case by auto
qed (simp add: adds_def)

definition fallback_ok :: "scrub_ctx \<Rightarrow> csum_provider \<Rightarrow> btree \<Rightarrow> dev_extent \<Rightarrow> bool" where
  "fallback_ok cx p t dext \<longleftrightarrow> scrubbable cx p t dext \<and> spaced (st_sector_size (cx_strategy cx)) (extent_entries p t dext)"

lemma inline_extents_moved:
  fixes cx :: scrub_ctx
  assumes "batch_ctx cx"
  defines "ds \<equiv> filter (is_data_extent (cx_chunk_map cx))"
  shows "csum_source_ok (cx_env cx) p t \<Longrightarrow> provider_inv p \<Longrightarrow>
    \<forall>dext \<in> set dexts. is_data_extent (cx_chunk_map cx) dext \<longrightarrow> fallback_ok cx p t dext \<Longrightarrow>
    \<exists>p' a'. inline_extents cx dexts p a = Some (Ret (p', a')) \<and>
      adds a a' (concat (map (fallback_reports cx p t) (ds dexts))) (length (concat (concat (map (fallback_runs cx p t) (ds dexts)))))"
proof (induction dexts arbitrary: p a)
  case (Cons dext rest)
  show ?case
  proof (cases "is_data_extent (cx_chunk_map cx) dext")
    case True
    let ?z = "st_sector_size (cx_strategy cx)" and ?es = "extent_entries p t dext"
    have sc: "extent_fits cx dext" "extent_readable cx dext" "whole_sectors cx dext ?es" "spaced ?z ?es"
      using Cons.prems(3) True by (simp_all add: fallback_ok_def scrubbable_def)
    have hi: "add64 (chunk_offset dext) (dx_length dext) = chunk_offset dext + dx_length dext"
      using sc(1) by (intro add64_id) (simp add: extent_fits_def)
    obtain p' c' where r: "csum_range (cx_env cx) p (chunk_offset dext) (chunk_offset dext + dx_length dext) (sc_counters a) = Some (Ret (p', c', ?es))"
        "provider_inv p'" "same_source p p'"
      using csum_range_stream [OF Cons.prems(1,2)] unfolding extent_entries_def by meson
    have "\<forall>run \<in> set (fallback_runs cx p t dext). run \<noteq> [] \<and> window_inside cx dext run"
      using prefix_window [OF sc(1,3,4)] grow_runs_prefix [of _ ?z ?es "[]" None] by (force simp: fallback_runs_def)
    from inline_runs_moved [OF assms(1) sc(1,2) this, of "a\<lparr>sc_counters := c'\<rparr>"] obtain a1 where
      a1: "inline_runs cx dext (fallback_runs cx p t dext) (a\<lparr>sc_counters := c'\<rparr>) = Some (Ret a1)"
        "adds a a1 (fallback_reports cx p t dext) (length (concat (fallback_runs cx p t dext)))"
      by (auto simp: fallback_reports_def)
    have "\<forall>d \<in> set rest. is_data_extent (cx_chunk_map cx) d \<longrightarrow> fallback_ok cx p' t d"
      using Cons.prems(3) by (simp add: fallback_ok_def scrubbable_def csum_source_same [OF r(3)])
    moreover have "fallback_runs cx p' t = fallback_runs cx p t" "fallback_reports cx p' t = fallback_reports cx p t"
      by (simp_all add: fun_eq_iff fallback_runs_def fallback_reports_def csum_source_same [OF r(3)])
    ultimately obtain p'' a' where fin: "inline_extents cx rest p' (bump_progress (dx_length dext) a1) = Some (Ret (p'', a'))"
      "adds (bump_progress (dx_length dext) a1) a' (concat (map (fallback_reports cx p t) (ds rest)))
         (length (concat (concat (map (fallback_runs cx p t) (ds rest)))))"
      using Cons.IH [of p' "bump_progress (dx_length dext) a1"] Cons.prems(1) r(2,3) by (auto simp: csum_source_same)
    from adds_trans [OF _ fin(2), of a] a1(2) have "adds a a' (concat (map (fallback_reports cx p t) (ds (dext # rest))))
        (length (concat (concat (map (fallback_runs cx p t) (ds (dext # rest))))))"
      using True by (simp add: ds_def)
    moreover have "inline_extents cx (dext # rest) p a = Some (Ret (p'', a'))"
      using True a1(1) fin(1) by (simp add: extent_csums_def hi r(1) fallback_runs_def)
    ultimately show ?thesis by blast
  qed (use Cons in \<open>simp add: ds_def\<close>)
qed (simp add: adds_def ds_def)

subsection \<open>The scrub without a reader thread\<close>

lemma filter_indices: "map (\<lambda>i. f (xs ! i)) (filter (\<lambda>i. P (xs ! i)) [0..<length xs]) = map f (filter P xs)"
proof -
  have "filter P xs = filter P (map ((!) xs) [0..<length xs])" by (simp only: map_nth)
  then show ?thesis by (simp add: filter_map comp_def)
qed

lemma single_run_reports:
  assumes "scrubbable cx p t dext" "run_ok (st_sector_size (cx_strategy cx)) (extent_entries p t dext)"
  defines "actual \<equiv> \<lambda>e. sector_hash cx (sector_bytes cx dext e)"
  shows "fallback_reports cx p t dext =
    map (\<lambda>e. report dext e (actual e) False) (filter (\<lambda>e. actual e \<noteq> snd e) (extent_entries p t dext))"
proof -
  let ?es = "extent_entries p t dext"
  have runs: "fallback_runs cx p t dext = [?es]"
    using grow_runs_single [of "st_sector_size (cx_strategy cx)" "[]" ?es None] assms(2) by (simp add: fallback_runs_def)
  have "run_block cx dext ?es i = sector_bytes cx dext (?es ! i)" if "i < length ?es" for i
    using run_window(1) [OF _ _ assms(2) that] assms(1) by (simp add: scrubbable_def run_block_def sector_bytes_def add.assoc)
  then have h: "moved_hash cx dext ?es i = actual (?es ! i)" if "i < length ?es" for i
    using that by (simp add: moved_hash_def actual_def)
  have "moved_reports cx dext ?es =
      map (\<lambda>i. report dext (?es ! i) (actual (?es ! i)) False) (filter (\<lambda>i. actual (?es ! i) \<noteq> snd (?es ! i)) [0..<length ?es])"
    unfolding moved_reports_def using h by (intro map_cong filter_cong) auto
  also have "\<dots> = map (\<lambda>e. report dext e (actual e) False) (filter (\<lambda>e. actual e \<noteq> snd e) ?es)" by (rule filter_indices)
  finally show ?thesis by (simp add: fallback_reports_def runs)
qed


text \<open>
  A device whose checksum leaf holds two items, for the sectors at 8192 and 16384; the sector between them was freed. The
  sectors hold 2s, 3s and zeros, and the checksum of the last is that of 3s: it is corrupt.
\<close>

definition gap_slots :: "leaf_item_slot list" where
  "gap_slots = [\<lparr>slot_key = Key EXTENT_CSUM_OBJECTID EXTENT_CSUM 8192, data_offset = 50, data_size = 4\<rparr>,
     \<lparr>slot_key = Key EXTENT_CSUM_OBJECTID EXTENT_CSUM 16384, data_offset = 54, data_size = 4\<rparr>]"

definition gap_buf :: bytes where
  "gap_buf = enc_header (1 # zeros 31) (demo_header 0 2) @ concat (map enc_slot gap_slots) @ [2, 0, 0, 0, 3, 0, 0, 0]"

definition gap_leaf :: leaf where
  "gap_leaf = \<lparr>leaf_header = demo_header 0 2, slots = gap_slots, leaf_buf = gap_buf\<rparr>"

definition gap_sectors :: bytes where
  "gap_sectors = replicate 4096 2 @ replicate 4096 3 @ zeros 4096"

definition gap_env :: env where
  "gap_env = demo_env\<lparr>env_hashes := (env_hashes demo_env)\<lparr>crc32c := (\<lambda>b. if length b < 4096 then 1 else unat (hd b))\<rparr>\<rparr>"

definition gap_provider :: csum_provider where
  "gap_provider = new_provider (plain_disk (gap_buf @ gap_sectors)) 159 0 demo_strategy 1 (zeros 16) demo_csum_map 0x4000"

definition gap_dext :: dev_extent where
  "gap_dext = \<lparr>dx_devid = 1, phys_start = 159, dx_length = 12288, chunk_offset = 8192\<rparr>"

definition gap_scrub :: scrub_ctx where
  "gap_scrub = \<lparr>cx_env = gap_env, cx_budget = 64, cx_reader = pv_reader gap_provider,
     cx_chunk_map = [\<lparr>m_begin = 8192, m_end = 20480, m_ty = 1, m_stripes = [\<lparr>s_devid = 1, s_offset = 159\<rparr>]\<rparr>],
     cx_strategy = demo_strategy, cx_batch = True\<rparr>"

definition no_handle :: reader_fate where
  "no_handle = healthy\<lparr>handle_fault := Some (OsError 24)\<rparr>"

lemma gap_buf_props:
  "length gap_buf = 159" "take 4 gap_buf = le_bytes 4 (Suc 0)"
  "header_parse gap_buf = Ret (demo_header 0 2)" "node_parse gap_buf = Ret (LeafNode gap_leaf)"
  "item_data gap_leaf 0 = Ret [2, 0, 0, 0]" "item_data gap_leaf (Suc 0) = Ret [3, 0, 0, 0]"
proof -
  have ok: "header_ok (demo_header 0 2)" by (simp add: header_ok_def demo_header_def)
  have hl: "length (enc_header (1 # zeros 31) (demo_header 0 2)) = 101"
    using length_enc_header [OF ok, of "1 # zeros 31"] by (simp add: HEADER_SIZE_def)
  show "length gap_buf = 159" by (simp add: gap_buf_def gap_slots_def hl enc_slot_length)
  have "take 3 (zeros 31) = zeros 3" by (simp add: zeros_def)
  then show "take 4 gap_buf = le_bytes 4 (Suc 0)"
    by (simp add: gap_buf_def enc_header_def le_bytes_4_1 take_Cons' del: le_bytes.simps)
  show h: "header_parse gap_buf = Ret (demo_header 0 2)" unfolding gap_buf_def by (rule header_parse_enc [OF ok]) simp
  have sok: "\<forall>x \<in> set gap_slots. slot_ok x"
    by (simp add: gap_slots_def slot_ok_def key_ok_def EXTENT_CSUM_OBJECTID_def EXTENT_CSUM_def)
  have "parse_array slot_parse 25 gap_buf 101 2 = Ret gap_slots"
    unfolding gap_buf_def
    by (rule parse_array_enc [of slot_ok slot_parse enc_slot 25 gap_slots 2 101, OF _ _ sok])
      (simp_all add: slot_parse_enc hl enc_slot_length gap_slots_def)
  then show "node_parse gap_buf = Ret (LeafNode gap_leaf)"
    using h by (simp add: node_parse_def gap_leaf_def HEADER_SIZE_def LEAF_ITEM_SIZE_def demo_header_def)
  have pre: "length (enc_header (1 # zeros 31) (demo_header 0 2) @ concat (map enc_slot gap_slots)) = 151"
    by (simp add: gap_slots_def hl enc_slot_length)
  have "drop 151 gap_buf = [2, 0, 0, 0, 3, 0, 0, 0]"
    unfolding gap_buf_def append.assoc [symmetric] using pre by simp
  moreover have "drop 155 gap_buf = drop 4 (drop 151 gap_buf)" by simp
  ultimately have "take 4 (drop 151 gap_buf) = [2, 0, 0, 0]" "take 4 (drop 155 gap_buf) = [3, 0, 0, 0]"
    by (simp_all del: drop_drop)
  then show "item_data gap_leaf 0 = Ret [2, 0, 0, 0]" "item_data gap_leaf (Suc 0) = Ret [3, 0, 0, 0]"
    using \<open>length gap_buf = 159\<close>
    by (simp_all add: item_data_def gap_leaf_def slice_def HEADER_SIZE_def gap_slots_def)
qed

lemma gap_reader: "fp (pv_reader gap_provider) = plain_disk (gap_buf @ gap_sectors)" "node_size (pv_reader gap_provider) = 159"
  "base_offset (pv_reader gap_provider) = 0" "rd_fsid (pv_reader gap_provider) = Some (zeros 16)" "rd_devid (pv_reader gap_provider) = Some 1"
  "reader_ok (pv_reader gap_provider) demo_strategy" "length gap_sectors = 12288"
  by (simp_all add: gap_provider_def new_provider_def new_reader_def with_fsid_def with_devid_def reader_ok_def HEADER_SIZE_def gap_sectors_def)

lemma gap_leaf_read: "read_ref gap_env (pv_reader gap_provider) demo_csum_map (root_ref 0x4000) =
  Ret (Inr \<lparr>rn_node = Some (LeafNode gap_leaf), all_mirrors_failed = False, generation_mismatch = False, mirror_mismatch = False\<rparr>)"
proof -
  have st: "node_stripes demo_csum_map 0x4000 = [(1, 0)]"
    by (simp add: node_stripes_def lookup_stripes_def chunk_find_def binary_search_by_def bs_loop.simps demo_csum_map_def
        range_cmp_def add64_def covers_def)
  have env: "env_fault gap_env = None" "\<And>k. crc32c (env_hashes gap_env) (drop k gap_buf) = 1"
    by (simp_all add: gap_env_def demo_env_def gap_buf_props less_imp_diff_less)
  have ver: "verify_node_header (env_hashes gap_env) demo_strategy gap_buf = Ret True"
    by (simp add: verify_node_header_def verify_header_def csum_params_def hash_bytes_def demo_strategy_def env gap_buf_props)
  have c: "copy_at gap_env (pv_reader gap_provider) demo_strategy 0x4000 (GEN_DONT_CHECK, None, None) 0 = GoodCopy gap_buf"
    by (simp add: copy_at_def gap_reader env pread_at_def read_exact_at_def plain_disk_def ver add64_def gap_buf_props
        validate_header_def) (simp add: demo_header_def)
  show ?thesis
    by (simp add: read_ref_def root_ref_def read_node_outcome [OF gap_reader(6)] st c node_outcome_def gap_buf_props)
qed

lemma gap_items: "tree_items (TLeaf mm l gap_leaf) = [(gap_leaf, 0), (gap_leaf, Suc 0)]"
  "item_key (gap_leaf, 0) = Key EXTENT_CSUM_OBJECTID EXTENT_CSUM 8192" "item_key (gap_leaf, Suc 0) = Key EXTENT_CSUM_OBJECTID EXTENT_CSUM 16384"
  "item_bytes (gap_leaf, 0) = [2, 0, 0, 0]" "item_bytes (gap_leaf, Suc 0) = [3, 0, 0, 0]"
proof -
  have "length (slots gap_leaf) = 2" by (simp add: gap_leaf_def gap_slots_def)
  then show "tree_items (TLeaf mm l gap_leaf) = [(gap_leaf, 0), (gap_leaf, Suc 0)]"
    by (simp add: tree_items_def leaf_items_def upt_rec numeral_2_eq_2)
  show "item_key (gap_leaf, 0) = Key EXTENT_CSUM_OBJECTID EXTENT_CSUM 8192" "item_key (gap_leaf, Suc 0) = Key EXTENT_CSUM_OBJECTID EXTENT_CSUM 16384"
    by (simp_all add: item_key_def gap_leaf_def gap_slots_def)
  show "item_bytes (gap_leaf, 0) = [2, 0, 0, 0]" "item_bytes (gap_leaf, Suc 0) = [3, 0, 0, 0]"
    using gap_buf_props(5,6) by (simp_all add: item_bytes_def)
qed

lemma gap_source: "csum_source_ok gap_env gap_provider (TLeaf False 0x4000 gap_leaf)"
proof -
  have "stored gap_env (pv_reader gap_provider) demo_csum_map None (root_ref 0x4000) (TLeaf False 0x4000 gap_leaf)"
    using st_leaf [OF gap_leaf_read] by simp
  moreover have "pv_chunk_map gap_provider = demo_csum_map" "pv_csum_root gap_provider = 0x4000" "pv_strategy gap_provider = demo_strategy"
    by (simp_all add: gap_provider_def new_provider_def)
  moreover have "csum_tree_ok 4 4096 (TLeaf False 0x4000 gap_leaf)"
    using gap_buf_props(5,6) by (simp add: csum_tree_ok_def csum_item_ok_def gap_items)
  ultimately show ?thesis using gap_reader(2,6) by (auto simp: csum_source_ok_def demo_strategy_def)
qed

lemma gap_entries: "extent_entries gap_provider (TLeaf False 0x4000 gap_leaf) gap_dext = [(8192, [2, 0, 0, 0]), (16384, [3, 0, 0, 0])]"
proof -
  have st: "hash_len (pv_strategy gap_provider) = 4" "st_sector_size (pv_strategy gap_provider) = 4096"
    by (simp_all add: gap_provider_def new_provider_def demo_strategy_def)
  have "tree_csums 4 4096 (TLeaf False 0x4000 gap_leaf) = [(8192, [2, 0, 0, 0]), (16384, [3, 0, 0, 0])]"
    by (simp add: tree_csums_def gap_items all_csums_def upt_rec)
  then show ?thesis by (simp add: extent_entries_def st in_span_def gap_dext_def)
qed

lemma gap_ready: "batch_ctx gap_scrub" "is_data_extent (cx_chunk_map gap_scrub) gap_dext"
  "fallback_ok gap_scrub gap_provider (TLeaf False 0x4000 gap_leaf) gap_dext"
proof -
  show "batch_ctx gap_scrub" by (simp add: batch_ctx_def gap_scrub_def demo_strategy_def CRC32C_def)
  show "is_data_extent (cx_chunk_map gap_scrub) gap_dext"
    by (simp add: gap_scrub_def gap_dext_def is_data_extent_def chunk_info_at_def chunk_find_def binary_search_by_def bs_loop.simps range_cmp_def BG_DATA_def)
  have z: "st_sector_size (cx_strategy gap_scrub) = 4096" by (simp add: gap_scrub_def demo_strategy_def)
  have "extent_fits gap_scrub gap_dext" by (simp add: extent_fits_def gap_scrub_def gap_dext_def gap_reader)
  moreover have "extent_readable gap_scrub gap_dext"
    by (simp add: extent_readable_def Let_def gap_scrub_def gap_dext_def gap_reader gap_env_def demo_env_def pread_at_def read_exact_at_def plain_disk_def
        gap_buf_props)
  ultimately show "fallback_ok gap_scrub gap_provider (TLeaf False 0x4000 gap_leaf) gap_dext"
    unfolding fallback_ok_def scrubbable_def gap_entries z by (simp add: whole_sectors_def gap_dext_def spaced_def z)
qed

text \<open>The hash of a sector is its first byte; the blocks of the one read the two sectors are fetched with are those at 8192 and 12288.\<close>

lemma le_bytes_small: "le_bytes 4 2 = [2, 0, 0, 0]" "le_bytes 4 3 = [3, 0, 0, 0]" "le_bytes 4 0 = [0, 0, 0, 0]"
proof -
  have four: "(4 :: nat) = Suc (Suc (Suc (Suc 0)))" by simp
  show "le_bytes 4 2 = [2, 0, 0, 0]" "le_bytes 4 3 = [3, 0, 0, 0]" "le_bytes 4 0 = [0, 0, 0, 0]"
    unfolding four le_bytes.simps by simp_all
qed

lemma gap_hash:
  "length b = 4096 \<Longrightarrow> sector_hash gap_scrub b = le_bytes 4 (unat (hd b))"
  by (simp add: sector_hash_def csum_compute_def hash_bytes_def gap_scrub_def demo_strategy_def gap_env_def CRC32C_def del: le_bytes.simps)

lemma gap_blocks:
  assumes "k < 3"
  shows "take 4096 (drop (159 + k * 4096) (gap_buf @ gap_sectors)) = replicate 4096 ([2, 3, 0] ! k)"
proof -
  have "k = 0 \<or> k = 1 \<or> k = 2" using assms by linarith
  then show ?thesis by (elim disjE) (simp_all add: gap_buf_props gap_sectors_def zeros_def)
qed

lemma gap_first: "run \<in> {[(8192, [2, 0, 0, 0])], [(8192, [2, 0, 0, 0]), (16384, [3, 0, 0, 0])]} \<Longrightarrow> moved_reports gap_scrub gap_dext run = []"
proof -
  have cx: "st_sector_size (cx_strategy gap_scrub) = 4096" "base_offset (cx_reader gap_scrub) = 0"
      "content (fp (cx_reader gap_scrub)) = gap_buf @ gap_sectors" "sector_phys gap_dext 8192 = 159"
    by (simp_all add: gap_scrub_def demo_strategy_def gap_reader plain_disk_def sector_phys_def gap_dext_def sub64_def add64_def)
  have h: "moved_hash gap_scrub gap_dext ((8192, c) # run) k = [[2, 0, 0, 0], [3, 0, 0, 0]] ! k" if "k < 2" for c run k
  proof -
    have "run_block gap_scrub gap_dext ((8192, c) # run) k = replicate 4096 ([2, 3, 0] ! k)"
      using gap_blocks [of k] that by (simp add: run_block_def cx)
    moreover have "k = 0 \<or> k = 1" using that by linarith
    ultimately show ?thesis
      by (elim disjE) (simp_all add: moved_hash_def gap_hash le_bytes_small del: le_bytes.simps)
  qed
  assume "run \<in> {[(8192, [2, 0, 0, 0])], [(8192, [2, 0, 0, 0]), (16384, [3, 0, 0, 0])]}"
  then have "run = [(8192, [2, 0, 0, 0])] \<or> run = [(8192, [2, 0, 0, 0]), (16384, [3, 0, 0, 0])]" by blast
  then have "moved_hash gap_scrub gap_dext run k = snd (run ! k)" if "k < length run" for k
  proof (elim disjE)
    assume run: "run = [(8192, [2, 0, 0, 0])]"
    with that have "k = 0" by simp
    then show ?thesis unfolding run by (simp add: h)
  next
    assume run: "run = [(8192, [2, 0, 0, 0]), (16384, [3, 0, 0, 0])]"
    with that have "k = 0 \<or> k = 1" by auto
    then show ?thesis unfolding run by (elim disjE) (simp_all add: h)
  qed
  then show ?thesis by (auto simp: moved_reports_def)
qed


end
