(* ===== verification/Craft_Corrupt.thy ===== *)
theory Craft_Corrupt
  imports Main_Driver Btrfs_Open
begin

text \<open>
  The corruption tool of the recovery tests (\<open>src/scrub-rs/src/bin/craft_corrupt.rs\<close>): its options, the search for a
  sector of the filesystem, the corruption of that sector under five scenarios (with parity left alone or
  recomputed from the corrupt bytes, or with a second disk corrupted), and the restoration from a backup.
  The disks are those of \<open>Array_Io\<close>; backup files live in a store of their own. Dropping the page cache and
  console output have no effect on either.
\<close>

subsection \<open>Options\<close>

definition BLOCK :: nat where "BLOCK = 4096"

datatype targets = Data | BakeP | BakeQ | BakeBoth | TwoDisk

definition targets_parse :: "string \<Rightarrow> targets option" where
  "targets_parse s =
     (if s = ''data'' then Some Data
      else if s = ''bake-p'' then Some BakeP
      else if s = ''bake-q'' then Some BakeQ
      else if s = ''bake-both'' then Some BakeBoth
      else if s = ''two-disk'' then Some TwoDisk
      else None)"

record craft_opts =
  co_sector :: nat
  co_byte_offset :: nat
  co_flip :: byte
  co_targets :: targets
  co_partner_slot :: "nat option"
  co_backup :: "path option"
  co_restore :: "path option"

definition default_craft_opts :: craft_opts where
  "default_craft_opts = \<lparr>co_sector = 0, co_byte_offset = 100, co_flip = 0x5A, co_targets = BakeP,
     co_partner_slot = None, co_backup = None, co_restore = None\<rparr>"

text \<open>\<open>trim_start_matches("0x")\<close>: every leading occurrence is removed.\<close>

fun trim_0x :: "string \<Rightarrow> string" where
  "trim_0x (c # d # s) = (if c = CHR ''0'' \<and> d = CHR ''x'' then trim_0x s else c # d # s)"
| "trim_0x s = s"

text \<open>
  The argument loop: \<open>Inl\<close> is an exit with that code, \<open>Panic\<close> a failed \<open>expect\<close> (a missing or
  malformed value), \<open>Inr\<close> the options and the positional arguments.
\<close>

fun parse_craft_args :: "string list \<Rightarrow> craft_opts \<Rightarrow> string list \<Rightarrow> (nat + craft_opts \<times> string list) run" where
  "parse_craft_args [] opts positional = Ret (Inr (opts, positional))"
| "parse_craft_args (a # args) opts positional =
     (if a = ''--sector'' then
        (case args of [] \<Rightarrow> Panic
         | v # rest \<Rightarrow> (case parse_u64 v of None \<Rightarrow> Panic
                        | Some n \<Rightarrow> parse_craft_args rest (opts\<lparr>co_sector := n\<rparr>) positional))
      else if a = ''--byte'' then
        (case args of [] \<Rightarrow> Panic
         | v # rest \<Rightarrow> (case parse_u64 v of None \<Rightarrow> Panic
                        | Some n \<Rightarrow> parse_craft_args rest (opts\<lparr>co_byte_offset := n\<rparr>) positional))
      else if a = ''--flip'' then
        (case args of [] \<Rightarrow> Panic
         | v # rest \<Rightarrow> (case parse_hex (trim_0x v) of None \<Rightarrow> Panic
                        | Some n \<Rightarrow> parse_craft_args rest (opts\<lparr>co_flip := of_nat n\<rparr>) positional))
      else if a = ''--targets'' then
        (case args of [] \<Rightarrow> Panic
         | v # rest \<Rightarrow> (case targets_parse v of None \<Rightarrow> Ret (Inl 2)
                        | Some t \<Rightarrow> parse_craft_args rest (opts\<lparr>co_targets := t\<rparr>) positional))
      else if a = ''--partner'' then
        (case args of [] \<Rightarrow> Panic
         | v # rest \<Rightarrow> (case parse_u64 v of None \<Rightarrow> Panic
                        | Some n \<Rightarrow> parse_craft_args rest (opts\<lparr>co_partner_slot := Some n\<rparr>) positional))
      else if a = ''--backup'' then
        (case args of [] \<Rightarrow> Panic | v # rest \<Rightarrow> parse_craft_args rest (opts\<lparr>co_backup := Some v\<rparr>) positional)
      else if a = ''--restore'' then
        (case args of [] \<Rightarrow> Panic | v # rest \<Rightarrow> parse_craft_args rest (opts\<lparr>co_restore := Some v\<rparr>) positional)
      else if a = ''-h'' \<or> a = ''--help'' then Ret (Inl 0)
      else if take 2 a = ''--'' then Ret (Inl 2)
      else parse_craft_args args opts (positional @ [a]))"

subsection \<open>Backup files\<close>

record file_store =
  stored_files :: "path \<rightharpoonup> bytes"
  file_write_fault :: "path \<Rightarrow> (io_kind \<times> nat option) option"
  file_read_fault :: "path \<Rightarrow> io_kind option"

text \<open>
  \<open>fs::write\<close> creates or truncates the file, then writes: a fault leaves it untouched (it could not be
  opened) or with a prefix.
\<close>

definition file_write :: "file_store \<Rightarrow> path \<Rightarrow> bytes \<Rightarrow> file_store \<times> (io_kind + unit)" where
  "file_write st p bs =
     (case file_write_fault st p of
        Some (e, None) \<Rightarrow> (st, Inl e)
      | Some (e, Some k) \<Rightarrow> (st\<lparr>stored_files := (stored_files st)(p \<mapsto> take k bs)\<rparr>, Inl e)
      | None \<Rightarrow> (st\<lparr>stored_files := (stored_files st)(p \<mapsto> bs)\<rparr>, Inr ()))"

definition file_read :: "file_store \<Rightarrow> path \<Rightarrow> io_kind + bytes" where
  "file_read st p =
     (case file_read_fault st p of Some e \<Rightarrow> Inl e
      | None \<Rightarrow> (case stored_files st p of None \<Rightarrow> Inl NotFound | Some bs \<Rightarrow> Inr bs))"

definition file_exists :: "file_store \<Rightarrow> path \<Rightarrow> bool" where
  "file_exists st p \<longleftrightarrow> stored_files st p \<noteq> None"

text \<open>
  \<open>Path::with_extension\<close>: the part of the path up to the end of the file stem, a dot and the extension; a path
  without a file name stays as it is. The stem is the file name up to its last dot, unless that dot is its
  first character.
\<close>

fun join_on :: "char \<Rightarrow> string list \<Rightarrow> string" where
  "join_on c [] = []"
| "join_on c [x] = x"
| "join_on c (x # y # xs) = x @ c # join_on c (y # xs)"

definition file_stem :: "string \<Rightarrow> string" where
  "file_stem name =
     (let before = rev (drop 1 (dropWhile (\<lambda>c. c \<noteq> CHR ''.'') (rev name)))
      in if before = [] then name else before)"

definition with_extension :: "path \<Rightarrow> string \<Rightarrow> path" where
  "with_extension p ext =
     (case file_name p of None \<Rightarrow> p
      | Some name \<Rightarrow>
          let comps = rev (dropWhile (\<lambda>c. c = [] \<or> c = ''.'') (rev (split_on (CHR ''/'') p)))
          in join_on (CHR ''/'') (butlast comps @ [file_stem name @ ''.'' @ ext]))"

subsection \<open>The sector of the filesystem\<close>

fun file_extents_of_slots :: "leaf \<Rightarrow> nat list \<Rightarrow> file_extent list \<Rightarrow> file_extent list run" where
  "file_extents_of_slots lf [] out = Ret out"
| "file_extents_of_slots lf (i # js) out =
     (let k = slot_key (slots lf ! i) in
      if key_ty k = EXTENT_DATA then
        run_bind (item_data lf i) (\<lambda>dat. run_bind (file_extent_parse dat (objectid k) (key_offset k)) (\<lambda>ext.
          file_extents_of_slots lf js (case ext of Some x \<Rightarrow> out @ [x] | None \<Rightarrow> out)))
      else file_extents_of_slots lf js out)"

definition file_extent_visitor :: "file_extent list visitor" where
  "file_extent_visitor =
     \<lparr>on_leaf = (\<lambda>lf _ exts. run_bind (file_extents_of_slots lf [0..<length (slots lf)] exts) (\<lambda>exts'. Ret (exts', Inr ()))),
      on_metadata_error = (\<lambda>_ s. s), on_stale = (\<lambda>_ s. s), on_mirror_mismatch = (\<lambda>_ s. s), on_read_error = (\<lambda>_ s. s)\<rparr>"

text \<open>The extent that holds the sector, and the sector's number in it.\<close>

fun choose_extent :: "nat \<Rightarrow> file_extent list \<Rightarrow> (file_extent \<times> nat) option" where
  "choose_extent remaining [] = None"
| "choose_extent remaining (ext # exts) =
     (let n_sectors = fe_num_bytes ext div BLOCK in
      if remaining < n_sectors then Some (ext, remaining) else choose_extent (remaining - n_sectors) exts)"

text \<open>The btrfs device id, the array offset, the logical address and the inode of the sector.\<close>

definition find_file_sector ::
  "env \<Rightarrow> fs_reader \<Rightarrow> chunk_map \<Rightarrow> nat \<Rightarrow> nat \<Rightarrow> (io_kind + nat \<times> nat \<times> nat \<times> nat) run option" where
  "find_file_sector E r cm tree_root sector =
     walk_bind (walk_leaves E r cm tree_root file_extent_visitor []) (\<lambda>(exts, res).
       case res of
         Inl e \<Rightarrow> Some (Ret (Inl e))
       | Inr u \<Rightarrow>
           if exts = [] then Some (Ret (Inl NotFound))
           else case choose_extent sector exts of
                  None \<Rightarrow> Some (Ret (Inl NotFound))
                | Some (ext, remaining) \<Rightarrow>
                    (let logical = add64 (disk_start ext) (mul64 remaining BLOCK)
                     in walk_bind (Some (chunk_lookup cm logical)) (\<lambda>m.
                          Some (Ret (case m of
                            None \<Rightarrow> Inl NotFound
                          | Some (devid, phys) \<Rightarrow> Inr (devid, phys, logical, fe_inode ext))))))"

definition locate_sector :: "env \<Rightarrow> disks \<Rightarrow> path \<Rightarrow> nat \<Rightarrow> (io_kind + nat \<times> nat \<times> nat \<times> nat) run option" where
  "locate_sector E w dev sector =
     walk_bind (open_fs E w dev 0) (\<lambda>res.
       case res of
         Inl e \<Rightarrow> Some (Ret (Inl e))
       | Inr ctx \<Rightarrow> find_file_sector E (ctx_reader ctx) (ctx_chunk_map ctx) (fs_root (ctx_roots ctx)) sector)"

subsection \<open>Crafting a corruption\<close>

text \<open>Sequencing of fallible steps (\<open>?\<close>): on values, and on the disks a write leaves behind.\<close>

definition sum_bind :: "'e + 'a \<Rightarrow> ('a \<Rightarrow> 'e + 'b) \<Rightarrow> 'e + 'b" where
  "sum_bind m f = (case m of Inl e \<Rightarrow> Inl e | Inr x \<Rightarrow> f x)"

definition then_write :: "disks \<times> (io_kind + unit) \<Rightarrow> (disks \<Rightarrow> disks \<times> (io_kind + unit)) \<Rightarrow> disks \<times> (io_kind + unit)" where
  "then_write m f = (case m of (w, Inl e) \<Rightarrow> (w, Inl e) | (w, Inr u) \<Rightarrow> f w)"

text \<open>The blocks as they were, with the two warnings about parity that is not in sync.\<close>

record snapshot_blocks =
  sn_orig :: bytes
  sn_p_path :: path
  sn_q_path :: path
  sn_p_before :: bytes
  sn_q_before :: bytes
  sn_p_warning :: bool
  sn_q_warning :: bool

definition required :: "path option \<Rightarrow> io_kind + path" where
  "required p = (case p of Some x \<Rightarrow> Inr x | None \<Rightarrow> Inl NotFound)"

definition take_snapshot :: "array_config \<Rightarrow> disks \<Rightarrow> path \<Rightarrow> nat \<Rightarrow> io_kind + snapshot_blocks" where
  "take_snapshot cfg w dev_path phys =
     sum_bind (read_block_or_zeros cfg w dev_path phys BLOCK) (\<lambda>orig.
     sum_bind (required (parity_p cfg)) (\<lambda>p_path.
     sum_bind (required (parity_q cfg)) (\<lambda>q_path.
     sum_bind (read_block_or_zeros cfg w p_path phys BLOCK) (\<lambda>p_before.
     sum_bind (read_block_or_zeros cfg w q_path phys BLOCK) (\<lambda>q_before.
     sum_bind (compute_p cfg w phys BLOCK) (\<lambda>p_expected.
     sum_bind (compute_q cfg w phys BLOCK) (\<lambda>q_expected.
       Inr \<lparr>sn_orig = orig, sn_p_path = p_path, sn_q_path = q_path, sn_p_before = p_before, sn_q_before = q_before,
            sn_p_warning = (p_before \<noteq> p_expected), sn_q_warning = (q_before \<noteq> q_expected)\<rparr>)))))))"

text \<open>\<open>block[i] ^= m\<close>: an index past the block panics.\<close>

definition flip_byte :: "nat \<Rightarrow> byte \<Rightarrow> bytes \<Rightarrow> bytes run" where
  "flip_byte i m block = (if i < length block then Ret (block[i := block ! i XOR m]) else Panic)"

definition choose_partner :: "array_config \<Rightarrow> nat \<Rightarrow> nat option \<Rightarrow> io_kind + nat \<times> path" where
  "choose_partner cfg devid slot =
     sum_bind (case slot of
                 Some s \<Rightarrow> Inr s
               | None \<Rightarrow> (case find (\<lambda>s. s \<noteq> devid) (map fst (data_devs cfg)) of Some s \<Rightarrow> Inr s | None \<Rightarrow> Inl NotFound))
       (\<lambda>chosen_slot. case data_dev cfg chosen_slot of None \<Rightarrow> Inl NotFound | Some p_path \<Rightarrow> Inr (chosen_slot, p_path))"

record partner_plan =
  pt_slot :: nat
  pt_path :: path
  pt_orig :: bytes
  pt_corrupt :: bytes

definition save_partner :: "craft_opts \<Rightarrow> partner_plan \<Rightarrow> file_store \<Rightarrow> file_store \<times> (io_kind + partner_plan option)" where
  "save_partner opts plan files =
     (case co_backup opts of
        None \<Rightarrow> (files, Inr (Some plan))
      | Some bp \<Rightarrow>
          (case file_write files (with_extension bp ''partner'') (pt_orig plan) of
             (files', Inl e) \<Rightarrow> (files', Inl e)
           | (files', Inr u) \<Rightarrow> (files', Inr (Some plan))))"

definition plan_partner ::
  "hashes \<Rightarrow> array_config \<Rightarrow> disks \<Rightarrow> nat \<Rightarrow> nat \<Rightarrow> craft_opts \<Rightarrow> file_store \<Rightarrow>
   (file_store \<times> (io_kind + partner_plan option)) run" where
  "plan_partner H cfg w devid phys opts files =
     (if co_targets opts \<noteq> TwoDisk then Ret (files, Inr None)
      else case choose_partner cfg devid (co_partner_slot opts) of
             Inl e \<Rightarrow> Ret (files, Inl e)
           | Inr (slot, p_path) \<Rightarrow>
               (case read_block_or_zeros cfg w p_path phys BLOCK of
                  Inl e \<Rightarrow> Ret (files, Inl e)
                | Inr p_orig \<Rightarrow>
                    run_bind (flip_byte (add64 (co_byte_offset opts) 1 mod BLOCK) (co_flip opts XOR 1) p_orig) (\<lambda>p_corrupt.
                      if crc32c H p_corrupt = crc32c H p_orig then Ret (files, Inl InvalidInput)
                      else Ret (save_partner opts \<lparr>pt_slot = slot, pt_path = p_path, pt_orig = p_orig, pt_corrupt = p_corrupt\<rparr> files))))"

definition save_block :: "craft_opts \<Rightarrow> bytes \<Rightarrow> file_store \<Rightarrow> file_store \<times> (io_kind + unit)" where
  "save_block opts orig files = (case co_backup opts of None \<Rightarrow> (files, Inr ()) | Some bp \<Rightarrow> file_write files bp orig)"

definition new_parity ::
  "array_config \<Rightarrow> disks \<Rightarrow> nat \<Rightarrow> nat \<Rightarrow> targets \<Rightarrow> snapshot_blocks \<Rightarrow> bytes \<Rightarrow> io_kind + bytes \<times> bytes" where
  "new_parity cfg w devid phys t sn corrupt =
     (case t of
        Data \<Rightarrow> Inr (sn_p_before sn, sn_q_before sn)
      | BakeP \<Rightarrow> sum_bind (compute_p_with_override cfg w devid corrupt phys BLOCK) (\<lambda>p. Inr (p, sn_q_before sn))
      | BakeQ \<Rightarrow> sum_bind (compute_q_with_override cfg w devid corrupt phys BLOCK) (\<lambda>q. Inr (sn_p_before sn, q))
      | BakeBoth \<Rightarrow> sum_bind (compute_p_with_override cfg w devid corrupt phys BLOCK) (\<lambda>p.
                   sum_bind (compute_q_with_override cfg w devid corrupt phys BLOCK) (\<lambda>q. Inr (p, q)))
      | TwoDisk \<Rightarrow> Inr (sn_p_before sn, sn_q_before sn))"

text \<open>The writes: the corrupt block, the parities that changed, the partner's block.\<close>

definition write_corruption ::
  "array_config \<Rightarrow> path \<Rightarrow> nat \<Rightarrow> bytes \<Rightarrow> snapshot_blocks \<Rightarrow> bytes \<times> bytes \<Rightarrow> partner_plan option \<Rightarrow> disks \<Rightarrow>
   disks \<times> (io_kind + unit)" where
  "write_corruption cfg dev_path phys corrupt sn parities partner w =
     then_write (then_write (then_write
       (write_block cfg w dev_path phys corrupt)
       (\<lambda>w. if fst parities \<noteq> sn_p_before sn then write_block cfg w (sn_p_path sn) phys (fst parities) else (w, Inr ())))
       (\<lambda>w. if snd parities \<noteq> sn_q_before sn then write_block cfg w (sn_q_path sn) phys (snd parities) else (w, Inr ())))
       (\<lambda>w. case partner of Some plan \<Rightarrow> write_block cfg w (pt_path plan) phys (pt_corrupt plan) | None \<Rightarrow> (w, Inr ()))"

text \<open>From the snapshot to the writes; the partner is always planned under \<open>TwoDisk\<close>, so its \<open>unwrap\<close> holds.\<close>

definition corrupt_stripe ::
  "hashes \<Rightarrow> array_config \<Rightarrow> nat \<Rightarrow> path \<Rightarrow> nat \<Rightarrow> craft_opts \<Rightarrow> disks \<Rightarrow> file_store \<Rightarrow>
   (disks \<times> file_store \<times> (io_kind + unit)) run" where
  "corrupt_stripe H cfg devid dev_path phys opts w files =
     (case take_snapshot cfg w dev_path phys of
        Inl e \<Rightarrow> Ret (w, files, Inl e)
      | Inr sn \<Rightarrow>
          run_bind (flip_byte (co_byte_offset opts) (co_flip opts) (sn_orig sn)) (\<lambda>corrupt.
            if crc32c H corrupt = crc32c H (sn_orig sn) then Ret (w, files, Inl InvalidInput)
            else run_bind (plan_partner H cfg w devid phys opts files) (\<lambda>(files1, pl).
              case pl of
                Inl e \<Rightarrow> Ret (w, files1, Inl e)
              | Inr partner \<Rightarrow>
                  (case save_block opts (sn_orig sn) files1 of
                     (files2, Inl e) \<Rightarrow> Ret (w, files2, Inl e)
                   | (files2, Inr u) \<Rightarrow>
                       (case new_parity cfg w devid phys (co_targets opts) sn corrupt of
                          Inl e \<Rightarrow> Ret (w, files2, Inl e)
                        | Inr parities \<Rightarrow>
                            run_assert (co_targets opts = TwoDisk \<longrightarrow> partner \<noteq> None)
                              (case write_corruption cfg dev_path phys corrupt sn parities partner w of
                                 (w', res) \<Rightarrow> Ret (w', files2, res)))))))"

definition corrupt_cmd ::
  "env \<Rightarrow> io_kind + array_config \<Rightarrow> path \<Rightarrow> craft_opts \<Rightarrow> disks \<Rightarrow> file_store \<Rightarrow>
   (disks \<times> file_store \<times> (io_kind + unit)) run option" where
  "corrupt_cmd E loaded dev opts w files =
     walk_bind (locate_sector E w dev (co_sector opts)) (\<lambda>res.
       case res of
         Inl e \<Rightarrow> Some (Ret (w, files, Inl e))
       | Inr (fs_devid, phys, logical, inode) \<Rightarrow>
           (case loaded of
              Inl e \<Rightarrow> Some (Ret (w, files, Inl e))
            | Inr cfg \<Rightarrow>
                (case slot_from_array_partition dev of
                   None \<Rightarrow> Some (Ret (w, files, Inl InvalidInput))
                 | Some devid \<Rightarrow>
                     (case data_dev cfg devid of
                        None \<Rightarrow> Some (Ret (w, files, Inl NotFound))
                      | Some dev_path \<Rightarrow>
                          Some (corrupt_stripe (env_hashes E) cfg devid dev_path phys opts w files)))))"

subsection \<open>Restoring\<close>

text \<open>The scan for the partner: the first other data disk whose block differs from the saved one is overwritten.\<close>

fun restore_partner ::
  "array_config \<Rightarrow> nat \<Rightarrow> nat \<Rightarrow> bytes \<Rightarrow> (nat \<times> path) list \<Rightarrow> disks \<Rightarrow> disks \<times> (io_kind + unit)" where
  "restore_partner cfg devid phys p_orig [] w = (w, Inr ())"
| "restore_partner cfg devid phys p_orig ((slot, p_path) # rest) w =
     (if slot = devid then restore_partner cfg devid phys p_orig rest w
      else case read_block_or_zeros cfg w p_path phys BLOCK of
             Inl e \<Rightarrow> restore_partner cfg devid phys p_orig rest w
           | Inr cur \<Rightarrow>
               if length cur = BLOCK \<and> cur \<noteq> p_orig then write_block cfg w p_path phys p_orig
               else restore_partner cfg devid phys p_orig rest w)"

definition read_backup :: "file_store \<Rightarrow> path \<Rightarrow> io_kind + bytes" where
  "read_backup files p = sum_bind (file_read files p) (\<lambda>bs. if length bs = BLOCK then Inr bs else Inl InvalidData)"

definition restore_second ::
  "array_config \<Rightarrow> nat \<Rightarrow> nat \<Rightarrow> path \<Rightarrow> file_store \<Rightarrow> disks \<Rightarrow> disks \<times> (io_kind + unit)" where
  "restore_second cfg devid phys partner_backup files w =
     (if file_exists files partner_backup then
        (case read_backup files partner_backup of
           Inl e \<Rightarrow> (w, Inl e)
         | Inr p_orig \<Rightarrow> restore_partner cfg devid phys p_orig (data_devs cfg) w)
      else (w, Inr ()))"

definition write_parity :: "array_config \<Rightarrow> nat \<Rightarrow> path option \<Rightarrow> bytes \<Rightarrow> disks \<Rightarrow> disks \<times> (io_kind + unit)" where
  "write_parity cfg phys path block w =
     (case path of Some p \<Rightarrow> write_block cfg w p phys block | None \<Rightarrow> (w, Inr ()))"

definition rebuild_parity :: "array_config \<Rightarrow> nat \<Rightarrow> disks \<Rightarrow> disks \<times> (io_kind + unit)" where
  "rebuild_parity cfg phys w =
     (case compute_p cfg w phys BLOCK of
        Inl e \<Rightarrow> (w, Inl e)
      | Inr p \<Rightarrow>
          (case compute_q cfg w phys BLOCK of
             Inl e \<Rightarrow> (w, Inl e)
           | Inr q \<Rightarrow> then_write (write_parity cfg phys (parity_p cfg) p w) (write_parity cfg phys (parity_q cfg) q)))"

definition restore_stripe ::
  "array_config \<Rightarrow> nat \<Rightarrow> path \<Rightarrow> nat \<Rightarrow> path \<Rightarrow> disks \<Rightarrow> file_store \<Rightarrow> disks \<times> (io_kind + unit)" where
  "restore_stripe cfg devid dev_path phys backup w files =
     (case read_backup files backup of
        Inl e \<Rightarrow> (w, Inl e)
      | Inr orig \<Rightarrow>
          then_write (then_write
            (write_block cfg w dev_path phys orig)
            (restore_second cfg devid phys (with_extension backup ''partner'') files))
            (rebuild_parity cfg phys))"

text \<open>Every error of a restoration ends in exit code 1.\<close>

definition restore_cmd ::
  "env \<Rightarrow> io_kind + array_config \<Rightarrow> path \<Rightarrow> path \<Rightarrow> craft_opts \<Rightarrow> disks \<Rightarrow> file_store \<Rightarrow> (disks \<times> nat) run option" where
  "restore_cmd E loaded dev backup opts w files =
     (case loaded of
        Inl e \<Rightarrow> Some (Ret (w, 1))
      | Inr cfg \<Rightarrow>
          walk_bind (locate_sector E w dev (co_sector opts)) (\<lambda>res.
            case res of
              Inl e \<Rightarrow> Some (Ret (w, 1))
            | Inr (fs_devid, phys, logical, inode) \<Rightarrow>
                (case slot_from_array_partition dev of
                   None \<Rightarrow> Some (Ret (w, 1))
                 | Some devid \<Rightarrow>
                     (case data_dev cfg devid of
                        None \<Rightarrow> Some (Ret (w, 1))
                      | Some dev_path \<Rightarrow>
                          (case restore_stripe cfg devid dev_path phys backup w files of
                             (w', Inl e) \<Rightarrow> Some (Ret (w', 1))
                           | (w', Inr u) \<Rightarrow> Some (Ret (w', 0)))))))"

subsection \<open>The program\<close>

definition craft_main ::
  "env \<Rightarrow> io_kind + array_config \<Rightarrow> string list \<Rightarrow> disks \<Rightarrow> file_store \<Rightarrow> (disks \<times> file_store \<times> nat) run option" where
  "craft_main E loaded args w files =
     (if args = [] then Some (Ret (w, files, 2))
      else walk_bind (Some (parse_craft_args args default_craft_opts [])) (\<lambda>parsed.
        case parsed of
          Inl code \<Rightarrow> Some (Ret (w, files, code))
        | Inr (opts, positional) \<Rightarrow>
            (case positional of
               [dev, file_path] \<Rightarrow>
                 (case co_restore opts of
                    Some backup \<Rightarrow>
                      walk_bind (restore_cmd E loaded dev backup opts w files) (\<lambda>(w', code). Some (Ret (w', files, code)))
                  | None \<Rightarrow>
                      walk_bind (corrupt_cmd E loaded dev opts w files) (\<lambda>(w', files', res).
                        Some (Ret (w', files', case res of Inr u \<Rightarrow> 0 | Inl e \<Rightarrow> 1))))
             | _ \<Rightarrow> Some (Ret (w, files, 2)))))"

end
