(* ===== verification/Engine_Partner.thy ===== *)
theory Engine_Partner
  imports Recovery_Engine
begin

text \<open>
  Which disk the two-disk solve of \<open>src/scrub-rs/src/recovery/engine.rs\<close> blames. With P and Q intact and exactly one
  other disk damaged, a solve with a healthy partner rebuilds a wrong block wherever the damage is, so a
  verifier that accepts the original block only leaves exactly one partner.
\<close>

context parity_field
begin

text \<open>
  Damage \<open>x\<close> on disk \<open>t\<close> shifts the solution with partner \<open>s\<close> by \<open>x XOR h\<close>, where \<open>h\<close> solves the
  equation below; the shift is not zero unless \<open>s\<close> is \<open>t\<close>.
\<close>

lemma misattributed_shift:
  assumes "gen k \<noteq> gen s"
  shows "\<exists>h. mul (gen k XOR gen s) h = mul (gen k XOR gen t) x \<and> (x \<noteq> 0 \<longrightarrow> gen s \<noteq> gen t \<longrightarrow> h \<noteq> x)"
proof (intro exI conjI impI)
  let ?h = "mul (inv (gen k XOR gen s)) (mul (gen k XOR gen t) x)"
  have nz: "gen k XOR gen s \<noteq> 0" using assms by simp
  show h: "mul (gen k XOR gen s) ?h = mul (gen k XOR gen t) x"
    by (simp only: mul_ass [symmetric] mul_inverse [OF nz] mul_unit)
  assume x: "x \<noteq> 0" and st: "gen s \<noteq> gen t"
  show "?h \<noteq> x"
  proof
    assume "?h = x"
    with h have "mul x (gen k XOR gen s) = mul x (gen k XOR gen t)" by (simp only: mul_comm [of x])
    then have "mul x (gen k) XOR mul x (gen s) = mul x (gen k) XOR mul x (gen t)" by (simp only: mul_distrib)
    then have "mul x (gen s) = mul x (gen t)" by (metis xor_cancel_left)
    then show False using st inverse_cancel [OF x] by metis
  qed
qed

end

subsection \<open>A stripe with one block replaced\<close>

definition replace_block :: "nat \<Rightarrow> bytes \<Rightarrow> (nat \<times> bytes) list \<Rightarrow> (nat \<times> bytes) list" where
  "replace_block t e' xs = map (\<lambda>(s, b). if s = t then (s, e') else (s, b)) xs"

lemma replace_block_slots [simp]: "map fst (replace_block t e' xs) = map fst xs"
  by (simp add: replace_block_def case_prod_unfold)

lemma replace_block_mem:
  "(s, b) \<in> set (replace_block t e' xs) \<longleftrightarrow> (s = t \<and> b = e' \<and> t \<in> fst ` set xs) \<or> (s \<noteq> t \<and> (s, b) \<in> set xs)"
proof (induction xs)
  case (Cons x xs)
  then show ?case by (cases x; cases "fst x = t") (auto simp: replace_block_def)
qed (simp add: replace_block_def)

lemma replace_block_slot_set [simp]: "fst ` set (replace_block t e' xs) = fst ` set xs"
  using arg_cong [OF replace_block_slots [of t e' xs], of set] by (simp only: set_map)

lemma replace_block_filter: "filter (\<lambda>(s, _). s \<noteq> t) (replace_block t e' xs) = filter (\<lambda>(s, _). s \<noteq> t) xs"
  by (induction xs) (auto simp: replace_block_def)

lemma replace_block_lengths: "lengths_ok n xs \<Longrightarrow> length e' = n \<Longrightarrow> lengths_ok n (replace_block t e' xs)"
  by (auto simp: lengths_ok_def replace_block_def split: if_splits)

lemma replace_block_stripe: "stripe_ok n k xs \<Longrightarrow> length e' = n \<Longrightarrow> stripe_ok n k (replace_block t e' xs)"
  by (simp add: stripe_ok_def replace_block_lengths del: set_map)

lemma replace_block_sum:
  assumes "distinct (map fst xs)" "(t, e) \<in> set xs"
  shows "xor_sum (map f (replace_block t e' xs)) = xor_sum (map f xs) XOR f (t, e) XOR f (t, e')"
proof -
  have "(t, e') \<in> set (replace_block t e' xs)" using assms(2) by (force simp: replace_block_mem)
  moreover have "distinct (map fst (replace_block t e' xs))" using assms(1) by simp
  ultimately show ?thesis
    using xor_sum_extract [OF assms, of f] xor_sum_extract [of "replace_block t e' xs" t e' f] by (simp add: replace_block_filter byte_ops)
qed

lemma replace_block_columns:
  assumes "stripe_ok n k xs" "(t, e) \<in> set xs"
  shows "p_column (replace_block t e' xs) i = p_column xs i XOR (e ! i XOR e' ! i)"
    and "q_column (replace_block t e' xs) i = q_column xs i XOR gf_mul (gf_exp (slot_exponent t)) (e ! i XOR e' ! i)"
proof -
  have d: "distinct (map fst xs)" using assms(1) by (simp add: stripe_ok_def)
  show "p_column (replace_block t e' xs) i = p_column xs i XOR (e ! i XOR e' ! i)"
    using replace_block_sum [OF d assms(2), of "\<lambda>(_, b). b ! i" e'] by (simp add: p_column_def byte_ops)
  show "q_column (replace_block t e' xs) i = q_column xs i XOR gf_mul (gf_exp (slot_exponent t)) (e ! i XOR e' ! i)"
    using replace_block_sum [OF d assms(2), of "\<lambda>(s, b). gf_mul (gf_exp (slot_exponent s)) (b ! i)" e']
    by (simp add: q_column_def gf.mul_distrib byte_ops)
qed

subsection \<open>Solving with the wrong partner\<close>

text \<open>The hypotheses: \<open>gold\<close> is the stripe parity was computed over, \<open>e'\<close> the damaged block of disk \<open>t\<close>.\<close>

definition one_damaged :: "nat \<Rightarrow> nat \<Rightarrow> bytes \<Rightarrow> (nat \<times> bytes) list \<Rightarrow> nat \<Rightarrow> bytes \<Rightarrow> bytes \<Rightarrow> bytes \<Rightarrow> bytes \<Rightarrow> bool" where
  "one_damaged n k d gold t e e' p q \<longleftrightarrow>
     stripe_ok n k gold \<and> (t, e) \<in> set gold \<and> length e' = n \<and> e' \<noteq> e \<and> length d = n \<and>
     p_consistent n d gold p \<and> q_consistent n k d gold q"

lemma gf_exp_slots_differ: "1 \<le> s \<Longrightarrow> s \<le> 255 \<Longrightarrow> 1 \<le> t \<Longrightarrow> t \<le> 255 \<Longrightarrow> s \<noteq> t \<Longrightarrow> gf_exp (slot_exponent s) \<noteq> gf_exp (slot_exponent t)"
  by (simp add: gf_exp_eq_iff slot_exponent_ok)

lemma wrong_partner_rejected:
  assumes dm: "one_damaged n k d gold t e e' p q" and s: "(s, b) \<in> set (replace_block t e' gold)" "s \<noteq> t"
  shows "\<exists>c. solve_two_disk p q (replace_block t e' gold) s k n = Ret (Some c) \<and> c \<noteq> d"
proof -
  let ?os = "replace_block t e' gold" and ?g = "\<lambda>s. gf_exp (slot_exponent s)"
  have gold: "stripe_ok n k gold" and te: "(t, e) \<in> set gold" and len: "length e' = n" "length d = n" and ne: "e' \<noteq> e"
    and pc: "p_consistent n d gold p" and qc: "q_consistent n k d gold q"
    using dm by (simp_all add: one_damaged_def)
  have os: "stripe_ok n k ?os" using replace_block_stripe [OF gold len(1)] .
  have sb: "(s, b) \<in> set gold" using s by (simp add: replace_block_mem)
  have "length e = n" and lb: "length b = n" using gold te sb by (auto simp: stripe_ok_def lengths_ok_def)
  then obtain j where j: "j < n" "e ! j \<noteq> e' ! j" using ne len(1) by (metis nth_equalityI)
  have slots: "1 \<le> k" "k \<le> 255" "1 \<le> s" "s \<le> 255" "1 \<le> t" "t \<le> 255" "s \<noteq> k"
    using gold sb te by (force simp: stripe_ok_def)+
  define x where "x i = e ! i XOR e' ! i" for i
  have "\<forall>i. \<exists>h. gf_mul (?g k XOR ?g s) h = gf_mul (?g k XOR ?g t) (x i) \<and> (x i \<noteq> 0 \<longrightarrow> ?g s \<noteq> ?g t \<longrightarrow> h \<noteq> x i)"
    using gf_exp_slots_differ [OF slots(1,2,3,4)] slots(7) gf.misattributed_shift by blast
  then obtain h where h: "gf_mul (?g k XOR ?g s) (h i) = gf_mul (?g k XOR ?g t) (x i)" "x i \<noteq> 0 \<longrightarrow> ?g s \<noteq> ?g t \<longrightarrow> h i \<noteq> x i" for i
    by metis
  define c where "c = map (\<lambda>i. d ! i XOR x i XOR h i) [0..<n]"
  define y where "y = map (\<lambda>i. b ! i XOR h i) [0..<n]"
  have ci: "c ! i = d ! i XOR x i XOR h i" "y ! i = b ! i XOR h i" if "i < n" for i
    using that by (simp_all add: c_def y_def)
  have cols: "p_column (replace_block s y ?os) i = p_column gold i XOR x i XOR h i"
    "q_column (replace_block s y ?os) i = q_column gold i XOR gf_mul (?g t) (x i) XOR gf_mul (?g s) (h i)" if "i < n" for i
    using replace_block_columns [OF os s(1), of y i] replace_block_columns [OF gold te, of e' i] ci [OF that]
    by (simp_all add: x_def byte_ops)
  have "p_consistent n c (replace_block s y ?os) p"
    using pc cols(1) ci(1) by (simp add: p_consistent_def byte_ops)
  moreover have "q_consistent n k c (replace_block s y ?os) q"
  proof -
    have "gf_mul (?g k) (c ! i) XOR q_column (replace_block s y ?os) i = gf_mul (?g k) (d ! i) XOR q_column gold i" if "i < n" for i
    proof -
      have "gf_mul (h i) (?g k) XOR gf_mul (h i) (?g s) = gf_mul (x i) (?g k) XOR gf_mul (x i) (?g t)"
        using h(1) [of i] by (simp only: gf.mul_comm [of "_ XOR _"] gf.mul_distrib)
      then have "gf_mul (?g k) (h i) XOR gf_mul (?g s) (h i) = gf_mul (?g k) (x i) XOR gf_mul (?g t) (x i)"
        by (simp only: gf.mul_comm)
      then have "(gf_mul (?g k) (x i) XOR gf_mul (?g t) (x i)) XOR (gf_mul (?g k) (h i) XOR gf_mul (?g s) (h i)) = 0" by simp
      moreover have "gf_mul (?g k) (c ! i) XOR q_column (replace_block s y ?os) i =
          (gf_mul (?g k) (d ! i) XOR q_column gold i) XOR
          ((gf_mul (?g k) (x i) XOR gf_mul (?g t) (x i)) XOR (gf_mul (?g k) (h i) XOR gf_mul (?g s) (h i)))"
        using cols(2) [OF that] ci(1) [OF that] by (simp add: gf.mul_distrib byte_ops)
      ultimately show ?thesis by simp
    qed
    then show ?thesis using qc by (simp add: q_consistent_def)
  qed
  moreover have st: "stripe_ok n k (replace_block s y ?os)" using replace_block_stripe [OF os] by (simp add: y_def)
  moreover have "s \<in> fst ` set ?os" using s(1) by (force simp del: replace_block_slot_set)
  then have "(s, y) \<in> set (replace_block s y ?os)" by (simp add: replace_block_mem [of s y s])
  moreover have "good_disks ?os s k = good_disks (replace_block s y ?os) s k"
    using st os by (subst (1 2) good_disks_fresh) (auto simp: stripe_ok_def replace_block_filter)
  ultimately have "solve_two_disk p q ?os s k n = Ret (Some c)"
    by (intro solve_two_disk_correct [of n k "replace_block s y ?os" s y c]) (simp_all add: c_def)
  moreover have "c \<noteq> d"
  proof
    assume "c = d"
    with ci(1) [OF j(1)] have "x j = h j" by (metis xor_cancel_left xor.commute xor_eq_0_iff_byte xor.assoc)
    moreover have "x j \<noteq> 0" using j(2) by (simp add: x_def)
    ultimately show False using h(2) [of j] gf_exp_slots_differ [of s t] slots s(2) by metis
  qed
  ultimately show ?thesis by blast
qed

subsection \<open>The partner that is blamed\<close>

lemma pq_loop_blames:
  assumes "t \<in> fst ` set rest" and "\<forall>s \<in> fst ` set rest. \<exists>c. solve_two_disk p q (other_blocks input) s (failing_slot input) n = Ret (Some c) \<and>
      (verifier input c \<longleftrightarrow> s = t)"
    and "solve_two_disk p q (other_blocks input) t (failing_slot input) n = Ret (Some d)"
  shows "pq_loop input n p q tried rest = Ret (Inl (Recovered (ViaPQ t) d))"
  using assms(1,2)
proof (induction rest arbitrary: tried)
  case (Cons x rest)
  obtain s b where x: "x = (s, b)" by (cases x)
  obtain c where c: "solve_two_disk p q (other_blocks input) s (failing_slot input) n = Ret (Some c)" "verifier input c \<longleftrightarrow> s = t"
    using Cons.prems(2) x by auto
  show ?case
  proof (cases "s = t")
    case True
    with c assms(3) x show ?thesis by simp
  next
    case False
    with Cons.prems x have "t \<in> fst ` set rest" by auto
    with Cons.IH [of "tried @ [s]"] Cons.prems(2) c False x show ?thesis by simp
  qed
qed simp

lemma damaged_columns:
  assumes "one_damaged n k d gold t e e' p q" "i < n"
  shows "p ! i = (d ! i XOR (e ! i XOR e' ! i)) XOR p_column (replace_block t e' gold) i"
    and "q ! i = gf_mul (gf_exp (slot_exponent k)) (d ! i) XOR gf_mul (gf_exp (slot_exponent t)) (e ! i XOR e' ! i) XOR
      q_column (replace_block t e' gold) i"
  using assms replace_block_columns [of n k gold t e e' i]
  by (simp_all add: one_damaged_def p_consistent_def q_consistent_def byte_ops)

lemma single_paths_fail:
  assumes dm: "one_damaged n k d gold t e e' p q"
    and input: "failing_slot input = k" "other_blocks input = replace_block t e' gold" "p_block input = Some p" "q_block input = Some q"
      "length (corrupt_block input) = n"
    and ex: "\<forall>b. length b = n \<longrightarrow> verifier input b = (b = d)"
  shows "\<exists>pr. p_stage input n = Ret (Inr pr)" "\<exists>qr. q_stage input n = Ret (Inr qr)"
proof -
  let ?os = "replace_block t e' gold" and ?g = "\<lambda>s. gf_exp (slot_exponent s)"
  have gold: "stripe_ok n k gold" and te: "(t, e) \<in> set gold" and len: "length e' = n" "length d = n" and ne: "e' \<noteq> e"
    using dm by (simp_all add: one_damaged_def)
  have slots: "1 \<le> k" "k \<le> 255" "1 \<le> t" "t \<le> 255" using gold te by (force simp: stripe_ok_def)+
  have lo: "lengths_ok n ?os" using replace_block_stripe [OF gold len(1)] by (simp add: stripe_ok_def)
  have lp: "length p = n" "length q = n" using dm by (simp_all add: one_damaged_def p_consistent_def q_consistent_def)
  have "length e = n" using gold te by (auto simp: stripe_ok_def lengths_ok_def)
  then obtain j where j: "j < n" "e ! j \<noteq> e' ! j" using ne len(1) by (metis nth_equalityI)
  define x where "x i = e ! i XOR e' ! i" for i
  have xj: "x j \<noteq> 0" using j by (simp add: x_def)
  define dp where "dp = map (\<lambda>i. d ! i XOR x i) [0..<n]"
  define dq where "dq = map (\<lambda>i. d ! i XOR gf_mul (gf_exp (- slot_exponent k)) (gf_mul (?g t) (x i))) [0..<n]"
  have unit: "gf_mul (?g k) (gf_mul (gf_exp (- slot_exponent k)) z) = z" for z
    using gf.single_erasure [of "slot_exponent k" z] by (simp add: gf.mul_left_comm)
  have "p_consistent n dp ?os p"
    using lp damaged_columns(1) [OF dm] by (simp add: p_consistent_def dp_def x_def byte_ops)
  then have rp: "recover_via_p (corrupt_block input) ?os p n = Ret dp"
    using input(5) lo by (intro recover_via_p_correct) (simp_all add: dp_def)
  have "q_consistent n k dq ?os q"
    using lp damaged_columns(2) [OF dm] by (simp add: q_consistent_def dq_def x_def unit gf.mul_distrib xor.assoc)
  then have rq: "gf_mul_into (zeros n) (q_accumulate q ?os) (gf_exp (wrap_i32 (- slot_exponent k))) = dq"
    using lo slots by (intro q_reconstruct_correct) (simp_all add: dq_def)
  have "dp ! j \<noteq> d ! j" using j(1) xj by (simp add: dp_def) (metis xor_cancel_left xor_self_word)
  then have np: "\<not> verifier input dp" using ex by (auto simp: dp_def)
  have gx: "gf_mul (gf_exp (- slot_exponent k)) (gf_mul (?g t) (x j)) \<noteq> 0"
    using xj unit gf.single_erasure [of "slot_exponent t" "x j"] gf.mul_null by metis
  then have "dq ! j \<noteq> d ! j" using j(1) by (simp add: dq_def) (metis xor_cancel_left xor_self_word)
  then have nq: "\<not> verifier input dq" using ex by (auto simp: dq_def)
  show "\<exists>pr. p_stage input n = Ret (Inr pr)" using input lp rp np by (simp add: p_stage_def Let_def)
  show "\<exists>qr. q_stage input n = Ret (Inr qr)" using input lp rq nq by (simp add: q_stage_def recover_via_q_def Let_def)
qed

text \<open>the engine blames the right disk: with P and Q intact and exactly one other disk damaged, both
  single-parity paths fail, and the original block is returned as recovered with that disk as the partner.\<close>

lemma recover_block_blames:
  assumes dm: "one_damaged n k d gold t e e' p q"
    and input: "failing_slot input = k" "other_blocks input = replace_block t e' gold" "p_block input = Some p" "q_block input = Some q"
      "length (corrupt_block input) = n"
    and ex: "\<forall>b. length b = n \<longrightarrow> verifier input b = (b = d)" and bad: "unreadable_source input \<or> corrupt_block input \<noteq> d"
  shows "recover_block input n = Ret (Recovered (ViaPQ t) d)"
proof -
  let ?os = "replace_block t e' gold"
  have gold: "stripe_ok n k gold" and te: "(t, e) \<in> set gold" and len: "length e' = n" "length d = n"
    using dm by (simp_all add: one_damaged_def)
  have fresh: "k \<notin> fst ` set gold" "k \<notin> fst ` set ?os"
    using gold by (simp_all add: stripe_ok_def)
  then have "good_disks ?os t k = good_disks gold t k" by (simp add: good_disks_fresh replace_block_filter)
  then have hit: "solve_two_disk p q ?os t k n = Ret (Some d)"
    using dm by (intro solve_two_disk_correct [OF gold te]) (simp_all add: one_damaged_def)
  have "\<exists>c. solve_two_disk p q ?os s k n = Ret (Some c) \<and> (verifier input c \<longleftrightarrow> s = t)" if "s \<in> fst ` set ?os" for s
  proof (cases "s = t")
    case True
    with hit ex len(2) show ?thesis by auto
  next
    case False
    from that obtain x where "s = fst x" "x \<in> set ?os" by (rule imageE)
    then have "(s, snd x) \<in> set ?os" by simp
    from wrong_partner_rejected [OF dm this False] obtain c where c: "solve_two_disk p q ?os s k n = Ret (Some c)" "c \<noteq> d" by blast
    with solve_two_disk_length [OF c(1)] ex False show ?thesis by auto
  qed
  moreover have "t \<in> fst ` set ?os" using te by force
  ultimately have "pq_loop input n p q [] ?os = Ret (Inl (Recovered (ViaPQ t) d))"
    using pq_loop_blames [of t ?os p q input n d "[]"] hit input(1,2) by simp
  then have fin: "final_stage input n pr qr = Ret (Recovered (ViaPQ t) d)" for pr qr
    using input by (simp add: final_stage_def Let_def)
  from single_paths_fail [OF dm input ex] obtain pr qr where "p_stage input n = Ret (Inr pr)" "q_stage input n = Ret (Inr qr)" by blast
  with fin input(5) ex bad show ?thesis by (auto simp: recover_block_def)
qed

end
