(* ===== verification/Array_View.thy ===== *)
theory Array_View
  imports Pipeline
begin

text \<open>
  The array as bytes: what a write, completed or not, does to each byte of the array space of an honest disk, and
  the relation \<open>keeps_gold\<close> between two states of the disks that bytes once right stay right.
\<close>

subsection \<open>Writes byte by byte\<close>

lemma overwrite_byte:
  "(if j < length (overwrite c off bs) then overwrite c off bs ! j else 0) =
     (if off \<le> j \<and> j < off + length bs then bs ! (j - off) else if j < length c then c ! j else (0::byte))"
  by (auto simp: overwrite_def nth_append zeros_def min_def not_less)

text \<open>Whatever the outcome, an honest disk holds a prefix of the block.\<close>

lemma write_block_shape:
  assumes "honest_at w dev" "write_block cfg w dev a bs = (w', r)"
  shows "\<exists>d m. w dev = Some d \<and> w' = w(dev \<mapsto> d\<lparr>content := overwrite (content d) (add64 a (raw_offset_for cfg dev)) (take m bs)\<rparr>)"
proof -
  from assms(1) obtain d where d: "w dev = Some d" "open_fault d = None" "\<forall>off b. stored_as d off b = b"
    by (auto simp: honest_at_def honest_disk_def)
  let ?raw = "add64 a (raw_offset_for cfg dev)"
  have "\<exists>m. fst (write_all_at d ?raw bs) = d\<lparr>content := overwrite (content d) ?raw (take m bs)\<rparr>"
    using d(3) by (auto simp: write_all_at_def Let_def split: option.splits intro: exI [of _ "length bs"])
  then show ?thesis
    using assms(2) d(1,2) by (auto simp: write_block_def file_open_def Let_def split: prod.splits sum.splits)
qed

lemma write_block_byte:
  assumes "honest_at w dev" "write_block cfg w dev a bs = (w', r)" "a + raw_offset_for cfg dev + length bs \<le> 2 ^ 64" "bs \<noteq> []"
  shows "array_byte cfg w' x i = array_byte cfg w x i \<or> x = dev \<and> a \<le> i \<and> i < a + length bs \<and> array_byte cfg w' x i = bs ! (i - a)"
proof (cases "x = dev")
  case True
  from write_block_shape [OF assms(1,2)] obtain d m where d: "w dev = Some d"
    "w' = w(dev \<mapsto> d\<lparr>content := overwrite (content d) (add64 a (raw_offset_for cfg dev)) (take m bs)\<rparr>)" by blast
  let ?r = "raw_offset_for cfg dev"
  have raw: "add64 a ?r = a + ?r" using assms(3,4) by (cases bs) simp_all
  have "array_byte cfg w' dev i = (let c = overwrite (content d) (a + ?r) (take m bs) in if i + ?r < length c then c ! (i + ?r) else 0)"
    by (simp add: array_byte_def d(2) raw Let_def)
  also have "\<dots> = (if a \<le> i \<and> i < a + length (take m bs) then take m bs ! (i - a) else array_byte cfg w dev i)"
    using overwrite_byte [of "i + ?r" "content d" "a + ?r" "take m bs"] by (simp add: array_byte_def d(1) Let_def)
  finally have eq: "array_byte cfg w' dev i = (if a \<le> i \<and> i < a + length (take m bs) then take m bs ! (i - a) else array_byte cfg w dev i)" .
  show ?thesis
  proof (cases "a \<le> i \<and> i < a + length (take m bs)")
    case inside: True
    then have "take m bs ! (i - a) = bs ! (i - a)" "i < a + length bs" by (auto intro!: nth_take)
    with eq True inside show ?thesis by simp
  next
    case False
    then show ?thesis using eq True by auto
  qed
next
  case False
  with write_block_other [OF this, of cfg w a bs] assms(2) show ?thesis by (simp add: array_byte_def)
qed

subsection \<open>Disks that take every write\<close>

lemma write_honest: "honest_at w p \<Longrightarrow> write_block cfg w dev a bs = (w', r) \<Longrightarrow> honest_at w' p"
  using stripe.wr_honest [of w p cfg dev a bs] by simp

lemma healthy_keeps:
  assumes "healthy_at cfg w p a n" "honest_at w dev" "write_block cfg w dev a' bs = (w', r)"
  shows "healthy_at cfg w' p a n"
proof (cases "p = dev")
  case True
  from write_block_shape [OF assms(2,3)] obtain d m where d: "w dev = Some d"
    "w' = w(dev \<mapsto> d\<lparr>content := overwrite (content d) (add64 a' (raw_offset_for cfg dev)) (take m bs)\<rparr>)" by blast
  with assms(1) True show ?thesis by (auto simp: healthy_at_def honest_disk_def overwrite_length)
next
  case False
  from write_block_other [OF this, of cfg w a' bs] assms(1,3) show ?thesis by (simp add: healthy_at_def)
qed

lemma honest_reads: "honest_at w dev \<Longrightarrow> \<exists>b. read_block_or_zeros cfg w dev a n = Inr b"
  by (auto simp: honest_at_def honest_disk_def read_block_or_zeros_def file_open_def device_size_def read_exact_at_def Let_def)

lemma gather_data_reads:
  assumes "\<forall>(s, x) \<in> set devs. s \<noteq> k \<longrightarrow> honest_at w x"
  shows "\<exists>os. gather_data cfg w k a n devs = Inr os"
  using assms
proof (induction devs)
  case (Cons y devs)
  obtain s x where y: "y = (s, x)" by (cases y)
  from Cons obtain os where "gather_data cfg w k a n devs = Inr os" by auto
  with Cons.prems y honest_reads [of w x cfg a n] show ?case by (cases "s = k") auto
qed simp

subsection \<open>Bytes that stay right\<close>

text \<open>\<open>g\<close> gives the right byte at every place of the array.\<close>

definition keeps_gold :: "array_config \<Rightarrow> (path \<Rightarrow> nat \<Rightarrow> byte) \<Rightarrow> disks \<Rightarrow> disks \<Rightarrow> bool" where
  "keeps_gold cfg g w w' \<longleftrightarrow> (\<forall>x i. array_byte cfg w x i = g x i \<longrightarrow> array_byte cfg w' x i = g x i)"

lemma keeps_gold_refl [simp]: "keeps_gold cfg g w w"
  by (simp add: keeps_gold_def)

lemma keeps_gold_trans: "keeps_gold cfg g w w1 \<Longrightarrow> keeps_gold cfg g w1 w2 \<Longrightarrow> keeps_gold cfg g w w2"
  by (simp add: keeps_gold_def)

text \<open>Writing right bytes keeps every right byte, also when the write stops half way.\<close>

lemma write_keeps_gold:
  assumes "honest_at w dev" "write_block cfg w dev a bs = (w', r)" "a + raw_offset_for cfg dev + length bs \<le> 2 ^ 64" "bs \<noteq> []"
    and "\<forall>i < length bs. bs ! i = g dev (a + i)"
  shows "keeps_gold cfg g w w'"
  unfolding keeps_gold_def
proof (intro allI impI)
  fix x i
  assume "array_byte cfg w x i = g x i"
  with write_block_byte [OF assms(1-4), of x i] assms(5) show "array_byte cfg w' x i = g x i"
    by (auto dest: spec [of _ "i - a"])
qed

text \<open>A block of right bytes is the block the reader wants.\<close>

lemma read_gold:
  assumes "read_block_or_zeros cfg w dev a n = Inr b" "a + raw_offset_for cfg dev + n \<le> 2 ^ 64" "length d = n"
  shows "b = d \<longleftrightarrow> (\<forall>i < n. array_byte cfg w dev (a + i) = d ! i)"
  using read_block_nth [OF assms(1)] assms(2,3) read_block_length [OF assms(1)]
  by (auto intro: nth_equalityI)

end
