(* ===== verification/Craft_Props.thy ===== *)
theory Craft_Props
  imports Craft_Corrupt Engine_Partner Array_View
begin

text \<open>
  What the corruption tool does to the array: where it writes, the outcome of a scrub it predicts for each
  scenario (proved of the recovery engine on the crafted array), the restoration as the inverse of the
  corruption, and the condition under which the restoration hits the wrong disk.
\<close>

subsection \<open>Sequencing\<close>

lemma sum_bind_simps [simp]: "sum_bind (Inl e) f = Inl e" "sum_bind (Inr x) f = f x"
  by (simp_all add: sum_bind_def)

lemma sum_bind_Inr: "sum_bind m f = Inr y \<longleftrightarrow> (\<exists>x. m = Inr x \<and> f x = Inr y)"
  by (cases m) simp_all

lemma then_write_simps [simp]: "then_write (w, Inl e) f = (w, Inl e)" "then_write (w, Inr u) f = f w"
  by (simp_all add: then_write_def)

lemma then_write_Inr: "then_write m f = (w', Inr u) \<longleftrightarrow> (\<exists>w1. m = (w1, Inr ()) \<and> f w1 = (w', Inr u))"
  by (cases m; cases "snd m") (simp_all add: then_write_def)

subsection \<open>The blocks at one array offset\<close>

text \<open>What every path reads at the offset, as one function; a completed write updates it at one path.\<close>

definition blocks :: "array_config \<Rightarrow> disks \<Rightarrow> nat \<Rightarrow> path \<Rightarrow> io_kind + bytes" where
  "blocks cfg w a dev = read_block_or_zeros cfg w dev a BLOCK"

lemma blocks_length: "blocks cfg w a dev = Inr b \<Longrightarrow> length b = BLOCK"
  by (simp add: blocks_def read_block_length)

lemma honest_read: "honest_at w dev \<Longrightarrow> \<exists>b. blocks cfg w a dev = Inr b"
  by (auto simp: blocks_def honest_at_def honest_disk_def read_block_or_zeros_def file_open_def device_size_def
      read_exact_at_def Let_def)

lemma blocks_write:
  assumes "honest_at w dev" "write_block cfg w dev a bs = (w', Inr ())" "length bs = BLOCK"
  shows "blocks cfg w' a = (blocks cfg w a)(dev := Inr bs)"
proof
  fix x
  show "blocks cfg w' a x = ((blocks cfg w a)(dev := Inr bs)) x"
    using stripe.rd_wr [OF assms(1,2)] stripe.wr_frame [of x dev cfg w a bs a BLOCK] assms(2,3)
    by (simp add: blocks_def)
qed

text \<open>\<open>all_honest\<close>: every disk of the array keeps what it is given.\<close>

definition all_honest :: "array_config \<Rightarrow> disks \<Rightarrow> bool" where
  "all_honest cfg w \<longleftrightarrow> (\<forall>p \<in> config_paths cfg. honest_at w p)"

lemma all_honest_write: "all_honest cfg w \<Longrightarrow> write_block cfg w dev a bs = (w', r) \<Longrightarrow> all_honest cfg w'"
  using write_honest by (auto simp: all_honest_def)

lemma config_paths_mem:
  "data_dev cfg s = Some p \<Longrightarrow> p \<in> config_paths cfg" "(s, p) \<in> set (data_devs cfg) \<Longrightarrow> p \<in> config_paths cfg"
  "parity_p cfg = Some p \<Longrightarrow> p \<in> config_paths cfg" "parity_q cfg = Some p \<Longrightarrow> p \<in> config_paths cfg"
  by (auto simp: config_paths_def data_dev_def dest!: map_of_SomeD intro: rev_image_eqI)

subsection \<open>Parity and stripes as functions of the blocks\<close>

lemma parity_loops_cong:
  assumes "\<forall>(s, dev) \<in> set devs. blocks cfg w a dev = blocks cfg w0 a dev"
  shows "p_loop cfg w ov a BLOCK acc devs = p_loop cfg w0 ov a BLOCK acc devs"
    and "q_loop cfg w ov a BLOCK acc devs = q_loop cfg w0 ov a BLOCK acc devs"
proof -
  have src: "parity_source cfg w ov a BLOCK s dev = parity_source cfg w0 ov a BLOCK s dev" if "(s, dev) \<in> set devs" for s dev
    using assms that by (auto simp: parity_source_def blocks_def split: option.splits)
  show "p_loop cfg w ov a BLOCK acc devs = p_loop cfg w0 ov a BLOCK acc devs"
    using assms src
  proof (induction devs arbitrary: acc)
    case (Cons x devs)
    then show ?case by (cases x) (auto split: sum.split)
  qed simp
  show "q_loop cfg w ov a BLOCK acc devs = q_loop cfg w0 ov a BLOCK acc devs"
    using assms src
  proof (induction devs arbitrary: acc)
    case (Cons x devs)
    then show ?case by (cases x) (auto split: sum.split)
  qed simp
qed

lemma compute_cong:
  assumes "\<forall>(s, dev) \<in> set (data_devs cfg). blocks cfg w a dev = blocks cfg w0 a dev"
  shows "compute_p cfg w a BLOCK = compute_p cfg w0 a BLOCK" "compute_q cfg w a BLOCK = compute_q cfg w0 a BLOCK"
  using parity_loops_cong [OF assms] by (simp_all add: compute_p_def compute_q_def)

lemma gather_data_blocks:
  assumes "\<forall>(s, dev) \<in> set devs. s \<noteq> k \<longrightarrow> blocks cfg w a dev = blocks cfg w0 a dev"
  shows "gather_data cfg w k a BLOCK devs = gather_data cfg w0 k a BLOCK devs"
  using assms
proof (induction devs)
  case (Cons x devs)
  then show ?case by (cases x) (auto simp: blocks_def split: sum.split)
qed simp

lemma gather_data_honest:
  assumes "\<forall>(s, dev) \<in> set devs. honest_at w dev"
  shows "\<exists>os. gather_data cfg w k a BLOCK devs = Inr os"
  using assms
proof (induction devs)
  case (Cons x devs)
  obtain s dev where x: "x = (s, dev)" by (cases x)
  with Cons honest_read [of w dev cfg a] obtain b os where "blocks cfg w a dev = Inr b" "gather_data cfg w k a BLOCK devs = Inr os" by auto
  with x show ?case by (simp add: blocks_def)
qed simp

text \<open>One other disk changed: its block is replaced in the stripe.\<close>

lemma gather_data_replaced:
  assumes "\<forall>(s, dev) \<in> set devs. s \<noteq> k \<longrightarrow> blocks cfg w' a dev = (if dev = p then Inr e' else blocks cfg w a dev)"
    and "distinct (map fst devs)" "distinct (map snd devs)" "(t, p) \<in> set devs" "t \<noteq> k" "gather_data cfg w k a BLOCK devs = Inr os"
  shows "gather_data cfg w' k a BLOCK devs = Inr (replace_block t e' os)"
  using assms(1-4,6)
proof (induction devs arbitrary: os)
  case (Cons x devs)
  obtain s dev where x: "x = (s, dev)" by (cases x)
  show ?case
  proof (cases "(s, dev) = (t, p)")
    case True
    then have fresh: "p \<notin> snd ` set devs" "t \<notin> fst ` set devs" using Cons.prems x by auto
    obtain b os' where os: "gather_data cfg w k a BLOCK devs = Inr os'" "os = (t, b) # os'"
      using Cons.prems(5) assms(5) x True by (auto simp: map_sum_def split: sum.splits)
    have rd: "read_block_or_zeros cfg w' p a BLOCK = Inr e'"
      using Cons.prems(1) x True assms(5) by (simp add: blocks_def)
    have "gather_data cfg w' k a BLOCK devs = Inr os'"
    proof -
      have "dev \<noteq> p" if "(s, dev) \<in> set devs" for s dev using fresh(1) that by force
      then have "\<forall>(s, dev) \<in> set devs. s \<noteq> k \<longrightarrow> blocks cfg w' a dev = blocks cfg w a dev"
        using Cons.prems(1) by auto
      from gather_data_blocks [OF this] os(1) show ?thesis by simp
    qed
    moreover have "replace_block t e' os' = os'"
      using gather_data_slots [OF os(1)] fresh(2) by (auto simp: replace_block_def intro!: map_idI dest: arg_cong [of _ _ set])
        (metis fst_conv image_eqI list.set_map filter_is_subset subsetD)
    ultimately show ?thesis using x True assms(5) rd os(2) by (simp add: replace_block_def)
  next
    case False
    then have mem: "(t, p) \<in> set devs" using Cons.prems(4) x by auto
    then have ne: "s \<noteq> t" "dev \<noteq> p" using Cons.prems(2,3) x by force+
    have pre: "\<forall>(s, dev) \<in> set devs. s \<noteq> k \<longrightarrow> blocks cfg w' a dev = (if dev = p then Inr e' else blocks cfg w a dev)"
      using Cons.prems(1) by simp
    note IH = Cons.IH [OF pre _ _ mem]
    show ?thesis
    proof (cases "s = k")
      case True
      with IH Cons.prems(2,3,5) x show ?thesis by simp
    next
      case False
      with Cons.prems(5) x obtain b os' where os: "read_block_or_zeros cfg w dev a BLOCK = Inr b"
          "gather_data cfg w k a BLOCK devs = Inr os'" "os = (s, b) # os'"
        by (auto simp: map_sum_def split: sum.splits)
      moreover have "read_block_or_zeros cfg w' dev a BLOCK = Inr b"
        using Cons.prems(1) x False ne(2) os(1) by (simp add: blocks_def)
      ultimately show ?thesis using IH Cons.prems(2,3) x False ne(1) by (simp add: replace_block_def)
    qed
  qed
qed simp

subsection \<open>A completed corruption\<close>

lemma take_snapshot_Inr:
  assumes "take_snapshot cfg w dev a = Inr sn"
  shows "blocks cfg w a dev = Inr (sn_orig sn)" "parity_p cfg = Some (sn_p_path sn)" "parity_q cfg = Some (sn_q_path sn)"
    "blocks cfg w a (sn_p_path sn) = Inr (sn_p_before sn)" "blocks cfg w a (sn_q_path sn) = Inr (sn_q_before sn)"
    "\<exists>p. compute_p cfg w a BLOCK = Inr p \<and> (sn_p_warning sn \<longleftrightarrow> sn_p_before sn \<noteq> p)"
    "\<exists>q. compute_q cfg w a BLOCK = Inr q \<and> (sn_q_warning sn \<longleftrightarrow> sn_q_before sn \<noteq> q)"
  using assms by (auto simp: take_snapshot_def sum_bind_Inr blocks_def required_def split: option.splits)

lemma flip_byte_Ret: "flip_byte i m block = Ret b \<longleftrightarrow> i < length block \<and> b = block[i := block ! i XOR m]"
  by (auto simp: flip_byte_def)

lemma corrupt_stripe_Ok:
  assumes "corrupt_stripe H cfg k dev a opts w files = Ret (w', files', Inr ())"
  obtains sn corrupt files1 partner parities where "take_snapshot cfg w dev a = Inr sn"
    "flip_byte (co_byte_offset opts) (co_flip opts) (sn_orig sn) = Ret corrupt" "crc32c H corrupt \<noteq> crc32c H (sn_orig sn)"
    "plan_partner H cfg w k a opts files = Ret (files1, Inr partner)"
    "save_block opts (sn_orig sn) files1 = (files', Inr ())"
    "new_parity cfg w k a (co_targets opts) sn corrupt = Inr parities"
    "write_corruption cfg dev a corrupt sn parities partner w = (w', Inr ())"
proof -
  obtain sn where sn: "take_snapshot cfg w dev a = Inr sn"
    using assms by (cases "take_snapshot cfg w dev a") (simp_all add: corrupt_stripe_def)
  obtain corrupt where c: "flip_byte (co_byte_offset opts) (co_flip opts) (sn_orig sn) = Ret corrupt" "crc32c H corrupt \<noteq> crc32c H (sn_orig sn)"
    using assms sn by (auto simp: corrupt_stripe_def run_bind_eq_Ret split: if_splits)
  obtain files1 partner where pl: "plan_partner H cfg w k a opts files = Ret (files1, Inr partner)"
  proof (cases "plan_partner H cfg w k a opts files")
    case (Ret x)
    with assms sn c that show ?thesis by (cases x; cases "snd x") (simp_all add: corrupt_stripe_def)
  qed (use assms sn c in \<open>simp add: corrupt_stripe_def\<close>)
  obtain u where sv: "save_block opts (sn_orig sn) files1 = (files', Inr u)"
  proof (cases "save_block opts (sn_orig sn) files1")
    case (Pair f r)
    show ?thesis
    proof (cases r)
      case (Inl e)
      with assms sn c pl Pair show ?thesis by (simp add: corrupt_stripe_def)
    next
      case (Inr u)
      with assms sn c pl Pair have "f = files'"
        by (auto simp: corrupt_stripe_def split: sum.splits prod.splits)
      with Inr Pair that show ?thesis by simp
    qed
  qed
  obtain parities where np: "new_parity cfg w k a (co_targets opts) sn corrupt = Inr parities"
    using assms sn c pl sv by (auto simp: corrupt_stripe_def split: sum.splits)
  have "write_corruption cfg dev a corrupt sn parities partner w = (w', Inr ())"
    using assms sn c pl sv np by (auto simp: corrupt_stripe_def split: prod.splits)
  with sn c pl sv np show thesis using that by simp
qed

lemma plan_partner_Ok:
  assumes "plan_partner H cfg w k a opts files = Ret (files1, Inr partner)"
  shows "co_targets opts \<noteq> TwoDisk \<Longrightarrow> partner = None \<and> files1 = files"
    and "co_targets opts = TwoDisk \<Longrightarrow> \<exists>plan. partner = Some plan \<and>
      choose_partner cfg k (co_partner_slot opts) = Inr (pt_slot plan, pt_path plan) \<and> blocks cfg w a (pt_path plan) = Inr (pt_orig plan) \<and>
      flip_byte (add64 (co_byte_offset opts) 1 mod BLOCK) (co_flip opts XOR 1) (pt_orig plan) = Ret (pt_corrupt plan) \<and>
      crc32c H (pt_corrupt plan) \<noteq> crc32c H (pt_orig plan) \<and> save_partner opts plan files = (files1, Inr (Some plan))"
proof -
  show "co_targets opts \<noteq> TwoDisk \<Longrightarrow> partner = None \<and> files1 = files"
    using assms by (simp add: plan_partner_def)
  assume t: "co_targets opts = TwoDisk"
  obtain s pp b c where *: "choose_partner cfg k (co_partner_slot opts) = Inr (s, pp)" "read_block_or_zeros cfg w pp a BLOCK = Inr b"
    "flip_byte (add64 (co_byte_offset opts) 1 mod BLOCK) (co_flip opts XOR 1) b = Ret c" "crc32c H c \<noteq> crc32c H b"
    "save_partner opts \<lparr>pt_slot = s, pt_path = pp, pt_orig = b, pt_corrupt = c\<rparr> files = (files1, Inr partner)"
    using assms t by (auto simp: plan_partner_def run_bind_eq_Ret split: sum.splits if_splits prod.splits)
  moreover from *(5) have "partner = Some \<lparr>pt_slot = s, pt_path = pp, pt_orig = b, pt_corrupt = c\<rparr>"
    by (auto simp: save_partner_def split: option.splits prod.splits sum.splits)
  ultimately show "\<exists>plan. partner = Some plan \<and>
      choose_partner cfg k (co_partner_slot opts) = Inr (pt_slot plan, pt_path plan) \<and> blocks cfg w a (pt_path plan) = Inr (pt_orig plan) \<and>
      flip_byte (add64 (co_byte_offset opts) 1 mod BLOCK) (co_flip opts XOR 1) (pt_orig plan) = Ret (pt_corrupt plan) \<and>
      crc32c H (pt_corrupt plan) \<noteq> crc32c H (pt_orig plan) \<and> save_partner opts plan files = (files1, Inr (Some plan))"
    by (auto simp: blocks_def)
qed

lemma choose_partner_Inr: "choose_partner cfg k slot = Inr (t, p) \<Longrightarrow> data_dev cfg t = Some p \<and> (slot = None \<longrightarrow> t \<noteq> k)"
  by (auto simp: choose_partner_def sum_bind_Inr find_Some_iff split: option.splits)

lemma loop_parity_length:
  "compute_p_with_override cfg w k e a BLOCK = Inr p \<Longrightarrow> length p = BLOCK"
  "compute_q_with_override cfg w k e a BLOCK = Inr q \<Longrightarrow> length q = BLOCK"
  "compute_p cfg w a BLOCK = Inr p \<Longrightarrow> length p = BLOCK" "compute_q cfg w a BLOCK = Inr q \<Longrightarrow> length q = BLOCK"
  by (auto simp: compute_p_with_override_def compute_q_with_override_def compute_p_def compute_q_def
      dest!: p_loop_length q_loop_length)

lemma new_parity_length:
  assumes "take_snapshot cfg w dev a = Inr sn" "new_parity cfg w k a t sn corrupt = Inr parities"
  shows "length (fst parities) = BLOCK" "length (snd parities) = BLOCK"
proof -
  note len = blocks_length [OF take_snapshot_Inr(4) [OF assms(1)]] blocks_length [OF take_snapshot_Inr(5) [OF assms(1)]]
  show "length (fst parities) = BLOCK" "length (snd parities) = BLOCK"
    using assms(2) len by (cases t; auto simp: new_parity_def sum_bind_Inr dest: loop_parity_length)+
qed

definition partner_update :: "partner_plan option \<Rightarrow> (path \<Rightarrow> io_kind + bytes) \<Rightarrow> path \<Rightarrow> io_kind + bytes" where
  "partner_update partner f = (case partner of Some plan \<Rightarrow> f(pt_path plan := Inr (pt_corrupt plan)) | None \<Rightarrow> f)"

text \<open>The blocks a completed corruption leaves.\<close>

lemma write_corruption_blocks:
  assumes "write_corruption cfg dev a corrupt sn parities partner w = (w', Inr ())"
    and "take_snapshot cfg w dev a = Inr sn" "all_honest cfg w" "dev \<in> config_paths cfg"
    and "length corrupt = BLOCK" "length (fst parities) = BLOCK" "length (snd parities) = BLOCK"
    and "dev \<noteq> sn_p_path sn" "dev \<noteq> sn_q_path sn" "sn_p_path sn \<noteq> sn_q_path sn"
    and "\<forall>plan. partner = Some plan \<longrightarrow> pt_path plan \<in> config_paths cfg \<and> length (pt_corrupt plan) = BLOCK"
  shows "blocks cfg w' a = partner_update partner ((blocks cfg w a)(dev := Inr corrupt, sn_p_path sn := Inr (fst parities),
      sn_q_path sn := Inr (snd parities)))" and "all_honest cfg w'"
proof -
  note sn = take_snapshot_Inr [OF assms(2)]
  have h: "p \<in> config_paths cfg \<Longrightarrow> all_honest cfg x \<Longrightarrow> honest_at x p" for x p by (simp add: all_honest_def)
  obtain w1 w2 w3 where w: "write_block cfg w dev a corrupt = (w1, Inr ())"
    "(if fst parities \<noteq> sn_p_before sn then write_block cfg w1 (sn_p_path sn) a (fst parities) else (w1, Inr ())) = (w2, Inr ())"
    "(if snd parities \<noteq> sn_q_before sn then write_block cfg w2 (sn_q_path sn) a (snd parities) else (w2, Inr ())) = (w3, Inr ())"
    "(case partner of Some plan \<Rightarrow> write_block cfg w3 (pt_path plan) a (pt_corrupt plan) | None \<Rightarrow> (w3, Inr ())) = (w', Inr ())"
    using assms(1) by (auto simp: write_corruption_def then_write_Inr)
  have 1: "blocks cfg w1 a = (blocks cfg w a)(dev := Inr corrupt)" "all_honest cfg w1"
    using blocks_write [OF h [OF assms(4,3)] w(1) assms(5)] all_honest_write [OF assms(3) w(1)] by simp_all
  have 2: "blocks cfg w2 a = (blocks cfg w1 a)(sn_p_path sn := Inr (fst parities)) \<and> all_honest cfg w2"
  proof (cases "fst parities = sn_p_before sn")
    case True
    with w(2) 1 sn(4) assms(8) show ?thesis by (auto simp: fun_upd_idem)
  next
    case False
    with w(2) have "write_block cfg w1 (sn_p_path sn) a (fst parities) = (w2, Inr ())" by simp
    from blocks_write [OF h [OF config_paths_mem(3) [OF sn(2)] 1(2)] this assms(6)] all_honest_write [OF 1(2) this] show ?thesis by simp
  qed
  have 3: "blocks cfg w3 a = (blocks cfg w2 a)(sn_q_path sn := Inr (snd parities)) \<and> all_honest cfg w3"
  proof (cases "snd parities = sn_q_before sn")
    case True
    with w(3) 1 2 sn(5) assms(9,10) show ?thesis by (auto simp: fun_upd_idem)
  next
    case False
    with w(3) have "write_block cfg w2 (sn_q_path sn) a (snd parities) = (w3, Inr ())" by simp
    from blocks_write [OF h [OF config_paths_mem(4) [OF sn(3)] conjunct2 [OF 2]] this assms(7)] all_honest_write [OF conjunct2 [OF 2] this]
    show ?thesis by simp
  qed
  show "blocks cfg w' a = partner_update partner ((blocks cfg w a)(dev := Inr corrupt, sn_p_path sn := Inr (fst parities),
      sn_q_path sn := Inr (snd parities)))"
  proof (cases partner)
    case None
    with w(4) 1 2 3 show ?thesis by (simp add: partner_update_def)
  next
    case (Some plan)
    with w(4) have "write_block cfg w3 (pt_path plan) a (pt_corrupt plan) = (w', Inr ())" by simp
    from blocks_write [OF h [OF _ conjunct2 [OF 3]] this] assms(11) Some 1 2 3 show ?thesis by (simp add: partner_update_def)
  qed
  show "all_honest cfg w'"
    using w(4) 3 by (auto split: option.splits dest: all_honest_write [rotated])
qed

end
