(* ===== verification/Craft_Outcome.thy ===== *)
theory Craft_Outcome
  imports Craft_Props
begin

text \<open>
  The outcome the corruption tool announces for each scenario (the table at the end of \<open>corrupt_cmd\<close>), proved of the
  recovery engine on the array the tool leaves behind.
\<close>

subsection \<open>Arrays fit for the tool\<close>

definition parity_paths :: "array_config \<Rightarrow> path list" where
  "parity_paths cfg = (case parity_p cfg of Some p \<Rightarrow> [p] | None \<Rightarrow> []) @ (case parity_q cfg of Some q \<Rightarrow> [q] | None \<Rightarrow> [])"

definition array_ready :: "array_config \<Rightarrow> nat \<Rightarrow> path \<Rightarrow> disks \<Rightarrow> bool" where
  "array_ready cfg k dev w \<longleftrightarrow> slots_ok cfg \<and> data_dev cfg k = Some dev \<and>
     distinct (map snd (data_devs cfg) @ parity_paths cfg) \<and> all_honest cfg w"

definition in_sync :: "array_config \<Rightarrow> disks \<Rightarrow> nat \<Rightarrow> bool" where
  "in_sync cfg w a \<longleftrightarrow> (\<forall>p. parity_p cfg = Some p \<longrightarrow> blocks cfg w a p = compute_p cfg w a BLOCK) \<and>
     (\<forall>q. parity_q cfg = Some q \<longrightarrow> blocks cfg w a q = compute_q cfg w a BLOCK)"

text \<open>The tool warns exactly about arrays that are not in sync at the offset.\<close>

lemma warnings_tell_sync:
  assumes "take_snapshot cfg w dev a = Inr sn"
  shows "in_sync cfg w a \<longleftrightarrow> \<not> sn_p_warning sn \<and> \<not> sn_q_warning sn"
proof -
  note sn = take_snapshot_Inr [OF assms]
  obtain p q where "compute_p cfg w a BLOCK = Inr p" "sn_p_warning sn \<longleftrightarrow> sn_p_before sn \<noteq> p"
    "compute_q cfg w a BLOCK = Inr q" "sn_q_warning sn \<longleftrightarrow> sn_q_before sn \<noteq> q"
    using sn(6,7) by blast
  with sn(2-5) show ?thesis by (simp add: in_sync_def)
qed

lemma data_dev_path: "data_dev cfg s = Some x \<Longrightarrow> x \<in> set (map snd (data_devs cfg))"
  by (auto simp: data_dev_def dest!: map_of_SomeD intro: rev_image_eqI)

lemma ready_distinct:
  assumes "array_ready cfg k dev w" "data_dev cfg s = Some x"
  shows "parity_p cfg = Some p \<Longrightarrow> x \<noteq> p" "parity_q cfg = Some q \<Longrightarrow> x \<noteq> q"
    and "parity_p cfg = Some p \<Longrightarrow> parity_q cfg = Some q \<Longrightarrow> p \<noteq> q"
  using assms(1) data_dev_path [OF assms(2)] by (auto simp: array_ready_def parity_paths_def)

lemma ready_data_mem:
  assumes "array_ready cfg k dev w" "(s, x) \<in> set (data_devs cfg)"
  shows "data_dev cfg s = Some x"
  using assms data_devs_distinct [of cfg] by (simp add: array_ready_def data_dev_def)

lemma ready_same_path:
  assumes "array_ready cfg k dev w" "(s, x) \<in> set (data_devs cfg)" "(t, x) \<in> set (data_devs cfg)"
  shows "s = t"
proof -
  have "distinct (map snd (data_devs cfg))" using assms(1) by (simp add: array_ready_def)
  from eq_key_imp_eq_value [of "map prod.swap (data_devs cfg)" x s t] this assms(2,3) show ?thesis
    by (force simp: comp_def)
qed

subsection \<open>The stripe after the corruption\<close>

text \<open>What the tool knows about a completed run, in terms of the stripe of the scrubbed slot.\<close>

definition stripe_after :: "partner_plan option \<Rightarrow> (nat \<times> bytes) list \<Rightarrow> (nat \<times> bytes) list" where
  "stripe_after partner os = (case partner of None \<Rightarrow> os | Some plan \<Rightarrow> replace_block (pt_slot plan) (pt_corrupt plan) os)"

definition partner_in_array :: "array_config \<Rightarrow> nat \<Rightarrow> partner_plan option \<Rightarrow> bool" where
  "partner_in_array cfg k partner \<longleftrightarrow> (\<forall>pl. partner = Some pl \<longrightarrow>
     data_dev cfg (pt_slot pl) = Some (pt_path pl) \<and> pt_slot pl \<noteq> k \<and> length (pt_corrupt pl) = BLOCK)"

definition other_partner :: "array_config \<Rightarrow> nat \<Rightarrow> craft_opts \<Rightarrow> bool" where
  "other_partner cfg k opts \<longleftrightarrow> (\<forall>t p. co_targets opts = TwoDisk \<longrightarrow> choose_partner cfg k (co_partner_slot opts) = Inr (t, p) \<longrightarrow> t \<noteq> k)"

lemma crafted_blocks:
  assumes ready: "array_ready cfg k dev w" and run: "corrupt_stripe H cfg k dev a opts w files = Ret (w', files', Inr ())"
    and other: "other_partner cfg k opts"
  obtains sn corrupt files1 partner parities where
    "take_snapshot cfg w dev a = Inr sn" "flip_byte (co_byte_offset opts) (co_flip opts) (sn_orig sn) = Ret corrupt"
    "crc32c H corrupt \<noteq> crc32c H (sn_orig sn)"
    "plan_partner H cfg w k a opts files = Ret (files1, Inr partner)" "save_block opts (sn_orig sn) files1 = (files', Inr ())"
    "new_parity cfg w k a (co_targets opts) sn corrupt = Inr parities" "length corrupt = BLOCK"
    "blocks cfg w' a = partner_update partner ((blocks cfg w a)(dev := Inr corrupt, sn_p_path sn := Inr (fst parities),
      sn_q_path sn := Inr (snd parities)))" "partner_in_array cfg k partner"
proof -
  from run obtain sn corrupt files1 partner parities where r: "take_snapshot cfg w dev a = Inr sn"
    "flip_byte (co_byte_offset opts) (co_flip opts) (sn_orig sn) = Ret corrupt" "crc32c H corrupt \<noteq> crc32c H (sn_orig sn)"
    "plan_partner H cfg w k a opts files = Ret (files1, Inr partner)" "save_block opts (sn_orig sn) files1 = (files', Inr ())"
    "new_parity cfg w k a (co_targets opts) sn corrupt = Inr parities"
    "write_corruption cfg dev a corrupt sn parities partner w = (w', Inr ())"
    by (rule corrupt_stripe_Ok)
  note sn = take_snapshot_Inr [OF r(1)]
  have k: "data_dev cfg k = Some dev" and hon: "all_honest cfg w" using ready by (simp_all add: array_ready_def)
  have lens: "length corrupt = BLOCK" "length (fst parities) = BLOCK" "length (snd parities) = BLOCK"
    using r(2) blocks_length [OF sn(1)] new_parity_length [OF r(1,6)] by (auto simp: flip_byte_Ret)
  note dist = ready_distinct [OF ready k]
  have plan: "partner_in_array cfg k partner"
  proof (unfold partner_in_array_def, intro allI impI)
    fix pl assume pl: "partner = Some pl"
    then have t: "co_targets opts = TwoDisk" using plan_partner_Ok(1) [OF r(4)] by auto
    from plan_partner_Ok(2) [OF r(4) t] pl have "choose_partner cfg k (co_partner_slot opts) = Inr (pt_slot pl, pt_path pl)"
      "blocks cfg w a (pt_path pl) = Inr (pt_orig pl)" "length (pt_corrupt pl) = length (pt_orig pl)"
      by (auto simp: flip_byte_Ret)
    with t other choose_partner_Inr [OF this(1)] blocks_length show "data_dev cfg (pt_slot pl) = Some (pt_path pl) \<and> pt_slot pl \<noteq> k \<and> length (pt_corrupt pl) = BLOCK"
      by (auto simp: other_partner_def)
  qed
  have "\<forall>pl. partner = Some pl \<longrightarrow> pt_path pl \<in> config_paths cfg \<and> length (pt_corrupt pl) = BLOCK"
    using plan config_paths_mem(1) unfolding partner_in_array_def by blast
  from write_corruption_blocks(1) [OF r(7,1) hon config_paths_mem(1) [OF k] lens dist(1) [OF sn(2)] dist(2) [OF sn(3)] dist(3) [OF sn(2,3)] this]
  show thesis using that [OF r(1-6) lens(1) _ plan] by blast
qed

text \<open>The partner's disk is neither the scrubbed disk nor a parity disk, and the other data disks are none of these.\<close>

lemma partner_apart:
  assumes "array_ready cfg k dev w" "partner_in_array cfg k partner" "partner = Some pl"
  shows "pt_path pl \<noteq> dev" "parity_p cfg = Some p \<Longrightarrow> pt_path pl \<noteq> p" "parity_q cfg = Some q \<Longrightarrow> pt_path pl \<noteq> q"
proof -
  have pl: "data_dev cfg (pt_slot pl) = Some (pt_path pl)" "pt_slot pl \<noteq> k" and k: "data_dev cfg k = Some dev"
    using assms by (simp_all add: partner_in_array_def array_ready_def)
  have "(k, dev) \<in> set (data_devs cfg)" "(pt_slot pl, pt_path pl) \<in> set (data_devs cfg)"
    using k pl by (simp_all add: data_dev_def map_of_SomeD)
  then show "pt_path pl \<noteq> dev" using pl(2) ready_same_path [OF assms(1)] by metis
  show "parity_p cfg = Some p \<Longrightarrow> pt_path pl \<noteq> p" "parity_q cfg = Some q \<Longrightarrow> pt_path pl \<noteq> q"
    using ready_distinct(1,2) [OF assms(1) pl(1)] by blast+
qed

lemma other_data_apart:
  assumes "array_ready cfg k dev w" "(s, x) \<in> set (data_devs cfg)" "s \<noteq> k"
  shows "x \<noteq> dev" "parity_p cfg = Some p \<Longrightarrow> x \<noteq> p" "parity_q cfg = Some q \<Longrightarrow> x \<noteq> q"
proof -
  have k: "data_dev cfg k = Some dev" using assms(1) by (simp add: array_ready_def)
  then have "(k, dev) \<in> set (data_devs cfg)" by (simp add: data_dev_def map_of_SomeD)
  then show "x \<noteq> dev" using assms(3) ready_same_path [OF assms(1,2), of k] by metis
  show "parity_p cfg = Some p \<Longrightarrow> x \<noteq> p" "parity_q cfg = Some q \<Longrightarrow> x \<noteq> q"
    using ready_distinct(1,2) [OF assms(1) ready_data_mem [OF assms(1,2)]] by blast+
qed

lemma crafted_stripe:
  assumes ready: "array_ready cfg k dev w" and run: "corrupt_stripe H cfg k dev a opts w files = Ret (w', files', Inr ())"
    and other: "other_partner cfg k opts"
  obtains sn corrupt files1 partner parities os where
    "take_snapshot cfg w dev a = Inr sn" "flip_byte (co_byte_offset opts) (co_flip opts) (sn_orig sn) = Ret corrupt"
    "crc32c H corrupt \<noteq> crc32c H (sn_orig sn)"
    "plan_partner H cfg w k a opts files = Ret (files1, Inr partner)"
    "new_parity cfg w k a (co_targets opts) sn corrupt = Inr parities"
    "gather_data cfg w k a BLOCK (data_devs cfg) = Inr os"
    "blocks cfg w' a dev = Inr corrupt"
    "gather_stripe cfg w' k a BLOCK = Inr \<lparr>other_data = stripe_after partner os, chunk_p = Some (fst parities), chunk_q = Some (snd parities)\<rparr>"
proof -
  from ready run other obtain sn corrupt files1 partner parities where r: "take_snapshot cfg w dev a = Inr sn"
    "flip_byte (co_byte_offset opts) (co_flip opts) (sn_orig sn) = Ret corrupt" "crc32c H corrupt \<noteq> crc32c H (sn_orig sn)"
    "plan_partner H cfg w k a opts files = Ret (files1, Inr partner)" "save_block opts (sn_orig sn) files1 = (files', Inr ())"
    "new_parity cfg w k a (co_targets opts) sn corrupt = Inr parities" "length corrupt = BLOCK"
    "blocks cfg w' a = partner_update partner ((blocks cfg w a)(dev := Inr corrupt, sn_p_path sn := Inr (fst parities),
      sn_q_path sn := Inr (snd parities)))" "partner_in_array cfg k partner"
    by (rule crafted_blocks)
  note sn = take_snapshot_Inr [OF r(1)] and apart = partner_apart [OF ready r(9)]
  have k: "data_dev cfg k = Some dev" and slots: "slots_ok cfg" and hon: "all_honest cfg w"
    using ready by (simp_all add: array_ready_def)
  obtain os where os: "gather_data cfg w k a BLOCK (data_devs cfg) = Inr os"
    using gather_data_honest [of "data_devs cfg" w cfg k a] hon config_paths_mem(2) by (fastforce simp: all_honest_def)
  have at: "blocks cfg w' a dev = Inr corrupt" "blocks cfg w' a (sn_p_path sn) = Inr (fst parities)" "blocks cfg w' a (sn_q_path sn) = Inr (snd parities)"
    using r(8) apart(1) apart(2) [OF _ sn(2)] apart(3) [OF _ sn(3)] ready_distinct(1) [OF ready k sn(2)] ready_distinct(2) [OF ready k sn(3)]
      ready_distinct(3) [OF ready k sn(2,3)]
    by (auto simp: partner_update_def split: option.splits)
  define w1 where "w1 = (blocks cfg w a)(dev := Inr corrupt, sn_p_path sn := Inr (fst parities), sn_q_path sn := Inr (snd parities))"
  have same: "w1 x = blocks cfg w a x" if "(s, x) \<in> set (data_devs cfg)" "s \<noteq> k" for s x
    using other_data_apart(1) [OF ready that] other_data_apart(2) [OF ready that sn(2)] other_data_apart(3) [OF ready that sn(3)]
    by (simp add: w1_def)
  have "gather_data cfg w' k a BLOCK (data_devs cfg) = Inr (stripe_after partner os)"
  proof (cases partner)
    case None
    with r(8) same os gather_data_blocks [of "data_devs cfg" k cfg w' a w] show ?thesis
      by (auto simp: partner_update_def stripe_after_def w1_def)
  next
    case (Some pl)
    have pl: "data_dev cfg (pt_slot pl) = Some (pt_path pl)" "pt_slot pl \<noteq> k" using r(9) Some by (simp_all add: partner_in_array_def)
    have mem: "(pt_slot pl, pt_path pl) \<in> set (data_devs cfg)" using pl by (simp add: data_dev_def map_of_SomeD)
    have w2: "blocks cfg w' a = w1(pt_path pl := Inr (pt_corrupt pl))" using r(8) Some by (simp add: partner_update_def w1_def)
    have "\<forall>(s, x) \<in> set (data_devs cfg). s \<noteq> k \<longrightarrow>
        blocks cfg w' a x = (if x = pt_path pl then Inr (pt_corrupt pl) else blocks cfg w a x)"
      using same w2 by auto
    from gather_data_replaced [OF this data_devs_distinct [OF slots] _ mem _ os] pl ready Some
    show ?thesis by (simp add: array_ready_def stripe_after_def)
  qed
  with at sn(2,3) have "gather_stripe cfg w' k a BLOCK =
      Inr \<lparr>other_data = stripe_after partner os, chunk_p = Some (fst parities), chunk_q = Some (snd parities)\<rparr>"
    by (simp add: gather_stripe_def gather_parity_def blocks_def)
  with r os at(1) show thesis by (intro that)
qed

subsection \<open>The announced outcome\<close>

text \<open>
  The table of \<open>corrupt_cmd\<close>: what a scrub that verifies the sector against its original checksum makes of it.
\<close>

definition announced :: "targets \<Rightarrow> bytes \<Rightarrow> nat \<Rightarrow> recovery_input \<Rightarrow> bool" where
  "announced t orig partner input =
     (case t of
        Data \<Rightarrow> recover_block input BLOCK = Ret (Recovered ViaP orig) \<and> q_stage input BLOCK = Ret (Inl (Recovered ViaQ orig))
      | BakeP \<Rightarrow> p_stage input BLOCK = Ret (Inr (Some (ParityBakedIn ViaP))) \<and> recover_block input BLOCK = Ret (Recovered ViaQ orig)
      | BakeQ \<Rightarrow> q_stage input BLOCK = Ret (Inr (Some (ParityBakedIn ViaQ))) \<and> recover_block input BLOCK = Ret (Recovered ViaP orig)
      | BakeBoth \<Rightarrow> recover_block input BLOCK =
          Ret (Failed (AllPathsFailed (ParityBakedIn ViaP) (ParityBakedIn ViaQ) (map fst (other_blocks input))))
      | TwoDisk \<Rightarrow> (\<exists>r. p_stage input BLOCK = Ret (Inr r)) \<and> (\<exists>r. q_stage input BLOCK = Ret (Inr r)) \<and>
          recover_block input BLOCK = Ret (Recovered (ViaPQ partner) orig))"

lemma q_stage_baked:
  assumes "input_ok input n" "\<not> unreadable_source input" "q_block input = Some q"
    "q_consistent n (failing_slot input) (corrupt_block input) (other_blocks input) q"
  shows "q_stage input n = Ret (Inr (Some (ParityBakedIn ViaQ)))"
proof -
  have "lengths_ok n (other_blocks input)" "length (corrupt_block input) = n" "1 \<le> failing_slot input" "failing_slot input \<le> 255" "length q = n"
    using assms(1,3) by (auto simp: input_ok_def stripe_ok_def)
  with q_reconstruct_correct [OF this(1,2) assms(4) this(3,4)] assms(2,3) show ?thesis
    by (simp add: q_stage_def recover_via_q_def Let_def)
qed

lemma gather_data_mem:
  "gather_data cfg w k a n devs = Inr os \<Longrightarrow> (t, p) \<in> set devs \<Longrightarrow> t \<noteq> k \<Longrightarrow> read_block_or_zeros cfg w p a n = Inr b \<Longrightarrow> (t, b) \<in> set os"
  by (induction cfg w k a n devs arbitrary: os rule: gather_data.induct) (auto simp: map_sum_def split: if_splits sum.splits)

text \<open>The verifier of the sector: its crc32c is the stored one.\<close>

definition crc_verifier :: "hashes \<Rightarrow> bytes \<Rightarrow> bytes \<Rightarrow> bool" where
  "crc_verifier H orig b \<longleftrightarrow> crc32c H b = crc32c H orig"

lemma BLOCK_pos: "BLOCK \<noteq> 0"
  by (simp add: BLOCK_def)

lemma crafted_outcome:
  assumes ready: "array_ready cfg k dev w" and sync: "in_sync cfg w a"
    and run: "corrupt_stripe H cfg k dev a opts w files = Ret (w', files', Inr ())"
    and orig: "blocks cfg w a dev = Inr d"
    and two: "co_targets opts = TwoDisk \<longrightarrow> (\<exists>p. choose_partner cfg k (co_partner_slot opts) = Inr (t, p)) \<and> t \<noteq> k \<and>
      (\<forall>b. length b = BLOCK \<longrightarrow> crc_verifier H d b \<longrightarrow> b = d)"
  shows "\<exists>corrupt ch. blocks cfg w' a dev = Inr corrupt \<and> \<not> crc_verifier H d corrupt \<and>
    gather_stripe cfg w' k a BLOCK = Inr ch \<and>
    announced (co_targets opts) d t \<lparr>failing_slot = k, corrupt_block = corrupt, unreadable_source = False,
      other_blocks = other_data ch, p_block = chunk_p ch, q_block = chunk_q ch, verifier = crc_verifier H d\<rparr>"
proof -
  have other: "other_partner cfg k opts" using two by (auto simp: other_partner_def)
  from ready run other obtain sn corrupt files1 partner parities os where c: "take_snapshot cfg w dev a = Inr sn"
    "flip_byte (co_byte_offset opts) (co_flip opts) (sn_orig sn) = Ret corrupt" "crc32c H corrupt \<noteq> crc32c H (sn_orig sn)"
    "plan_partner H cfg w k a opts files = Ret (files1, Inr partner)"
    "new_parity cfg w k a (co_targets opts) sn corrupt = Inr parities"
    "gather_data cfg w k a BLOCK (data_devs cfg) = Inr os" "blocks cfg w' a dev = Inr corrupt"
    "gather_stripe cfg w' k a BLOCK = Inr \<lparr>other_data = stripe_after partner os, chunk_p = Some (fst parities), chunk_q = Some (snd parities)\<rparr>"
    by (rule crafted_stripe)
  note sn = take_snapshot_Inr [OF c(1)]
  have slots: "slots_ok cfg" and k: "data_dev cfg k = Some dev" using ready by (simp_all add: array_ready_def)
  have d: "sn_orig sn = d" using sn(1) orig by simp
  have cor: "length corrupt = BLOCK" using blocks_length [OF c(7)] .
  have rd: "read_block_or_zeros cfg w dev a BLOCK = Inr d" using orig by (simp add: blocks_def)
  let ?p = "sn_p_before sn" and ?q = "sn_q_before sn"
  have cp: "compute_p cfg w a BLOCK = Inr ?p" and cq: "compute_q cfg w a BLOCK = Inr ?q"
    using sync sn(2-5) by (auto simp: in_sync_def)
  have pc: "p_consistent BLOCK d os ?p" using compute_p_consistent [OF cp slots k rd c(6)] .
  have qc: "q_consistent BLOCK k d os ?q" using compute_q_consistent [OF cq slots k rd c(6)] .
  define input where "input = \<lparr>failing_slot = k, corrupt_block = corrupt, unreadable_source = False, other_blocks = stripe_after partner os,
      p_block = Some (fst parities), q_block = Some (snd parities), verifier = crc_verifier H d\<rparr>"
  have ok: "input_ok input BLOCK"
    using gathered_input_ok [OF c(8) slots _ _ cor] data_dev_range [OF slots k] by (simp add: input_def)
  have inp: "failing_slot input = k" "corrupt_block input = corrupt" "\<not> unreadable_source input" "other_blocks input = stripe_after partner os"
    "p_block input = Some (fst parities)" "q_block input = Some (snd parities)" "verifier input = crc_verifier H d"
    by (simp_all add: input_def)
  have vd: "crc_verifier H d d" "\<not> crc_verifier H d corrupt" using c(3) d by (simp_all add: crc_verifier_def)
  have ld: "length d = BLOCK" using blocks_length [OF orig] .
  have single: "stripe_after partner os = os" if "co_targets opts \<noteq> TwoDisk"
    using plan_partner_Ok(1) [OF c(4) that] by (simp add: stripe_after_def)
  have "announced (co_targets opts) d t input"
  proof (cases "co_targets opts")
    case Data
    with c(5) have par: "fst parities = ?p" "snd parities = ?q" by (auto simp: new_parity_def)
    have o: "other_blocks input = os" using single Data inp(4) by simp
    show ?thesis
      using recover_block_p_intact [OF ok inp(5) _ ld] q_stage_intact [OF ok inp(6) _ ld] par pc qc inp vd o Data
      by (simp add: announced_def)
  next
    case BakeP
    with c(5) have par: "compute_p_with_override cfg w k corrupt a BLOCK = Inr (fst parities)" "snd parities = ?q"
      by (auto simp: new_parity_def sum_bind_Inr)
    have o: "other_blocks input = os" using single BakeP inp(4) by simp
    have "p_consistent BLOCK corrupt os (fst parities)" using compute_p_override_consistent [OF par(1) slots k cor c(6)] .
    then have ps: "p_stage input BLOCK = Ret (Inr (Some (ParityBakedIn ViaP)))"
      using inp o by (intro p_stage_baked [OF ok inp(3,5)]) simp
    show ?thesis
      using recover_block_q_intact [OF ok BLOCK_pos ps inp(6) _ ld] ps par(2) qc inp vd o BakeP by (simp add: announced_def)
  next
    case BakeQ
    with c(5) have par: "compute_q_with_override cfg w k corrupt a BLOCK = Inr (snd parities)" "fst parities = ?p"
      by (auto simp: new_parity_def sum_bind_Inr)
    have o: "other_blocks input = os" using single BakeQ inp(4) by simp
    have "q_consistent BLOCK k corrupt os (snd parities)" using compute_q_override_consistent [OF par(1) slots k cor c(6)] .
    then have qs: "q_stage input BLOCK = Ret (Inr (Some (ParityBakedIn ViaQ)))"
      using inp o by (intro q_stage_baked [OF ok inp(3,6)]) simp
    show ?thesis
      using recover_block_p_intact [OF ok inp(5) _ ld] qs par(2) pc inp vd o BakeQ by (simp add: announced_def)
  next
    case BakeBoth
    with c(5) have par: "compute_p_with_override cfg w k corrupt a BLOCK = Inr (fst parities)"
      "compute_q_with_override cfg w k corrupt a BLOCK = Inr (snd parities)"
      by (auto simp: new_parity_def sum_bind_Inr)
    have o: "other_blocks input = os" using single BakeBoth inp(4) by simp
    show ?thesis
      using recover_block_baked [OF ok inp(3,5) _ inp(6)] inp o vd(2) BakeBoth
        compute_p_override_consistent [OF par(1) slots k cor c(6)] compute_q_override_consistent [OF par(2) slots k cor c(6)]
      by (simp add: announced_def)
  next
    case TwoDisk
    with c(5) have par: "fst parities = ?p" "snd parities = ?q" by (auto simp: new_parity_def)
    from plan_partner_Ok(2) [OF c(4) TwoDisk] obtain pl where pl: "partner = Some pl"
      "choose_partner cfg k (co_partner_slot opts) = Inr (pt_slot pl, pt_path pl)" "blocks cfg w a (pt_path pl) = Inr (pt_orig pl)"
      "flip_byte (add64 (co_byte_offset opts) 1 mod BLOCK) (co_flip opts XOR 1) (pt_orig pl) = Ret (pt_corrupt pl)"
      "crc32c H (pt_corrupt pl) \<noteq> crc32c H (pt_orig pl)" by blast
    have t: "pt_slot pl = t" "t \<noteq> k" and ex: "\<forall>b. length b = BLOCK \<longrightarrow> crc_verifier H d b = (b = d)"
      using two TwoDisk pl(2) vd(1) by auto
    have "(t, pt_path pl) \<in> set (data_devs cfg)"
      using choose_partner_Inr [OF pl(2)] t(1) by (auto simp: data_dev_def dest!: map_of_SomeD)
    then have "(t, pt_orig pl) \<in> set os"
      using gather_data_mem [OF c(6) _ t(2)] pl(3) by (simp add: blocks_def)
    moreover have "stripe_ok BLOCK k os"
    proof -
      have "lengths_ok BLOCK os" by (rule gather_data_lengths [OF c(6)])
      moreover have "map fst os = filter (\<lambda>s. s \<noteq> k) (map fst (data_devs cfg))" by (rule gather_data_slots [OF c(6)])
      ultimately show ?thesis
        using slots data_devs_distinct [OF slots] data_dev_range [OF slots k] by (auto simp: stripe_ok_def slots_ok_def)
    qed
    moreover have "length (pt_corrupt pl) = BLOCK" using pl(4) blocks_length [OF pl(3)] by (auto simp: flip_byte_Ret)
    ultimately have dm: "one_damaged BLOCK k d os t (pt_orig pl) (pt_corrupt pl) ?p ?q"
      using pl(5) ld pc qc by (auto simp: one_damaged_def)
    have o: "other_blocks input = replace_block t (pt_corrupt pl) os" using inp(4) pl(1) t(1) by (simp add: stripe_after_def)
    have par': "p_block input = Some ?p" "q_block input = Some ?q" "length (corrupt_block input) = BLOCK"
      "\<forall>b. length b = BLOCK \<longrightarrow> verifier input b = (b = d)" "corrupt_block input \<noteq> d"
      using inp par cor ex vd by auto
    show ?thesis
      using single_paths_fail [OF dm inp(1) o par'(1-4)] recover_block_blames [OF dm inp(1) o par'(1-4)] par'(5) TwoDisk
      by (simp add: announced_def)
  qed
  with c(7,8) vd(2) show ?thesis by (auto simp: input_def)
qed

end
