(* ===== verification/Craft_Restore.thy ===== *)
theory Craft_Restore
  imports Craft_Outcome Array_View
begin

text \<open>
  Where the corruption tool writes, and how far its \<open>--restore\<close> undoes a corruption.
\<close>

subsection \<open>Bytes outside the block\<close>

text \<open>No byte of any disk's array space outside the block at \<open>a\<close> differs.\<close>

definition outside_same :: "array_config \<Rightarrow> nat \<Rightarrow> disks \<Rightarrow> disks \<Rightarrow> bool" where
  "outside_same cfg a w w' \<longleftrightarrow> (\<forall>x i. i < a \<or> a + BLOCK \<le> i \<longrightarrow> array_byte cfg w' x i = array_byte cfg w x i)"

definition fits64 :: "array_config \<Rightarrow> nat \<Rightarrow> bool" where
  "fits64 cfg a \<longleftrightarrow> (\<forall>p \<in> config_paths cfg. a + raw_offset_for cfg p + BLOCK \<le> 2 ^ 64)"

lemma outside_same_refl [simp]: "outside_same cfg a w w"
  by (simp add: outside_same_def)

lemma outside_same_trans: "outside_same cfg a w w1 \<Longrightarrow> outside_same cfg a w1 w2 \<Longrightarrow> outside_same cfg a w w2"
  by (simp add: outside_same_def)

lemma write_outside:
  assumes "honest_at w dev" "write_block cfg w dev a bs = (w', r)" "length bs = BLOCK" "a + raw_offset_for cfg dev + BLOCK \<le> 2 ^ 64"
  shows "outside_same cfg a w w'"
proof -
  have "bs \<noteq> []" using assms(3) by (auto simp: BLOCK_def)
  from write_block_byte [OF assms(1,2) _ this] assms(3,4) show ?thesis by (fastforce simp: outside_same_def)
qed

text \<open>Two states that agree on the block and outside it agree on every byte of the array.\<close>

lemma same_everywhere:
  assumes "outside_same cfg a w w'" "blocks cfg w' a = blocks cfg w a" "all_honest cfg w" "fits64 cfg a" "x \<in> config_paths cfg"
  shows "array_byte cfg w' x i = array_byte cfg w x i"
proof (cases "a \<le> i \<and> i < a + BLOCK")
  case True
  obtain b where b: "blocks cfg w a x = Inr b" using honest_read assms(3,5) unfolding all_honest_def by metis
  have "blocks cfg w' a x = Inr b" using assms(2) b by simp
  with b read_block_nth [of cfg w x a BLOCK b "i - a"] read_block_nth [of cfg w' x a BLOCK b "i - a"] assms(4,5) True
  show ?thesis by (auto simp: blocks_def fits64_def)
next
  case False
  with assms(1) show ?thesis by (auto simp: outside_same_def)
qed

subsection \<open>Disks that take every write\<close>

text \<open>Every disk of the array takes the write: no faults, and the block lies inside it.\<close>

definition array_healthy :: "array_config \<Rightarrow> disks \<Rightarrow> nat \<Rightarrow> bool" where
  "array_healthy cfg w a \<longleftrightarrow> (\<forall>p \<in> config_paths cfg. healthy_at cfg w p a BLOCK)"

lemma array_healthy_honest: "array_healthy cfg w a \<Longrightarrow> all_honest cfg w"
  using healthy_honest by (fastforce simp: array_healthy_def all_honest_def)

subsection \<open>A chain of writes to the array\<close>

text \<open>
  \<open>touched\<close>: what any run of the tool leaves, completed or not: honest and healthy disks stay so, nothing changed outside the block or
  on other devices.
\<close>

definition touched :: "array_config \<Rightarrow> nat \<Rightarrow> disks \<Rightarrow> disks \<Rightarrow> bool" where
  "touched cfg a w w' \<longleftrightarrow> (all_honest cfg w \<longrightarrow> all_honest cfg w') \<and> (array_healthy cfg w a \<longrightarrow> array_healthy cfg w' a) \<and> outside_same cfg a w w' \<and> (\<forall>x. x \<notin> config_paths cfg \<longrightarrow> w' x = w x)"

lemma touched_refl [simp]: "touched cfg a w w"
  by (simp add: touched_def)

lemma touched_trans: "touched cfg a w w1 \<Longrightarrow> touched cfg a w1 w2 \<Longrightarrow> touched cfg a w w2"
  by (auto simp: touched_def dest: outside_same_trans)

lemma write_touched:
  assumes "all_honest cfg w" "fits64 cfg a" "dev \<in> config_paths cfg" "length bs = BLOCK" "write_block cfg w dev a bs = (w', r)"
  shows "touched cfg a w w'"
proof -
  have "honest_at w dev" "a + raw_offset_for cfg dev + BLOCK \<le> 2 ^ 64" using assms(1-3) by (auto simp: all_honest_def fits64_def)
  from write_outside [OF this(1) assms(5,4) this(2)] have "outside_same cfg a w w'" .
  moreover have "\<forall>x. x \<notin> config_paths cfg \<longrightarrow> w' x = w x"
    using write_block_other [of _ dev cfg w a bs] assms(3,5) by force
  moreover have "array_healthy cfg w a \<longrightarrow> array_healthy cfg w' a"
    using healthy_keeps [OF _ \<open>honest_at w dev\<close> assms(5)] by (auto simp: array_healthy_def)
  ultimately show ?thesis using all_honest_write [OF assms(1,5)] by (simp add: touched_def)
qed

lemma then_write_touched:
  assumes "then_write m f = (w', r)" "all_honest cfg w" "touched cfg a w (fst m)"
    and "\<And>w1 w2 r2. all_honest cfg w1 \<Longrightarrow> f w1 = (w2, r2) \<Longrightarrow> touched cfg a w1 w2"
  shows "touched cfg a w w'"
proof (cases m)
  case (Pair w1 res)
  show ?thesis
  proof (cases res)
    case (Inl e)
    with assms(1,3) Pair show ?thesis by simp
  next
    case (Inr u)
    with assms(1) Pair have "f w1 = (w', r)" by simp
    moreover have "all_honest cfg w1" using assms(2,3) Pair by (simp add: touched_def)
    ultimately show ?thesis using assms(3,4) Pair touched_trans by (metis fst_conv)
  qed
qed

lemma write_corruption_touched:
  assumes "write_corruption cfg dev a corrupt sn parities partner w = (w', r)" "all_honest cfg w" "fits64 cfg a"
    and "dev \<in> config_paths cfg" "sn_p_path sn \<in> config_paths cfg" "sn_q_path sn \<in> config_paths cfg"
    and "length corrupt = BLOCK" "length (fst parities) = BLOCK" "length (snd parities) = BLOCK"
    and "\<forall>plan. partner = Some plan \<longrightarrow> pt_path plan \<in> config_paths cfg \<and> length (pt_corrupt plan) = BLOCK"
  shows "touched cfg a w w'"
proof -
  have wr: "touched cfg a x y" if "all_honest cfg x" "p \<in> config_paths cfg" "length bs = BLOCK" "write_block cfg x p a bs = (y, r2)" for x y p bs r2
    using write_touched [OF that(1) assms(3) that(2-4)] .
  have first: "touched cfg a w (fst (write_block cfg w dev a corrupt))"
    using wr [OF assms(2,4,7)] by (metis prod.collapse)
  show ?thesis
    using assms(1) unfolding write_corruption_def
  proof (rule then_write_touched [OF _ assms(2)], goal_cases)
    case 1
    show ?case
    proof (rule then_write_touched [OF prod.collapse [symmetric] assms(2)], goal_cases)
      case 1
      show ?case
        by (rule then_write_touched [OF prod.collapse [symmetric] assms(2) first]) (use wr [OF _ assms(5,8)] in \<open>auto split: if_splits\<close>)
    next
      case (2 w1 w2 r2)
      then show ?case using wr [OF _ assms(6,9)] by (auto split: if_splits)
    qed
  next
    case (2 w1 w2 r2)
    then show ?case using wr assms(10) by (auto split: option.splits)
  qed
qed

lemma plan_in_array:
  assumes "plan_partner H cfg w k a opts files = Ret (files1, Inr partner)" "partner = Some plan"
  shows "pt_path plan \<in> config_paths cfg" "length (pt_corrupt plan) = BLOCK"
proof -
  have "co_targets opts = TwoDisk" using plan_partner_Ok(1) [OF assms(1)] assms(2) by auto
  from plan_partner_Ok(2) [OF assms(1) this] assms(2) show "pt_path plan \<in> config_paths cfg" "length (pt_corrupt plan) = BLOCK"
    by (auto simp: flip_byte_Ret dest!: choose_partner_Inr blocks_length intro: config_paths_mem(1))
qed

text \<open>Every run of the corruption, completed or not; a panic comes before the first write and only for a byte past the sector.\<close>

lemma corrupt_stripe_touched:
  assumes "corrupt_stripe H cfg k dev a opts w files = Ret (w', files', r)" "all_honest cfg w" "fits64 cfg a" "data_dev cfg k = Some dev"
  shows "touched cfg a w w'"
proof (cases "w' = w")
  case False
  from assms(1) False obtain sn corrupt files1 partner parities where c: "take_snapshot cfg w dev a = Inr sn"
    "flip_byte (co_byte_offset opts) (co_flip opts) (sn_orig sn) = Ret corrupt"
    "plan_partner H cfg w k a opts files = Ret (files1, Inr partner)" "new_parity cfg w k a (co_targets opts) sn corrupt = Inr parities"
    "write_corruption cfg dev a corrupt sn parities partner w = (w', r)"
    by (auto simp: corrupt_stripe_def run_bind_def split: sum.splits run.splits if_splits prod.splits)
  note sn = take_snapshot_Inr [OF c(1)]
  have "length corrupt = BLOCK" using c(2) blocks_length [OF sn(1)] by (auto simp: flip_byte_Ret)
  with write_corruption_touched [OF c(5) assms(2,3) config_paths_mem(1) [OF assms(4)] config_paths_mem(3) [OF sn(2)] config_paths_mem(4) [OF sn(3)]]
    new_parity_length [OF c(1,4)] plan_in_array [OF c(3)]
  show ?thesis by blast
qed simp

lemma plan_partner_total: "plan_partner H cfg w k a opts files \<noteq> Panic"
  by (auto simp: plan_partner_def flip_byte_def BLOCK_def run_bind_def dest!: read_block_length split: sum.split run.split if_splits)

lemma corrupt_stripe_panic:
  assumes "corrupt_stripe H cfg k dev a opts w files = Panic"
  shows "BLOCK \<le> co_byte_offset opts"
proof -
  obtain sn where sn: "take_snapshot cfg w dev a = Inr sn"
    using assms by (cases "take_snapshot cfg w dev a") (simp_all add: corrupt_stripe_def)
  show ?thesis
  proof (rule ccontr)
    assume "\<not> BLOCK \<le> co_byte_offset opts"
    then obtain corrupt where c: "flip_byte (co_byte_offset opts) (co_flip opts) (sn_orig sn) = Ret corrupt"
      using blocks_length [OF take_snapshot_Inr(1) [OF sn]] by (simp add: flip_byte_def)
    show False
    proof (cases "plan_partner H cfg w k a opts files")
      case (Ret x)
      obtain files1 pl where x: "x = (files1, pl)" by (cases x)
      have "co_targets opts = TwoDisk \<longrightarrow> partner \<noteq> None" if "pl = Inr partner" for partner
        using plan_partner_Ok(2) [of H cfg w k a opts files files1 partner] Ret x that by auto
      with assms sn c Ret x show False
        by (auto simp: corrupt_stripe_def run_assert_def split: if_splits sum.splits prod.splits)
    qed (use plan_partner_total in blast)
  qed
qed

subsection \<open>Every run of the restoration\<close>

lemma restore_partner_touched:
  assumes "restore_partner cfg k a b devs w = (w', r)" "set devs \<subseteq> set (data_devs cfg)" "all_honest cfg w" "fits64 cfg a" "length b = BLOCK"
  shows "touched cfg a w w'"
  using assms
proof (induction cfg k a b devs w rule: restore_partner.induct)
  case (2 cfg k a b s p rest w)
  then have "p \<in> config_paths cfg" by (auto intro: config_paths_mem(2))
  with 2 show ?case by (auto split: if_splits sum.splits intro: write_touched)
qed simp

lemma rebuild_parity_touched:
  assumes "rebuild_parity cfg a w = (w', r)" "all_honest cfg w" "fits64 cfg a"
  shows "touched cfg a w w'"
proof -
  have wr: "touched cfg a x y" if "write_parity cfg a path bs x = (y, r2)" "path = parity_p cfg \<or> path = parity_q cfg"
      "length bs = BLOCK" "all_honest cfg x" for path bs x y r2
  proof (cases path)
    case None
    with that(1) show ?thesis by (simp add: write_parity_def)
  next
    case (Some x2)
    with that(2) have "x2 \<in> config_paths cfg" using config_paths_mem(3,4) [of cfg x2] by auto
    with that Some show ?thesis by (auto simp: write_parity_def intro: write_touched [OF _ assms(3)])
  qed
  show ?thesis
  proof (cases "\<exists>p q. compute_p cfg w a BLOCK = Inr p \<and> compute_q cfg w a BLOCK = Inr q")
    case True
    then obtain p q where pq: "compute_p cfg w a BLOCK = Inr p" "compute_q cfg w a BLOCK = Inr q" by blast
    with assms(1) have "then_write (write_parity cfg a (parity_p cfg) p w) (write_parity cfg a (parity_q cfg) q) = (w', r)"
      by (simp add: rebuild_parity_def)
    then show ?thesis
    proof (rule then_write_touched [OF _ assms(2)])
      show "touched cfg a w (fst (write_parity cfg a (parity_p cfg) p w))"
        using wr [of "parity_p cfg" p w] loop_parity_length(3) [OF pq(1)] assms(2) by (metis prod.collapse)
      show "touched cfg a w1 w2" if "all_honest cfg w1" "write_parity cfg a (parity_q cfg) q w1 = (w2, r2)" for w1 w2 r2
        using wr [of "parity_q cfg" q w1 w2 r2] loop_parity_length(4) [OF pq(2)] that by simp
    qed
  next
    case False
    then have "w' = w"
      using assms(1) by (cases "compute_p cfg w a BLOCK"; cases "compute_q cfg w a BLOCK") (auto simp: rebuild_parity_def)
    then show ?thesis by simp
  qed
qed

lemma restore_stripe_touched:
  assumes "restore_stripe cfg k dev a bp w files = (w', r)" "all_honest cfg w" "fits64 cfg a" "data_dev cfg k = Some dev"
  shows "touched cfg a w w'"
proof (cases "read_backup files bp")
  case (Inl e)
  with assms(1) show ?thesis by (simp add: restore_stripe_def)
next
  case (Inr orig)
  then have len: "length orig = BLOCK" by (auto simp: read_backup_def sum_bind_Inr split: if_splits)
  have second: "touched cfg a w1 w2" if "all_honest cfg w1" "restore_second cfg k a x files w1 = (w2, r2)" for w1 w2 r2 x
    using that assms(3) restore_partner_touched [OF _ subset_refl that(1) assms(3)]
    by (auto simp: restore_second_def read_backup_def sum_bind_Inr split: if_splits sum.splits)
  have first: "touched cfg a w (fst (write_block cfg w dev a orig))"
    using write_touched [OF assms(2,3) config_paths_mem(1) [OF assms(4)] len] by (metis prod.collapse)
  from assms(1) Inr have "then_write (then_write (write_block cfg w dev a orig) (restore_second cfg k a (with_extension bp ''partner'') files))
      (rebuild_parity cfg a) = (w', r)" by (simp add: restore_stripe_def)
  then show ?thesis
  proof (rule then_write_touched [OF _ assms(2)])
    show "touched cfg a w (fst (then_write (write_block cfg w dev a orig) (restore_second cfg k a (with_extension bp ''partner'') files)))"
      by (rule then_write_touched [OF prod.collapse [symmetric] assms(2) first]) (use second in blast)
    show "touched cfg a w1 w2" if "all_honest cfg w1" "rebuild_parity cfg a w1 = (w2, r2)" for w1 w2 r2
      using rebuild_parity_touched [OF that(2,1) assms(3)] .
  qed
qed

subsection \<open>A restoration that completes\<close>

lemma healthy_array_write:
  assumes "array_healthy cfg w a" "p \<in> config_paths cfg" "length bs = BLOCK"
  obtains w' where "write_block cfg w p a bs = (w', Inr ())" "array_healthy cfg w' a" "blocks cfg w' a = (blocks cfg w a)(p := Inr bs)"
proof -
  have h: "healthy_at cfg w p a (length bs)" using assms by (simp add: array_healthy_def)
  then obtain w' where w': "write_block cfg w p a bs = (w', Inr ())" by (rule healthy_write)
  moreover have "array_healthy cfg w' a"
    using healthy_keeps [OF _ healthy_honest [OF h] w'] assms(1) by (auto simp: array_healthy_def)
  ultimately show thesis using blocks_write [OF healthy_honest [OF h] w' assms(3)] that by blast
qed

lemma file_write_Inr: "file_write st p bs = (st', Inr u) \<longleftrightarrow>
    file_write_fault st p = None \<and> st' = st\<lparr>stored_files := (stored_files st)(p \<mapsto> bs)\<rparr>"
  by (auto simp: file_write_def split: option.splits)

lemma read_backup_stored:
  "stored_files st p = Some bs \<Longrightarrow> file_read_fault st p = None \<Longrightarrow> length bs = BLOCK \<Longrightarrow> read_backup st p = Inr bs"
  by (simp add: read_backup_def file_read_def)

text \<open>The scan stops at the first other data disk whose block differs from the saved one.\<close>

lemma restore_partner_first:
  assumes "\<forall>(s, x) \<in> set pre. s = k \<or> blocks cfg w a x = Inr b" "t \<noteq> k" "blocks cfg w a p = Inr cur" "cur \<noteq> b"
  shows "restore_partner cfg k a b (pre @ (t, p) # post) w = write_block cfg w p a b"
  using assms
proof (induction pre)
  case Nil
  then show ?case using blocks_length [OF assms(3)] by (simp add: blocks_def)
next
  case (Cons x pre)
  then show ?case by (cases x) (auto simp: blocks_def)
qed

lemma slots_before:
  assumes "slots_ok cfg" "data_dev cfg t = Some p"
  obtains pre post where "data_devs cfg = pre @ (t, p) # post" "\<forall>(s, x) \<in> set pre. s < t \<and> (s, x) \<in> set (data_devs cfg)"
proof -
  have "(t, p) \<in> set (data_devs cfg)" using assms(2) by (simp add: data_dev_def map_of_SomeD)
  then obtain pre post where eq: "data_devs cfg = pre @ (t, p) # post" by (meson split_list)
  have "\<forall>(s, x) \<in> set pre. s < t"
    using assms(1) eq by (auto simp: slots_ok_def bt_ok_def sorted_wrt_append)
  then have "\<forall>(s, x) \<in> set pre. s < t \<and> (s, x) \<in> set (data_devs cfg)" using eq by auto
  then show thesis by (rule that [OF eq])
qed

lemma rebuild_parity_completes:
  assumes "array_healthy cfg w a" "compute_p cfg w a BLOCK = Inr p" "compute_q cfg w a BLOCK = Inr q"
    and "parity_p cfg = Some pp" "parity_q cfg = Some qp"
  shows "\<exists>w'. rebuild_parity cfg a w = (w', Inr ()) \<and> blocks cfg w' a = (blocks cfg w a)(pp := Inr p, qp := Inr q)"
proof -
  from healthy_array_write [OF assms(1) config_paths_mem(3) [OF assms(4)] loop_parity_length(3) [OF assms(2)]]
  obtain w1 where w1: "write_block cfg w pp a p = (w1, Inr ())" "array_healthy cfg w1 a" "blocks cfg w1 a = (blocks cfg w a)(pp := Inr p)" .
  from healthy_array_write [OF w1(2) config_paths_mem(4) [OF assms(5)] loop_parity_length(4) [OF assms(3)]]
  obtain w2 where "write_block cfg w1 qp a q = (w2, Inr ())" "blocks cfg w2 a = (blocks cfg w1 a)(qp := Inr q)" .
  with w1 assms show ?thesis by (simp add: rebuild_parity_def write_parity_def)
qed

text \<open>The first other disk that differs from the partner's backup, if there is such a backup.\<close>

definition restored_disk :: "array_config \<Rightarrow> nat \<Rightarrow> (path \<Rightarrow> io_kind + bytes) \<Rightarrow> bytes \<Rightarrow> nat \<Rightarrow> path \<Rightarrow> bool" where
  "restored_disk cfg k f b t p \<longleftrightarrow> data_dev cfg t = Some p \<and> t \<noteq> k \<and> f p \<noteq> Inr b \<and>
     (\<forall>(s, x) \<in> set (data_devs cfg). s < t \<longrightarrow> s \<noteq> k \<longrightarrow> f x = Inr b)"

lemma restore_second_completes:
  assumes "array_healthy cfg w a" "slots_ok cfg" "stored_files files x = Some b" "file_read_fault files x = None" "length b = BLOCK"
    and "restored_disk cfg k (blocks cfg w a) b t p"
  shows "\<exists>w'. restore_second cfg k a x files w = (w', Inr ()) \<and> array_healthy cfg w' a \<and> blocks cfg w' a = (blocks cfg w a)(p := Inr b)"
proof -
  have t: "data_dev cfg t = Some p" "t \<noteq> k" "blocks cfg w a p \<noteq> Inr b"
    and first: "\<forall>(s, x) \<in> set (data_devs cfg). s < t \<longrightarrow> s \<noteq> k \<longrightarrow> blocks cfg w a x = Inr b"
    using assms(6) by (simp_all add: restored_disk_def)
  note mem = config_paths_mem(1) [OF t(1)]
  obtain cur where cur: "blocks cfg w a p = Inr cur" "cur \<noteq> b"
    using honest_read [of w p cfg a] array_healthy_honest [OF assms(1)] mem t(3) by (auto simp: all_honest_def)
  from slots_before [OF assms(2) t(1)] obtain pre post where
    dd: "data_devs cfg = pre @ (t, p) # post" "\<forall>(s, x) \<in> set pre. s < t \<and> (s, x) \<in> set (data_devs cfg)" .
  have "\<forall>(s, x) \<in> set pre. s = k \<or> blocks cfg w a x = Inr b" using dd(2) first by auto
  from restore_partner_first [OF this t(2) cur] dd(1)
  have "restore_partner cfg k a b (data_devs cfg) w = write_block cfg w p a b" by simp
  moreover from healthy_array_write [OF assms(1) mem assms(5)] obtain w' where
    "write_block cfg w p a b = (w', Inr ())" "array_healthy cfg w' a" "blocks cfg w' a = (blocks cfg w a)(p := Inr b)" .
  ultimately show ?thesis
    using assms(3) read_backup_stored [OF assms(3-5)] by (simp add: restore_second_def file_exists_def)
qed

subsection \<open>The round trip\<close>

text \<open>
  What a restoration needs: a backup file that is not its own partner file, readable files, no partner file left
  over from an earlier corruption, and, for two disks, a partner that is the first other disk to differ.
\<close>

definition restorable :: "array_config \<Rightarrow> disks \<Rightarrow> nat \<Rightarrow> nat \<Rightarrow> craft_opts \<Rightarrow> file_store \<Rightarrow> path \<Rightarrow> bool" where
  "restorable cfg w a k opts files bp \<longleftrightarrow>
     co_backup opts = Some bp \<and> with_extension bp ''partner'' \<noteq> bp \<and> (\<forall>x. file_read_fault files x = None) \<and>
     (co_targets opts \<noteq> TwoDisk \<longrightarrow> \<not> file_exists files (with_extension bp ''partner'')) \<and>
     (co_targets opts = TwoDisk \<longrightarrow> (\<forall>t p. choose_partner cfg k (co_partner_slot opts) = Inr (t, p) \<longrightarrow>
        t \<noteq> k \<and> (\<forall>(s, x) \<in> set (data_devs cfg). s < t \<longrightarrow> s \<noteq> k \<longrightarrow> blocks cfg w a x = blocks cfg w a p)))"

lemma backups_written:
  assumes "plan_partner H cfg w k a opts files = Ret (files1, Inr partner)" "save_block opts orig files1 = (files', Inr ())"
    and "restorable cfg w a k opts files bp"
  shows "stored_files files' bp = Some orig" "file_read_fault files' = file_read_fault files"
    and "co_targets opts \<noteq> TwoDisk \<Longrightarrow> \<not> file_exists files' (with_extension bp ''partner'')"
    and "partner = Some pl \<Longrightarrow> stored_files files' (with_extension bp ''partner'') = Some (pt_orig pl)"
proof -
  have b: "co_backup opts = Some bp" "with_extension bp ''partner'' \<noteq> bp" using assms(3) by (simp_all add: restorable_def)
  have sv: "files' = files1\<lparr>stored_files := (stored_files files1)(bp \<mapsto> orig)\<rparr>"
    using assms(2) b(1) by (auto simp: save_block_def file_write_Inr)
  have two: "files1 = files\<lparr>stored_files := (stored_files files)(with_extension bp ''partner'' \<mapsto> pt_orig pl)\<rparr>" if "partner = Some pl" for pl
  proof -
    have t: "co_targets opts = TwoDisk" using plan_partner_Ok(1) [OF assms(1)] that by auto
    from plan_partner_Ok(2) [OF assms(1) t] that b(1) show ?thesis
      by (auto simp: save_partner_def file_write_Inr split: prod.splits sum.splits)
  qed
  have one: "files1 = files" if "partner = None"
    using plan_partner_Ok [OF assms(1)] that by (cases "co_targets opts = TwoDisk") auto
  show "stored_files files' bp = Some orig" using sv by simp
  show "file_read_fault files' = file_read_fault files" using sv one two by (cases partner) auto
  show "\<not> file_exists files' (with_extension bp ''partner'')" if "co_targets opts \<noteq> TwoDisk"
    using sv plan_partner_Ok(1) [OF assms(1) that] assms(3) that b(2) by (simp add: restorable_def file_exists_def)
  show "stored_files files' (with_extension bp ''partner'') = Some (pt_orig pl)" if "partner = Some pl"
    using sv two [OF that] b(2) by simp
qed

lemma loops_honest:
  assumes "all_honest cfg w" "set devs \<subseteq> set (data_devs cfg)"
  shows "\<exists>p. p_loop cfg w ov a BLOCK acc devs = Inr p" "\<exists>q. q_loop cfg w ov a BLOCK acc devs = Inr q"
proof -
  have src: "\<exists>b. parity_source cfg w ov a BLOCK s x = Inr b" if "(s, x) \<in> set (data_devs cfg)" for s x
    using honest_read [of w x cfg a] config_paths_mem(2) [OF that] assms(1)
    by (auto simp: all_honest_def parity_source_def blocks_def split: option.splits)
  have "(\<exists>p. p_loop cfg w ov a BLOCK acc devs = Inr p) \<and> (\<exists>q. q_loop cfg w ov a BLOCK acc' devs = Inr q)" for acc acc'
    using assms(2)
  proof (induction devs arbitrary: acc acc')
    case (Cons y devs)
    obtain s x where y: "y = (s, x)" by (cases y)
    with Cons.prems have "(s, x) \<in> set (data_devs cfg)" by simp
    from src [OF this] obtain b where "parity_source cfg w ov a BLOCK s x = Inr b" by blast
    with Cons.IH Cons.prems y show ?case by simp
  qed simp
  then show "\<exists>p. p_loop cfg w ov a BLOCK acc devs = Inr p" "\<exists>q. q_loop cfg w ov a BLOCK acc devs = Inr q" by blast+
qed

lemma compute_honest:
  assumes "all_honest cfg w"
  shows "\<exists>p. compute_p cfg w a BLOCK = Inr p" "\<exists>q. compute_q cfg w a BLOCK = Inr q"
    and "\<exists>p. compute_p_with_override cfg w k b a BLOCK = Inr p" "\<exists>q. compute_q_with_override cfg w k b a BLOCK = Inr q"
  using loops_honest [OF assms subset_refl]
  by (simp_all add: compute_p_def compute_q_def compute_p_with_override_def compute_q_with_override_def)

text \<open>
  The restoration of a healthy array completes; its parities are those of the blocks \<open>g\<close> that restoring the two disks
  left.
\<close>

lemma restore_completes:
  assumes ready: "array_ready cfg k dev w" and healthy: "array_healthy cfg w' a" and orig: "read_backup files bp = Inr orig"
    and par: "parity_p cfg = Some pp" "parity_q cfg = Some qp"
    and second: "\<And>w1. array_healthy cfg w1 a \<Longrightarrow> blocks cfg w1 a = (blocks cfg w' a)(dev := Inr orig) \<Longrightarrow>
      \<exists>w2. restore_second cfg k a (with_extension bp ''partner'') files w1 = (w2, Inr ()) \<and> array_healthy cfg w2 a \<and> blocks cfg w2 a = g"
  obtains w2 w3 p q where "restore_stripe cfg k dev a bp w' files = (w3, Inr ())" "blocks cfg w2 a = g"
    "compute_p cfg w2 a BLOCK = Inr p" "compute_q cfg w2 a BLOCK = Inr q" "blocks cfg w3 a = g(pp := Inr p, qp := Inr q)"
proof -
  have k: "data_dev cfg k = Some dev" using ready by (simp add: array_ready_def)
  have "length orig = BLOCK" using orig by (auto simp: read_backup_def sum_bind_Inr split: if_splits)
  from healthy_array_write [OF healthy config_paths_mem(1) [OF k] this] obtain w1 where
    w1: "write_block cfg w' dev a orig = (w1, Inr ())" "array_healthy cfg w1 a" "blocks cfg w1 a = (blocks cfg w' a)(dev := Inr orig)" .
  from second [OF w1(2,3)] obtain w2 where
    w2: "restore_second cfg k a (with_extension bp ''partner'') files w1 = (w2, Inr ())" "array_healthy cfg w2 a" "blocks cfg w2 a = g" by blast
  obtain p q where pq: "compute_p cfg w2 a BLOCK = Inr p" "compute_q cfg w2 a BLOCK = Inr q"
    using compute_honest [OF array_healthy_honest [OF w2(2)], of a] by blast
  from rebuild_parity_completes [OF w2(2) pq par] obtain w3 where
    "rebuild_parity cfg a w2 = (w3, Inr ())" "blocks cfg w3 a = (blocks cfg w2 a)(pp := Inr p, qp := Inr q)" by blast
  with w1(1) w2(1,3) orig pq show thesis by (intro that [of w3 w2 p q]) (simp_all add: restore_stripe_def)
qed

text \<open>The blocks once the scrubbed disk is restored: the partner and the parities are still as crafted.\<close>

lemma after_first_write:
  assumes ready: "array_ready cfg k dev w" and sn: "take_snapshot cfg w dev a = Inr sn" and partner: "partner_in_array cfg k partner"
    and b: "f = partner_update partner ((blocks cfg w a)(dev := Inr corrupt, sn_p_path sn := p, sn_q_path sn := q))"
  shows "f(dev := Inr (sn_orig sn)) = partner_update partner ((blocks cfg w a)(sn_p_path sn := p, sn_q_path sn := q))"
proof -
  note s = take_snapshot_Inr [OF sn]
  have k: "data_dev cfg k = Some dev" using ready by (simp add: array_ready_def)
  show ?thesis
    using b s(1) ready_distinct(1) [OF ready k s(2)] ready_distinct(2) [OF ready k s(3)] partner_apart(1) [OF ready partner]
    by (auto simp: partner_update_def fun_eq_iff split: option.splits)
qed

lemma data_not_parity:
  assumes ready: "array_ready cfg k dev w" and par: "parity_p cfg = Some pp" "parity_q cfg = Some qp" and s: "(s, x) \<in> set (data_devs cfg)"
  shows "x \<noteq> pp" "x \<noteq> qp"
  using ready_distinct(1) [OF ready ready_data_mem [OF ready s] par(1)] ready_distinct(2) [OF ready ready_data_mem [OF ready s] par(2)]
  by simp_all

lemma restore_round_trip:
  assumes ready: "array_ready cfg k dev w" and healthy: "array_healthy cfg w' a" and sync: "in_sync cfg w a"
    and run: "corrupt_stripe H cfg k dev a opts w files = Ret (w', files', Inr ())" and rs: "restorable cfg w a k opts files bp"
  shows "\<exists>w''. restore_stripe cfg k dev a bp w' files' = (w'', Inr ()) \<and> blocks cfg w'' a = blocks cfg w a"
proof -
  have other: "other_partner cfg k opts" using rs by (auto simp: restorable_def other_partner_def)
  from ready run other obtain sn corrupt files1 partner parities where r: "take_snapshot cfg w dev a = Inr sn"
    "flip_byte (co_byte_offset opts) (co_flip opts) (sn_orig sn) = Ret corrupt" "crc32c H corrupt \<noteq> crc32c H (sn_orig sn)"
    "plan_partner H cfg w k a opts files = Ret (files1, Inr partner)" "save_block opts (sn_orig sn) files1 = (files', Inr ())"
    "new_parity cfg w k a (co_targets opts) sn corrupt = Inr parities" "length corrupt = BLOCK"
    "blocks cfg w' a = partner_update partner ((blocks cfg w a)(dev := Inr corrupt, sn_p_path sn := Inr (fst parities),
      sn_q_path sn := Inr (snd parities)))" "partner_in_array cfg k partner"
    by (rule crafted_blocks)
  note sn = take_snapshot_Inr [OF r(1)] and apart = partner_apart [OF ready r(9)] and bk = backups_written [OF r(4,5) rs]
  have slots: "slots_ok cfg" using ready by (simp add: array_ready_def)
  have fr: "file_read_fault files' x = None" for x using rs bk(2) by (simp add: restorable_def)
  have orig: "read_backup files' bp = Inr (sn_orig sn)" using read_backup_stored [OF bk(1) fr blocks_length [OF sn(1)]] .
  let ?par = "\<lambda>f. f(sn_p_path sn := Inr (fst parities), sn_q_path sn := Inr (snd parities))"
  let ?base = "blocks cfg w a" and ?pb = "with_extension bp ''partner''"
  have second: "\<exists>w2. restore_second cfg k a ?pb files' w1 = (w2, Inr ()) \<and> array_healthy cfg w2 a \<and> blocks cfg w2 a = ?par ?base"
    if w1: "array_healthy cfg w1 a" "blocks cfg w1 a = (blocks cfg w' a)(dev := Inr (sn_orig sn))" for w1
  proof (cases partner)
    case None
    then have "\<not> file_exists files' ?pb" using bk(3) plan_partner_Ok(2) [OF r(4)] by auto
    with w1 None after_first_write [OF ready r(1,9,8)] show ?thesis by (simp add: restore_second_def partner_update_def)
  next
    case (Some pl)
    have t: "co_targets opts = TwoDisk" using plan_partner_Ok(1) [OF r(4)] Some by auto
    from plan_partner_Ok(2) [OF r(4) t] Some have pl: "choose_partner cfg k (co_partner_slot opts) = Inr (pt_slot pl, pt_path pl)"
      "?base (pt_path pl) = Inr (pt_orig pl)" "crc32c H (pt_corrupt pl) \<noteq> crc32c H (pt_orig pl)" by auto
    note ap = apart(1) [OF Some] apart(2) [OF Some sn(2)] apart(3) [OF Some sn(3)]
    have b1: "blocks cfg w1 a = (?par ?base)(pt_path pl := Inr (pt_corrupt pl))"
      using w1(2) after_first_write [OF ready r(1,9,8)] Some by (simp add: partner_update_def)
    have "blocks cfg w1 a x = Inr (pt_orig pl)" if "(s, x) \<in> set (data_devs cfg)" "s < pt_slot pl" "s \<noteq> k" for s x
    proof -
      have "(pt_slot pl, pt_path pl) \<in> set (data_devs cfg)"
        using r(9) Some by (simp add: partner_in_array_def data_dev_def map_of_SomeD)
      then have "x \<noteq> pt_path pl" using ready_same_path [OF ready that(1), of "pt_slot pl"] that(2) by auto
      moreover have "?base x = ?base (pt_path pl)" using rs t pl(1) that by (fastforce simp: restorable_def)
      ultimately show ?thesis using pl(2) b1 data_not_parity [OF ready sn(2,3) that(1)] by simp
    qed
    then have "\<forall>(s, x) \<in> set (data_devs cfg). s < pt_slot pl \<longrightarrow> s \<noteq> k \<longrightarrow> blocks cfg w1 a x = Inr (pt_orig pl)" by blast
    moreover have "blocks cfg w1 a (pt_path pl) \<noteq> Inr (pt_orig pl)" using b1 pl(3) by auto
    ultimately have rd: "restored_disk cfg k (blocks cfg w1 a) (pt_orig pl) (pt_slot pl) (pt_path pl)"
      using r(9) Some unfolding restored_disk_def partner_in_array_def by blast
    from restore_second_completes [OF w1(1) slots bk(4) [OF Some] fr blocks_length [OF pl(2)] rd] obtain w2 where
      "restore_second cfg k a ?pb files' w1 = (w2, Inr ())" "array_healthy cfg w2 a"
      "blocks cfg w2 a = (blocks cfg w1 a)(pt_path pl := Inr (pt_orig pl))" by blast
    with b1 pl(2) ap show ?thesis by (intro exI [of _ w2]) (auto simp: fun_eq_iff)
  qed
  from restore_completes [OF ready healthy orig sn(2,3) second] obtain w2 w3 p q where
    w3: "restore_stripe cfg k dev a bp w' files' = (w3, Inr ())" "blocks cfg w2 a = ?par ?base" "compute_p cfg w2 a BLOCK = Inr p"
      "compute_q cfg w2 a BLOCK = Inr q" "blocks cfg w3 a = (?par ?base)(sn_p_path sn := Inr p, sn_q_path sn := Inr q)" .
  have "\<forall>(s, x) \<in> set (data_devs cfg). blocks cfg w2 a x = ?base x"
    using w3(2) data_not_parity [OF ready sn(2,3)] by auto
  from compute_cong [OF this] sync sn(2-5) w3(3,4)
  have "Inr p = blocks cfg w a (sn_p_path sn)" "Inr q = blocks cfg w a (sn_q_path sn)" by (simp_all add: in_sync_def)
  with sn(4,5) have "p = sn_p_before sn" "q = sn_q_before sn" by simp_all
  with w3(5) sn(4,5) have "blocks cfg w3 a = ?base" by (auto simp: fun_eq_iff)
  with w3(1) show ?thesis by blast
qed

lemma find_split: "find P xs = Some t \<Longrightarrow> \<exists>pre post. xs = pre @ t # post \<and> (\<forall>y \<in> set pre. \<not> P y)"
proof (induction xs)
  case (Cons x xs)
  show ?case
  proof (cases "P x")
    case True
    with Cons.prems show ?thesis by (intro exI [of _ "[]"] exI [of _ xs]) simp
  next
    case False
    with Cons obtain pre post where "xs = pre @ t # post" "\<forall>y \<in> set pre. \<not> P y" by auto
    with False show ?thesis by (intro exI [of _ "x # pre"] exI [of _ post]) simp
  qed
qed simp

text \<open>The default partner is the first other data disk, so the scan finds it.\<close>

lemma default_partner_first:
  assumes "slots_ok cfg" "choose_partner cfg k None = Inr (t, p)" "(s, x) \<in> set (data_devs cfg)" "s < t"
  shows "s = k"
proof (rule ccontr)
  assume "s \<noteq> k"
  obtain pre post where eq: "map fst (data_devs cfg) = pre @ t # post" "\<forall>y \<in> set pre. y = k"
    using assms(2) by (auto simp: choose_partner_def sum_bind_Inr split: option.splits dest!: find_split)
  have "s \<in> set pre \<or> s = t \<or> s \<in> set post" using assms(3) arg_cong [OF eq(1), of set] by force
  moreover have "\<forall>y \<in> set post. t < y" using assms(1) eq(1) by (simp add: slots_ok_def bt_ok_def sorted_wrt_append)
  ultimately show False using eq(2) \<open>s \<noteq> k\<close> assms(4) by auto
qed

text \<open>
  A partner that is not the first other disk to differ: the restoration completes and reports success, but it has
  written the partner's block to the wrong disk, left the partner corrupt, and made both parities agree with that.
\<close>

lemma restore_hits_wrong_disk:
  assumes ready: "array_ready cfg k dev w" and healthy: "array_healthy cfg w' a"
    and run: "corrupt_stripe H cfg k dev a opts w files = Ret (w', files', Inr ())"
    and opts: "co_targets opts = TwoDisk" "co_backup opts = Some bp" "with_extension bp ''partner'' \<noteq> bp" "\<forall>x. file_read_fault files x = None"
    and t: "choose_partner cfg k (co_partner_slot opts) = Inr (t, tp)" "t \<noteq> k"
    and hit: "restored_disk cfg k (blocks cfg w a) b s x" "blocks cfg w a tp = Inr b" "s < t"
  shows "\<exists>w''. restore_stripe cfg k dev a bp w' files' = (w'', Inr ()) \<and>
    blocks cfg w'' a x = Inr b \<and> blocks cfg w a x \<noteq> Inr b \<and>
    blocks cfg w'' a tp = blocks cfg w' a tp \<and> blocks cfg w' a tp \<noteq> blocks cfg w a tp \<and> in_sync cfg w'' a"
proof -
  have other: "other_partner cfg k opts" using t by (simp add: other_partner_def)
  from ready run other obtain sn corrupt files1 partner parities where r: "take_snapshot cfg w dev a = Inr sn"
    "flip_byte (co_byte_offset opts) (co_flip opts) (sn_orig sn) = Ret corrupt" "crc32c H corrupt \<noteq> crc32c H (sn_orig sn)"
    "plan_partner H cfg w k a opts files = Ret (files1, Inr partner)" "save_block opts (sn_orig sn) files1 = (files', Inr ())"
    "new_parity cfg w k a (co_targets opts) sn corrupt = Inr parities" "length corrupt = BLOCK"
    "blocks cfg w' a = partner_update partner ((blocks cfg w a)(dev := Inr corrupt, sn_p_path sn := Inr (fst parities),
      sn_q_path sn := Inr (snd parities)))" "partner_in_array cfg k partner"
    by (rule crafted_blocks)
  note sn = take_snapshot_Inr [OF r(1)] and apart = partner_apart [OF ready r(9)]
  from plan_partner_Ok(2) [OF r(4) opts(1)] obtain pl where pl: "partner = Some pl"
    "choose_partner cfg k (co_partner_slot opts) = Inr (pt_slot pl, pt_path pl)" "blocks cfg w a (pt_path pl) = Inr (pt_orig pl)"
    "crc32c H (pt_corrupt pl) \<noteq> crc32c H (pt_orig pl)" "save_partner opts pl files = (files1, Inr (Some pl))" by blast
  have tp: "pt_slot pl = t" "pt_path pl = tp" "pt_orig pl = b" using pl(2,3) t(1) hit(2) by simp_all
  have ap: "tp \<noteq> dev" "tp \<noteq> sn_p_path sn" "tp \<noteq> sn_q_path sn"
    using apart(1) [OF pl(1)] apart(2) [OF pl(1) sn(2)] apart(3) [OF pl(1) sn(3)] tp(2) by simp_all
  have slots: "slots_ok cfg" using ready by (simp add: array_ready_def)
  have sx: "data_dev cfg s = Some x" "s \<noteq> k" "blocks cfg w a x \<noteq> Inr b" using hit(1) by (simp_all add: restored_disk_def)
  have smem: "(s, x) \<in> set (data_devs cfg)" using sx(1) by (simp add: data_dev_def map_of_SomeD)
  have tmem: "(t, tp) \<in> set (data_devs cfg)" using choose_partner_Inr [OF t(1)] by (simp add: data_dev_def map_of_SomeD)
  have xtp: "x \<noteq> tp" using ready_same_path [OF ready smem, of t] tmem hit(3) by auto
  have files: "files' = files\<lparr>stored_files := (stored_files files)(with_extension bp ''partner'' \<mapsto> b, bp \<mapsto> sn_orig sn)\<rparr>"
    using r(5) pl(5) opts(2) tp(3) by (auto simp: save_block_def save_partner_def file_write_Inr split: prod.splits sum.splits)
  have bk: "stored_files files' bp = Some (sn_orig sn)" "stored_files files' (with_extension bp ''partner'') = Some b"
    and fr: "file_read_fault files' y = None" for y
    using opts(3,4) by (simp_all add: files)
  have orig: "read_backup files' bp = Inr (sn_orig sn)" using read_backup_stored [OF bk(1) fr blocks_length [OF sn(1)]] .
  let ?g = "(blocks cfg w a)(sn_p_path sn := Inr (fst parities), sn_q_path sn := Inr (snd parities), tp := Inr (pt_corrupt pl))"
  have second: "\<exists>w2. restore_second cfg k a (with_extension bp ''partner'') files' w1 = (w2, Inr ()) \<and> array_healthy cfg w2 a \<and>
      blocks cfg w2 a = ?g(x := Inr b)"
    if w1: "array_healthy cfg w1 a" "blocks cfg w1 a = (blocks cfg w' a)(dev := Inr (sn_orig sn))" for w1
  proof -
    have b1: "blocks cfg w1 a = ?g"
      using w1(2) after_first_write [OF ready r(1,9,8)] pl(1) tp(2) by (simp add: partner_update_def)
    have "blocks cfg w1 a y = blocks cfg w a y" if "(s', y) \<in> set (data_devs cfg)" "s' \<le> s" for s' y
    proof -
      have "y \<noteq> tp" using ready_same_path [OF ready that(1), of t] tmem that(2) hit(3) by auto
      with b1 data_not_parity [OF ready sn(2,3) that(1)] show ?thesis by simp
    qed
    then have "blocks cfg w1 a x = blocks cfg w a x"
      "\<forall>(s', y) \<in> set (data_devs cfg). s' < s \<longrightarrow> s' \<noteq> k \<longrightarrow> blocks cfg w1 a y = blocks cfg w a y"
      using smem by auto
    then have rd: "restored_disk cfg k (blocks cfg w1 a) b s x"
      using hit(1) unfolding restored_disk_def by fastforce
    from restore_second_completes [OF w1(1) slots bk(2) fr blocks_length [OF hit(2)] rd] b1 show ?thesis by simp
  qed
  from restore_completes [OF ready healthy orig sn(2,3) second] obtain w2 w3 p q where
    w3: "restore_stripe cfg k dev a bp w' files' = (w3, Inr ())" "blocks cfg w2 a = ?g(x := Inr b)" "compute_p cfg w2 a BLOCK = Inr p"
      "compute_q cfg w2 a BLOCK = Inr q" "blocks cfg w3 a = (?g(x := Inr b))(sn_p_path sn := Inr p, sn_q_path sn := Inr q)" .
  have "\<forall>(s, y) \<in> set (data_devs cfg). blocks cfg w3 a y = blocks cfg w2 a y"
    using w3(2,5) data_not_parity [OF ready sn(2,3)] by auto
  from compute_cong [OF this] w3(3,4) have "compute_p cfg w3 a BLOCK = Inr p" "compute_q cfg w3 a BLOCK = Inr q" by simp_all
  moreover have "sn_p_path sn \<noteq> sn_q_path sn" using ready_distinct(3) [OF ready sx(1) sn(2,3)] .
  then have "blocks cfg w3 a (sn_p_path sn) = Inr p" "blocks cfg w3 a (sn_q_path sn) = Inr q" using w3(5) by simp_all
  ultimately have "in_sync cfg w3 a" using sn(2,3) by (simp add: in_sync_def)
  moreover have "blocks cfg w3 a x = Inr b" using w3(5) data_not_parity [OF ready sn(2,3) smem] by simp
  moreover have "blocks cfg w' a tp = Inr (pt_corrupt pl)" using r(8) pl(1) tp(2) by (simp add: partner_update_def)
  moreover have "blocks cfg w3 a tp = Inr (pt_corrupt pl)" using w3(5) ap xtp by simp
  moreover have "pt_corrupt pl \<noteq> b" using pl(4) tp(3) by auto
  ultimately show ?thesis using w3(1) sx(3) hit(2) by auto
qed

subsection \<open>The commands\<close>

text \<open>
  The two commands on one sector. The restoration looks the sector up again, on the corrupted array; the search
  reads metadata only, so it finds the same sector.
\<close>

lemma restore_cmd_round_trip:
  assumes "locate_sector E w dev (co_sector opts) = Some (Ret (Inr (fd, a, l, ino)))"
    and "locate_sector E w' dev (co_sector opts) = locate_sector E w dev (co_sector opts)"
    and "slot_from_array_partition dev = Some k" "array_ready cfg k path w" "array_healthy cfg w' a" "in_sync cfg w a"
    and "corrupt_cmd E (Inr cfg) dev opts w files = Some (Ret (w', files', Inr ()))" "restorable cfg w a k opts files bp"
  shows "\<exists>w''. restore_cmd E (Inr cfg) dev bp opts w' files' = Some (Ret (w'', 0)) \<and> blocks cfg w'' a = blocks cfg w a"
proof -
  have k: "data_dev cfg k = Some path" using assms(4) by (simp add: array_ready_def)
  have "corrupt_stripe (env_hashes E) cfg k path a opts w files = Ret (w', files', Inr ())"
    using assms(1,3,7) k by (simp add: corrupt_cmd_def)
  from restore_round_trip [OF assms(4,5,6) this assms(8)] assms(1-3) k show ?thesis by (auto simp: restore_cmd_def)
qed

text \<open>
  Two traps of the options. Naming the scrubbed slot as the partner is accepted: the partner's block is written over
  the corrupt one, so a single disk is corrupt. A backup file that ends in \<open>.partner\<close> is its own partner
  file, so the partner's backup is overwritten by the sector's.
\<close>

lemma partner_is_scrubbed_disk:
  assumes "corrupt_stripe H cfg k dev a opts w files = Ret (w', files', Inr ())" "array_ready cfg k dev w"
    and "co_targets opts = TwoDisk" "co_partner_slot opts = Some k" "blocks cfg w a dev = Inr d"
  shows "\<exists>c. flip_byte (add64 (co_byte_offset opts) 1 mod BLOCK) (co_flip opts XOR 1) d = Ret c \<and> blocks cfg w' a dev = Inr c"
proof -
  from assms(1) obtain sn corrupt files1 partner parities where r: "take_snapshot cfg w dev a = Inr sn"
    "flip_byte (co_byte_offset opts) (co_flip opts) (sn_orig sn) = Ret corrupt" "crc32c H corrupt \<noteq> crc32c H (sn_orig sn)"
    "plan_partner H cfg w k a opts files = Ret (files1, Inr partner)" "save_block opts (sn_orig sn) files1 = (files', Inr ())"
    "new_parity cfg w k a (co_targets opts) sn corrupt = Inr parities"
    "write_corruption cfg dev a corrupt sn parities partner w = (w', Inr ())"
    by (rule corrupt_stripe_Ok)
  note sn = take_snapshot_Inr [OF r(1)]
  have k: "data_dev cfg k = Some dev" and hon: "all_honest cfg w" using assms(2) by (simp_all add: array_ready_def)
  have lens: "length corrupt = BLOCK" "length (fst parities) = BLOCK" "length (snd parities) = BLOCK"
    using r(2) blocks_length [OF sn(1)] new_parity_length [OF r(1,6)] by (auto simp: flip_byte_Ret)
  from plan_partner_Ok(2) [OF r(4) assms(3)] obtain pl where pl: "partner = Some pl" "choose_partner cfg k (Some k) = Inr (pt_slot pl, pt_path pl)"
    "blocks cfg w a (pt_path pl) = Inr (pt_orig pl)"
    "flip_byte (add64 (co_byte_offset opts) 1 mod BLOCK) (co_flip opts XOR 1) (pt_orig pl) = Ret (pt_corrupt pl)"
    using assms(4) by auto
  have "pt_path pl = dev" using pl(2) k by (simp add: choose_partner_def)
  moreover have "\<forall>pl. partner = Some pl \<longrightarrow> pt_path pl \<in> config_paths cfg \<and> length (pt_corrupt pl) = BLOCK"
    using plan_in_array [OF r(4)] by blast
  note write_corruption_blocks(1) [OF r(7,1) hon config_paths_mem(1) [OF k] lens ready_distinct(1) [OF assms(2) k sn(2)]
    ready_distinct(2) [OF assms(2) k sn(3)] ready_distinct(3) [OF assms(2) k sn(2,3)] this]
  ultimately show ?thesis using pl assms(5) by (simp add: partner_update_def)
qed

lemma partner_backup_name: "with_extension ''/tmp/b.partner'' ''partner'' = ''/tmp/b.partner''"
  by code_simp

end
