(* ===== verification/Craft_Claims.thy ===== *)
theory Craft_Claims
  imports Craft_Restore
begin

text \<open>
  The properties of the corruption tool (\<open>src/scrub-rs/src/bin/craft_corrupt.rs\<close>), with their examples: an array of three data
  disks and both parities.
\<close>

subsection \<open>A corruption that completes\<close>

lemma healthy_write_ex:
  assumes "array_healthy cfg w a" "p \<in> config_paths cfg" "length bs = BLOCK"
  shows "\<exists>w'. write_block cfg w p a bs = (w', Inr ()) \<and> array_healthy cfg w' a"
  using healthy_array_write [OF assms] by metis

lemma write_corruption_completes:
  assumes "array_healthy cfg w a" "dev \<in> config_paths cfg" "sn_p_path sn \<in> config_paths cfg" "sn_q_path sn \<in> config_paths cfg"
    and "length corrupt = BLOCK" "length (fst parities) = BLOCK" "length (snd parities) = BLOCK"
    and "\<forall>plan. partner = Some plan \<longrightarrow> pt_path plan \<in> config_paths cfg \<and> length (pt_corrupt plan) = BLOCK"
  shows "\<exists>w'. write_corruption cfg dev a corrupt sn parities partner w = (w', Inr ()) \<and> array_healthy cfg w' a"
proof -
  obtain w1 where w1: "write_block cfg w dev a corrupt = (w1, Inr ())" "array_healthy cfg w1 a"
    using healthy_write_ex [OF assms(1,2,5)] by blast
  obtain w2 where w2: "(if fst parities \<noteq> sn_p_before sn then write_block cfg w1 (sn_p_path sn) a (fst parities) else (w1, Inr ())) = (w2, Inr ())"
    "array_healthy cfg w2 a"
    using healthy_write_ex [OF w1(2) assms(3,6)] w1(2) by (cases "fst parities = sn_p_before sn") auto
  obtain w3 where w3: "(if snd parities \<noteq> sn_q_before sn then write_block cfg w2 (sn_q_path sn) a (snd parities) else (w2, Inr ())) = (w3, Inr ())"
    "array_healthy cfg w3 a"
    using healthy_write_ex [OF w2(2) assms(4,7)] w2(2) by (cases "snd parities = sn_q_before sn") auto
  obtain w4 where "(case partner of Some plan \<Rightarrow> write_block cfg w3 (pt_path plan) a (pt_corrupt plan) | None \<Rightarrow> (w3, Inr ())) = (w4, Inr ())"
    "array_healthy cfg w4 a"
    using healthy_write_ex [OF w3(2)] w3(2) assms(8) by (cases partner) auto
  with w1 w2 w3 show ?thesis by (simp add: write_corruption_def)
qed

text \<open>The flip changes the checksum of the block it is applied to.\<close>

definition flip_changes :: "hashes \<Rightarrow> nat \<Rightarrow> byte \<Rightarrow> bytes \<Rightarrow> bool" where
  "flip_changes H i m b \<longleftrightarrow> (\<forall>c. flip_byte i m b = Ret c \<longrightarrow> crc32c H c \<noteq> crc32c H b)"

lemma take_snapshot_honest:
  assumes "all_honest cfg w" "parity_p cfg = Some pp" "parity_q cfg = Some qp" "blocks cfg w a dev = Inr d"
  shows "\<exists>sn. take_snapshot cfg w dev a = Inr sn \<and> sn_orig sn = d \<and> sn_p_path sn = pp \<and> sn_q_path sn = qp"
proof -
  obtain pb qb where "blocks cfg w a pp = Inr pb" "blocks cfg w a qp = Inr qb"
    using honest_read assms(1) config_paths_mem(3) [OF assms(2)] config_paths_mem(4) [OF assms(3)] unfolding all_honest_def by metis
  moreover obtain p q where "compute_p cfg w a BLOCK = Inr p" "compute_q cfg w a BLOCK = Inr q"
    using compute_honest [OF assms(1), of a] by blast
  ultimately show ?thesis using assms by (simp add: take_snapshot_def required_def blocks_def)
qed

lemma new_parity_completes:
  assumes "all_honest cfg w"
  shows "\<exists>parities. new_parity cfg w k a t sn corrupt = Inr parities"
  using compute_honest(3,4) [OF assms, of k corrupt a] by (cases t) (auto simp: new_parity_def)

lemma plan_partner_completes:
  assumes "\<forall>x. file_write_fault files x = None"
    and "co_targets opts = TwoDisk \<longrightarrow> (\<exists>t p b. choose_partner cfg k (co_partner_slot opts) = Inr (t, p) \<and> blocks cfg w a p = Inr b \<and>
      flip_changes H (add64 (co_byte_offset opts) 1 mod BLOCK) (co_flip opts XOR 1) b)"
  shows "\<exists>files1 partner. plan_partner H cfg w k a opts files = Ret (files1, Inr partner) \<and> (\<forall>x. file_write_fault files1 x = None)"
proof (cases "co_targets opts = TwoDisk")
  case False
  with assms(1) show ?thesis by (simp add: plan_partner_def)
next
  case True
  with assms(2) obtain t p b where t: "choose_partner cfg k (co_partner_slot opts) = Inr (t, p)" "blocks cfg w a p = Inr b"
    "flip_changes H (add64 (co_byte_offset opts) 1 mod BLOCK) (co_flip opts XOR 1) b" by blast
  have "add64 (co_byte_offset opts) 1 mod BLOCK < length b" using blocks_length [OF t(2)] by (simp add: BLOCK_def)
  then obtain c where c: "flip_byte (add64 (co_byte_offset opts) 1 mod BLOCK) (co_flip opts XOR 1) b = Ret c" by (simp add: flip_byte_def)
  with t(3) have "crc32c H c \<noteq> crc32c H b" by (simp add: flip_changes_def)
  with True t c assms(1) show ?thesis
    by (cases "co_backup opts") (auto simp: plan_partner_def blocks_def save_partner_def file_write_def)
qed

lemma corrupt_stripe_completes:
  assumes ready: "array_ready cfg k dev w" and healthy: "array_healthy cfg w a" and par: "parity_p cfg = Some pp" "parity_q cfg = Some qp"
    and d: "blocks cfg w a dev = Inr d" "co_byte_offset opts < BLOCK" "flip_changes H (co_byte_offset opts) (co_flip opts) d"
    and files: "\<forall>x. file_write_fault files x = None"
    and two: "co_targets opts = TwoDisk \<longrightarrow> (\<exists>t p b. choose_partner cfg k (co_partner_slot opts) = Inr (t, p) \<and> blocks cfg w a p = Inr b \<and>
      flip_changes H (add64 (co_byte_offset opts) 1 mod BLOCK) (co_flip opts XOR 1) b)"
  shows "\<exists>w' files'. corrupt_stripe H cfg k dev a opts w files = Ret (w', files', Inr ()) \<and> array_healthy cfg w' a"
proof -
  have hon: "all_honest cfg w" and k: "data_dev cfg k = Some dev" using ready by (simp_all add: array_ready_def)
  obtain sn where sn: "take_snapshot cfg w dev a = Inr sn" "sn_orig sn = d" "sn_p_path sn = pp" "sn_q_path sn = qp"
    using take_snapshot_honest [OF hon par d(1)] by blast
  obtain corrupt where c: "flip_byte (co_byte_offset opts) (co_flip opts) d = Ret corrupt" "length corrupt = BLOCK"
    using d(2) blocks_length [OF d(1)] by (simp add: flip_byte_def)
  obtain files1 partner where pl: "plan_partner H cfg w k a opts files = Ret (files1, Inr partner)" "\<forall>x. file_write_fault files1 x = None"
    using plan_partner_completes [OF files two] by blast
  obtain files2 where sv: "save_block opts d files1 = (files2, Inr ())"
    using pl(2) by (cases "co_backup opts") (auto simp: save_block_def file_write_def)
  obtain parities where np: "new_parity cfg w k a (co_targets opts) sn corrupt = Inr parities"
    using new_parity_completes [OF hon] by blast
  have "\<forall>plan. partner = Some plan \<longrightarrow> pt_path plan \<in> config_paths cfg \<and> length (pt_corrupt plan) = BLOCK"
    using plan_in_array [OF pl(1)] by blast
  from write_corruption_completes [OF healthy config_paths_mem(1) [OF k] _ _ c(2) new_parity_length [OF sn(1) np] this]
  obtain w' where "write_corruption cfg dev a corrupt sn parities partner w = (w', Inr ())" "array_healthy cfg w' a"
    using config_paths_mem(3) [OF par(1)] config_paths_mem(4) [OF par(2)] sn(3,4) by auto
  moreover have "crc32c H corrupt \<noteq> crc32c H d" using c(1) d(3) by (simp add: flip_changes_def)
  moreover have "co_targets opts = TwoDisk \<longrightarrow> partner \<noteq> None" using plan_partner_Ok(2) [OF pl(1)] by auto
  ultimately show ?thesis using sn(1,2) c(1) pl(1) sv np by (simp add: corrupt_stripe_def)
qed

subsection \<open>The example\<close>

definition demo_array :: array_config where
  "demo_array = \<lparr>data_devs = [(1, ''a''), (2, ''b''), (3, ''c'')], parity_p = Some ''p'', parity_q = Some ''q'', rdev_offsets = Map.empty\<rparr>"

text \<open>All disks hold zeros, except that the second data disk holds \<open>x\<close>.\<close>

definition demo_array_disks :: "byte \<Rightarrow> disks" where
  "demo_array_disks x = [''a'' \<mapsto> plain_disk (zeros BLOCK), ''b'' \<mapsto> plain_disk (replicate BLOCK x), ''c'' \<mapsto> plain_disk (zeros BLOCK),
     ''p'' \<mapsto> plain_disk (zeros BLOCK), ''q'' \<mapsto> plain_disk (zeros BLOCK)]"

text \<open>A checksum that tells zeros from everything else, and a store of files without faults.\<close>

definition zero_hash :: hashes where
  "zero_hash = \<lparr>crc32c = (\<lambda>b. if b = zeros BLOCK then 0 else 1), xxh64 = (\<lambda>_. 0), sha256 = (\<lambda>_. []), blake2b_32 = (\<lambda>_. [])\<rparr>"

definition no_files :: file_store where
  "no_files = \<lparr>stored_files = Map.empty, file_write_fault = (\<lambda>_. None), file_read_fault = (\<lambda>_. None)\<rparr>"

definition two_disk_opts :: "nat option \<Rightarrow> craft_opts" where
  "two_disk_opts slot = default_craft_opts\<lparr>co_targets := TwoDisk, co_partner_slot := slot, co_backup := Some ''/tmp/b''\<rparr>"

lemma two_disk_opts_fields [simp]:
  "co_targets (two_disk_opts s) = TwoDisk" "co_partner_slot (two_disk_opts s) = s" "co_backup (two_disk_opts s) = Some ''/tmp/b''"
  "co_byte_offset (two_disk_opts s) = 100" "co_flip (two_disk_opts s) = 0x5A"
  by (simp_all add: two_disk_opts_def default_craft_opts_def)

lemma demo_paths: "config_paths demo_array = {''a'', ''b'', ''c'', ''p'', ''q''}"
  by (auto simp: config_paths_def demo_array_def)

lemma demo_healthy: "array_healthy demo_array (demo_array_disks x) 0"
proof -
  have "healthy_at demo_array (demo_array_disks x) p 0 BLOCK"
    if "demo_array_disks x p = Some (plain_disk b)" "length b = BLOCK" for p b
    using that honest_plain_disk [of b]
    by (simp add: healthy_at_def demo_array_def raw_offset_for_def add64_def) (simp add: plain_disk_def)
  then show ?thesis by (simp add: array_healthy_def demo_paths) (simp add: demo_array_disks_def)
qed

lemma demo_ready: "array_ready demo_array 1 ''a'' (demo_array_disks x)"
  using array_healthy_honest [OF demo_healthy]
  by (simp add: array_ready_def parity_paths_def) (simp add: demo_array_def slots_ok_def bt_ok_def data_dev_def)

lemma demo_blocks:
  "blocks demo_array (demo_array_disks x) 0 p =
     (if p = ''b'' then Inr (replicate BLOCK x) else if p \<in> {''a'', ''c'', ''p'', ''q''} then Inr (zeros BLOCK) else Inl NotFound)"
proof -
  have rd: "read_block_or_zeros demo_array (demo_array_disks x) p 0 BLOCK = Inr b"
    if "demo_array_disks x p = Some (plain_disk b)" "length b = BLOCK" for b
    using that by (simp add: read_block_or_zeros_def file_open_def plain_disk_def device_size_def read_exact_at_def demo_array_def
        raw_offset_for_def add64_def zeros_def BLOCK_def)
  show ?thesis
    using rd by (auto simp: blocks_def demo_array_disks_def) (simp add: read_block_or_zeros_def file_open_def Let_def)
qed

lemma demo_fits: "fits64 demo_array 0"
  by (simp add: fits64_def demo_array_def raw_offset_for_def BLOCK_def)

lemma gf_xor_zeros: "gf_mul_xor_inplace (zeros n) (zeros n) c = zeros n"
  by (simp add: bytes_eqI [of _ n] gf_mul_xor_inplace_nth gf.mul_null)

lemma demo_sync: "in_sync demo_array (demo_array_disks 0) 0"
proof -
  have rd: "read_block_or_zeros demo_array (demo_array_disks 0) p 0 BLOCK = Inr (zeros BLOCK)" if "p \<in> {''a'', ''b'', ''c'', ''p'', ''q''}" for p
    using demo_blocks [of 0 p] that by (auto simp: blocks_def zeros_def)
  have "compute_p demo_array (demo_array_disks 0) 0 BLOCK = Inr (zeros BLOCK)"
    using rd by (simp add: compute_p_def demo_array_def [THEN arg_cong [of _ _ data_devs]] parity_source_def xor_zeros)
  moreover have "compute_q demo_array (demo_array_disks 0) 0 BLOCK = Inr (zeros BLOCK)"
    using rd by (simp add: compute_q_def demo_array_def [THEN arg_cong [of _ _ data_devs]] parity_source_def gf_xor_zeros)
  ultimately show ?thesis using rd by (simp add: in_sync_def blocks_def) (simp add: demo_array_def)
qed

lemma demo_flip: "i < BLOCK \<Longrightarrow> m \<noteq> 0 \<Longrightarrow> flip_changes zero_hash i m (zeros BLOCK)"
  by (auto simp: flip_changes_def flip_byte_def zero_hash_def zeros_def dest!: arg_cong [of _ _ "\<lambda>b. b ! i"])

lemma demo_two_disk:
  assumes "choose_partner demo_array 1 slot = Inr (t, p)" "p \<in> {''a'', ''c''}  \<or> p = ''b'' \<and> x = 0"
  shows "\<exists>w' files'. corrupt_stripe zero_hash demo_array 1 ''a'' 0 (two_disk_opts slot) (demo_array_disks x) no_files = Ret (w', files', Inr ()) \<and>
    array_healthy demo_array w' 0"
proof (rule corrupt_stripe_completes [OF demo_ready demo_healthy])
  show "parity_p demo_array = Some ''p''" "parity_q demo_array = Some ''q''" by (simp_all add: demo_array_def)
  show "blocks demo_array (demo_array_disks x) 0 ''a'' = Inr (zeros BLOCK)" by (simp add: demo_blocks)
  show "co_byte_offset (two_disk_opts slot) < BLOCK" by (simp add: BLOCK_def)
  show "flip_changes zero_hash (co_byte_offset (two_disk_opts slot)) (co_flip (two_disk_opts slot)) (zeros BLOCK)"
    using demo_flip [of 100 "0x5A"] by (simp add: BLOCK_def)
  show "\<forall>x. file_write_fault no_files x = None" by (simp add: no_files_def)
  have "blocks demo_array (demo_array_disks x) 0 p = Inr (zeros BLOCK)" using assms(2) by (auto simp: demo_blocks zeros_def)
  moreover have "flip_changes zero_hash (add64 100 1 mod BLOCK) (0x5A XOR 1) (zeros BLOCK)"
    using demo_flip [of 101 "0x5A XOR 1"] by (simp add: BLOCK_def)
  ultimately show "co_targets (two_disk_opts slot) = TwoDisk \<longrightarrow> (\<exists>t p b. choose_partner demo_array 1 (co_partner_slot (two_disk_opts slot)) = Inr (t, p) \<and>
      blocks demo_array (demo_array_disks x) 0 p = Inr b \<and>
      flip_changes zero_hash (add64 (co_byte_offset (two_disk_opts slot)) 1 mod BLOCK) (co_flip (two_disk_opts slot) XOR 1) b)"
    using assms(1) by simp
qed

lemma demo_partner: "choose_partner demo_array 1 None = Inr (2, ''b'')" "choose_partner demo_array 1 (Some 3) = Inr (3, ''c'')"
  by (simp_all add: choose_partner_def demo_array_def data_dev_def)

lemma demo_partner_file: "with_extension ''/tmp/b'' ''partner'' = ''/tmp/b.partner''"
  by code_simp

subsection \<open>Properties\<close>





text \<open>C39: The restoration can destroy a healthy disk: it looks for the partner as the first other data disk whose block
  differs from the partner's backup. When a healthy disk in an earlier slot holds other data (the partner was
  chosen with \<open>--partner\<close>), the restoration reports success although it overwrote that disk's block with the
  partner's, left the partner corrupt, and recomputed both parities to agree with the damage.\<close>

theorem restore_overwrites_healthy_disk:
  assumes "array_ready cfg k dev w" "array_healthy cfg w a" "fits64 cfg a"
    and "corrupt_stripe H cfg k dev a opts w files = Ret (w', files', Inr ())"
    and "co_targets opts = TwoDisk" "co_backup opts = Some bp" "with_extension bp ''partner'' \<noteq> bp" "\<forall>x. file_read_fault files x = None"
    and "choose_partner cfg k (co_partner_slot opts) = Inr (t, tp)" "t \<noteq> k"
    and "restored_disk cfg k (blocks cfg w a) b s x" "blocks cfg w a tp = Inr b" "s < t"
  shows "\<exists>w''. restore_stripe cfg k dev a bp w' files' = (w'', Inr ()) \<and>
    blocks cfg w'' a x = Inr b \<and> blocks cfg w a x \<noteq> Inr b \<and>
    blocks cfg w'' a tp = blocks cfg w' a tp \<and> blocks cfg w' a tp \<noteq> blocks cfg w a tp \<and> in_sync cfg w'' a"
proof -
  have k: "data_dev cfg k = Some dev" using assms(1) by (simp add: array_ready_def)
  have "array_healthy cfg w' a"
    using corrupt_stripe_touched [OF assms(4) array_healthy_honest [OF assms(2)] assms(3) k] assms(2) by (simp add: touched_def)
  from restore_hits_wrong_disk [OF assms(1) this assms(4-13)] show ?thesis .
qed

theorem restore_overwrites_healthy_disk_witness:
  "\<exists>w' files' w''. corrupt_stripe zero_hash demo_array 1 ''a'' 0 (two_disk_opts (Some 3)) (demo_array_disks 7) no_files = Ret (w', files', Inr ()) \<and>
    restore_stripe demo_array 1 ''a'' 0 ''/tmp/b'' w' files' = (w'', Inr ()) \<and>
    blocks demo_array (demo_array_disks 7) 0 ''b'' = Inr (replicate BLOCK 7) \<and> blocks demo_array w'' 0 ''b'' = Inr (zeros BLOCK)"
proof -
  obtain w' files' where run: "corrupt_stripe zero_hash demo_array 1 ''a'' 0 (two_disk_opts (Some 3)) (demo_array_disks 7) no_files = Ret (w', files', Inr ())"
    using demo_two_disk [OF demo_partner(2), of 7] by auto
  have "replicate BLOCK (7 :: byte) \<noteq> zeros BLOCK" by (auto simp: zeros_def BLOCK_def dest!: arg_cong [of _ _ hd])
  then have "restored_disk demo_array 1 (blocks demo_array (demo_array_disks 7) 0) (zeros BLOCK) 2 ''b''"
    by (auto simp: restored_disk_def demo_blocks) (auto simp: demo_array_def data_dev_def)
  with restore_overwrites_healthy_disk [OF demo_ready demo_healthy demo_fits run, of "''/tmp/b''" 3 "''c''" "zeros BLOCK" 2 "''b''"] run
  show ?thesis by (auto simp: demo_partner_file demo_partner [unfolded One_nat_def] no_files_def demo_blocks)
qed



end
