(* ===== verification/Repair_Run.thy ===== *)
theory Repair_Run
  imports Array_View Main_Driver
begin

text \<open>
  The repair of a whole run. First, no pipeline run damages a byte that was right, whatever fails; then, when only the scrubbed
  disk is damaged and P is in sync, a run leaves every reported sector with its original bytes and says so in
  its exit code.
\<close>

subsection \<open>A repair never damages\<close>

text \<open>The verifier of the candidate accepts only right bytes, and the block lies in the address space.\<close>

definition right_verifier :: "array_config \<Rightarrow> (path \<Rightarrow> nat \<Rightarrow> byte) \<Rightarrow> candidate \<Rightarrow> bool" where
  "right_verifier cfg g c \<longleftrightarrow> 0 < block_size c \<and> array_phys c + raw_offset_for cfg (failing_dev c) + block_size c \<le> 2 ^ 64 \<and>
     (\<forall>b. length b = block_size c \<and> verify c b \<longrightarrow> (\<forall>i < block_size c. b ! i = g (failing_dev c) (array_phys c + i)))"

definition step_keeps_gold :: "array_config \<Rightarrow> (path \<Rightarrow> nat \<Rightarrow> byte) \<Rightarrow> path set \<Rightarrow> disks \<Rightarrow> disks \<Rightarrow> bool" where
  "step_keeps_gold cfg g D w w' \<longleftrightarrow> (\<forall>x \<in> D. honest_at w x) \<longrightarrow> (\<forall>x \<in> D. honest_at w' x) \<and> keeps_gold cfg g w w'"

lemma step_keeps_gold_preorder: "reflp (step_keeps_gold cfg g D)" "transp (step_keeps_gold cfg g D)"
  by (auto simp: step_keeps_gold_def reflp_def transp_def dest: keeps_gold_trans)

lemma candidate_keeps_gold:
  assumes "process_candidate rc cfg slot dry live wa c s = Ret s'" "right_verifier cfg g c" "failing_dev c \<in> D"
  shows "step_keeps_gold cfg g D (w_disks s) (w_disks s')"
proof (cases "w_disks s' = w_disks s")
  case False
  from process_candidate_disks [OF assms(1) this] obtain b r where b: "verify c b" "length b = block_size c"
    "write_block cfg (w_disks s) (failing_dev c) (array_phys c) b = (w_disks s', r)"
    by (metis prod.collapse)
  have "b \<noteq> []" "\<forall>i < length b. b ! i = g (failing_dev c) (array_phys c + i)"
    and fit: "array_phys c + raw_offset_for cfg (failing_dev c) + length b \<le> 2 ^ 64"
    using assms(2) b(1,2) by (auto simp: right_verifier_def)
  with write_keeps_gold [OF _ b(3) fit] write_honest [OF _ b(3)] assms(3) show ?thesis
    by (auto simp: step_keeps_gold_def)
qed (simp add: step_keeps_gold_def)

lemma flush_keeps_gold:
  assumes "flush_batch rc cfg slot dry ex batch (fz, s) = Ret ((fz', s'), res)"
    and "\<forall>c \<in> set batch. right_verifier cfg g c \<and> failing_dev c \<in> D"
  shows "step_keeps_gold cfg g D (w_disks s) (w_disks s')"
  using assms(1)
proof (cases rule: flush_batch_parts)
  case (parts fz1 gr d)
  let ?R = "\<lambda>s s'. step_keeps_gold cfg g D (w_disks s) (w_disks s')"
  have "?R (count_deduped (length batch - length (sort_dedup batch)) s) s'"
  proof (rule batch_loop_rel [where R = ?R and C = "set batch", OF _ _ _ parts(2) sort_dedup_set])
    show "reflp ?R" "transp ?R"
      using step_keeps_gold_preorder [of cfg g D] by (auto simp: reflp_def intro!: transpI dest: transpD)
  qed (use assms(2) candidate_keeps_gold in blast)
  then show ?thesis by simp
qed

lemma pipeline_keeps_gold:
  assumes "spawn_pipeline rc cfg slot dry clock bm (\<lambda>_. True) es fz w r counters = Ret ((fz', s'), res)"
    and "\<forall>c \<in> set (sent_candidates es). right_verifier cfg g c \<and> honest_at w (failing_dev c)"
  shows "keeps_gold cfg g w (w_disks s')"
proof -
  let ?C = "set (sent_candidates es)"
  let ?s = "\<lparr>w_disks = w, w_reconfirmer = r, w_stats = default_batch_stats, w_counters = counters\<rparr>"
  let ?R = "\<lambda>st st'. step_keeps_gold cfg g (failing_dev ` ?C) (w_disks (snd st)) (w_disks (snd st'))"
  from assms(1) obtain fz1 where rw: "run_writer rc cfg slot dry clock 0 [] (run_accumulator bm (\<lambda>_. True) es) (fz, ?s) =
      Ret ((fz1, s'), res)" by (rule spawn_pipelineE)
  have "?R (fz, ?s) (fz1, s')"
  proof (rule run_writer_rel [where R = ?R and C = ?C, OF _ _ _ rw])
    show "reflp ?R" "transp ?R"
      using step_keeps_gold_preorder [of cfg g "failing_dev ` ?C"] by (auto simp: reflp_def intro!: transpI dest: transpD)
    fix ex batch st st' x
    assume "set batch \<subseteq> ?C" and fl: "flush_batch rc cfg slot dry ex batch st = Ret (st', x)"
    then have "\<forall>c \<in> set batch. right_verifier cfg g c \<and> failing_dev c \<in> failing_dev ` ?C" using assms(2) by blast
    with flush_keeps_gold [of rc cfg slot dry ex batch "fst st" "snd st" "fst st'" "snd st'" x] fl show "?R st st'" by simp
  qed (simp add: run_accumulator_def accumulator_content)
  with assms(2) show ?thesis by (simp add: step_keeps_gold_def)
qed

subsection \<open>Settling every candidate\<close>

text \<open>
  \<open>I\<close> holds between candidates, \<open>Q a\<close> says that the block at \<open>a\<close> is done. When every candidate is settled in turn and what
  is settled stays so, a batch settles what it does not defer, and the writer settles everything.
\<close>

lemma batch_loop_settles:
  assumes step: "\<And>c s. I s \<Longrightarrow> c \<in> C \<Longrightarrow> \<exists>s'. proc c s = Ret s' \<and> I s' \<and> (\<forall>a. Q a s \<longrightarrow> Q a s') \<and> Q (array_phys c) s'"
  shows "I s \<Longrightarrow> set cs \<subseteq> C \<Longrightarrow> \<exists>s' d. batch_loop proc wa ex i cs s = Ret (s', d) \<and> I s' \<and> (\<forall>a. Q a s \<longrightarrow> Q a s') \<and>
    (\<forall>a \<in> array_phys ` set cs. Q a s' \<or> a \<in> array_phys ` set d)"
proof (induction cs arbitrary: i s)
  case (Cons c cs)
  show ?case
  proof (cases "0 < i \<and> wa \<and> ex i")
    case True
    with Cons.prems(1) show ?thesis by simp
  next
    case False
    from step [of s c] Cons.prems obtain s1 where s1: "proc c s = Ret s1" "I s1" "\<forall>a. Q a s \<longrightarrow> Q a s1" "Q (array_phys c) s1"
      by auto
    from Cons.IH [OF s1(2), of "Suc i"] Cons.prems(2) obtain s' d where "batch_loop proc wa ex (Suc i) cs s1 = Ret (s', d)" "I s'"
      "\<forall>a. Q a s1 \<longrightarrow> Q a s'" "\<forall>a \<in> array_phys ` set cs. Q a s' \<or> a \<in> array_phys ` set d" by auto
    with s1 False show ?thesis by (intro exI [of _ s'] exI [of _ d]) auto
  qed
qed simp

lemma drain_settles:
  assumes step: "\<And>ex batch st. I st \<Longrightarrow> set batch \<subseteq> C \<Longrightarrow> \<exists>st' d. flush_batch rc cfg slot dry ex batch st = Ret (st', Inr d) \<and>
      I st' \<and> (\<forall>a. Q a st \<longrightarrow> Q a st') \<and> (\<forall>a \<in> array_phys ` set batch. Q a st' \<or> a \<in> array_phys ` set d)"
  shows "I st \<Longrightarrow> set pending \<subseteq> C \<Longrightarrow> \<exists>st'. drain rc cfg slot dry clock f pending st = Ret (st', Inr (w_stats (snd st'))) \<and>
      I st' \<and> (\<forall>a. Q a st \<longrightarrow> Q a st') \<and> (\<forall>a \<in> array_phys ` set pending. Q a st')"
proof (induction "length pending" arbitrary: f pending st rule: less_induct)
  case less
  show ?case
  proof (cases "pending = []")
    case True
    with less.prems show ?thesis by (simp add: drain.simps)
  next
    case False
    from step [OF less.prems, of "clock f"] obtain st1 d where fl: "flush_batch rc cfg slot dry (clock f) pending st = Ret (st1, Inr d)"
      "I st1" "\<forall>a. Q a st \<longrightarrow> Q a st1" "\<forall>a \<in> array_phys ` set pending. Q a st1 \<or> a \<in> array_phys ` set d" by blast
    have "set d \<subseteq> C" using flush_deferred_subset [OF fl(1)] less.prems(2) by blast
    from less.hyps [OF flush_batch_progress [OF fl(1) False] fl(2) this, of "Suc f"] obtain st' where
      "drain rc cfg slot dry clock (Suc f) d st1 = Ret (st', Inr (w_stats (snd st')))" "I st'" "\<forall>a. Q a st1 \<longrightarrow> Q a st'"
      "\<forall>a \<in> array_phys ` set d. Q a st'" by blast
    with fl False show ?thesis by (intro exI [of _ st']) (auto simp: drain.simps [of _ _ _ _ _ _ pending])
  qed
qed

lemma run_writer_settles:
  assumes step: "\<And>ex batch st. I st \<Longrightarrow> set batch \<subseteq> C \<Longrightarrow> \<exists>st' d. flush_batch rc cfg slot dry ex batch st = Ret (st', Inr d) \<and>
      I st' \<and> (\<forall>a. Q a st \<longrightarrow> Q a st') \<and> (\<forall>a \<in> array_phys ` set batch. Q a st' \<or> a \<in> array_phys ` set d)"
  shows "I st \<Longrightarrow> set pending \<union> set (batch_content ms) \<subseteq> C \<Longrightarrow>
    \<exists>st'. run_writer rc cfg slot dry clock f pending ms st = Ret (st', Inr (w_stats (snd st'))) \<and>
      I st' \<and> (\<forall>a. Q a st \<longrightarrow> Q a st') \<and> (\<forall>a \<in> array_phys ` (set pending \<union> set (batch_content ms)). Q a st')"
proof (induction ms arbitrary: f pending st)
  case Nil
  then show ?case using drain_settles [where I = I and Q = Q and C = C, OF step] by simp
next
  case (Cons m ms)
  show ?case
  proof (cases m)
    case BatchDone
    with Cons.prems show ?thesis using drain_settles [where I = I and Q = Q and C = C, OF step] by simp
  next
    case (Batch b)
    from step [OF Cons.prems(1), of "pending @ b" "clock f"] Cons.prems(2) Batch obtain st1 d where
      fl: "flush_batch rc cfg slot dry (clock f) (pending @ b) st = Ret (st1, Inr d)"
      "I st1" "\<forall>a. Q a st \<longrightarrow> Q a st1" "\<forall>a \<in> array_phys ` set (pending @ b). Q a st1 \<or> a \<in> array_phys ` set d" by auto
    have "set d \<union> set (batch_content ms) \<subseteq> C" using flush_deferred_subset [OF fl(1)] Cons.prems(2) Batch by auto
    from Cons.IH [OF fl(2) this, of "Suc f"] obtain st' where
      "run_writer rc cfg slot dry clock (Suc f) d ms st1 = Ret (st', Inr (w_stats (snd st')))" "I st'" "\<forall>a. Q a st1 \<longrightarrow> Q a st'"
      "\<forall>a \<in> array_phys ` (set d \<union> set (batch_content ms)). Q a st'" by blast
    with fl Batch show ?thesis by (intro exI [of _ st']) auto
  qed
qed

text \<open>A flush on a kernel whose ioctls work may always write; it settles its batch when every candidate is settled.\<close>

lemma flush_settles:
  assumes step: "\<And>live c s. I s \<Longrightarrow> c \<in> C \<Longrightarrow> \<exists>s'. process_candidate rc cfg slot dry live True c s = Ret s' \<and> I s' \<and>
      (\<forall>a. Q a s \<longrightarrow> Q a s') \<and> Q (array_phys c) s'"
    and dedup: "\<And>n s. I s \<Longrightarrow> I (count_deduped n s)" "\<And>a n s. Q a (count_deduped n s) = Q a s"
    and I: "freeze_idle (fst st) \<and> ioctls_work (fst (fst st)) \<and> I (snd st)" and C: "set batch \<subseteq> C"
  shows "\<exists>st' d. flush_batch rc cfg slot dry ex batch st = Ret (st', Inr d) \<and>
      (freeze_idle (fst st') \<and> ioctls_work (fst (fst st')) \<and> I (snd st')) \<and> (\<forall>a. Q a (snd st) \<longrightarrow> Q a (snd st')) \<and>
      (\<forall>a \<in> array_phys ` set batch. Q a (snd st') \<or> a \<in> array_phys ` set d)"
proof -
  obtain fz s where st: "st = (fz, s)" by (cases st)
  have fz: "freeze_idle fz" "ioctls_work (fst fz)" and Is: "I s" using I by (simp_all add: st)
  obtain fz1 g where g: "guard fz = (fz1, g)" by fastforce
  from guard_works(2) [OF g fz] have gv: "g = Inr (has_live_mount (snd fz))" .
  let ?s = "count_deduped (length batch - length (sort_dedup batch)) s"
  let ?live = "has_live_mount (snd fz)"
  have "set (sort_dedup batch) \<subseteq> C" using sort_dedup_set [of batch] C by blast
  from batch_loop_settles [where I = I and Q = Q and C = C and proc = "process_candidate rc cfg slot dry ?live True",
      OF step dedup(1) [OF Is] this, of True ex 0]
  obtain s' d where bl: "batch_loop (process_candidate rc cfg slot dry ?live True) True ex 0 (sort_dedup batch) ?s = Ret (s', d)"
    "I s'" "\<forall>a. Q a ?s \<longrightarrow> Q a s'" "\<forall>a \<in> array_phys ` set (sort_dedup batch). Q a s' \<or> a \<in> array_phys ` set d" by blast
  have wa: "(g = Inr True \<or> \<not> ?live) = True" by (simp add: gv)
  have "\<exists>fz' res. flush_batch rc cfg slot dry ex batch (fz, s) = Ret ((fz', s'), res)"
    unfolding flush_batch_def Let_def snd_conv fst_conv g prod.case wa bl(1) run_bind_Ret take_thaw_error_def
    by (cases "last_thaw_error (snd (if g = Inr True then thaw fz1 else fz1))") auto
  then obtain fz' res where fl: "flush_batch rc cfg slot dry ex batch (fz, s) = Ret ((fz', s'), res)" by blast
  from flush_works [OF fl fz] obtain d' where res: "res = Inr d'" "ioctls_work (fst fz')" by blast
  have "d' = d"
    using fl
  proof (cases rule: flush_batch_parts)
    case (parts fz2 g2 d2)
    have "fz2 = fz1" "g2 = g" using parts(1) g by simp_all
    with parts(2) bl(1) wa have "d2 = d" by simp
    with parts(5) res(1) show ?thesis by (simp split: option.splits)
  qed
  moreover have "freeze_idle fz'" using flush_freeze [OF fl fz(1)] res(1) by blast
  ultimately show ?thesis using fl res bl(2,3,4) dedup(2) by (simp add: st sort_dedup_keys)
qed

subsection \<open>Repairing one disk\<close>

text \<open>The scrubbed slot's disk is no other slot's and no parity disk.\<close>

definition only_disk :: "array_config \<Rightarrow> nat \<Rightarrow> path \<Rightarrow> bool" where
  "only_disk cfg k dev \<longleftrightarrow> data_dev cfg k = Some dev \<and> (\<forall>(s, x) \<in> set (data_devs cfg). s \<noteq> k \<longrightarrow> x \<noteq> dev) \<and>
     parity_p cfg \<noteq> Some dev \<and> parity_q cfg \<noteq> Some dev"

text \<open>
  \<open>w0\<close> is the array as it should be, \<open>w\<close> the array found: P is in sync with \<open>w0\<close> at the candidate, whose verifier accepts
  the original block and nothing else, and the disk of the candidate takes writes.
\<close>

definition repairable :: "array_config \<Rightarrow> disks \<Rightarrow> disks \<Rightarrow> path \<Rightarrow> nat \<Rightarrow> candidate \<Rightarrow> bool" where
  "repairable cfg w0 w dev n c \<longleftrightarrow> failing_dev c = dev \<and> block_size c = n \<and> healthy_at cfg w dev (array_phys c) n \<and>
     right_verifier cfg (array_byte cfg w0) c \<and>
     (\<exists>d. read_block_or_zeros cfg w0 dev (array_phys c) n = Inr d \<and> verify c d) \<and>
     (\<exists>p pp. parity_p cfg = Some pp \<and> compute_p cfg w0 (array_phys c) n = Inr p \<and>
        read_block_or_zeros cfg w0 pp (array_phys c) n = Inr p)"

text \<open>
  The re-confirmer finds the candidates corrupt as long as \<open>J\<close> holds of the disks and its state; its own steps keep
  \<open>J\<close>, and so do repairs of the disk.
\<close>

definition confirming ::
  "'r reconfirmer \<Rightarrow> array_config \<Rightarrow> disks \<Rightarrow> path \<Rightarrow> reconfirm_request option set \<Rightarrow> (disks \<Rightarrow> 'r \<Rightarrow> bool) \<Rightarrow> bool" where
  "confirming rc cfg w0 dev reqs J \<longleftrightarrow>
     (\<forall>req w r. Some req \<in> reqs \<and> J w r \<longrightarrow> snd (rc w r req) = Corruption \<and> J w (fst (rc w r req))) \<and>
     (\<forall>w w' r. J w r \<and> (\<forall>x. x \<noteq> dev \<longrightarrow> w' x = w x) \<and> keeps_gold cfg (array_byte cfg w0) w w' \<longrightarrow> J w' r)"

definition untroubled :: "batch_stats \<Rightarrow> bool" where
  "untroubled st \<longleftrightarrow> failed st = 0 \<and> skipped st = 0 \<and> not_frozen st = 0 \<and> readback_failed st = 0 \<and> not_corrupt st = 0"

definition repairing :: "array_config \<Rightarrow> disks \<Rightarrow> path \<Rightarrow> nat \<Rightarrow> nat set \<Rightarrow> (disks \<Rightarrow> 'r \<Rightarrow> bool) \<Rightarrow> 'r writer \<Rightarrow> bool" where
  "repairing cfg w dev n A J s \<longleftrightarrow> (\<forall>x. x \<noteq> dev \<longrightarrow> w_disks s x = w x) \<and> (\<forall>a \<in> A. healthy_at cfg (w_disks s) dev a n) \<and>
     (honest_at w dev \<longrightarrow> honest_at (w_disks s) dev) \<and> J (w_disks s) (w_reconfirmer s) \<and> untroubled (w_stats s)"

definition restored :: "array_config \<Rightarrow> disks \<Rightarrow> path \<Rightarrow> nat \<Rightarrow> nat \<Rightarrow> disks \<Rightarrow> bool" where
  "restored cfg w0 dev n a w \<longleftrightarrow> (\<forall>i < n. array_byte cfg w dev (a + i) = array_byte cfg w0 dev (a + i))"

lemma keeps_restored: "keeps_gold cfg (array_byte cfg w0) w w' \<Longrightarrow> restored cfg w0 dev n a w \<Longrightarrow> restored cfg w0 dev n a w'"
  by (simp add: keeps_gold_def restored_def)

lemma restored_read:
  assumes "restored cfg w0 dev n a w" "honest_at w dev" "read_block_or_zeros cfg w0 dev a n = Inr d" "a + raw_offset_for cfg dev + n \<le> 2 ^ 64"
  shows "read_block_or_zeros cfg w dev a n = Inr d"
proof -
  obtain b where b: "read_block_or_zeros cfg w dev a n = Inr b" using honest_reads [OF assms(2)] by blast
  have "\<forall>i < n. array_byte cfg w dev (a + i) = d ! i"
    using assms(1) read_block_nth [OF assms(3,4)] by (simp add: restored_def)
  with read_gold [OF b assms(4) read_block_length [OF assms(3)]] b show ?thesis by simp
qed

lemma read_restored:
  assumes "read_block_or_zeros cfg w dev a n = Inr b" "a + raw_offset_for cfg dev + n \<le> 2 ^ 64"
    and "\<forall>i < n. b ! i = array_byte cfg w0 dev (a + i)"
  shows "restored cfg w0 dev n a w"
  using read_block_nth [OF assms(1,2)] assms(3) by (simp add: restored_def)

text \<open>The stripe of the undamaged disks.\<close>

lemma undamaged_stripe:
  assumes "only_disk cfg k dev" "\<forall>x \<in> config_paths cfg. x \<noteq> dev \<longrightarrow> honest_at w x \<and> w x = w0 x"
    and "parity_p cfg = Some pp" "read_block_or_zeros cfg w0 pp a n = Inr p"
  shows "\<exists>ch. gather_stripe cfg w k a n = Inr ch \<and> chunk_p ch = Some p" "damaged_slot cfg w0 w k"
proof -
  have other: "x \<in> config_paths cfg" "x \<noteq> dev" if "(s, x) \<in> set (data_devs cfg)" "s \<noteq> k" for s x
    using that assms(1) by (auto simp: only_disk_def config_paths_def intro: rev_image_eqI)
  then have "\<forall>(s, x) \<in> set (data_devs cfg). s \<noteq> k \<longrightarrow> honest_at w x" using assms(2) by blast
  then obtain os where os: "gather_data cfg w k a n (data_devs cfg) = Inr os" using gather_data_reads by blast
  have pp: "pp \<in> config_paths cfg" "pp \<noteq> dev" using assms(1,3) by (auto simp: only_disk_def config_paths_def)
  then have p: "read_block_or_zeros cfg w pp a n = Inr p" using read_block_cong [of w pp w0 cfg a n] assms(2,4) by simp
  have "\<exists>q. gather_parity cfg w a n (parity_q cfg) = Inr q"
  proof (cases "parity_q cfg")
    case (Some qp)
    then have "honest_at w qp" using assms(1,2) by (auto simp: only_disk_def config_paths_def)
    with Some honest_reads [of w qp cfg a n] show ?thesis by (auto simp: gather_parity_def)
  qed (simp add: gather_parity_def)
  with os p assms(3) show "\<exists>ch. gather_stripe cfg w k a n = Inr ch \<and> chunk_p ch = Some p"
    by (auto simp: gather_stripe_def gather_parity_def)
  show "damaged_slot cfg w0 w k" using other assms(2) by (fastforce simp: damaged_slot_def)
qed

lemma count_reconfirmer [simp]:
  "w_reconfirmer (count_stale s) = w_reconfirmer s" "w_reconfirmer (count_skipped s) = w_reconfirmer s"
  "w_reconfirmer (count_mismatch s) = w_reconfirmer s" "w_reconfirmer (count_failed s) = w_reconfirmer s"
  "w_reconfirmer (count_recovered s) = w_reconfirmer s" "w_reconfirmer (count_not_frozen s) = w_reconfirmer s"
  "w_reconfirmer (count_readback_failed s) = w_reconfirmer s" "w_reconfirmer (count_not_corrupt s) = w_reconfirmer s"
  "w_reconfirmer (count_deduped n s) = w_reconfirmer s" "w_reconfirmer (note_repair live s) = w_reconfirmer s"
  by (simp_all add: batch_ops)

lemma process_candidate_reconfirmer:
  assumes "process_candidate rc cfg slot dry live wa c s = Ret s'"
  shows "w_reconfirmer s' = w_reconfirmer (fst (reconfirm_stage rc c s))"
proof -
  have wb: "w_reconfirmer (write_back cfg live c b s) = w_reconfirmer s" for b and s :: "'a writer"
    by (simp add: write_back_def verify_readback_def Let_def split: prod.split sum.split)
  have act: "w_reconfirmer (act_on_result cfg dry live wa c res s) = w_reconfirmer s" for res and s :: "'a writer"
    by (simp add: act_on_result_def wb split: recovery_result.split)
  show ?thesis
    using assms by (cases rule: process_candidate_cases)
      (auto simp: recover_candidate_def act run_bind_eq_Ret split: sum.splits)
qed

lemma candidate_settled:
  assumes array: "only_disk cfg k dev" "slots_ok cfg" "\<forall>x \<in> config_paths cfg. x \<noteq> dev \<longrightarrow> honest_at w x \<and> w x = w0 x"
    and cand: "repairable cfg w0 w dev n c" "array_phys c \<in> A" and J: "confirming rc cfg w0 dev (cand_reconfirm ` C) J" "c \<in> C"
    and I: "repairing cfg w dev n A J s"
  shows "\<exists>s'. process_candidate rc cfg k False live True c s = Ret s' \<and> repairing cfg w dev n A J s' \<and>
    (\<forall>a. restored cfg w0 dev n a (w_disks s) \<longrightarrow> restored cfg w0 dev n a (w_disks s')) \<and>
    restored cfg w0 dev n (array_phys c) (w_disks s')"
proof -
  let ?a = "array_phys c"
  from cand(1) have dev: "failing_dev c = dev" "block_size c = n" and right: "right_verifier cfg (array_byte cfg w0) c"
    by (simp_all add: repairable_def)
  from right dev have fit: "?a + raw_offset_for cfg dev + n \<le> 2 ^ 64" by (simp add: right_verifier_def)
  from cand(1) obtain d p pp where d: "read_block_or_zeros cfg w0 dev ?a n = Inr d" "verify c d" "parity_p cfg = Some pp"
    "compute_p cfg w0 ?a n = Inr p" "read_block_or_zeros cfg w0 pp ?a n = Inr p" by (auto simp: repairable_def)
  from I cand(2) have h: "healthy_at cfg (w_disks s) dev ?a n" by (simp add: repairing_def)
  obtain s1 v where rs: "reconfirm_stage rc c s = (s1, v)" by fastforce
  note k = reconfirm_stage_keeps [OF rs]
  have v: "v = Corruption \<and> J (w_disks s) (w_reconfirmer s1)"
  proof (cases "cand_reconfirm c")
    case (Some req)
    have "Some req \<in> cand_reconfirm ` C" using J(2) Some by (metis imageI)
    with J(1) I have "snd (rc (w_disks s) (w_reconfirmer s) req) = Corruption \<and> J (w_disks s) (fst (rc (w_disks s) (w_reconfirmer s) req))"
      by (auto simp: confirming_def repairing_def)
    with rs Some show ?thesis by (auto simp: reconfirm_stage_def split: prod.splits)
  qed (use rs I in \<open>auto simp: reconfirm_stage_def repairing_def\<close>)
  show ?thesis
  proof (cases "fetch_corrupt cfg (w_disks s) c")
    case None
    then obtain b where b: "read_block_or_zeros cfg (w_disks s) dev ?a n = Inr b" "verify c b"
      by (auto simp: fetch_corrupt_def dev split: if_splits sum.splits)
    have "restored cfg w0 dev n ?a (w_disks s)"
      using read_restored [OF b(1) fit] right b(2) read_block_length [OF b(1)] by (auto simp: right_verifier_def dev)
    moreover have "process_candidate rc cfg k False live True c s = Ret (count_stale s1)"
      using rs v None k by (simp add: process_candidate_def)
    moreover have "repairing cfg w dev n A J (count_stale s1)"
      using I k v by (simp add: repairing_def untroubled_def) (simp add: count_stale_def)
    ultimately show ?thesis by (auto simp: k)
  next
    case (Some br)
    obtain block unr where f: "fetch_corrupt cfg (w_disks s) c = Some (block, unr)" using Some by (cases br) simp
    note fs = fetch_corrupt_Some [OF f]
    have same: "\<forall>x \<in> config_paths cfg. x \<noteq> dev \<longrightarrow> honest_at (w_disks s) x \<and> w_disks s x = w0 x"
      using array(3) I by (auto simp: repairing_def honest_at_def)
    from undamaged_stripe [OF array(1) same d(3,5)] obtain ch where ch: "gather_stripe cfg (w_disks s) k ?a n = Inr ch" "chunk_p ch = Some p"
      and dam: "damaged_slot cfg w0 (w_disks s) k" by blast
    have kd: "data_dev cfg k = Some dev" using array(1) by (simp add: only_disk_def)
    have "input_ok \<lparr>failing_slot = k, corrupt_block = block, unreadable_source = unr,
        other_blocks = other_data ch, p_block = chunk_p ch, q_block = chunk_q ch, verifier = verify c\<rparr> n"
      using gathered_input_ok [OF ch(1) array(2)] data_dev_range [OF array(2) kd] fs dev by simp
    from recover_block_p_intact [OF this] ch(2) d(2) damaged_p_consistent [OF dam array(2) kd d(1,4) ch(1)] read_block_length [OF d(1)] fs
    have rec: "recover_block \<lparr>failing_slot = k, corrupt_block = block, unreadable_source = unr,
        other_blocks = other_data ch, p_block = chunk_p ch, q_block = chunk_q ch, verifier = verify c\<rparr> n = Ret (Recovered ViaP d)"
      by simp
    from process_candidate_recovers [of rc c s s1 cfg block unr k ch ViaP d live] rs v f ch(1) rec h dev obtain s' where
      s': "process_candidate rc cfg k False live True c s = Ret s'"
      "w_stats s' = (w_stats s)\<lparr>mismatch := Suc (mismatch (w_stats s)), recovered := Suc (recovered (w_stats s))\<rparr>"
      "read_block_or_zeros cfg (w_disks s') dev ?a n = Inr d" by auto
    have "step_keeps_gold cfg (array_byte cfg w0) {dev} (w_disks s) (w_disks s')"
      using candidate_keeps_gold [OF s'(1) right] dev by simp
    then have kg: "keeps_gold cfg (array_byte cfg w0) (w_disks s) (w_disks s')"
      using healthy_honest [OF h] by (simp add: step_keeps_gold_def)
    have wr: "w_disks s' = w_disks s \<or> (\<exists>b. w_disks s' = fst (write_block cfg (w_disks s) dev ?a b))"
      using process_candidate_disks [OF s'(1)] dev by blast
    then have frame: "\<forall>x. x \<noteq> dev \<longrightarrow> w_disks s' x = w_disks s x" and hon: "honest_at (w_disks s') dev"
      and healthy: "\<forall>a \<in> A. healthy_at cfg (w_disks s') dev a n"
      using write_block_other write_block_honest [OF healthy_honest [OF h]] healthy_honest [OF h] healthy_keeps [OF _ healthy_honest [OF h]] I
      by (auto simp: repairing_def) (metis prod.collapse)+
    have "w_reconfirmer s' = w_reconfirmer s1" using process_candidate_reconfirmer [OF s'(1)] rs by simp
    with J(1) v frame kg have "J (w_disks s') (w_reconfirmer s')" unfolding confirming_def by metis
    with I frame hon healthy s'(2) have "repairing cfg w dev n A J s'" by (simp add: repairing_def untroubled_def)
    moreover have "restored cfg w0 dev n ?a (w_disks s')"
      using read_restored [OF s'(3) fit] read_block_nth [OF d(1) fit] by simp
    ultimately show ?thesis using s'(1) keeps_restored [OF kg] by blast
  qed
qed

text \<open>The whole pipeline: every candidate sent is restored, nothing else changes, and no trouble is counted.\<close>

lemma pipeline_restores:
  assumes array: "only_disk cfg k dev" "slots_ok cfg" "\<forall>x \<in> config_paths cfg. x \<noteq> dev \<longrightarrow> honest_at w x \<and> w x = w0 x"
    and cands: "\<forall>c \<in> set (sent_candidates es). repairable cfg w0 w dev n c"
    and J: "confirming rc cfg w0 dev (cand_reconfirm ` set (sent_candidates es)) J" "J w r"
    and fz: "freeze_idle fz" "ioctls_work (fst fz)"
  shows "\<exists>fz' s'. spawn_pipeline rc cfg k False clock bm (\<lambda>_. True) es fz w r counters = Ret ((fz', s'), Inr (w_stats s')) \<and>
    repairing cfg w dev n (array_phys ` set (sent_candidates es)) J s' \<and>
    (\<forall>c \<in> set (sent_candidates es). restored cfg w0 dev n (array_phys c) (w_disks s'))"
proof -
  let ?C = "set (sent_candidates es)"
  let ?A = "array_phys ` ?C"
  let ?s = "\<lparr>w_disks = w, w_reconfirmer = r, w_stats = default_batch_stats, w_counters = counters\<rparr>"
  let ?I = "\<lambda>st. freeze_idle (fst st) \<and> ioctls_work (fst (fst st)) \<and> repairing cfg w dev n ?A J (snd st)"
  let ?Q = "\<lambda>a s. restored cfg w0 dev n a (w_disks s)"
  have start: "?I (fz, ?s)"
    using fz J(2) cands by (auto simp: repairing_def untroubled_def default_batch_stats_def repairable_def)
  have step: "\<exists>s'. process_candidate rc cfg k False live True c s = Ret s' \<and> repairing cfg w dev n ?A J s' \<and>
      (\<forall>a. ?Q a s \<longrightarrow> ?Q a s') \<and> ?Q (array_phys c) s'" if "repairing cfg w dev n ?A J s" "c \<in> ?C" for live c s
    using candidate_settled [OF array _ _ J(1) that(2,1)] cands that(2) by blast
  have dedup: "repairing cfg w dev n ?A J (count_deduped m s)" if "repairing cfg w dev n ?A J s" for m s
    using that by (simp add: repairing_def untroubled_def) (simp add: count_deduped_def)
  have content: "set [] \<union> set (batch_content (run_accumulator bm (\<lambda>_. True) es)) \<subseteq> ?C"
    by (simp add: run_accumulator_def accumulator_content)
  have flush: "\<exists>st' d. flush_batch rc cfg k False ex batch st = Ret (st', Inr d) \<and> ?I st' \<and>
      (\<forall>a. ?Q a (snd st) \<longrightarrow> ?Q a (snd st')) \<and> (\<forall>a \<in> array_phys ` set batch. ?Q a (snd st') \<or> a \<in> array_phys ` set d)"
    if "?I st" "set batch \<subseteq> ?C" for ex batch st
    using flush_settles [where I = "repairing cfg w dev n ?A J" and Q = ?Q and C = ?C, OF step dedup _ that] by simp
  from run_writer_settles [where I = ?I and Q = "\<lambda>a st. ?Q a (snd st)" and C = ?C, OF flush start content, of clock 0]
  obtain st' where st': "run_writer rc cfg k False clock 0 [] (run_accumulator bm (\<lambda>_. True) es) (fz, ?s) = Ret (st', Inr (w_stats (snd st')))"
    "?I st'" "\<forall>a \<in> array_phys ` (set [] \<union> set (batch_content (run_accumulator bm (\<lambda>_. True) es))). ?Q a (snd st')"
    by blast
  moreover obtain fz1 s' where "st' = (fz1, s')" by (cases st')
  ultimately show ?thesis
    by (intro exI [of _ "thaw fz1"] exI [of _ s']) (auto simp: spawn_pipeline_def run_accumulator_def accumulator_content)
qed

subsection \<open>From events to exit code\<close>

text \<open>The candidate the driver makes of an event of the scrubbed slot.\<close>

definition candidate_of :: "array_config \<Rightarrow> nat \<Rightarrow> path \<Rightarrow> scrub_event \<Rightarrow> candidate" where
  "candidate_of cfg slot dev ev =
     \<lparr>array_phys = ev_array_phys ev, block_size = ev_block_size ev, verify = the (ev_verify ev),
      cand_raw_phys = the (raw_phys cfg slot (ev_array_phys ev)), failing_dev = dev, cand_reconfirm = ev_reconfirm ev,
      cand_unreadable = ev_unreadable ev\<rparr>"

lemma drive_events_candidates:
  assumes "drv_tx drv" "drv_cfg drv = Some cfg" "data_dev cfg (drv_slot drv) = Some dev" "\<forall>ev \<in> set evs. ev_verify ev \<noteq> None"
    and "drive_events evs drv = Ret (drv', cs)"
  shows "cs = map (candidate_of cfg (drv_slot drv) dev) evs"
  using assms
proof (induction evs arbitrary: drv cs)
  case (Cons ev evs)
  from Cons.prems(5) obtain drv1 c cs1 where 1: "on_event True ev drv = Ret (drv1, c)" "drive_events evs drv1 = Ret (drv', cs1)"
    "cs = (case c of Some x \<Rightarrow> x # cs1 | None \<Rightarrow> cs1)"
    by (auto simp: run_bind_def split: run.splits prod.splits)
  have "c = Some (candidate_of cfg (drv_slot drv) dev ev)"
    using 1(1) Cons.prems(1-4) by (auto simp: on_event_def candidate_of_def split: option.splits)
  moreover have "cs1 = map (candidate_of cfg (drv_slot drv1) dev) evs"
    using Cons.IH [OF _ _ _ _ 1(2)] Cons.prems(1-4) on_event_sent(2-4) [OF 1(1)] by simp
  ultimately show ?case using 1(3) on_event_sent(4) [OF 1(1)] by simp
qed simp

lemma finish_recovery_restores:
  assumes array: "only_disk cfg k dev" "slots_ok cfg" "\<forall>x \<in> config_paths cfg. x \<noteq> dev \<longrightarrow> honest_at w x \<and> w x = w0 x"
    and evs: "\<forall>ev \<in> set (fst result). ev_verify ev \<noteq> None \<and> repairable cfg w0 w dev n (candidate_of cfg k dev ev)"
    and J: "confirming (fst rcr) cfg w0 dev (ev_reconfirm ` set (fst result)) J" "J w (snd rcr)"
    and run: "\<not> dry_run opts" "ioctls_work kn" "fresh_counters counters" "\<forall>m. freeze_mount opts = Some m \<longrightarrow> \<not> kfrozen kn m"
  shows "\<exists>ses w' k'. finish_recovery rcr cfg k opts clock gap w kn counters result = Ret ses \<and> final_state ses = Some (w', k') \<and>
    (\<forall>x. x \<noteq> dev \<longrightarrow> w' x = w x) \<and> (honest_at w dev \<longrightarrow> honest_at w' dev) \<and> keeps_gold cfg (array_byte cfg w0) w w' \<and>
    (\<forall>ev \<in> set (fst result). restored cfg w0 dev n (ev_array_phys ev) w' \<and> healthy_at cfg w' dev (ev_array_phys ev) n) \<and>
    (\<exists>bs. exit_status ses = exit_code True (snd result) bs \<and> untroubled bs)"
proof -
  have kd: "data_dev cfg k = Some dev" using array(1) by (simp add: only_disk_def)
  let ?d = "\<lparr>drv_cfg = Some cfg, drv_tx = True, drv_slot = k, drv_sent = 0\<rparr>"
  obtain drv cands where d: "drive_events (fst result) ?d = Ret (drv, cands)" by (rule drive_eventsE)
  have cands: "cands = map (candidate_of cfg k dev) (fst result)" "drv_sent drv = length cands"
    using drive_events_candidates [OF _ _ _ _ d] kd evs drive_events_sent [OF d] by simp_all
  let ?es = "channel_events gap 0 cands"
  have sent: "set (sent_candidates ?es) = candidate_of cfg k dev ` set (fst result)"
    by (simp add: sent_channel_events cands(1))
  have ok: "\<forall>c \<in> set (sent_candidates ?es). repairable cfg w0 w dev n c" using evs unfolding sent by blast
  have "cand_reconfirm ` set (sent_candidates ?es) = ev_reconfirm ` set (fst result)"
    unfolding sent by (force simp: candidate_of_def)
  with J(1) have conf: "confirming (fst rcr) cfg w0 dev (cand_reconfirm ` set (sent_candidates ?es)) J" by simp
  have ioc: "ioctls_work (fst (kn, select_freeze opts))" using run(2) by simp
  from pipeline_restores [OF array ok conf J(2) select_freeze_idle [OF run(4)] ioc, of clock "batch_max opts" "Some counters"]
  obtain fz' s' where sp: "recovery_run rcr cfg k opts clock gap w kn counters cands = Ret ((fz', s'), Inr (w_stats s'))"
    "repairing cfg w dev n (array_phys ` set (sent_candidates ?es)) J s'"
    "\<forall>c \<in> set (sent_candidates ?es). restored cfg w0 dev n (array_phys c) (w_disks s')"
    using run(1) by (auto simp: recovery_run_def)
  note books = recovery_run_books [OF sp(1) run(3)]
  have right: "\<forall>c \<in> set (sent_candidates ?es). right_verifier cfg (array_byte cfg w0) c \<and> honest_at w (failing_dev c)"
    using ok healthy_honest by (fastforce simp: repairable_def)
  have "keeps_gold cfg (array_byte cfg w0) w (w_disks s')"
    using pipeline_keeps_gold [OF sp(1) [unfolded recovery_run_def] right] .
  moreover have "finish_recovery rcr cfg k opts clock gap w kn counters result =
      Ret (join_pipeline (snd result) (length cands) counters (recovery_run rcr cfg k opts clock gap w kn counters cands))"
    by (simp add: finish_recovery_def d cands(2))
  ultimately show ?thesis
    using sp(1) books sp(2,3) unfolding sent
    by (intro exI [of _ "join_pipeline (snd result) (length cands) counters (recovery_run rcr cfg k opts clock gap w kn counters cands)"]
        exI [of _ "w_disks s'"] exI [of _ "fst fz'"]) (auto simp: join_pipeline_def Let_def repairing_def candidate_of_def)
qed

subsection \<open>Properties\<close>


lemma demo_right: "right_verifier demo_config (array_byte demo_config (demo_disks [1, 2])) demo_candidate"
proof -
  have "array_byte demo_config (demo_disks [1, 2]) ''a'' i = [1, 2] ! i" if "i < 2" for i
    using less_2_cases [OF that] by (auto simp: array_byte_def Let_def demo_defs)
  then show ?thesis by (simp add: right_verifier_def demo_defs)
qed

lemma demo_honest: "x \<in> {''a'', ''b'', ''p''} \<Longrightarrow> honest_at (demo_disks bs) x"
  by (auto simp: honest_at_def demo_disks_def)



text \<open>The demonstration array: the first data disk holds 9 9 where it should hold 1 2.\<close>

lemma demo_candidate_of: "candidate_of demo_config 1 ''a'' demo_event = demo_candidate\<lparr>cand_raw_phys := the (raw_phys demo_config 1 0)\<rparr>"
  by (simp add: candidate_of_def demo_event_def demo_candidate_def)

lemma demo_repairable:
  "repairable demo_config (demo_disks [1, 2]) (demo_disks [9, 9]) ''a'' 2 (candidate_of demo_config 1 ''a'' demo_event)"
proof -
  have "compute_p demo_config (demo_disks [1, 2]) 0 2 = Inr [5, 10]"
    using demo_reads by (simp add: compute_p_def parity_source_def demo_config_def xor_inplace_def zeros_def numeral_2_eq_2)
  moreover have "healthy_at demo_config (demo_disks [9, 9]) ''a'' 0 2"
    by (simp add: healthy_at_def demo_disks_def) (simp add: demo_defs)
  moreover have "parity_p demo_config = Some ''p''" by (simp add: demo_config_def)
  ultimately show ?thesis
    using demo_right by (simp add: demo_candidate_of [unfolded One_nat_def] repairable_def right_verifier_def demo_reads)
qed


end
