(* ===== verification/Whole_Run.thy ===== *)
theory Whole_Run
  imports Repair_Run Scrub_Driver
begin

text \<open>
  The whole program on one disk: the events of a scrub of the btrfs filesystem on it are handed to a repair run, and
  afterwards every data sector of the filesystem hashes to the checksum the tree stores. The disk the
  scrub reads (the array's partition device) shows the bytes of the slot's disk the repair writes to; this is the
  driver of the array, outside the repository, and a hypothesis on the sectors concerned.
\<close>

subsection \<open>The events of a scrub\<close>

text \<open>What the scrub of an opened filesystem needs to run to its end (see \<open>Scrub_Complete\<close>).\<close>

definition scrub_ready :: "env \<Rightarrow> nat \<Rightarrow> btree \<Rightarrow> btrfs_scrub \<Rightarrow> bool" where
  "scrub_ready E budget t s \<longleftrightarrow>
     (let cx = scrub_context E budget True s; p = bs_csum_provider s
      in env_dup_fault E = None \<and> batch_ctx cx \<and> (\<exists>st. reader_ok (cx_reader cx) st) \<and> csum_source_ok E p t \<and> provider_inv p \<and>
         (\<forall>dext \<in> set (bs_dev_extents s). extent_fits cx dext \<and> (is_data_extent (bs_chunk_map s) dext \<longrightarrow> scrubbable cx p t dext)))"

text \<open>The checksummed sectors of the data extents.\<close>

definition data_sectors :: "btree \<Rightarrow> btrfs_scrub \<Rightarrow> (dev_extent \<times> entry) set" where
  "data_sectors t s = {(dext, e). dext \<in> set (bs_dev_extents s) \<and> is_data_extent (bs_chunk_map s) dext \<and>
     e \<in> set (extent_entries (bs_csum_provider s) t dext)}"

definition event_at :: "env \<Rightarrow> btrfs_scrub \<Rightarrow> dev_extent \<Rightarrow> entry \<Rightarrow> scrub_event" where
  "event_at E s dext e =
     \<lparr>ev_array_phys = sector_phys dext (fst e), ev_block_size = st_sector_size (bs_strategy s),
      ev_verify = Some (\<lambda>b. csum_compute (env_hashes E) (bs_strategy s) b = Ret (snd e)),
      ev_reconfirm = Some \<lparr>token = fst e, stored_csum = snd e\<rparr>, ev_unreadable = False\<rparr>"

lemma event_of_report: "event_of E (bs_strategy s) (report dext e h False) = event_at E s dext e"
  by (simp add: event_of_def report_def event_at_def)

lemma run_events:
  assumes "scrub_ready E budget t s"
  shows "\<exists>s' evs stats. btrfs_run E budget healthy True s = Some (Ret (s', evs, Inr stats)) \<and>
    set evs = {event_at E s dext e | dext e. (dext, e) \<in> data_sectors t s \<and>
      sector_hash (scrub_context E budget True s) (sector_bytes (scrub_context E budget True s) dext e) \<noteq> snd e}"
proof -
  let ?cx = "scrub_context E budget True s" and ?p = "bs_csum_provider s"
  have cx: "cx_env ?cx = E" "cx_chunk_map ?cx = bs_chunk_map s" "cx_reader ?cx = bs_reader s" by (simp_all add: scrub_context_def)
  from assms obtain st where ok: "batch_ctx ?cx" "reader_ok (cx_reader ?cx) st" "csum_source_ok (cx_env ?cx) ?p t" "provider_inv ?p"
    and ext: "\<forall>dext \<in> set (bs_dev_extents s). is_data_extent (cx_chunk_map ?cx) dext \<longrightarrow> scrubbable ?cx ?p t dext"
      "\<forall>dext \<in> set (bs_dev_extents s). extent_fits ?cx dext" "env_dup_fault (cx_env ?cx) = None"
    by (auto simp: scrub_ready_def Let_def cx)
  from scrub_batch_complete [OF ok ext, of "bs_status s"] obtain p' a where
    run: "scrub_dev_tree ?cx healthy ?p (bs_dev_extents s) (bs_status s) = Some (Ret (p', a, Inr (sc_stats a)))"
    and evs: "sc_events a = concat (map (\<lambda>dext. map (\<lambda>e. report dext e (sector_hash ?cx (sector_bytes ?cx dext e)) False)
      (filter (\<lambda>e. sector_hash ?cx (sector_bytes ?cx dext e) \<noteq> snd e) (extent_entries ?p t dext)))
      (filter (is_data_extent (bs_chunk_map s)) (bs_dev_extents s)))"
    unfolding cx by blast
  have "set (map (event_of E (bs_strategy s)) (sc_events a)) = {event_at E s dext e | dext e. (dext, e) \<in> data_sectors t s \<and>
      sector_hash ?cx (sector_bytes ?cx dext e) \<noteq> snd e}"
    unfolding evs data_sectors_def by (force simp: event_of_report)
  then show ?thesis by (auto simp: btrfs_run_def run Let_def)
qed

subsection \<open>Sectors that can be repaired\<close>

text \<open>
  \<open>w0\<close> is the array as it should be: its sector hashes to the stored checksum, and no other sector does; the scrubbed device
  shows the sector of the slot's disk; P is in sync with \<open>w0\<close> and the disk takes writes.
\<close>

definition mendable :: "array_config \<Rightarrow> disks \<Rightarrow> disks \<Rightarrow> path \<Rightarrow> scrub_ctx \<Rightarrow> dev_extent \<Rightarrow> entry \<Rightarrow> bool" where
  "mendable cfg w0 w dev cx dext e \<longleftrightarrow>
     (let a = sector_phys dext (fst e); n = st_sector_size (cx_strategy cx)
      in a + raw_offset_for cfg dev + n \<le> 2 ^ 64 \<and> healthy_at cfg w dev a n \<and>
         read_block_or_zeros cfg w dev a n = Inr (sector_bytes cx dext e) \<and>
         (\<exists>d. read_block_or_zeros cfg w0 dev a n = Inr d \<and> (\<forall>b. length b = n \<longrightarrow> (sector_hash cx b = snd e \<longleftrightarrow> b = d))) \<and>
         (\<exists>p pp. parity_p cfg = Some pp \<and> compute_p cfg w0 a n = Inr p \<and> read_block_or_zeros cfg w0 pp a n = Inr p))"

lemma mendable_repairable:
  assumes "mendable cfg w0 w dev cx dext e" "cx = scrub_context E budget True s" "batch_ctx cx"
  shows "repairable cfg w0 w dev (st_sector_size (bs_strategy s)) (candidate_of cfg slot dev (event_at E s dext e))"
proof -
  let ?a = "sector_phys dext (fst e)" and ?n = "st_sector_size (bs_strategy s)"
  have st: "cx_strategy cx = bs_strategy s" "cx_env cx = E" using assms(2) by (simp_all add: scrub_context_def)
  have n: "0 < ?n" and ty: "st_csum_type (cx_strategy cx) < 4" using assms(3) st by (simp_all add: batch_ctx_def)
  have ver: "csum_compute (env_hashes E) (bs_strategy s) b = Ret (sector_hash cx b)" for b
    using csum_compute_total [OF ty, of b] st by simp
  from assms(1) st obtain d p pp where m: "?a + raw_offset_for cfg dev + ?n \<le> 2 ^ 64" "healthy_at cfg w dev ?a ?n"
    "read_block_or_zeros cfg w0 dev ?a ?n = Inr d" "\<forall>b. length b = ?n \<longrightarrow> (sector_hash cx b = snd e \<longleftrightarrow> b = d)"
    "parity_p cfg = Some pp" "compute_p cfg w0 ?a ?n = Inr p" "read_block_or_zeros cfg w0 pp ?a ?n = Inr p"
    unfolding mendable_def by (auto simp: Let_def)
  have d: "length d = ?n" by (rule read_block_length [OF m(3)])
  have "right_verifier cfg (array_byte cfg w0) (candidate_of cfg slot dev (event_at E s dext e))"
  proof -
    have "\<forall>i < ?n. b ! i = array_byte cfg w0 dev (?a + i)" if "length b = ?n" "sector_hash cx b = snd e" for b
      using m(4) that read_block_nth [OF m(3,1)] by blast
    with n m(1) show ?thesis by (simp add: right_verifier_def candidate_of_def event_at_def ver)
  qed
  then show ?thesis
    using m(2,3,4-7) d by (simp add: repairable_def) (simp add: candidate_of_def event_at_def ver)
qed

lemma confirming_subset: "confirming rc cfg w0 dev B J \<Longrightarrow> A \<subseteq> B \<Longrightarrow> confirming rc cfg w0 dev A J"
  unfolding confirming_def by blast

subsection \<open>The repaired filesystem\<close>

lemma scrub_repaired:
  assumes "scrub_ready E budget t s"
    and "only_disk cfg slot dev" "slots_ok cfg" "\<forall>x \<in> config_paths cfg. x \<noteq> dev \<longrightarrow> honest_at w x \<and> w x = w0 x"
    and "\<forall>(dext, e) \<in> data_sectors t s. mendable cfg w0 w dev (scrub_context E budget True s) dext e"
    and "confirming rc cfg w0 dev {Some \<lparr>token = fst e, stored_csum = snd e\<rparr> | dext e. (dext, e) \<in> data_sectors t s} J" "J w r"
    and "\<not> dry_run opts" "ioctls_work kn" "fresh_counters counters" "\<forall>m. freeze_mount opts = Some m \<longrightarrow> \<not> kfrozen kn m"
  shows "\<exists>s' evs stats. btrfs_run E budget healthy True s = Some (Ret (s', evs, Inr stats)) \<and>
    (\<exists>ses w' k'. finish_recovery (rc, r) cfg slot opts clock gap w kn counters (evs, stats) = Ret ses \<and> final_state ses = Some (w', k') \<and>
      (\<forall>(dext, e) \<in> data_sectors t s. \<exists>b. read_block_or_zeros cfg w' dev (sector_phys dext (fst e)) (st_sector_size (bs_strategy s)) = Inr b \<and>
        csum_compute (env_hashes E) (bs_strategy s) b = Ret (snd e)) \<and>
      (\<forall>x. x \<noteq> dev \<longrightarrow> w' x = w x) \<and>
      (metadata_header_errors stats = 0 \<and> metadata_read_errors stats = 0 \<longrightarrow> exit_status ses \<in> {EXIT_SUCCESS, EXIT_RECOVERED}))"
proof -
  let ?cx = "scrub_context E budget True s" and ?n = "st_sector_size (bs_strategy s)"
  have st: "cx_strategy ?cx = bs_strategy s" "cx_env ?cx = E" by (simp_all add: scrub_context_def)
  have batch: "batch_ctx ?cx" using assms(1) by (simp add: scrub_ready_def Let_def)
  have ver: "csum_compute (env_hashes E) (bs_strategy s) b = Ret (sector_hash ?cx b)" for b
    using csum_compute_total [of ?cx b] batch st by (simp add: batch_ctx_def)
  from run_events [OF assms(1)] obtain s' evs stats where run: "btrfs_run E budget healthy True s = Some (Ret (s', evs, Inr stats))"
    and evs: "set evs = {event_at E s dext e | dext e. (dext, e) \<in> data_sectors t s \<and> sector_hash ?cx (sector_bytes ?cx dext e) \<noteq> snd e}"
    by blast
  have ok: "\<forall>ev \<in> set (fst (evs, stats)). ev_verify ev \<noteq> None \<and> repairable cfg w0 w dev ?n (candidate_of cfg slot dev ev)"
  proof
    fix ev assume "ev \<in> set (fst (evs, stats))"
    then obtain dext e where ev: "ev = event_at E s dext e" "(dext, e) \<in> data_sectors t s" using evs by auto
    have "mendable cfg w0 w dev ?cx dext e" using assms(5) ev(2) by blast
    from mendable_repairable [OF this refl batch] ev(1) show "ev_verify ev \<noteq> None \<and> repairable cfg w0 w dev ?n (candidate_of cfg slot dev ev)"
      by (simp add: event_at_def)
  qed
  have "ev_reconfirm ` set evs \<subseteq> {Some \<lparr>token = fst e, stored_csum = snd e\<rparr> | dext e. (dext, e) \<in> data_sectors t s}"
    unfolding evs by (auto simp: event_at_def)
  with assms(6) have conf: "confirming rc cfg w0 dev (ev_reconfirm ` set evs) J" by (rule confirming_subset)
  from finish_recovery_restores [OF assms(2-4) ok, of "(rc, r)" J opts kn counters clock gap] conf assms(7-11)
  obtain ses w' k' bs where fin: "finish_recovery (rc, r) cfg slot opts clock gap w kn counters (evs, stats) = Ret ses" "final_state ses = Some (w', k')"
    "\<forall>x. x \<noteq> dev \<longrightarrow> w' x = w x" "keeps_gold cfg (array_byte cfg w0) w w'" "honest_at w dev \<longrightarrow> honest_at w' dev"
    "\<forall>ev \<in> set evs. restored cfg w0 dev ?n (ev_array_phys ev) w' \<and> healthy_at cfg w' dev (ev_array_phys ev) ?n"
    "exit_status ses = exit_code True stats bs" "untroubled bs" by auto
  have "\<exists>b. read_block_or_zeros cfg w' dev (sector_phys dext (fst e)) ?n = Inr b \<and> csum_compute (env_hashes E) (bs_strategy s) b = Ret (snd e)"
    if mem: "(dext, e) \<in> data_sectors t s" for dext e
  proof -
    let ?a = "sector_phys dext (fst e)"
    have "mendable cfg w0 w dev ?cx dext e" using assms(5) mem by blast
    then obtain d where m: "?a + raw_offset_for cfg dev + ?n \<le> 2 ^ 64" "healthy_at cfg w dev ?a ?n"
      "read_block_or_zeros cfg w dev ?a ?n = Inr (sector_bytes ?cx dext e)" "read_block_or_zeros cfg w0 dev ?a ?n = Inr d"
      "\<forall>b. length b = ?n \<longrightarrow> (sector_hash ?cx b = snd e \<longleftrightarrow> b = d)"
      unfolding mendable_def Let_def st by blast
    have "restored cfg w0 dev ?n ?a w' \<and> honest_at w' dev"
    proof (cases "sector_hash ?cx (sector_bytes ?cx dext e) = snd e")
      case True
      then have "sector_bytes ?cx dext e = d" using m(5) read_block_length [OF m(3)] by blast
      with m(3) read_restored [OF m(3,1)] read_block_nth [OF m(4,1)] have "restored cfg w0 dev ?n ?a w" by simp
      with keeps_restored [OF fin(4)] have "restored cfg w0 dev ?n ?a w'" by blast
      moreover have "honest_at w' dev" using fin(5) healthy_honest [OF m(2)] by blast
      ultimately show ?thesis ..
    next
      case False
      then have "event_at E s dext e \<in> set evs" using evs mem by blast
      with fin(6) healthy_honest show ?thesis by (fastforce simp: event_at_def)
    qed
    with restored_read [OF _ _ m(4,1)] m(5) read_block_length [OF m(4)] ver show ?thesis by auto
  qed
  with run fin(1-3,7,8) show ?thesis
    by (intro exI [of _ s'] exI [of _ evs] exI [of _ stats] conjI exI [of _ ses] exI [of _ w'] exI [of _ k'])
      (auto simp: exit_code_def untroubled_def)
qed

text \<open>The re-confirmer of the btrfs side is such a re-confirmer: while the roots follow the generation of the superblock and
  the live trees still store the checksums, repairs of another disk than the one it reads do not change its verdict.\<close>

definition live_reconfirmer :: "env \<Rightarrow> btrfs_reconfirmer reconfirmer" where
  "live_reconfirmer E w rs req = (case reconfirm_sector E w rs req of Some (Ret x) \<Rightarrow> x | _ \<Rightarrow> (rs, Unverifiable))"

lemma live_reconfirmer_confirming:
  assumes "reader_ok (rc_reader rs) st" "rc_dev rs \<noteq> dev" "roots_follow E rs roots w"
    and "\<forall>req. Some req \<in> reqs \<longrightarrow> verdict_at E roots rs w req = Ret Corruption"
  shows "confirming (live_reconfirmer E) cfg w0 dev reqs (\<lambda>w' rs'. same_device rs rs' \<and> cache_ok roots rs' \<and> w' (rc_dev rs) = w (rc_dev rs))"
    and "Some req \<in> reqs \<Longrightarrow> same_device rs rs' \<Longrightarrow> cache_ok roots rs' \<Longrightarrow> w' (rc_dev rs) = w (rc_dev rs) \<Longrightarrow>
      reconfirm_sector E w' rs' req = Some (Ret (live_reconfirmer E w' rs' req))"
proof -
  have step: "reconfirm_sector E w' rs' req = Some (Ret (live_reconfirmer E w' rs' req)) \<and> snd (live_reconfirmer E w' rs' req) = Corruption \<and>
      same_device rs (fst (live_reconfirmer E w' rs' req)) \<and> cache_ok roots (fst (live_reconfirmer E w' rs' req))"
    if "Some req \<in> reqs" "same_device rs rs'" "cache_ok roots rs'" "w' (rc_dev rs) = w (rc_dev rs)" for req rs' w'
  proof -
    have now: "reader_now w' rs' = reader_now w rs" "reader_now w' rs = reader_now w rs"
      using same_device_reader [OF that(2), of w'] that(4) by (simp_all add: reader_now_def)
    have rd: "reader_ok (rc_reader rs') st" and fo: "roots_follow E rs' roots w'"
      using assms(1,3) that(2) now by (simp_all add: same_device_def roots_follow_def)
    have "verdict_at E roots rs' w' req = verdict_at E roots rs w req"
      unfolding verdict_at_same [OF that(2)] unfolding verdict_at_def now(2) by (rule refl)
    with reconfirm_verdict(1) [OF rd fo that(3), of req] assms(4) that(1)
    have "omap snd (reconfirm_sector E w' rs' req) = Some (Ret Corruption)" by simp
    then obtain rs2 where x: "reconfirm_sector E w' rs' req = Some (Ret (rs2, Corruption))"
      by (rule_tac omap_cases [of "reconfirm_sector E w' rs' req"]) auto
    from reconfirm_verdict(2) [OF rd fo that(3) x] that(2) have "same_device rs rs2" "cache_ok roots rs2"
      by (simp_all add: same_device_def)
    with x show ?thesis by (simp add: live_reconfirmer_def)
  qed
  then show "Some req \<in> reqs \<Longrightarrow> same_device rs rs' \<Longrightarrow> cache_ok roots rs' \<Longrightarrow> w' (rc_dev rs) = w (rc_dev rs) \<Longrightarrow>
      reconfirm_sector E w' rs' req = Some (Ret (live_reconfirmer E w' rs' req))" by blast
  show "confirming (live_reconfirmer E) cfg w0 dev reqs (\<lambda>w' rs'. same_device rs rs' \<and> cache_ok roots rs' \<and> w' (rc_dev rs) = w (rc_dev rs))"
    unfolding confirming_def
  proof (rule conjI; intro allI impI; elim conjE)
    fix req w' rs'
    assume "Some req \<in> reqs" "same_device rs rs'" "cache_ok roots rs'" "w' (rc_dev rs) = w (rc_dev rs)"
    from step [of req rs' w', OF this] \<open>w' (rc_dev rs) = w (rc_dev rs)\<close>
    show "snd (live_reconfirmer E w' rs' req) = Corruption \<and> same_device rs (fst (live_reconfirmer E w' rs' req)) \<and>
      cache_ok roots (fst (live_reconfirmer E w' rs' req)) \<and> w' (rc_dev rs) = w (rc_dev rs)" by simp
  next
    fix w1 w2 rs'
    assume "same_device rs rs'" "cache_ok roots rs'" "w1 (rc_dev rs) = w (rc_dev rs)" "\<forall>x. x \<noteq> dev \<longrightarrow> w2 x = w1 x"
    with assms(2) show "same_device rs rs' \<and> cache_ok roots rs' \<and> w2 (rc_dev rs) = w (rc_dev rs)" by simp
  qed
qed

subsection \<open>Properties\<close>


text \<open>
  The demonstration: the two data sectors should hold 1s and 2s and hold zeros; the other data disk holds zeros, so P is
  the original disk.
\<close>

definition mend_env :: env where
  "mend_env = demo_env\<lparr>env_hashes := (env_hashes demo_env)\<lparr>crc32c :=
     (\<lambda>b. if b = replicate 4096 1 then 0x04030201 else if b = replicate 4096 2 then 0x08070605 else 1)\<rparr>\<rparr>"

definition mend_scrub :: btrfs_scrub where
  "mend_scrub = \<lparr>bs_reader = pv_reader demo_provider, bs_chunk_map = demo_data_map, bs_csum_provider = demo_provider,
     bs_dev_extents = [demo_data_dext], bs_strategy = demo_strategy, bs_superblock = superblock_fields demo_sb_block,
     bs_errors = \<lparr>me_header = 0, me_mirror = 0, me_read = 0\<rparr>, bs_dev = ''d'', bs_status = None\<rparr>"

definition mend_disks :: "bytes \<Rightarrow> disks" where
  "mend_disks sectors = [''a'' \<mapsto> plain_disk (demo_csum_buf @ sectors), ''b'' \<mapsto> plain_disk (zeros 8326),
     ''p'' \<mapsto> plain_disk (demo_csum_buf @ replicate 4096 1 @ replicate 4096 2)]"

lemma mend_scrub_fields:
  "bs_csum_provider mend_scrub = demo_provider" "bs_dev_extents mend_scrub = [demo_data_dext]" "bs_chunk_map mend_scrub = demo_data_map"
  "bs_strategy mend_scrub = demo_strategy" "scrub_context mend_env 64 True mend_scrub = demo_scrub\<lparr>cx_env := mend_env\<rparr>"
  by (simp_all add: mend_scrub_def scrub_context_def demo_scrub_def)

lemma mend_hash:
  assumes "length b = 4096"
  shows "sector_hash (demo_scrub\<lparr>cx_env := mend_env\<rparr>) b = [1, 2, 3, 4] \<longleftrightarrow> b = replicate 4096 1"
    and "sector_hash (demo_scrub\<lparr>cx_env := mend_env\<rparr>) b = [5, 6, 7, 8] \<longleftrightarrow> b = replicate 4096 2"
proof -
  have four: "(4 :: nat) = Suc (Suc (Suc (Suc 0)))" by simp
  have "le_bytes 4 0x04030201 = [1, 2, 3, 4]" "le_bytes 4 0x08070605 = [5, 6, 7, 8]" "le_bytes 4 1 = [1, 0, 0, 0]"
    unfolding four le_bytes.simps by simp_all
  then have h: "sector_hash (demo_scrub\<lparr>cx_env := mend_env\<rparr>) b =
      (if b = replicate 4096 1 then [1, 2, 3, 4] else if b = replicate 4096 2 then [5, 6, 7, 8] else [1, 0, 0, 0])"
    by (simp add: sector_hash_def csum_compute_def hash_bytes_def demo_scrub_def demo_strategy_def mend_env_def CRC32C_def del: le_bytes.simps)
  have "replicate 4096 (1 :: byte) \<noteq> replicate 4096 2" by (simp add: replicate_eq_replicate)
  then show "sector_hash (demo_scrub\<lparr>cx_env := mend_env\<rparr>) b = [1, 2, 3, 4] \<longleftrightarrow> b = replicate 4096 1"
    "sector_hash (demo_scrub\<lparr>cx_env := mend_env\<rparr>) b = [5, 6, 7, 8] \<longleftrightarrow> b = replicate 4096 2"
    unfolding h by auto
qed

lemma mend_ready: "scrub_ready mend_env 64 (TLeaf False 0x4000 demo_csum_leaf) mend_scrub"
proof -
  have E: "demo_header_hash mend_env" "env_fault mend_env = env_fault demo_env" "env_dup_fault mend_env = None"
    by (auto simp: demo_header_hash_def mend_env_def demo_env_def)
  have b: "batch_ctx (demo_scrub\<lparr>cx_env := mend_env\<rparr>)" by (simp add: batch_ctx_def demo_scrub_def demo_strategy_def CRC32C_def)
  have inv: "provider_inv demo_provider" by (simp add: demo_provider_def new_provider_inv)
  have ext: "extent_fits (demo_scrub\<lparr>cx_env := mend_env\<rparr>) demo_data_dext" using demo_scrub_ok(2) by (simp add: extent_fits_def)
  have "scrubbable (demo_scrub\<lparr>cx_env := mend_env\<rparr>) demo_provider (TLeaf False 0x4000 demo_csum_leaf) demo_data_dext"
    using demo_scrubbable ext
    by (simp add: scrubbable_def extent_readable_def whole_sectors_def E(2)) (simp add: demo_scrub_def)
  then show ?thesis
    using demo_leaf_source [OF E(1)] E(3) b ext demo_csum_read(2) inv
    unfolding scrub_ready_def Let_def mend_scrub_fields
    by (simp add: demo_scrub_def [THEN arg_cong [of _ _ cx_reader]]) blast
qed

lemma mend_sectors:
  "data_sectors (TLeaf False 0x4000 demo_csum_leaf) mend_scrub = {(demo_data_dext, (8192, [1, 2, 3, 4])), (demo_data_dext, (12288, [5, 6, 7, 8]))}"
  using demo_scrub_ok(3) unfolding data_sectors_def mend_scrub_fields by (auto simp: demo_entries demo_scrub_def)

lemma plain_read:
  assumes "w x = Some (plain_disk bs)" "a + n \<le> length bs" "0 < n" "length bs < 2 ^ 64" "rdev_offsets cfg x = None"
  shows "read_block_or_zeros cfg w x a n = Inr (take n (drop a bs))"
proof -
  have "add64 a 0 = a" "a < length bs" using assms(2-4) by simp_all
  with assms show ?thesis
    by (simp add: read_block_or_zeros_def file_open_def plain_disk_def device_size_def read_exact_at_def raw_offset_for_def Let_def)
      (simp add: zeros_def)
qed

text \<open>Both sectors: the original, what the damaged disk holds, and what the scrub reads.\<close>

lemma mend_blocks:
  assumes "(a, x) \<in> {(134, 1), (4230, 2)}"
  shows "read_block_or_zeros demo_config (mend_disks (replicate 4096 1 @ replicate 4096 2)) ''a'' a 4096 = Inr (replicate 4096 x)"
    and "read_block_or_zeros demo_config (mend_disks S) ''b'' a 4096 = Inr (zeros 4096)"
    and "read_block_or_zeros demo_config (mend_disks S) ''p'' a 4096 = Inr (replicate 4096 x)"
    and "read_block_or_zeros demo_config (mend_disks (zeros 8192)) ''a'' a 4096 = Inr (take 4096 (drop a (demo_csum_buf @ zeros 8192)))"
    and "compute_p demo_config (mend_disks (replicate 4096 1 @ replicate 4096 2)) a 4096 = Inr (replicate 4096 x)"
    and "healthy_at demo_config (mend_disks (zeros 8192)) ''a'' a 4096"
proof -
  have a: "a + 4096 \<le> 8326" using assms by auto
  have off: "rdev_offsets demo_config y = None" for y by (simp add: demo_config_def)
  have ne: "''a'' \<noteq> ''b''" "''a'' \<noteq> ''p''" "''b'' \<noteq> ''p''" by simp_all
  have sec: "take 4096 (drop a (demo_csum_buf @ replicate 4096 1 @ replicate 4096 2)) = replicate 4096 x"
    using assms by (auto simp: demo_csum_buf_props drop_append take_append)
  show ra: "read_block_or_zeros demo_config (mend_disks (replicate 4096 1 @ replicate 4096 2)) ''a'' a 4096 = Inr (replicate 4096 x)"
    unfolding sec [symmetric] by (rule plain_read) (use a in \<open>simp_all add: mend_disks_def off demo_csum_buf_props\<close>)
  have "take 4096 (drop a (zeros 8326)) = zeros 4096" using a by (simp add: zeros_def drop_replicate take_replicate)
  with plain_read [of "mend_disks T" "''b''" "zeros 8326" a 4096 demo_config for T] a
  have rb: "read_block_or_zeros demo_config (mend_disks T) ''b'' a 4096 = Inr (zeros 4096)" for T
    by (simp add: mend_disks_def off)
  then show "read_block_or_zeros demo_config (mend_disks S) ''b'' a 4096 = Inr (zeros 4096)" .
  show "read_block_or_zeros demo_config (mend_disks S) ''p'' a 4096 = Inr (replicate 4096 x)"
    unfolding sec [symmetric] by (rule plain_read) (use a in \<open>simp_all add: mend_disks_def off demo_csum_buf_props\<close>)
  show "read_block_or_zeros demo_config (mend_disks (zeros 8192)) ''a'' a 4096 = Inr (take 4096 (drop a (demo_csum_buf @ zeros 8192)))"
    by (rule plain_read) (use a in \<open>simp_all add: mend_disks_def off demo_csum_buf_props\<close>)
  have "xor_inplace (xor_inplace (zeros 4096) (replicate 4096 x)) (zeros 4096) = replicate 4096 x"
    by (rule bytes_eqI [of _ 4096]) (simp_all add: xor_inplace_nth zeros_def)
  with ra rb show "compute_p demo_config (mend_disks (replicate 4096 1 @ replicate 4096 2)) a 4096 = Inr (replicate 4096 x)"
    by (simp add: compute_p_def parity_source_def demo_config_def [THEN arg_cong [of _ _ data_devs]])
  show "healthy_at demo_config (mend_disks (zeros 8192)) ''a'' a 4096"
    using a by (simp add: healthy_at_def raw_offset_for_def off mend_disks_def demo_csum_buf_props plain_disk_def honest_disk_def)
qed

lemma mend_mendable:
  "\<forall>(dext, e) \<in> data_sectors (TLeaf False 0x4000 demo_csum_leaf) mend_scrub.
     mendable demo_config (mend_disks (replicate 4096 1 @ replicate 4096 2)) (mend_disks (zeros 8192)) ''a'' (demo_scrub\<lparr>cx_env := mend_env\<rparr>) dext e"
proof -
  have cx: "st_sector_size (cx_strategy (demo_scrub\<lparr>cx_env := mend_env\<rparr>)) = 4096" "raw_offset_for demo_config ''a'' = 0"
      "parity_p demo_config = Some ''p''"
    by (simp_all add: demo_scrub_def demo_strategy_def raw_offset_for_def demo_config_def)
  have phys: "sector_phys demo_data_dext 8192 = 134" "sector_phys demo_data_dext 12288 = 4230"
    by (simp_all add: sector_phys_def demo_data_dext_def add64_def sub64_def)
  have sec: "sector_bytes (demo_scrub\<lparr>cx_env := mend_env\<rparr>) demo_data_dext e = take 4096 (drop (sector_phys demo_data_dext (fst e)) (demo_csum_buf @ zeros 8192))" for e
    by (simp add: sector_bytes_def demo_scrub_def demo_strategy_def demo_provider_def new_provider_def new_reader_def with_fsid_def with_devid_def plain_disk_def)
  have m1: "(134, 1 :: byte) \<in> {(134 :: nat, 1), (4230, 2)}" and m2: "(4230, 2 :: byte) \<in> {(134 :: nat, 1), (4230, 2)}" by simp_all
  have "mendable demo_config (mend_disks (replicate 4096 1 @ replicate 4096 2)) (mend_disks (zeros 8192)) ''a'' (demo_scrub\<lparr>cx_env := mend_env\<rparr>)
      demo_data_dext (8192, [1, 2, 3, 4])"
    unfolding mendable_def Let_def cx fst_conv snd_conv sec phys using mend_blocks [OF m1] mend_hash(1) by simp
  moreover have "mendable demo_config (mend_disks (replicate 4096 1 @ replicate 4096 2)) (mend_disks (zeros 8192)) ''a'' (demo_scrub\<lparr>cx_env := mend_env\<rparr>)
      demo_data_dext (12288, [5, 6, 7, 8])"
    unfolding mendable_def Let_def cx fst_conv snd_conv sec phys using mend_blocks [OF m2] mend_hash(2) by simp
  ultimately show ?thesis unfolding mend_sectors by simp
qed


end
