(* ===== verification/Live_Flag.thy ===== *)
theory Live_Flag
  imports Main_Driver
begin

text \<open>
  The \<open>repaired_while_mounted\<close> counter of \<open>src/scrub-rs/src/batch_recover.rs\<close>: it is set exactly when the run wrote
  a block back (the write landed: recovered, or rejected when it was read back) while the freeze controller
  held a mount. The advisory at the end of a run rests on it.
\<close>

subsection \<open>The invariant\<close>

definition landed :: "batch_stats \<Rightarrow> nat" where
  "landed bs = recovered bs + readback_failed bs"

definition flag_exact :: "bool \<Rightarrow> bool \<Rightarrow> 'r writer \<Rightarrow> bool" where
  "flag_exact dry live s \<longleftrightarrow> (\<forall>c. w_counters s = Some c \<longrightarrow>
     (c_repaired_while_mounted c \<noteq> 0 \<longleftrightarrow> live \<and> \<not> dry \<and> 0 < landed (w_stats s)))"

lemma flag_other:
  "flag_exact dry live (count_stale s) = flag_exact dry live s" "flag_exact dry live (count_skipped s) = flag_exact dry live s"
  "flag_exact dry live (count_mismatch s) = flag_exact dry live s" "flag_exact dry live (count_failed s) = flag_exact dry live s"
  "flag_exact dry live (count_not_frozen s) = flag_exact dry live s" "flag_exact dry live (count_not_corrupt s) = flag_exact dry live s"
  "flag_exact dry live (count_deduped n s) = flag_exact dry live s" "flag_exact dry live (s\<lparr>w_disks := w\<rparr>) = flag_exact dry live s"
  "flag_exact True live (count_recovered s) = flag_exact True live s"
  by (auto simp: flag_exact_def landed_def batch_ops)

text \<open>A write that landed is noted before its read-back is judged.\<close>

lemma flag_landed:
  "flag_exact False live s \<Longrightarrow> flag_exact False live (count_recovered (note_repair live s))"
  "flag_exact False live s \<Longrightarrow> flag_exact False live (count_readback_failed (note_repair live s))"
  by (auto simp: flag_exact_def landed_def batch_ops)

lemma flag_write_back: "flag_exact False live s \<Longrightarrow> flag_exact False live (write_back cfg live cand block s)"
  by (simp add: write_back_def verify_readback_def Let_def flag_other flag_landed split: prod.split sum.split)

lemma flag_act: "flag_exact dry live s \<Longrightarrow> flag_exact dry live (act_on_result cfg dry live wa cand res s)"
  by (cases dry) (auto simp: act_on_result_def flag_other flag_write_back split: recovery_result.split)

lemma flag_reconfirm: "reconfirm_stage rc cand s = (s1, v) \<Longrightarrow> flag_exact dry live s1 = flag_exact dry live s"
  by (drule reconfirm_stage_same) (simp add: flag_exact_def)

lemma flag_candidate:
  assumes "process_candidate rc cfg slot dry live wa cand s = Ret s'" "flag_exact dry live s"
  shows "flag_exact dry live s'"
  using assms(1)
proof (cases rule: process_candidate_cases)
  case (recover s1 block unr)
  have "flag_exact dry live s1" using assms(2) flag_reconfirm [OF recover(1)] by simp
  with recover(3) show ?thesis
    by (auto simp: recover_candidate_def run_bind_def flag_other flag_act split: sum.splits run.splits)
qed (use assms(2) in \<open>auto simp: flag_other flag_reconfirm\<close>)

definition live_of :: "'r flush_state \<Rightarrow> bool" where
  "live_of st = has_live_mount (snd (fst st))"

lemma flag_flush:
  assumes "flush_batch rc cfg slot dry ex batch st = Ret (st', res)"
  shows "live_of st' = live_of st \<and> (flag_exact dry (live_of st) (snd st) \<longrightarrow> flag_exact dry (live_of st') (snd st'))"
proof -
  obtain fz s fz' s' where st: "st = (fz, s)" "st' = (fz', s')" by (cases st; cases st')
  from assms [unfolded st] show ?thesis
  proof (cases rule: flush_batch_parts)
    case (parts fz1 g d)
    have "mountpoint (snd fz') = mountpoint (snd fz)"
      using parts(4) guard_mountpoint [OF parts(1)] by (simp add: take_thaw_error_def thaw_mountpoint)
    then have live: "live_of st' = live_of st" by (simp add: st live_of_def has_live_mount_def)
    let ?P = "\<lambda>a b. flag_exact dry (live_of st) a \<longrightarrow> flag_exact dry (live_of st) b"
    have "?P (count_deduped (length batch - length (sort_dedup batch)) s) s'"
      by (rule batch_loop_rel [where C = UNIV and R = ?P, OF _ _ _ parts(2)])
        (auto simp: reflp_def transp_def st live_of_def dest: flag_candidate)
    then show ?thesis by (simp add: live) (simp add: st flag_other)
  qed
qed

subsection \<open>The whole pipeline\<close>

lemma pipeline_flag:
  assumes "spawn_pipeline rc cfg slot dry clock bm alive es fz w r (Some c0) = Ret ((fz', s'), res)"
    and "c_repaired_while_mounted c0 = 0"
  shows "flag_exact dry (has_live_mount (snd fz)) s'"
proof -
  let ?s = "\<lparr>w_disks = w, w_reconfirmer = r, w_stats = default_batch_stats, w_counters = Some c0\<rparr>"
  from assms(1) obtain fz1 where rw: "run_writer rc cfg slot dry clock 0 [] (run_accumulator bm alive es) (fz, ?s) = Ret ((fz1, s'), res)"
    by (rule spawn_pipelineE)
  let ?R = "\<lambda>st st'. live_of st' = live_of st \<and> (flag_exact dry (live_of st) (snd st) \<longrightarrow> flag_exact dry (live_of st') (snd st'))"
  have "?R (fz, ?s) (fz1, s')"
    by (rule run_writer_rel [where R = ?R and C = UNIV, OF _ _ _ rw]) (auto simp: reflp_def transp_def dest: flag_flush)
  moreover have "flag_exact dry (live_of (fz, ?s)) ?s" using assms(2) by (simp add: flag_exact_def landed_def default_batch_stats_def)
  ultimately have "flag_exact dry (live_of (fz, ?s)) s'" by (elim conjE) simp
  then show ?thesis by (simp add: live_of_def)
qed

text \<open>The writer keeps its counters.\<close>

lemma counters_kept_flush:
  assumes "flush_batch rc cfg slot dry ex batch st = Ret (st', res)"
  shows "w_counters (snd st') = None \<longleftrightarrow> w_counters (snd st) = None"
proof -
  have count: "w_counters s' = None \<longleftrightarrow> w_counters s = None" if "process_candidate rc cfg slot dry live wa cand s = Ret s'"
    for live wa cand and s s' :: "'a writer"
    using that
  proof (cases rule: process_candidate_cases)
    case (recover s1 block unr)
    with reconfirm_stage_same [OF recover(1)] show ?thesis
      by (auto simp: recover_candidate_def run_bind_def act_on_result_def write_back_def verify_readback_def Let_def batch_ops
          split: sum.splits run.splits recovery_result.splits prod.splits if_splits)
  qed (auto simp: batch_ops dest!: reconfirm_stage_same)
  obtain fz s fz' s' where st: "st = (fz, s)" "st' = (fz', s')" by (cases st; cases st')
  from assms [unfolded st] show ?thesis
  proof (cases rule: flush_batch_parts)
    case (parts fz1 g d)
    have "w_counters s' = None \<longleftrightarrow> w_counters (count_deduped (length batch - length (sort_dedup batch)) s) = None"
      by (rule batch_loop_rel [where C = UNIV and R = "\<lambda>a b. w_counters b = None \<longleftrightarrow> w_counters a = None", OF _ _ _ parts(2)])
        (auto simp: reflp_def transp_def dest: count)
    then show ?thesis by (simp add: st batch_ops)
  qed
qed

lemma pipeline_counters:
  assumes "spawn_pipeline rc cfg slot dry clock bm alive es fz w r (Some c0) = Ret ((fz', s'), res)"
  shows "w_counters s' \<noteq> None"
proof -
  let ?s = "\<lparr>w_disks = w, w_reconfirmer = r, w_stats = default_batch_stats, w_counters = Some c0\<rparr>"
  from assms(1) obtain fz1 where rw: "run_writer rc cfg slot dry clock 0 [] (run_accumulator bm alive es) (fz, ?s) = Ret ((fz1, s'), res)"
    by (rule spawn_pipelineE)
  have "w_counters (snd (fz1, s')) = None \<longleftrightarrow> w_counters (snd (fz, ?s)) = None"
    by (rule run_writer_rel [where C = UNIV and R = "\<lambda>a b. w_counters (snd b) = None \<longleftrightarrow> w_counters (snd a) = None", OF _ _ _ rw])
      (auto simp: reflp_def transp_def dest: counters_kept_flush)
  then show ?thesis by simp
qed

text \<open>A session that ended with a data code: the statistics behind the code, and the flag it left.\<close>

lemma finish_recovery_flag:
  assumes "finish_recovery rcr cfg slot opts clock gap w k c result = Ret ses" "exit_status ses \<noteq> EXIT_RUNTIME_ERROR"
    and "c_repaired_while_mounted c = 0" "mirrors c default_batch_stats"
  shows "\<exists>bs. exit_status ses = exit_code True (snd result) bs \<and> mirrors (final_counters ses) bs \<and>
    (c_repaired_while_mounted (final_counters ses) \<noteq> 0 \<longleftrightarrow>
       \<not> dry_run opts \<and> freeze_enabled opts \<and> freeze_mount opts \<noteq> None \<and> 0 < landed bs)"
proof -
  obtain cands where "finish_recovery rcr cfg slot opts clock gap w k c result =
     Ret (join_pipeline (snd result) (length cands) c (recovery_run rcr cfg slot opts clock gap w k c cands))"
    by (rule finish_recovery_eq)
  with assms(1) have ses: "ses = join_pipeline (snd result) (length cands) c (recovery_run rcr cfg slot opts clock gap w k c cands)" by simp
  with assms(2) obtain fz' s' bs where run: "recovery_run rcr cfg slot opts clock gap w k c cands = Ret ((fz', s'), Inr bs)"
    and code: "exit_status ses = exit_code True (snd result) bs"
      "final_counters ses = set_state ''done'' (case w_counters s' of Some c' \<Rightarrow> c' | None \<Rightarrow> c)"
    by (auto simp: join_pipeline_def Let_def split: run.splits sum.splits if_splits)
  note sp = run [unfolded recovery_run_def]
  obtain c' where c': "w_counters s' = Some c'" using pipeline_counters [OF sp] by blast
  have st: "bs = w_stats s'"
  proof -
    from sp obtain fz1 where "run_writer (fst rcr) cfg slot (dry_run opts) clock 0 [] (run_accumulator (batch_max opts) (\<lambda>_. True) (channel_events gap 0 cands))
      ((k, select_freeze opts), \<lparr>w_disks = w, w_reconfirmer = snd rcr, w_stats = default_batch_stats, w_counters = Some c\<rparr>) = Ret ((fz1, s'), Inr bs)"
      by (rule spawn_pipelineE)
    from run_writer_received [OF this] show ?thesis by simp
  qed
  have "mirrors c' bs" using spawn_pipeline_books [OF sp] assms(4) c' by simp
  then have m: "mirrors (final_counters ses) bs" using code c' by (simp add: mirrors_def set_state_def)
  have "has_live_mount (snd (k, select_freeze opts)) \<longleftrightarrow> \<not> dry_run opts \<and> freeze_enabled opts \<and> freeze_mount opts \<noteq> None"
    by (auto simp: select_freeze_def new_controller_def has_live_mount_def)
  with pipeline_flag [OF sp assms(3)] c' st code show ?thesis
    by (intro exI [of _ bs] conjI m) (auto simp: flag_exact_def set_state_def)
qed

end
