(* ===== verification/Program.thy ===== *)
theory Program
  imports Whole_Run Scrub_Open Live_Flag
begin

text \<open>
  The program as it is started (\<open>main\<close> and \<open>run_scrub\<close> of \<open>src/scrub-rs/src/main.rs\<close>): the choice between help, array dump and scrub,
  the opening of the filesystem and its description (\<open>describe\<close> of \<open>src/scrub-rs/src/btrfs/scrub_driver.rs\<close>), the btrfs side as the
  driver's filesystem, the lines printed at the end and the advisories.
\<close>

subsection \<open>Printed lines\<close>

text \<open>\<open>{:x}\<close>, \<open>{:?}\<close> of a byte array.\<close>

fun show_hex :: "nat \<Rightarrow> string" where
  "show_hex n = (if n < 16 then [hex_digit n] else show_hex (n div 16) @ [hex_digit (n mod 16)])"

declare show_hex.simps [simp del]

fun comma_list :: "string list \<Rightarrow> string" where
  "comma_list [] = []"
| "comma_list [x] = x"
| "comma_list (x # xs) = x @ '', '' @ comma_list xs"

definition show_bytes :: "bytes \<Rightarrow> string" where
  "show_bytes bs = ''['' @ comma_list (map (\<lambda>b. show_nat (unat b)) bs) @ '']''"

text \<open>The opened filesystem; a sector size of zero was refused when it was opened.\<close>

definition num_csum_sectors :: "btrfs_scrub \<Rightarrow> nat" where
  "num_csum_sectors s = fold (\<lambda>e n. add64 n (dx_length e div st_sector_size (bs_strategy s))) (bs_dev_extents s) 0"

definition describe :: "btrfs_scrub \<Rightarrow> string list" where
  "describe s =
     (let sb = bs_superblock s; st = bs_strategy s; base = base_offset (bs_reader s); n = num_csum_sectors s in
      [''device        : '' @ bs_dev s,
       ''base offset   : 0x'' @ show_hex base @ '' ('' @ show_nat base @ '')'',
       ''magic         : '' @ show_bytes (sb_magic sb),
       ''fsid          : '' @ hex (sb_fsid sb),
       ''bytenr        : 0x'' @ show_hex (sb_bytenr sb),
       ''generation   : '' @ show_nat (sb_generation sb),
       ''root          : 0x'' @ show_hex (sb_root sb),
       ''chunk_root    : 0x'' @ show_hex (sb_chunk_root sb),
       ''total_bytes   : '' @ show_nat (sb_total_bytes sb),
       ''bytes_used    : '' @ show_nat (sb_bytes_used sb),
       ''num_devices   : '' @ show_nat (sb_num_devices sb),
       ''sector_size   : '' @ show_nat (sb_sector_size sb),
       ''node_size     : '' @ show_nat (sb_node_size sb),
       ''stripesize    : '' @ show_nat (sb_stripesize sb),
       ''csum_type     : '' @ show_nat (sb_csum_type sb) @ '' ('' @ st_name st @ '')'',
       ''csum sectors  : '' @ show_nat n @ '' ('' @ show_nat (mul64 n (st_sector_size st)) @ '' bytes)'',
       ''dev extents   : '' @ show_nat (length (bs_dev_extents s))])"

definition scrub_summary :: "scrub_stats \<Rightarrow> batch_stats \<Rightarrow> string list" where
  "scrub_summary st bs =
     [[], ''scrub complete:'',
      ''  sectors checked    : '' @ show_nat (sectors_checked st),
      ''  sectors ok         : '' @ show_nat (sectors_ok st),
      ''  sectors mismatch   : '' @ show_nat (sectors_mismatch st + mismatch bs),
      ''  sectors no csum    : '' @ show_nat (sectors_no_csum st),
      ''  sectors stale      : '' @ show_nat (sectors_stale st + stale bs),
      ''  sectors read error : '' @ show_nat (sectors_read_error st),
      ''  csum branches stale: '' @ show_nat (stale_csum_branches st),
      ''  isolation truncate : '' @ show_nat (isolation_truncated st),
      ''  metadata hdr errs  : '' @ show_nat (metadata_header_errors st),
      ''  metadata read err  : '' @ show_nat (metadata_read_errors st),
      ''  metadata mirror   : '' @ show_nat (metadata_mirror_mismatches st),
      ''  bytes checked      : '' @ show_nat (bytes_checked st)]"

definition recovery_summary :: "batch_stats \<Rightarrow> string list" where
  "recovery_summary bs =
     [[], ''recovery summary:'',
      ''  recovered       : '' @ show_nat (recovered bs),
      ''  failed          : '' @ show_nat (failed bs),
      ''  skipped         : '' @ show_nat (skipped bs),
      ''  not_corrupt     : '' @ show_nat (not_corrupt bs),
      ''  not_frozen      : '' @ show_nat (not_frozen bs),
      ''  readback_failed : '' @ show_nat (readback_failed bs)]"

text \<open>The advisories at the end of a run, with the count each shows, in the order they are printed.\<close>

datatype advisory = PageCache nat | ReadErrors nat | CoverageNote nat | MetadataFatal nat

definition advisories :: "bool \<Rightarrow> scrub_stats \<Rightarrow> batch_stats \<Rightarrow> status_counters \<Rightarrow> advisory list" where
  "advisories had_writer st bs c =
     (if had_writer \<and> c_repaired_while_mounted c \<noteq> 0 then [PageCache (recovered bs + readback_failed bs)] else []) @
     (if metadata_read_errors st > 0 then [ReadErrors (metadata_read_errors st)] else []) @
     (if stale_csum_branches st > 0 then [CoverageNote (stale_csum_branches st)] else []) @
     (if metadata_header_errors st > 0 then [MetadataFatal (metadata_header_errors st)] else [])"

definition print_status_block :: "(nat \<Rightarrow> string) \<Rightarrow> status_counters \<Rightarrow> string" where
  "print_status_block fmt2 c = ''status:'' @ [CHR 0x0A] @ snapshot fmt2 c"

definition show_path :: "path option \<Rightarrow> string" where
  "show_path p = (case p of Some x \<Rightarrow> x | None \<Rightarrow> ''None'')"

text \<open>Paths in a \<open>BTreeMap\<close> are ordered by their components; the paths of a configuration are absolute.\<close>

definition path_order :: "path set \<Rightarrow> path list" where
  "path_order ps = sort_key (\<lambda>p. filter (\<lambda>c. c \<noteq> [] \<and> c \<noteq> ''.'') (split_on (CHR ''/'') p)) (sorted_list_of_set ps)"

definition dump_array :: "io_kind + array_config \<Rightarrow> string list \<times> nat" where
  "dump_array loaded =
     (case loaded of
        Inl e \<Rightarrow> ([], EXIT_RUNTIME_ERROR)
      | Inr cfg \<Rightarrow>
          ([''parity_p : '' @ show_path (parity_p cfg), ''parity_q : '' @ show_path (parity_q cfg), ''data_devs:''] @
           map (\<lambda>(slot, p). ''  slot '' @ show_nat slot @ '': '' @ p @ '' (raw_offset=0x'' @ show_hex (raw_offset_for cfg p) @ '')'')
             (data_devs cfg) @
           [''rdev_offsets:''] @
           map (\<lambda>p. ''  '' @ p @ '' -> 0x'' @ show_hex (the (rdev_offsets cfg p))) (path_order (dom (rdev_offsets cfg))),
           EXIT_SUCCESS))"

subsection \<open>The btrfs side as the driver's filesystem\<close>

text \<open>
  The scrub runs once, after the canary and with the re-confirmer at hand, so its outcome \<open>res\<close> is given to the driver as a
  value. The trait's re-confirmation cannot fail; a lookup that panics or does not end is taken as unverifiable here.
\<close>

definition btrfs_filesystem ::
  "env \<Rightarrow> btrfs_scrub \<Rightarrow> io_kind + scrub_event list \<times> scrub_stats \<Rightarrow> btrfs_reconfirmer filesystem" where
  "btrfs_filesystem E s res =
     \<lparr>fs_run = (\<lambda>_. res), fs_reconfirmer = map_sum id (\<lambda>rs. (live_reconfirmer E, rs)) (new_reconfirmer E s),
      fs_superblock_offset = superblock_offset, fs_block_has_magic = block_has_magic\<rparr>"

definition scrub_outcome ::
  "env \<Rightarrow> nat \<Rightarrow> reader_fate \<Rightarrow> bool \<Rightarrow> btrfs_scrub \<Rightarrow> (io_kind + scrub_event list \<times> scrub_stats) run option" where
  "scrub_outcome E budget fate raw s =
     walk_bind (btrfs_run E budget fate raw s) (\<lambda>(s', evs, res). Some (Ret (map_sum id (\<lambda>st. (evs, st)) res)))"

text \<open>
  What surrounds the program: environment and isolation budget, the fate of the reader thread, number parsing, the numbers
  \<open>Duration::from_secs_f64\<close> takes (it panics on the others), path canonicalization, the array's stat file as loaded, the outcome of binding the status socket, the writer's clock and the idle gaps, the disks and the kernel.
\<close>

record 'f world =
  w_env :: env
  w_budget :: nat
  w_fate :: reader_fate
  w_f64 :: "'f f64_ops"
  w_duration :: "'f \<Rightarrow> bool"
  w_canonicalize :: "path \<Rightarrow> path option"
  w_config :: "io_kind + array_config"
  w_clock :: "nat \<Rightarrow> nat \<Rightarrow> bool"
  w_gap :: "nat \<Rightarrow> nat"
  w_machine :: disks
  w_kernel :: kernel

text \<open>\<open>run_scrub\<close> from the opening on; a status server that cannot be started is only noted.\<close>

definition start_counters :: "path \<Rightarrow> 'f options \<Rightarrow> status_counters" where
  "start_counters dev opts =
     (let c = set_device dev new_counters in if status_sock opts = None then c else set_state ''starting'' c)"

definition open_and_scrub :: "'f world \<Rightarrow> path \<Rightarrow> 'f options \<Rightarrow> session run option" where
  "open_and_scrub W dev opts =
     (let E = w_env W; w = w_machine W; c = start_counters dev opts
      in walk_bind (btrfs_open E w dev (options.base_offset opts)) (\<lambda>res.
           case res of
             Inl e \<Rightarrow> Some (Ret \<lparr>exit_status = EXIT_RUNTIME_ERROR, final_state = Some (w, w_kernel W), final_counters = c\<rparr>)
           | Inr s0 \<Rightarrow>
               (let s = set_status c s0;
                    target = resolve_slot (w_canonicalize W) (w_config W) dev;
                    driver = (\<lambda>res. run_scrub (btrfs_filesystem E s res) target opts (w_clock W) (w_gap W) w (w_kernel W) c)
                in walk_bind (Some (canary_gate (fst target) (snd target) w superblock_offset block_has_magic)) (\<lambda>ok.
                     if \<not> ok \<or> fst target \<noteq> None \<and> isl (new_reconfirmer E s) then Some (driver (Inl OtherError))
                     else if fst target \<noteq> None \<and> \<not> (w_duration W (batch_idle opts) \<and> w_duration W (freeze_max opts)) then Some Panic
                     else walk_bind (scrub_outcome E (w_budget W) (w_fate W) (fst target \<noteq> None) s) (\<lambda>res. Some (driver res))))))"

text \<open>\<open>main\<close>: \<open>Inl\<close> is an exit without a scrub, with the lines printed; the help text is not modelled.\<close>

definition wants_help :: "string list \<Rightarrow> bool" where
  "wants_help args = (case args of a # _ \<Rightarrow> a = ''--help'' \<or> a = ''-h'' | [] \<Rightarrow> False)"

definition main_program :: "'f world \<Rightarrow> string list \<Rightarrow> (string list \<times> nat + session) run option" where
  "main_program W args =
     (case args of
        [] \<Rightarrow> Some (Ret (Inl ([], EXIT_SUCCESS)))
      | dev # rest \<Rightarrow>
          if wants_help args then Some (Ret (Inl ([], EXIT_SUCCESS)))
          else if dev = ''--dump-array'' then Some (Ret (Inl (dump_array (w_config W))))
          else if wants_help rest then Some (Ret (Inl ([], EXIT_SUCCESS)))
          else case parse_args (w_f64 W) rest (default_options (w_f64 W)) of
                 None \<Rightarrow> Some (Ret (Inl ([], EXIT_USAGE_ERROR)))
               | Some opts \<Rightarrow> walk_bind (open_and_scrub W dev opts) (\<lambda>ses. Some (Ret (Inr ses))))"

definition program_exit :: "string list \<times> nat + session \<Rightarrow> nat" where
  "program_exit r = (case r of Inl (out, code) \<Rightarrow> code | Inr ses \<Rightarrow> exit_status ses)"

subsection \<open>Command lines\<close>

text \<open>One step of the argument loop goes on with fewer arguments; only \<open>--repair\<close> touches the dry-run flag.\<close>

definition parse_step :: "'f f64_ops \<Rightarrow> string \<Rightarrow> string list \<Rightarrow> 'f options \<Rightarrow> 'f options \<Rightarrow> bool" where
  "parse_step F arg args opts opts' \<longleftrightarrow> (\<exists>rest opts1. parse_args F rest opts1 = Some opts' \<and> (rest = args \<or> (\<exists>v. args = v # rest)) \<and>
     (arg \<noteq> ''--repair'' \<longrightarrow> dry_run opts1 = dry_run opts))"

lemma parse_stepI:
  "parse_args F args opts1 = Some opts' \<Longrightarrow> arg \<noteq> ''--repair'' \<longrightarrow> dry_run opts1 = dry_run opts \<Longrightarrow> parse_step F arg args opts opts'"
  "parse_args F rest opts1 = Some opts' \<Longrightarrow> arg \<noteq> ''--repair'' \<longrightarrow> dry_run opts1 = dry_run opts \<Longrightarrow> parse_step F arg (v # rest) opts opts'"
  by (auto simp: parse_step_def)

lemma parse_args_step:
  assumes "parse_args F (arg # args) opts = Some opts'"
  shows "parse_step F arg args opts opts'"
proof (cases "arg = ''--repair'' \<or> arg = ''--no-freeze''")
  case True
  with assms show ?thesis by (elim disjE) (simp_all add: parse_stepI(1))
next
  case False
  then obtain v rest where args: "args = v # rest" using assms by (cases args) (auto split: if_splits)
  have "\<exists>o1. parse_args F rest o1 = Some opts' \<and> dry_run o1 = dry_run opts"
    using assms False unfolding args parse_args.simps(2) list.case
    by (simp split: if_splits option.splits sum.splits) (rule exI, erule conjI, simp)+
  then show ?thesis unfolding args by (auto intro: parse_stepI(2))
qed

lemma parse_args_dry:
  "parse_args F args opts = Some opts' \<Longrightarrow> ''--repair'' \<notin> set args \<Longrightarrow> dry_run opts' = dry_run opts"
proof (induction "length args" arbitrary: args opts rule: less_induct)
  case less
  show ?case
  proof (cases args)
    case (Cons arg as)
    from parse_args_step [OF less.prems(1) [unfolded Cons]] obtain rest opts1 where r: "parse_args F rest opts1 = Some opts'"
      "rest = as \<or> (\<exists>v. as = v # rest)" "arg \<noteq> ''--repair'' \<longrightarrow> dry_run opts1 = dry_run opts" by (auto simp: parse_step_def)
    have "arg \<noteq> ''--repair''" "''--repair'' \<notin> set rest" using less.prems(2) r(2) by (auto simp: Cons)
    with less.hyps [OF _ r(1)] r(2,3) show ?thesis by (auto simp: Cons)
  qed (use less.prems in simp)
qed

lemma run_scrub_exit:
  assumes "run_scrub fs target opts clock gap w k counters = Ret ses"
  shows "exit_status ses = EXIT_RUNTIME_ERROR \<or> (\<exists>st bs. exit_status ses = exit_code (fst target \<noteq> None) st bs)"
proof (cases target)
  case (Pair cfg slot)
  have join: "exit_status (join_pipeline st n c out) = EXIT_RUNTIME_ERROR \<or>
      (\<exists>bs. exit_status (join_pipeline st n c out) = exit_code True st bs)" for st n c and out :: "('a flush_state \<times> (io_kind + batch_stats)) run"
    by (auto simp: join_pipeline_def Let_def split: run.split sum.split)
  show ?thesis
  proof (cases cfg)
    case None
    have "\<exists>st bs. exit_code False b default_batch_stats = exit_code False st bs" for b by blast
    with assms Pair None show ?thesis by (auto simp: run_scrub_def Let_def run_bind_eq_Ret split: if_splits sum.splits)
  next
    case (Some a)
    have fin: "exit_status ses = EXIT_RUNTIME_ERROR \<or> (\<exists>st bs. exit_status ses = exit_code True st bs)"
      if "finish_recovery rcr a slot opts clock gap w k c result = Ret ses" for rcr :: "'a reconfirmer \<times> 'a" and c result
    proof -
      obtain cands where "finish_recovery rcr a slot opts clock gap w k c result =
         Ret (join_pipeline (snd result) (length cands) c (recovery_run rcr a slot opts clock gap w k c cands))"
        by (rule finish_recovery_eq)
      then have "ses = join_pipeline (snd result) (length cands) c (recovery_run rcr a slot opts clock gap w k c cands)"
        using that by simp
      then show ?thesis using join by blast
    qed
    with assms Pair Some show ?thesis by (auto simp: run_scrub_def Let_def run_bind_eq_Ret split: if_splits sum.splits)
  qed
qed

text \<open>The codes a scrub may end with: recovery codes with a writer, \<open>EXIT_ISSUES_FOUND\<close> without.\<close>

definition exit_class :: "bool \<Rightarrow> nat \<Rightarrow> bool" where
  "exit_class had_writer code \<longleftrightarrow> code \<le> 6 \<and> code \<noteq> EXIT_USAGE_ERROR \<and>
     (code \<in> {EXIT_RECOVERED, EXIT_RECOVER_FAILED} \<longrightarrow> had_writer) \<and> (code = EXIT_ISSUES_FOUND \<longrightarrow> \<not> had_writer)"

lemma exit_code_class: "exit_class b (exit_code b st bs)"
  by (simp add: exit_class_def exit_code_def exit_codes)

lemma exit_class_run:
  "code = EXIT_RUNTIME_ERROR \<or> (\<exists>st bs. code = exit_code b st bs) \<Longrightarrow> exit_class b code"
  by (elim disjE exE) (simp_all add: exit_code_class, simp add: exit_class_def exit_codes)

text \<open>Every run after the opening is a run of the driver on the btrfs side.\<close>

lemma open_and_scrub_cases:
  assumes "open_and_scrub W dev opts = Some (Ret ses)"
  shows "exit_status ses = EXIT_RUNTIME_ERROR \<and> final_state ses = Some (w_machine W, w_kernel W) \<or>
    (\<exists>s res. run_scrub (btrfs_filesystem (w_env W) s res) (resolve_slot (w_canonicalize W) (w_config W) dev) opts (w_clock W) (w_gap W)
       (w_machine W) (w_kernel W) (start_counters dev opts) = Ret ses)"
  using assms
  by (auto simp: open_and_scrub_def Let_def walk_bind_def split: option.splits run.splits sum.splits if_splits)

lemma main_program_session:
  assumes "main_program W args = Some (Ret (Inr ses))"
  obtains dev rest opts where "args = dev # rest" "parse_args (w_f64 W) rest (default_options (w_f64 W)) = Some opts"
    "open_and_scrub W dev opts = Some (Ret ses)" "\<not> wants_help args" "\<not> wants_help rest" "dev \<noteq> ''--dump-array''"
  using assms
  by (auto simp: main_program_def walk_bind_def split: list.splits if_splits option.splits run.splits)

subsection \<open>A small world: one device, no array\<close>

definition demo_f64 :: "nat f64_ops" where
  "demo_f64 = \<lparr>parse_f64 = (\<lambda>_. None), f64_nonneg = (\<lambda>_. True), f64_finite_pos = (\<lambda>x. 0 < x), f64_5 = 5, f64_60 = 60\<rparr>"

definition demo_world :: "nat world" where
  "demo_world = \<lparr>w_env = demo_live_env, w_budget = 64, w_fate = healthy, w_f64 = demo_f64, w_duration = (\<lambda>_. True), w_canonicalize = Some,
     w_config = Inl NotFound, w_clock = (\<lambda>_ _. False), w_gap = (\<lambda>_. 0), w_machine = [''d'' \<mapsto> demo_open_disk], w_kernel = demo_kernel\<rparr>"

lemma demo_world_run:
  "\<exists>ses. main_program demo_world [''d''] = Some (Ret (Inr ses)) \<and> final_state ses = Some ([''d'' \<mapsto> demo_open_disk], demo_kernel)"
proof -
  let ?opts = "default_options demo_f64"
  obtain s where s: "btrfs_open demo_live_env [''d'' \<mapsto> demo_open_disk] ''d'' 0 = Some (Ret (Inr s))" "bs_dev_extents s = []"
    using demo_btrfs_open by blast
  let ?c = "start_counters ''d'' ?opts"
  have ext: "bs_dev_extents (set_status ?c s) = []" by (simp add: set_status_def Let_def s(2))
  obtain res where res: "scrub_outcome demo_live_env 64 healthy False (set_status ?c s) = Some (Ret (Inr res))"
    by (simp add: scrub_outcome_def btrfs_run_def ext scrub_dev_tree_def dup_handle_def healthy_def reopen_def scrub_context_def demo_live_env_def Let_def)
  have "options.base_offset ?opts = 0" by (simp add: default_options_def)
  then show ?thesis
    by (simp add: main_program_def wants_help_def open_and_scrub_def demo_world_def s(1) Let_def resolve_slot_def canary_gate_def res
      run_scrub_def btrfs_filesystem_def)
qed

text \<open>
  \<open>--batch-idle inf\<close> passes the option check (\<open>s >= 0.0\<close>) and panics where the pipeline is spawned; so does a finite
  \<open>--freeze-max\<close> beyond the range of \<open>Duration\<close>.
\<close>

lemma accepted_number_panics:
  assumes "parse_f64 (w_f64 W) v = Some x" "f64_nonneg (w_f64 W) x" "\<not> w_duration W x"
    and "dev \<notin> {''--help'', ''-h'', ''--dump-array''}" "btrfs_open (w_env W) (w_machine W) dev 0 = Some (Ret (Inr s))"
    and "resolve_slot (w_canonicalize W) (w_config W) dev = (Some cfg, slot)"
    and "canary_gate (Some cfg) slot (w_machine W) superblock_offset block_has_magic = Ret True"
    and "new_reconfirmer (w_env W) (set_status (set_device dev new_counters) s) = Inr rs"
  shows "main_program W [dev, ''--batch-idle'', v] = Some Panic"
  using assms
  by (simp add: main_program_def wants_help_def open_and_scrub_def Let_def start_counters_def default_options_def)

subsection \<open>Properties\<close>



text \<open>C18: The exit codes of the program: it ends with a code from 0 to 6; with 2 exactly when it was asked to scrub and the options were
  rejected, before anything is opened; with 4 or 5 only when the device was resolved to a slot of an array, and with
  3 only when it was not.\<close>

theorem program_exit_codes:
  assumes "main_program W args = Some (Ret r)"
  shows "program_exit r \<le> 6 \<and>
    (program_exit r = EXIT_USAGE_ERROR \<longleftrightarrow> (\<exists>dev rest. args = dev # rest \<and> \<not> wants_help args \<and> dev \<noteq> ''--dump-array'' \<and> \<not> wants_help rest \<and>
       parse_args (w_f64 W) rest (default_options (w_f64 W)) = None)) \<and>
    (program_exit r \<in> {EXIT_RECOVERED, EXIT_RECOVER_FAILED} \<longrightarrow> fst (resolve_slot (w_canonicalize W) (w_config W) (hd args)) \<noteq> None) \<and>
    (program_exit r = EXIT_ISSUES_FOUND \<longrightarrow> fst (resolve_slot (w_canonicalize W) (w_config W) (hd args)) = None)"
proof (cases r)
  case (Inl x)
  obtain out code where x: "x = (out, code)" by (cases x)
  have dump: "snd (dump_array loaded) \<in> {EXIT_SUCCESS, EXIT_RUNTIME_ERROR}" for loaded by (simp add: dump_array_def split: sum.split)
  show ?thesis
  proof (cases args)
    case Nil
    with assms Inl x show ?thesis by (simp add: main_program_def program_exit_def exit_codes)
  next
    case (Cons dev rest)
    consider "wants_help args \<or> dev \<noteq> ''--dump-array'' \<and> wants_help rest" | "\<not> wants_help args" "dev = ''--dump-array''"
      | "\<not> wants_help args" "dev \<noteq> ''--dump-array''" "\<not> wants_help rest" by blast
    then show ?thesis
    proof cases
      case 1
      with assms Inl x Cons have "code = EXIT_SUCCESS" by (auto simp: main_program_def split: if_splits)
      with 1 Inl x Cons show ?thesis by (auto simp: program_exit_def exit_codes)
    next
      case 2
      with assms Inl x Cons have "code = snd (dump_array (w_config W))" by (simp add: main_program_def)
      with 2 Inl x Cons dump [of "w_config W"] show ?thesis by (auto simp: program_exit_def exit_codes)
    next
      case 3
      with assms Inl x Cons have "parse_args (w_f64 W) rest (default_options (w_f64 W)) = None \<and> code = EXIT_USAGE_ERROR"
        by (auto simp: main_program_def walk_bind_def split: option.splits run.splits)
      with 3 Inl x Cons show ?thesis by (auto simp: program_exit_def exit_codes)
    qed
  qed
next
  case (Inr ses)
  from assms Inr obtain dev rest opts where m: "args = dev # rest" "parse_args (w_f64 W) rest (default_options (w_f64 W)) = Some opts"
    "open_and_scrub W dev opts = Some (Ret ses)" by (auto elim: main_program_session)
  let ?target = "resolve_slot (w_canonicalize W) (w_config W) dev"
  have "exit_status ses = EXIT_RUNTIME_ERROR \<or> (\<exists>st bs. exit_status ses = exit_code (fst ?target \<noteq> None) st bs)"
    using open_and_scrub_cases [OF m(3)] run_scrub_exit by blast
  then have "exit_class (fst ?target \<noteq> None) (exit_status ses)" by (rule exit_class_run)
  with m(1,2) Inr show ?thesis by (auto simp: program_exit_def exit_class_def)
qed

theorem program_exit_codes_witness:
  "\<exists>ses. main_program demo_world [''d''] = Some (Ret (Inr ses)) \<and>
    program_exit (Inr ses) \<notin> {EXIT_USAGE_ERROR, EXIT_RECOVERED, EXIT_RECOVER_FAILED} \<and> program_exit (Inr ses) \<le> 6"
proof -
  obtain ses where ses: "main_program demo_world [''d''] = Some (Ret (Inr ses))" using demo_world_run by blast
  have "parse_args (w_f64 demo_world) [] (default_options (w_f64 demo_world)) \<noteq> None"
    "fst (resolve_slot (w_canonicalize demo_world) (w_config demo_world) ''d'') = None"
    by (simp_all add: demo_world_def resolve_slot_def)
  with program_exit_codes [OF ses] ses show ?thesis by auto
qed


text \<open>The device as the only data disk of an array whose parity is in sync.\<close>

definition array_world :: "nat world" where
  "array_world = demo_world\<lparr>w_config := Inr \<lparr>data_devs = [(1, ''d'')], parity_p = Some ''p'', parity_q = None, rdev_offsets = Map.empty\<rparr>,
     w_machine := [''d'' \<mapsto> demo_open_disk, ''p'' \<mapsto> demo_open_disk]\<rparr>"

definition array_args :: "string list" where
  "array_args = [''--repair'', ''--freeze-mount'', ''/mnt'']"

lemma btrfs_open_local: "w dev = w' dev \<Longrightarrow> btrfs_open E w dev base = btrfs_open E w' dev base"
  by (simp add: btrfs_open_def open_fs_def file_open_def)

lemma array_canary:
  "canary_gate (Some \<lparr>data_devs = [(1, ''d'')], parity_p = Some ''p'', parity_q = None, rdev_offsets = Map.empty\<rparr>) 1
     [''d'' \<mapsto> demo_open_disk, ''p'' \<mapsto> demo_open_disk] superblock_offset block_has_magic = Ret True"
proof -
  let ?cfg = "\<lparr>data_devs = [(1, ''d'')], parity_p = Some ''p'', parity_q = None, rdev_offsets = Map.empty\<rparr> :: array_config"
  let ?w = "[''d'' \<mapsto> demo_open_disk, ''p'' \<mapsto> demo_open_disk]"
  have len: "length demo_open_sb = 4096" "length demo_root_buf = 390" by (simp_all add: demo_open_sb_props demo_root_buf_props)
  have "read_block_or_zeros ?cfg ?w ''p'' 65536 4096 = Inr (take 4096 (drop 65536 (demo_root_buf @ zeros 65146 @ demo_open_sb)))"
    by (rule plain_read) (simp_all add: demo_open_disk_def len)
  then have p: "read_block_or_zeros ?cfg ?w ''p'' 65536 4096 = Inr demo_open_sb" by (simp add: len)
  have magic: "has_magic_at demo_open_sb OFF_MAGIC"
    by (simp add: has_magic_at_def OFF_MAGIC_def length_magic demo_open_sb_props)
  have "xor_inplace (zeros 4096) demo_open_sb = demo_open_sb"
    unfolding xor_inplace_def zeros_def by (rule nth_equalityI) (simp_all add: len)
  with p show ?thesis
    by (simp add: canary_gate_def reconstruct_block_def gather_stripe_def gather_parity_def superblock_offset_def SUPERBLOCK_OFFSET_def SB_BLOCK_def
      recover_via_p_def len block_has_magic_def magic run_assert_def)
qed

lemma array_world_run:
  "\<exists>ses. main_program array_world (''d'' # array_args) = Some (Ret (Inr ses)) \<and> exit_status ses \<noteq> EXIT_RUNTIME_ERROR"
proof -
  let ?opts = "(default_options demo_f64)\<lparr>dry_run := False, freeze_mount := Some ''/mnt''\<rparr>"
  let ?cfg = "\<lparr>data_devs = [(1, ''d'')], parity_p = Some ''p'', parity_q = None, rdev_offsets = Map.empty\<rparr> :: array_config"
  obtain s where s: "btrfs_open demo_live_env [''d'' \<mapsto> demo_open_disk] ''d'' 0 = Some (Ret (Inr s))" "bs_dev_extents s = []"
    using demo_btrfs_open by blast
  have op: "btrfs_open demo_live_env [''d'' \<mapsto> demo_open_disk, ''p'' \<mapsto> demo_open_disk] ''d'' 0 = Some (Ret (Inr s))"
    using s(1) by (subst btrfs_open_local [where w' = "[''d'' \<mapsto> demo_open_disk]"]) simp_all
  let ?c = "start_counters ''d'' ?opts"
  have ext: "bs_dev_extents (set_status ?c s) = []" by (simp add: set_status_def Let_def s(2))
  obtain res where res: "scrub_outcome demo_live_env 64 healthy True (set_status ?c s) = Some (Ret (Inr res))"
    by (simp add: scrub_outcome_def btrfs_run_def ext scrub_dev_tree_def dup_handle_def healthy_def reopen_def scrub_context_def demo_live_env_def Let_def)
  obtain rcr where rcr: "new_reconfirmer demo_live_env (set_status ?c s) = Inr rcr"
    by (simp add: new_reconfirmer_def reopen_def demo_live_env_def Let_def)
  have fresh: "fresh_counters (set_state ''done'' (set_recovery True ?c))"
    by (simp add: fresh_counters_def start_counters_def set_state_def set_recovery_def set_device_def new_counters_def Let_def mirrors_def
        default_batch_stats_def)
  have slots: "slots_ok ?cfg" by (simp add: slots_ok_def bt_ok_def)
  have slot: "resolve_slot Some (Inr ?cfg) ''d'' = (Some ?cfg, 1)"
  proof -
    have "slot_from_array_partition ''d'' = None" by code_simp
    then show ?thesis by (simp add: resolve_slot_def slot_for_raw_dev_def canonical_def)
  qed
  have parse: "parse_args demo_f64 array_args (default_options demo_f64) = Some ?opts"
    by (simp add: array_args_def default_options_def)
  have le255: "(1 :: nat) \<le> 255" by simp
  have free: "\<forall>m. freeze_mount ?opts = Some m \<longrightarrow> \<not> kfrozen demo_kernel m" by (simp add: demo_kernel_def)
  obtain ses bs where fin: "finish_recovery (live_reconfirmer demo_live_env, rcr) ?cfg 1 ?opts (\<lambda>_ _. False) (\<lambda>_. 0)
      [''d'' \<mapsto> demo_open_disk, ''p'' \<mapsto> demo_open_disk] demo_kernel (set_state ''done'' (set_recovery True ?c)) res = Ret ses"
      "exit_status ses = exit_code True (snd res) bs"
    using finish_recovery_complete [OF slots order.refl le255 demo_idle(2) fresh free] by blast
  then have "exit_status ses \<noteq> EXIT_RUNTIME_ERROR" by (simp add: exit_code_def exit_codes)
  moreover have "open_and_scrub array_world ''d'' ?opts = Some (Ret ses)"
  proof -
    have W: "w_env array_world = demo_live_env" "w_machine array_world = [''d'' \<mapsto> demo_open_disk, ''p'' \<mapsto> demo_open_disk]"
      "w_budget array_world = 64" "w_fate array_world = healthy" "w_canonicalize array_world = Some" "w_config array_world = Inr ?cfg"
      "w_clock array_world = (\<lambda>_ _. False)" "w_gap array_world = (\<lambda>_. 0)" "w_kernel array_world = demo_kernel"
      "w_duration array_world = (\<lambda>_. True)" by (simp_all add: array_world_def demo_world_def)
    have base: "options.base_offset ?opts = 0" by (simp add: default_options_def)
    have fs: "fs_superblock_offset (btrfs_filesystem demo_live_env x y) = superblock_offset"
      "fs_block_has_magic (btrfs_filesystem demo_live_env x y) = block_has_magic"
      "fs_run (btrfs_filesystem demo_live_env x y) = (\<lambda>_. y)"
      "fs_reconfirmer (btrfs_filesystem demo_live_env (set_status ?c s) y) = Inr (live_reconfirmer demo_live_env, rcr)" for x y
      by (simp_all add: btrfs_filesystem_def rcr)
    show ?thesis unfolding open_and_scrub_def W Let_def base op slot
      by (simp add: array_canary [unfolded One_nat_def] fs rcr res run_scrub_def) (rule fin(1) [unfolded One_nat_def])
  qed
  then have "main_program array_world (''d'' # array_args) = Some (Ret (Inr ses))"
    using parse by (simp add: main_program_def wants_help_def array_args_def array_world_def demo_world_def)
  ultimately show ?thesis by blast
qed


end
