(* ===== verification/Program_Fatal.thy ===== *)
theory Program_Fatal
  imports Program
begin

text \<open>
  Metadata damage at the level of the whole program (\<open>src/scrub-rs/src/main.rs\<close>): the statistics behind the exit code of a
  completed run are those of the scrub of the opened filesystem, and the code is the fatal one exactly when they count a damaged node.
\<close>

lemma join_exit:
  "exit_status (join_pipeline st n c out) = EXIT_RUNTIME_ERROR \<or> (\<exists>bs. exit_status (join_pipeline st n c out) = exit_code True st bs)"
  by (auto simp: join_pipeline_def Let_def split: run.split sum.split)

lemma finish_exit:
  assumes "finish_recovery rcr cfg slot opts clock gap w k c result = Ret ses" "exit_status ses \<noteq> EXIT_RUNTIME_ERROR"
  shows "\<exists>bs. exit_status ses = exit_code True (snd result) bs"
proof -
  obtain cands where "finish_recovery rcr cfg slot opts clock gap w k c result =
     Ret (join_pipeline (snd result) (length cands) c (recovery_run rcr cfg slot opts clock gap w k c cands))"
    by (rule finish_recovery_eq)
  with assms(1) have "ses = join_pipeline (snd result) (length cands) c (recovery_run rcr cfg slot opts clock gap w k c cands)" by simp
  with assms(2) show ?thesis using join_exit by blast
qed

lemma run_scrub_stats:
  fixes fs :: "'r filesystem"
  assumes "run_scrub fs target opts clock gap w k counters = Ret ses" "exit_status ses \<noteq> EXIT_RUNTIME_ERROR"
  obtains result bs where "fs_run fs (fst target \<noteq> None) = Inr result" "exit_status ses = exit_code (fst target \<noteq> None) (snd result) bs"
proof (cases "fst target")
  case None
  with assms obtain result where "fs_run fs False = Inr result" "exit_status ses = exit_code False (snd result) default_batch_stats"
    by (auto simp: run_scrub_def Let_def run_bind_eq_Ret split: if_splits sum.splits)
  with that None show thesis by simp
next
  case (Some cfg)
  with assms obtain rcr :: "'r reconfirmer \<times> 'r" and result where "fs_run fs True = Inr result"
    "finish_recovery rcr cfg (snd target) opts clock gap w k (set_state ''done'' (set_recovery True counters)) result = Ret ses"
    by (auto simp: run_scrub_def Let_def run_bind_eq_Ret split: if_splits sum.splits)
  moreover from finish_exit [OF this(2) assms(2)] obtain bs where "exit_status ses = exit_code True (snd result) bs" by blast
  ultimately show thesis using that [of result bs] Some by simp
qed

lemma driver_result: "fs_run (btrfs_filesystem E s res) b = res"
  by (simp add: btrfs_filesystem_def)

lemma open_and_scrub_stats:
  assumes "open_and_scrub W dev opts = Some (Ret ses)" "exit_status ses \<noteq> EXIT_RUNTIME_ERROR"
  defines "b \<equiv> fst (resolve_slot (w_canonicalize W) (w_config W) dev) \<noteq> None"
  obtains s s' evs st bs where "btrfs_open (w_env W) (w_machine W) dev (options.base_offset opts) = Some (Ret (Inr s))"
    "btrfs_run (w_env W) (w_budget W) (w_fate W) b (set_status (start_counters dev opts) s) = Some (Ret (s', evs, Inr st))"
    "exit_status ses = exit_code b st bs"
proof -
  let ?target = "resolve_slot (w_canonicalize W) (w_config W) dev" and ?c = "start_counters dev opts"
  let ?run = "\<lambda>s res. run_scrub (btrfs_filesystem (w_env W) s res) ?target opts (w_clock W) (w_gap W) (w_machine W) (w_kernel W) ?c"
  from assms(1,2) obtain s0 res where s0: "btrfs_open (w_env W) (w_machine W) dev (options.base_offset opts) = Some (Ret (Inr s0))"
    and run: "?run (set_status ?c s0) res = Ret ses"
    and res: "res = Inl OtherError \<or> scrub_outcome (w_env W) (w_budget W) (w_fate W) b (set_status ?c s0) = Some (Ret res)"
    unfolding b_def
    by (auto simp: open_and_scrub_def Let_def walk_bind_def split: option.splits run.splits sum.splits if_splits)
  obtain result bs where r: "res = Inr result" "exit_status ses = exit_code b (snd result) bs"
    by (rule run_scrub_stats [OF run assms(2)]) (auto simp: driver_result b_def)
  with res obtain s' evs st where "btrfs_run (w_env W) (w_budget W) (w_fate W) b (set_status ?c s0) = Some (Ret (s', evs, Inr st))"
    "result = (evs, st)"
    by (auto simp: scrub_outcome_def walk_bind_Some)
      (metis (no_types, lifting) map_sum.simps(1) map_sum.simps(2) sum.exhaust Inr_inject Inr_not_Inl)
  with that s0 r(2) show thesis by simp
qed

text \<open>C30: Metadata damage is never reported as anything else: a run of the program that completes ends with the fatal-metadata code
  exactly when opening or scrubbing counted a node whose every copy failed its header check, in particular when opening met such a
  node or could not resolve the dev tree and so has nothing to scrub; the outcome of the recovery plays no part.\<close>

theorem program_metadata_fatal:
  assumes "main_program W (dev # rest) = Some (Ret (Inr ses))" "parse_args (w_f64 W) rest (default_options (w_f64 W)) = Some opts"
    and "exit_status ses \<noteq> EXIT_RUNTIME_ERROR"
    and "open_fs (w_env W) (w_machine W) dev (options.base_offset opts) = Some (Ret (Inr ctx))" "HEADER_SIZE \<le> sb_node_size (ctx_superblock ctx)"
  shows "\<exists>s s' evs st. btrfs_open (w_env W) (w_machine W) dev (options.base_offset opts) = Some (Ret (Inr s)) \<and>
    btrfs_run (w_env W) (w_budget W) (w_fate W) (fst (resolve_slot (w_canonicalize W) (w_config W) dev) \<noteq> None)
      (set_status (start_counters dev opts) s) = Some (Ret (s', evs, Inr st)) \<and>
    (exit_status ses = EXIT_METADATA_FATAL \<longleftrightarrow> 0 < me_header (bs_errors s) \<or> reported_header (bs_csum_provider s') \<noteq> {}) \<and>
    (dev_tree_root (ctx_roots ctx) = None \<or> 0 < me_header (ctx_errors ctx) \<longrightarrow> exit_status ses = EXIT_METADATA_FATAL)"
proof -
  from main_program_session [OF assms(1)] assms(2) have opened: "open_and_scrub W dev opts = Some (Ret ses)"
    by (metis list.inject option.inject)
  from open_and_scrub_stats [OF opened assms(3)] obtain s s' evs st bs where
    s: "btrfs_open (w_env W) (w_machine W) dev (options.base_offset opts) = Some (Ret (Inr s))"
    and run: "btrfs_run (w_env W) (w_budget W) (w_fate W) (fst (resolve_slot (w_canonicalize W) (w_config W) dev) \<noteq> None)
      (set_status (start_counters dev opts) s) = Some (Ret (s', evs, Inr st))"
    and code: "exit_status ses = exit_code (fst (resolve_slot (w_canonicalize W) (w_config W) dev) \<noteq> None) st bs" by blast
  have sb: "bs_superblock s = ctx_superblock ctx"
    by (rule btrfs_open_cases [OF s]) (use assms(4) in simp)
  have keep: "bs_csum_provider (set_status c s) = bs_csum_provider s" "bs_errors (set_status c s) = bs_errors s" for c
    by (simp_all add: set_status_def Let_def)
  have ok: "reader_ok (pv_reader (bs_csum_provider s)) (bs_strategy s)" "provider_inv (bs_csum_provider s)"
    using opened_scrub_props [OF s] assms(5) sb by simp_all
  note errs = run_header_errors [OF run, unfolded keep, OF ok]
  have "exit_status ses = EXIT_METADATA_FATAL \<longleftrightarrow> 0 < metadata_header_errors st"
    unfolding code by (auto simp: exit_code_def exit_codes)
  then have iff: "exit_status ses = EXIT_METADATA_FATAL \<longleftrightarrow> 0 < me_header (bs_errors s) \<or> reported_header (bs_csum_provider s') \<noteq> {}"
    using errs by (auto simp: card_gt_0_iff)
  have "dev_tree_root (ctx_roots ctx) = None \<or> 0 < me_header (ctx_errors ctx) \<longrightarrow> exit_status ses = EXIT_METADATA_FATAL"
    unfolding iff using open_damage_counted [OF s assms(4,5)] by blast
  with s run iff show ?thesis by (intro exI conjI)
qed

theorem program_metadata_fatal_witness:
  "\<exists>ses. main_program array_world (''d'' # array_args) = Some (Ret (Inr ses)) \<and> exit_status ses = EXIT_METADATA_FATAL"
proof -
  obtain ses where ses: "main_program array_world (''d'' # array_args) = Some (Ret (Inr ses))" "exit_status ses \<noteq> EXIT_RUNTIME_ERROR"
    using array_world_run by blast
  let ?opts = "(default_options demo_f64)\<lparr>dry_run := False, freeze_mount := Some ''/mnt''\<rparr>"
  have parse: "parse_args (w_f64 array_world) array_args (default_options (w_f64 array_world)) = Some ?opts"
    by (simp add: array_args_def default_options_def array_world_def demo_world_def)
  have base: "options.base_offset ?opts = 0" by (simp add: default_options_def)
  obtain ctx where ctx: "open_fs demo_live_env [''d'' \<mapsto> demo_open_disk] ''d'' 0 = Some (Ret (Inr ctx))"
      "dev_tree_root (ctx_roots ctx) = None" "ctx_superblock ctx = demo_open_superblock"
    using demo_open_fs by blast
  have "open_fs demo_live_env [''d'' \<mapsto> demo_open_disk, ''p'' \<mapsto> demo_open_disk] ''d'' 0 =
      open_fs demo_live_env [''d'' \<mapsto> demo_open_disk] ''d'' 0"
    by (simp add: open_fs_def file_open_def)
  then have op: "open_fs (w_env array_world) (w_machine array_world) ''d'' (options.base_offset ?opts) = Some (Ret (Inr ctx))"
    unfolding base using ctx(1) by (simp add: array_world_def demo_world_def)
  have "HEADER_SIZE \<le> sb_node_size (ctx_superblock ctx)" by (simp add: ctx(3) demo_open_superblock_fields HEADER_SIZE_def)
  from program_metadata_fatal [OF ses(1) parse ses(2) op this] ctx(2) ses(1) show ?thesis by auto
qed

end
