(* ===== verification/Spec2Isabelle.thy ===== *)
theory Spec2Isabelle
  imports Main_Driver Scrub_Open Extent_Lookup Scrub_Inline Craft_Claims Whole_Run Program_Fatal
begin

text \<open>
  RotShield's \<open>scrub-rs\<close> (\<open>src/scrub-rs/src\<close>) verifies the data of one disk of an unRAID-style array
  against the checksums of the btrfs filesystem on it, and rebuilds sectors that do not verify from the other
  disks and the parities P and Q.

  A run goes through these parts: the driver parses its options, finds the slot of the disk and checks by a
  parity canary that the array layout is right; the filesystem is opened and scrubbed in physical order; every
  mismatch becomes an event with a verifier and a re-confirmation request; the driver turns events into
  candidates and sends them to a pipeline of an accumulator and a writer; the writer freezes the mount, re-reads and
  re-confirms each candidate, lets the recovery engine rebuild the block, writes it and reads it back; statistics are
  reconciled and give the exit code.

  Foundations
  \<^item> \<^verbatim>\<open>Prelude\<close>: results of code that may panic (\<open>run\<close>, with \<open>run_bind\<close>), I/O error kinds, bytes, wrapping 64-bit
    arithmetic, the collection \<open>run_simps\<close>; \<^verbatim>\<open>Text_Util\<close>: number and text parsing.
  Recovery
  \<^item> \<^verbatim>\<open>Gf\<close> (\<open>recovery/gf.rs\<close>): table builders and operations of GF(2^8); the tables implement a field
    (locale \<open>parity_field\<close>, interpreted on them).
  \<^item> \<^verbatim>\<open>Recovery_Engine\<close> (\<open>recovery/engine.rs\<close>, \<open>recovery/model.rs\<close>): the P, Q and two-disk stages of \<open>recover_block\<close>; only
    verified blocks are returned, and the original block is returned when the parities allow it.
  \<^item> \<^verbatim>\<open>Batch_Recover\<close> and \<^verbatim>\<open>Pipeline\<close> (\<open>batch_recover.rs\<close>): accumulator, writer, flush and the stages of one candidate over
    \<open>writer\<close> states; what is written and when, thawing, reconciliation, and that the pipeline returns
    (locale \<open>candidate_handler\<close>: what the writer needs of the handling of one candidate).
  Array
  \<^item> \<^verbatim>\<open>Array_Config\<close> (\<open>array/config.rs\<close>): the stat file parser and the layout it yields.
  \<^item> \<^verbatim>\<open>Array_Io\<close> (\<open>array/stripe.rs\<close>, \<open>array/parity.rs\<close>, \<open>canary.rs\<close>): devices that may fail, stripe reads, writes, syndromes and
    the canary (locale \<open>block_store\<close>: what a client may expect of reads after writes).
  \<^item> \<^verbatim>\<open>Freeze\<close> (\<open>freeze.rs\<close>): the controllers over the kernel's freeze state, with the last-resort handlers, as a state machine
    whose reachable states keep the flag and the kernel in agreement.
  Filesystem
  \<^item> \<^verbatim>\<open>Fs_Status\<close> (\<open>fs.rs\<close>, \<open>status.rs\<close>): contract types, counters, status page, socket policy, accept loop.
  \<^item> \<^verbatim>\<open>Btrfs_Format\<close> (\<open>btrfs/util.rs\<close>, \<open>key.rs\<close>, \<open>node.rs\<close>, \<open>root.rs\<close>, \<open>superblock.rs\<close>, \<open>csum_strategy.rs\<close>): decoders with the panics
    of their slices, keys as a linear order, header checks, superblock copies.
  \<^item> \<^verbatim>\<open>Btrfs_Chunk\<close> (\<open>btrfs/chunk.rs\<close>): chunk records and the sorted address map with its binary search; a locale of
    address maps is interpreted on it.
  \<^item> \<^verbatim>\<open>Btrfs_Reader\<close> (\<open>btrfs/reader.rs\<close>): node reads over mirror copies. \<^verbatim>\<open>Btrfs_Tree\<close> (\<open>btrfs/tree.rs\<close>): the work-queue walk, refined by
    a traversal of the finite tree \<open>btree\<close> the device holds (\<open>stored\<close>), and pruning by key range.
  \<^item> \<^verbatim>\<open>Btrfs_Csum\<close> (\<open>btrfs/dev_extent.rs\<close>, \<open>btrfs/csum.rs\<close>): device extents and the checksum stream, compared with the checksums of
    the whole tree (\<open>tree_csums\<close>).
  \<^item> \<^verbatim>\<open>Btrfs_Open\<close> (\<open>btrfs/open.rs\<close>, \<open>btrfs/extent.rs\<close>): opening, live roots, live lookups. \<^verbatim>\<open>Live_Lookup\<close>: the checksum
    descent finds what a scan of the tree finds. \<^verbatim>\<open>Extent_Lookup\<close>: the extent descent does so only when its leaf holds an extent item.
  \<^item> \<^verbatim>\<open>Scrub_Isolate\<close> and \<^verbatim>\<open>Btrfs_Scrub\<close> (\<open>btrfs/scrub.rs\<close>): isolation of unreadable sectors under a budget; runs, verification, the
    pipelined scrub with a reader thread that may get no handle or die (\<open>reader_fate\<close>) and the inline fallback.
    \<^verbatim>\<open>Scrub_Props\<close>: runs and balanced statistics; \<^verbatim>\<open>Scrub_Verdicts\<close>: one run; \<^verbatim>\<open>Scrub_Pipeline\<close>: the pipeline equals
    one run after the other (\<open>reference_scrub\<close>), and the scrub returns; \<^verbatim>\<open>Scrub_Complete\<close>: a whole device;
    \<^verbatim>\<open>Scrub_Inline\<close>: what the fallback verifies, whose runs are never emptied.
  \<^item> \<^verbatim>\<open>Scrub_Driver\<close> (\<open>btrfs/scrub_driver.rs\<close>): the filesystem contract's implementation and the reconfirmer with its root cache;
    \<^verbatim>\<open>Scrub_Open\<close>: what opening establishes.
  Driver
  \<^item> \<^verbatim>\<open>Main_Driver\<close> (\<open>main.rs\<close>): options, slot resolution, canary gate, events to candidates, the end of a run and its exit code.
  \<^item> \<^verbatim>\<open>Array_View\<close>: the array byte by byte. \<^verbatim>\<open>Repair_Run\<close>: no repair damages a right byte, and a repair run restores every
    reported sector. \<^verbatim>\<open>Whole_Run\<close>: scrub and repair of one disk end to end; the array device the scrub reads and the
    member disk the repair writes are two disks of the model, related at the sectors concerned by a hypothesis.
  \<^item> \<^verbatim>\<open>Program\<close> (\<open>main.rs\<close>, \<open>describe\<close> of \<open>btrfs/scrub_driver.rs\<close>): the program from its command line on, in a \<open>world\<close> of what surrounds
    it: help, array dump, opening, the btrfs side as the driver's filesystem, the summaries and advisories; what it may write, its
    exit codes and its page-cache advisory (which rests on \<^verbatim>\<open>Live_Flag\<close>); \<^verbatim>\<open>Program_Fatal\<close>: when it ends with the fatal-metadata code.
    The scrub runs after the canary and before the candidates
    are judged, so its outcome enters the driver as a value, and the scrub's own live counters are kept apart from the pipeline's; a
    re-confirmation that panics counts as unverifiable.
  Corruption tool (\<open>bin/craft_corrupt.rs\<close>), which damages one sector under five scenarios for the recovery tests
  \<^item> \<^verbatim>\<open>Craft_Corrupt\<close>: options, sector search, the corruption and the restoration over \<open>disks\<close> and a \<open>file_store\<close> of backups.
    \<^verbatim>\<open>Craft_Props\<close>: the blocks a corruption leaves; \<^verbatim>\<open>Engine_Partner\<close>: the engine blames exactly the damaged partner;
    \<^verbatim>\<open>Craft_Outcome\<close>: the announced outcomes; \<^verbatim>\<open>Craft_Restore\<close>: what a restoration writes and when it undoes the
    corruption; \<^verbatim>\<open>Craft_Claims\<close>: the properties, with the scan for the partner that can overwrite a healthy disk.

  Conventions. The release profile is modelled: \<open>debug_assert\<close> is off and integer arithmetic wraps (\<open>add64\<close>, \<open>sub64\<close>, \<open>mul64\<close>)
  where a value read from disk takes part; counters of events are unbounded naturals. An operation that may panic returns \<open>run\<close>; one that
  may also not return is a \<open>run option\<close>, bound with \<open>walk_bind\<close>, and its theorems state that it returns. A descriptor is the \<open>disk\<close> it
  was opened on (contents, and faults for every kind of access); one call sees one state of the device. Hash functions, the environment
  variables, ioctl results, clocks and the file system's name space are parameters.

  Bounds. Tree walks return because a child's level is below its parent's and levels are bytes; descents for live lookups take the
  source's sixteen iterations, enough for the eight levels of btrfs; isolation ends because pieces shrink, and its failing reads are
  bounded by the budget; the drain of the pipeline ends because every flush that
  defers candidates has handled at least one.

  Not modelled: log lines, notes on stderr and the help text (what the program prints on stdout otherwise is modelled as lists of lines,
  and the advisories by their kind and count); thread creation, apart from its failures; read-ahead hints and, in
  the corruption tool, dropping the page cache, which have no result; the tests themselves, the plugin's shell, PHP and \<open>nmdctl\<close>
  scripts and the build. A live filesystem that changes in the middle of one tree walk is outside the model; changes between two re-confirmations are inside it.
\<close>

text \<open>Metadata damage is never reported as a clean disk: when opening met a node whose every copy failed its header
  check, or could not resolve the dev tree and so has nothing to scrub, or when a checksum node was found
  damaged during the run, a completed run of the driver ends with the exit code for fatal metadata
  damage, whatever the scrub and the recovery did otherwise.\<close>

lemma metadata_damage_is_fatal:
  assumes "open_fs E w dev base = Some (Ret (Inr ctx))" "HEADER_SIZE \<le> sb_node_size (ctx_superblock ctx)"
    and "btrfs_open E w dev base = Some (Ret (Inr s))"
    and "btrfs_run E budget fate raw s = Some (Ret (s', evs, Inr stats))"
    and "dev_tree_root (ctx_roots ctx) = None \<or> 0 < me_header (ctx_errors ctx) \<or> reported_header (bs_csum_provider s') \<noteq> {}"
  shows "exit_code had_writer stats bs = EXIT_METADATA_FATAL"
proof -
  have sb: "bs_superblock s = ctx_superblock ctx"
    by (rule btrfs_open_cases [OF assms(3)]) (use assms(1) in simp)
  have ok: "reader_ok (pv_reader (bs_csum_provider s)) (bs_strategy s)" "provider_inv (bs_csum_provider s)"
    using opened_scrub_props [OF assms(3)] assms(2) sb by simp_all
  note errs = run_header_errors [OF assms(4) ok]
  have "0 < metadata_header_errors stats"
    using assms(5) open_damage_counted [OF assms(3,1,2)] errs by (auto simp: card_gt_0_iff)
  then show ?thesis by (simp add: exit_code_def)
qed

lemma metadata_damage_is_fatal_witness:
  "\<exists>s s' evs stats. btrfs_open demo_live_env [''d'' \<mapsto> demo_open_disk] ''d'' 0 = Some (Ret (Inr s)) \<and>
    btrfs_run demo_live_env 64 healthy True s = Some (Ret (s', evs, Inr stats)) \<and>
    exit_code True stats default_batch_stats = EXIT_METADATA_FATAL"
proof -
  obtain ctx where ctx: "open_fs demo_live_env [''d'' \<mapsto> demo_open_disk] ''d'' 0 = Some (Ret (Inr ctx))"
      "dev_tree_root (ctx_roots ctx) = None" "ctx_superblock ctx = demo_open_superblock"
    using demo_open_fs by blast
  obtain s where s: "btrfs_open demo_live_env [''d'' \<mapsto> demo_open_disk] ''d'' 0 = Some (Ret (Inr s))" "bs_dev_extents s = []"
    using demo_btrfs_open by blast
  have "HEADER_SIZE \<le> sb_node_size (ctx_superblock ctx)" by (simp add: ctx(3) demo_open_superblock_fields HEADER_SIZE_def)
  moreover have "\<exists>s' evs stats. btrfs_run demo_live_env 64 healthy True s = Some (Ret (s', evs, Inr stats))"
    by (simp add: btrfs_run_def s(2) scrub_dev_tree_def dup_handle_def healthy_def reopen_def scrub_context_def demo_live_env_def Let_def)
  ultimately show ?thesis
    using metadata_damage_is_fatal [OF ctx(1) _ s(1)] ctx(2) s(1) by metis
qed

end
